(* ===== verification/Prelude.thy ===== *)
theory Prelude
  imports Main "HOL-Library.Word"
begin

text \<open>
  Generic material shared by every component: the machine integers of the
  program (\<open>uint8_t\<close> .. \<open>uint64_t\<close> as words), a flat byte memory with
  little-endian accesses, and the named collections of rules the component
  proofs use.

  A memory is a total function from addresses (natural numbers) to bytes.  A
  component that owns a buffer uses one memory for that buffer and offsets
  from its start as addresses, so that a write at an offset the C code computes
  is the same write here; nothing is bounds checked, as in C.
\<close>

unbundle bit_operations_syntax

type_synonym u8 = "8 word"
type_synonym u16 = "16 word"
type_synonym u32 = "32 word"
type_synonym u64 = "64 word"
type_synonym mem = "nat \<Rightarrow> u8"
type_synonym cstr = "u8 list"

named_theorems mem_simps "reads after writes on the byte memory"
named_theorems chain_simps "head/tail linked lists"
named_theorems layout_simps "sizes and offsets of on-disk structures"

subsection \<open>Byte memory\<close>

primrec put_bytes :: "nat \<Rightarrow> u8 list \<Rightarrow> mem \<Rightarrow> mem" where
  "put_bytes a [] m = m"
| "put_bytes a (b # bs) m = put_bytes (Suc a) bs (m(a := b))"

definition get_bytes :: "nat \<Rightarrow> nat \<Rightarrow> mem \<Rightarrow> u8 list" where
  "get_bytes a n m = map m [a..<a + n]"

lemma put_bytes_apply [mem_simps]:
  "put_bytes a bs m x = (if a \<le> x \<and> x < a + length bs then bs ! (x - a) else m x)"
proof (induction bs arbitrary: a m)
  case Nil
  then show ?case by auto
next
  case (Cons b bs)
  show ?case
  proof (cases "x = a")
    case True
    then show ?thesis using Cons by simp
  next
    case False
    then have "(b # bs) ! (x - a) = bs ! (x - Suc a)" if "a \<le> x"
      using that by (simp add: nth_Cons split: nat.split) (metis Suc_diff_le diff_Suc_Suc
          diff_is_0_eq le_antisym le_neq_implies_less nat.inject Suc_leI)
    then show ?thesis using False Cons by auto
  qed
qed

lemma get_put_bytes [mem_simps]: "get_bytes a (length bs) (put_bytes a bs m) = bs"
  by (rule nth_equalityI) (auto simp: get_bytes_def put_bytes_apply)

lemma get_put_bytes_other [mem_simps]:
  "a + n \<le> b \<or> b + length bs \<le> a \<Longrightarrow> get_bytes a n (put_bytes b bs m) = get_bytes a n m"
  by (auto simp: get_bytes_def put_bytes_apply)

lemma length_get_bytes [simp]: "length (get_bytes a n m) = n"
  by (simp add: get_bytes_def)

lemma get_bytes_Suc: "get_bytes a (Suc n) m = m a # get_bytes (Suc a) n m"
  by (simp add: get_bytes_def upt_conv_Cons del: upt_Suc)

lemma drop_get_bytes: "drop k (get_bytes a n m) = get_bytes (a + k) (n - k) m"
  by (rule nth_equalityI) (simp_all add: get_bytes_def add.assoc)

lemma put_bytes_append: "put_bytes a (xs @ ys) m = put_bytes (a + length xs) ys (put_bytes a xs m)"
  by (induction xs arbitrary: a m) auto

subsection \<open>Little-endian integers\<close>

definition le16 :: "u16 \<Rightarrow> u8 list" where
  "le16 w = [ucast w, ucast (drop_bit 8 w)]"

definition le32 :: "u32 \<Rightarrow> u8 list" where
  "le32 w = [ucast w, ucast (drop_bit 8 w), ucast (drop_bit 16 w), ucast (drop_bit 24 w)]"

definition le64 :: "u64 \<Rightarrow> u8 list" where
  "le64 w = le32 (ucast w) @ le32 (ucast (drop_bit 32 w))"

definition of_le16 :: "u8 list \<Rightarrow> u16" where
  "of_le16 bs = ucast (bs ! 0) OR push_bit 8 (ucast (bs ! 1))"

definition of_le32 :: "u8 list \<Rightarrow> u32" where
  "of_le32 bs = ucast (bs ! 0) OR push_bit 8 (ucast (bs ! 1))
     OR push_bit 16 (ucast (bs ! 2)) OR push_bit 24 (ucast (bs ! 3))"

definition of_le64 :: "u8 list \<Rightarrow> u64" where
  "of_le64 bs = ucast (of_le32 bs) OR push_bit 32 (ucast (of_le32 (drop 4 bs)))"

lemma length_le [simp]: "length (le16 a) = 2" "length (le32 b) = 4" "length (le64 c) = 8"
  by (simp_all add: le16_def le32_def le64_def)

lemma of_le16_le16 [simp]: "of_le16 (le16 w) = w"
  by (rule bit_word_eqI) (auto simp: of_le16_def le16_def bit_simps)

lemma of_le32_le32_append [simp]: "of_le32 (le32 w @ r) = w"
proof (rule bit_word_eqI)
  fix n assume "n < LENGTH(32)"
  then consider "n < 8" | "8 \<le> n" "n < 16" | "16 \<le> n" "n < 24" | "24 \<le> n" "n < 32"
    by force
  then show "bit (of_le32 (le32 w @ r)) n = bit w n"
    by cases (auto simp: of_le32_def le32_def bit_simps)
qed

lemma of_le32_le32 [simp]: "of_le32 (le32 w) = w"
  using of_le32_le32_append [of w "[]"] by simp

lemma of_le64_le64 [simp]: "of_le64 (le64 w) = w"
  by (rule bit_word_eqI) (auto simp: of_le64_def le64_def bit_simps)

definition put16 :: "nat \<Rightarrow> u16 \<Rightarrow> mem \<Rightarrow> mem" where "put16 a w = put_bytes a (le16 w)"
definition put32 :: "nat \<Rightarrow> u32 \<Rightarrow> mem \<Rightarrow> mem" where "put32 a w = put_bytes a (le32 w)"
definition put64 :: "nat \<Rightarrow> u64 \<Rightarrow> mem \<Rightarrow> mem" where "put64 a w = put_bytes a (le64 w)"
definition get16 :: "nat \<Rightarrow> mem \<Rightarrow> u16" where "get16 a m = of_le16 (get_bytes a 2 m)"
definition get32 :: "nat \<Rightarrow> mem \<Rightarrow> u32" where "get32 a m = of_le32 (get_bytes a 4 m)"
definition get64 :: "nat \<Rightarrow> mem \<Rightarrow> u64" where "get64 a m = of_le64 (get_bytes a 8 m)"

lemma get_put_same [mem_simps]:
  "get16 a (put16 a v m) = v" "get32 a (put32 a w m) = w" "get64 a (put64 a x m) = x"
  using get_put_bytes [of a "le16 v" m] get_put_bytes [of a "le32 w" m]
    get_put_bytes [of a "le64 x" m]
  by (simp_all add: get16_def put16_def get32_def put32_def get64_def put64_def)

lemma put_apply_other [mem_simps]:
  "x < a \<or> a + 2 \<le> x \<Longrightarrow> put16 a v m x = m x"
  "x < a \<or> a + 4 \<le> x \<Longrightarrow> put32 a w m x = m x"
  "x < a \<or> a + 8 \<le> x \<Longrightarrow> put64 a z m x = m x"
  by (auto simp: put16_def put32_def put64_def put_bytes_apply)

lemma get_bytes_put_other [mem_simps]:
  "b + n \<le> a \<or> a + 2 \<le> b \<Longrightarrow> get_bytes b n (put16 a v m) = get_bytes b n m"
  "b + n \<le> a \<or> a + 4 \<le> b \<Longrightarrow> get_bytes b n (put32 a w m) = get_bytes b n m"
  "b + n \<le> a \<or> a + 8 \<le> b \<Longrightarrow> get_bytes b n (put64 a z m) = get_bytes b n m"
  by (auto simp: put16_def put32_def put64_def mem_simps)

lemma get_put_other [mem_simps]:
  "b + 2 \<le> a \<or> a + 2 \<le> b \<Longrightarrow> get16 b (put16 a v m) = get16 b m"
  "b + 4 \<le> a \<or> a + 2 \<le> b \<Longrightarrow> get32 b (put16 a v m) = get32 b m"
  "b + 8 \<le> a \<or> a + 2 \<le> b \<Longrightarrow> get64 b (put16 a v m) = get64 b m"
  "b + 2 \<le> a \<or> a + 4 \<le> b \<Longrightarrow> get16 b (put32 a w m) = get16 b m"
  "b + 4 \<le> a \<or> a + 4 \<le> b \<Longrightarrow> get32 b (put32 a w m) = get32 b m"
  "b + 8 \<le> a \<or> a + 4 \<le> b \<Longrightarrow> get64 b (put32 a w m) = get64 b m"
  "b + 2 \<le> a \<or> a + 8 \<le> b \<Longrightarrow> get16 b (put64 a z m) = get16 b m"
  "b + 4 \<le> a \<or> a + 8 \<le> b \<Longrightarrow> get32 b (put64 a z m) = get32 b m"
  "b + 8 \<le> a \<or> a + 8 \<le> b \<Longrightarrow> get64 b (put64 a z m) = get64 b m"
  by (simp_all add: get16_def get32_def get64_def mem_simps)

lemma get_bytes_put_bytes_in:
  "n + k \<le> length bs \<Longrightarrow> get_bytes (a + n) k (put_bytes a bs m) = take k (drop n bs)"
  by (rule nth_equalityI) (auto simp: get_bytes_def put_bytes_apply)

lemma get_bytes_cong: "(\<And>x. a \<le> x \<Longrightarrow> x < a + n \<Longrightarrow> m x = m' x) \<Longrightarrow> get_bytes a n m = get_bytes a n m'"
  by (simp add: get_bytes_def)

lemma get_cong:
  "(\<And>x. a \<le> x \<Longrightarrow> x < a + 2 \<Longrightarrow> m x = m' x) \<Longrightarrow> get16 a m = get16 a m'"
  "(\<And>x. a \<le> x \<Longrightarrow> x < a + 4 \<Longrightarrow> m x = m' x) \<Longrightarrow> get32 a m = get32 a m'"
  "(\<And>x. a \<le> x \<Longrightarrow> x < a + 8 \<Longrightarrow> m x = m' x) \<Longrightarrow> get64 a m = get64 a m'"
  unfolding get16_def get32_def get64_def by (simp_all only: get_bytes_cong [of a _ m m'])

lemma get_put_bytes_in:
  "n + 2 \<le> length bs \<Longrightarrow> get16 (a + n) (put_bytes a bs m) = of_le16 (take 2 (drop n bs))"
  "n + 4 \<le> length bs \<Longrightarrow> get32 (a + n) (put_bytes a bs m) = of_le32 (take 4 (drop n bs))"
  "n + 8 \<le> length bs \<Longrightarrow> get64 (a + n) (put_bytes a bs m) = of_le64 (take 8 (drop n bs))"
  by (simp_all add: get16_def get32_def get64_def get_bytes_put_bytes_in)

lemma get_put_bytes_out [mem_simps]:
  "b + 2 \<le> a \<or> a + length bs \<le> b \<Longrightarrow> get16 b (put_bytes a bs m) = get16 b m"
  "b + 4 \<le> a \<or> a + length bs \<le> b \<Longrightarrow> get32 b (put_bytes a bs m) = get32 b m"
  "b + 8 \<le> a \<or> a + length bs \<le> b \<Longrightarrow> get64 b (put_bytes a bs m) = get64 b m"
  by (simp_all add: get16_def get32_def get64_def get_put_bytes_other)

text \<open>Arrays of 32- and 64-bit words.\<close>

lemma get_put_index [mem_simps]:
  "get32 (a + 4 * i) (put32 (a + 4 * j) w m) = (if i = j then w else get32 (a + 4 * i) m)"
  "get64 (a + 8 * i) (put64 (a + 8 * j) x m) = (if i = j then x else get64 (a + 8 * i) m)"
  by (cases i j rule: linorder_cases; simp add: mem_simps)+

subsection \<open>C strings\<close>

text \<open>A \<open>char*\<close> is the list of bytes from the pointer on; reading past the
  listed bytes gives the terminating NUL.\<close>

definition hdz :: "u8 list \<Rightarrow> u8" where
  "hdz s = (case s of [] \<Rightarrow> 0 | c # _ \<Rightarrow> c)"

definition nul_free :: "cstr \<Rightarrow> bool" where
  "nul_free s \<longleftrightarrow> 0 \<notin> set s"

lemma hdz_simps [simp]: "hdz [] = 0" "hdz (c # s) = c"
  by (simp_all add: hdz_def)

lemma nul_free_simps [simp]: "nul_free []" "nul_free (c # s) \<longleftrightarrow> c \<noteq> 0 \<and> nul_free s"
  by (auto simp: nul_free_def)

subsection \<open>Lists and words\<close>

lemma ucast_add_64_32: "(ucast (a + b :: u64) :: u32) = ucast a + ucast b"
proof transfer
  fix a b :: int
  have "take_bit 32 (take_bit 64 a + take_bit 64 b) = take_bit 32 (take_bit 32 a + take_bit 32 b)"
    using take_bit_add [of 32 "take_bit 64 a" "take_bit 64 b"] by simp
  then show "take_bit LENGTH(32) (take_bit LENGTH(64) (a + b)) =
      take_bit LENGTH(32) (take_bit LENGTH(64) a + take_bit LENGTH(64) b)"
    by (simp add: take_bit_add)
qed

lemma ucast_32_64_32 [simp]: "(ucast (ucast (w :: u32) :: u64) :: u32) = w"
  by (rule bit_word_eqI) (simp add: bit_simps)

lemma ucast_minus_64_32: "(ucast (0 - b :: u64) :: u32) = 0 - ucast b"
  using ucast_add_64_32 [of "0 - b" b] by (simp add: eq_neg_iff_add_eq_0)

lemma unat_ucast_u32_u64 [simp]: "unat (ucast (w :: u32) :: u64) = unat w"
  by (simp add: unsigned_ucast_eq take_bit_nat_eq_self_iff order_less_trans [OF unsigned_less])

lemma find_SomeD: "List.find P xs = Some x \<Longrightarrow> P x \<and> x \<in> set xs"
  by (induction xs) (auto split: if_splits)

lemma fold_append_rev: "fold (\<lambda>x acc. acc @ [f x]) xs ys = ys @ map f xs"
  by (induction xs arbitrary: ys) auto

lemma unat_ucast_u8_u32 [simp]: "unat (ucast (c :: u8) :: u32) = unat c"
  by (simp add: unsigned_ucast_eq take_bit_nat_eq_self_iff order_less_trans [OF unsigned_less])

lemma sint_word_of_nat_small: "n < 2 ^ 31 \<Longrightarrow> sint (word_of_nat n :: u32) = int n"
  by (simp add: signed_of_nat signed_take_bit_int_eq_self)

lemma unat_scast_word_of_nat: "n < 2 ^ 31 \<Longrightarrow> unat (scast (word_of_nat n :: u32) :: u64) = n"
  unfolding scast_eq sint_word_of_nat_small
  by (simp add: unsigned_of_nat take_bit_nat_eq_self)

end
