(* ===== verification/HeapBits.thy ===== *)
theory HeapBits
  imports Prelude
begin

text \<open>
  The bin bitmaps of the allocator \<open>core/memory/__alloc.c\<close>: the search for a
  free run and the two loops that set and clear a run.  \<open>uint32_t bin[8]\<close> is
  only ever accessed through \<open>uint64_t*\<close> or \<open>uint8_t*\<close> and is a list of four
  64-bit words here, whose bytes are read in little-endian order.
\<close>

subsection \<open>Bitmaps\<close>

definition set_bin0 :: "u32 \<Rightarrow> u64 list \<Rightarrow> u64 list" where
  "set_bin0 w b = b[0 := (b ! 0 AND NOT 0xffffffff) OR ucast w]"


definition bin_byte :: "u64 list \<Rightarrow> nat \<Rightarrow> u8" where
  "bin_byte b k = ucast (drop_bit (8 * (k mod 8)) (b ! (k div 8)))"

definition bin_bit :: "u64 list \<Rightarrow> nat \<Rightarrow> bool" where
  "bin_bit b k = bit (b ! (k div 64)) (k mod 64)"

function find_loop :: "u64 list \<Rightarrow> u8 \<Rightarrow> u8 \<Rightarrow> nat \<Rightarrow> nat \<Rightarrow> u8 \<Rightarrow> u8" where
  "find_loop b q v i j c =
     (if \<not> j < 32 then 0
      else let v = (if v = 0 then 1 else v);
               free = (bin_byte b j AND v = 0);
               c = (if free then c + 1 else 0)
           in if free \<and> c = q then of_nat i + 1 + of_nat j * 8 - q
              else if i mod 8 = 7 then find_loop b q (push_bit 1 v) 0 (Suc j) c
              else find_loop b q (push_bit 1 v) (Suc i) j c)"
  by auto
termination
  by (relation "measure (\<lambda>(b, q, v, i, j, c). 8 * (32 - j) + (7 - i mod 8))")
     (auto simp: Let_def mod_Suc)

declare find_loop.simps [simp del]

definition slowest_find_consecutive_bin :: "u64 list \<Rightarrow> u8 \<Rightarrow> u8" where
  "slowest_find_consecutive_bin b q = find_loop b q 1 0 0 0"

text \<open>\<open>set_bin\<close>: \<open>p\<close> is the index of the word written, \<open>i\<close> runs to \<open>e\<close> and
  stops at 255 by the \<open>break\<close>, so it never wraps.\<close>

function set_loop :: "u64 list \<Rightarrow> nat \<Rightarrow> nat \<Rightarrow> nat \<Rightarrow> nat \<Rightarrow> u64 \<Rightarrow> bool \<Rightarrow> u64 list" where
  "set_loop b p s e i v up =
     (if e < i then b
      else let v = (if v = 0 then 1 else v);
               p = (if up then Suc p else p);
               up = (i mod 64 = 63)
           in if i < s then set_loop b p s e (Suc i) (push_bit 1 v) up
              else if i = 255 then b[p := b ! p OR v]
              else set_loop (b[p := b ! p OR v]) p s e (Suc i) (push_bit 1 v) up)"
  by auto
termination
  by (relation "measure (\<lambda>(b, p, s, e, i, v, up). Suc e - i)") auto

declare set_loop.simps [simp del]

definition set_bin :: "u64 list \<Rightarrow> u8 \<Rightarrow> u8 \<Rightarrow> u64 list" where
  "set_bin b s q = set_loop b 0 (unat s) (unat (s + q - 1)) 0 1 False"

text \<open>\<open>unset_bin\<close> has no \<open>break\<close>: when \<open>e\<close> is 255 the counter wraps to 0 and
  \<open>i \<le> e\<close> holds for ever.\<close>

function unset_loop :: "u64 list \<Rightarrow> nat \<Rightarrow> nat \<Rightarrow> nat \<Rightarrow> nat \<Rightarrow> u64 \<Rightarrow> u64 list option" where
  "unset_loop b p s e i v =
     (if e < i then Some b
      else if 255 \<le> i then None
      else let v = (if v = 0 then 1 else v)
           in if i < s then unset_loop b p s e (Suc i) (push_bit 1 v)
              else unset_loop (b[p := b ! p AND NOT v]) (if i mod 64 = 63 then Suc p else p)
                     s e (Suc i) (push_bit 1 v))"
  by auto
termination
  by (relation "measure (\<lambda>(b, p, s, e, i, v). Suc e - i)") auto

declare unset_loop.simps [simp del]

definition unset_bin :: "u64 list \<Rightarrow> u8 \<Rightarrow> u8 \<Rightarrow> u64 list option" where
  "unset_bin b s q = unset_loop b 0 (unat s) (unat (s + q)) 0 1"

text \<open>\<open>printb\<close>: the digits from the top bit down.\<close>

function printb_loop :: "u32 \<Rightarrow> u32 \<Rightarrow> string" where
  "printb_loop v m =
     (let d = (if m AND v \<noteq> 0 then CHR ''1'' else CHR ''0'') in
      if drop_bit 1 m = 0 then [d] else d # printb_loop v (drop_bit 1 m))"
  by auto
termination
proof (relation "measure (unat \<circ> snd)")
  fix v m x assume a: "drop_bit 1 (m :: u32) \<noteq> 0"
  have "unat (drop_bit 1 m) < unat m"
  proof -
    have "unat (drop_bit 1 m) = unat m div 2"
      by (simp add: drop_bit_eq_div unat_div)
    moreover have "unat m \<noteq> 0"
      using a by (metis drop_bit_of_0 unat_eq_zero)
    ultimately show ?thesis by simp
  qed
  then show "((v, drop_bit 1 m), v, m) \<in> measure (unat \<circ> snd)" by simp
qed simp

declare printb_loop.simps [simp del]

definition printb :: "u32 \<Rightarrow> string" where
  "printb v = printb_loop v (push_bit 31 1)"

definition putb :: "u32 \<Rightarrow> string" where
  "putb v = ''0b'' @ printb v @ [CHR 0x0A]"

definition printbin :: "u64 list \<Rightarrow> string" where
  "printbin b = ''----Bitmap----'' @ [CHR 0x0A] @
     concat (map (\<lambda>w. putb (ucast w) @ putb (ucast (drop_bit 32 w))) b)"

subsection \<open>What the bitmap loops do\<close>

lemma push1_next: "(if push_bit 1 (push_bit (i mod 64) (1 :: u64)) = 0 then 1
    else push_bit 1 (push_bit (i mod 64) (1 :: u64))) = push_bit (Suc i mod 64) 1"
proof (cases "i mod 64 = 63")
  case True
  then have "Suc i mod 64 = 0" by (simp add: mod_Suc)
  then show ?thesis using True by simp
next
  case False
  then have m: "Suc i mod 64 = Suc (i mod 64)" and l: "Suc (i mod 64) < 64"
    by (auto simp: mod_Suc)
  have "bit (push_bit (Suc (i mod 64)) (1 :: u64)) (Suc (i mod 64))"
    using l by (simp add: bit_simps)
  then have nz: "push_bit (Suc (i mod 64)) (1 :: u64) \<noteq> 0"
    by (metis bit_0_eq bot_fun_def bot_bool_def)
  have "push_bit 1 (push_bit (i mod 64) 1) = push_bit (Suc (i mod 64)) (1 :: u64)"
    unfolding push_bit_push_bit by simp
  then show ?thesis
    using nz unfolding m by (simp only: if_False)
qed

lemma bin_bit_update:
  "length b = 4 \<Longrightarrow> i < 256 \<Longrightarrow>
   bin_bit (b[i div 64 := w]) k = (if k div 64 = i div 64 then bit w (k mod 64) else bin_bit b k)"
  by (simp add: bin_bit_def nth_list_update less_mult_imp_div_less)

lemma same_bin: "k div 64 = i div 64 \<Longrightarrow> k mod 64 = i mod 64 \<longleftrightarrow> k = (i :: nat)"
  by (metis div_mult_mod_eq)

lemma bin_bit_or:
  "length b = 4 \<Longrightarrow> i < 256 \<Longrightarrow>
   bin_bit (b[i div 64 := b ! (i div 64) OR push_bit (i mod 64) 1]) k = (bin_bit b k \<or> k = i)"
  by (subst bin_bit_update) (use same_bin [of k i] in \<open>auto simp: bit_simps bin_bit_def simp del: push_bit_of_1\<close>)

lemma bin_bit_and_not:
  "length b = 4 \<Longrightarrow> i < 256 \<Longrightarrow>
   bin_bit (b[i div 64 := b ! (i div 64) AND NOT (push_bit (i mod 64) 1)]) k = (bin_bit b k \<and> k \<noteq> i)"
  by (subst bin_bit_update) (use same_bin [of k i] in \<open>auto simp: bit_simps bin_bit_def simp del: push_bit_of_1\<close>)

lemma set_loop_bits:
  "length b = 4 \<Longrightarrow> e < 256 \<Longrightarrow> s < 256 \<Longrightarrow> k < 256 \<Longrightarrow>
   (if v = 0 then 1 else v) = push_bit (i mod 64) 1 \<Longrightarrow> (if up then Suc p else p) = i div 64 \<Longrightarrow>
   length (set_loop b p s e i v up) = 4 \<and>
   bin_bit (set_loop b p s e i v up) k = (bin_bit b k \<or> i \<le> k \<and> s \<le> k \<and> k \<le> e)"
proof (induction b p s e i v up rule: set_loop.induct)
  case (1 b p s e i v up)
  define b' where "b' = b[i div 64 := b ! (i div 64) OR push_bit (i mod 64) 1]"
  have up': "(if i mod 64 = 63 then Suc (i div 64) else i div 64) = Suc i div 64"
    by (auto simp: div_Suc mod_Suc)
  show ?case
  proof (cases "e < i")
    case True
    then show ?thesis using "1.prems" by (subst (1 2) set_loop.simps) auto
  next
    case False
    note ih1 = "1.IH"(1) [OF False refl refl refl, unfolded "1.prems"(5,6)]
      and ih2 = "1.IH"(2) [OF False refl refl refl, unfolded "1.prems"(5,6)]
    have i256: "i < 256" using False "1.prems" by simp
    have len: "length b' = 4" using "1.prems" by (simp add: b'_def)
    have bits: "bin_bit b' k = (bin_bit b k \<or> k = i)"
      unfolding b'_def by (rule bin_bit_or) (use "1.prems" i256 in auto)
    consider "i < s" | "\<not> i < s" "i = 255" | "\<not> i < s" "i \<noteq> 255" by auto
    then show ?thesis
    proof cases
      case 1
      then have "set_loop b p s e i v up = set_loop b (i div 64) s e (Suc i)
          (push_bit 1 (push_bit (i mod 64) 1)) (i mod 64 = 63)"
        using False by (subst set_loop.simps) (simp only: Let_def "1.prems"(5,6) if_True if_False)
      then show ?thesis
        using ih1 [OF 1 "1.prems"(1-4) push1_next up'] False 1 by auto
    next
      case 2
      then have "set_loop b p s e i v up = b'"
        using False by (subst set_loop.simps) (simp add: Let_def "1.prems"(5,6) b'_def)
      then show ?thesis
        using len bits 2 False "1.prems"(2,3) by auto
    next
      case 3
      then have "set_loop b p s e i v up = set_loop b' (i div 64) s e (Suc i)
          (push_bit 1 (push_bit (i mod 64) 1)) (i mod 64 = 63)"
        using False by (subst set_loop.simps) (simp only: Let_def "1.prems"(5,6) b'_def if_True if_False)
      then show ?thesis
        using ih2 [OF 3 len [unfolded b'_def] "1.prems"(2-4) push1_next up'] False 3 bits
        unfolding b'_def [symmetric] by auto
    qed
  qed
qed

lemma length_set_bin [simp]: "length b = 4 \<Longrightarrow> length (set_bin b s q) = 4"
  unfolding set_bin_def
  by (rule set_loop_bits [THEN conjunct1, of b _ _ 0]) (use unsigned_less [of s] unsigned_less [of "s + q - 1"] in auto)

lemma set_bin_bits:
  assumes "length b = 4" "1 \<le> unat q" "unat s + unat q \<le> 256" "k < 256"
  shows "bin_bit (set_bin b s q) k = (bin_bit b k \<or> unat s \<le> k \<and> k < unat s + unat q)"
proof -
  have u: "unat (s + q - 1) = unat s + unat q - 1"
    using assms(2,3) by (simp add: unat_sub_if' unat_plus_if' word_le_nat_alt)
  show ?thesis
    unfolding set_bin_def u
    by (subst set_loop_bits [THEN conjunct2]) (use assms in auto)
qed

subsection \<open>Searching for a free run\<close>

definition run_free :: "u64 list \<Rightarrow> nat \<Rightarrow> nat \<Rightarrow> bool" where
  "run_free b s q \<longleftrightarrow> (\<forall>k \<in> {s..<s + q}. \<not> bin_bit b k)"

text \<open>The reference: the first start of \<open>q\<close> clear bins, 0 when there is none.\<close>

definition first_run :: "u64 list \<Rightarrow> nat \<Rightarrow> nat" where
  "first_run b q =
     (case List.find (\<lambda>s. run_free b s q) [0..<257 - q] of None \<Rightarrow> 0 | Some s \<Rightarrow> s)"

lemma bin_byte_bit:
  assumes "i < 8"
  shows "bin_byte b j AND push_bit i 1 = 0 \<longleftrightarrow> \<not> bin_bit b (8 * j + i)"
proof -
  have "(8 * j + i) div 64 = j div 8" "(8 * j + i) mod 64 = 8 * (j mod 8) + i"
    using assms div_mult2_eq [of "8 * j + i" 8 8] mod_mult2_eq [of "8 * j + i" 8 8] by simp_all
  then have "bin_bit b (8 * j + i) = bit (bin_byte b j) i"
    using assms by (simp add: bin_bit_def bin_byte_def bit_simps add.commute)
  moreover have "bin_byte b j AND push_bit i 1 = 0 \<longleftrightarrow> \<not> bit (bin_byte b j) i"
    by (simp add: and_exp_eq_0_iff_not_bit)
  ultimately show ?thesis by simp
qed

lemma push1_next8:
  assumes "i < 8"
  shows "(if push_bit 1 (push_bit i (1 :: u8)) = 0 then 1 else push_bit 1 (push_bit i 1)) =
    push_bit (if i = 7 then 0 else Suc i) (1 :: u8)"
proof -
  have "i \<in> {0, 1, 2, 3, 4, 5, 6, 7}" using assms by auto
  then show ?thesis by auto
qed

definition is_first_run :: "u64 list \<Rightarrow> u8 \<Rightarrow> u8 \<Rightarrow> bool" where
  "is_first_run b q r \<longleftrightarrow>
     (\<exists>s. s + unat q \<le> 256 \<and> run_free b s (unat q) \<and> (\<forall>s' < s. \<not> run_free b s' (unat q)) \<and> r = of_nat s)
     \<or> (\<forall>s. s + unat q \<le> 256 \<longrightarrow> \<not> run_free b s (unat q)) \<and> r = 0"

lemma find_loop_correct:
  assumes "i < 8" "8 * j + i \<le> 256" "(if v = 0 then 1 else v) = push_bit i 1"
    and "unat c < unat q" "unat c \<le> 8 * j + i" "run_free b (8 * j + i - unat c) (unat c)"
    and "8 * j + i = unat c \<or> bin_bit b (8 * j + i - unat c - 1)"
    and "\<And>s. s + unat q \<le> 8 * j + i \<Longrightarrow> \<not> run_free b s (unat q)"
  shows "is_first_run b q (find_loop b q v i j c)"
  using assms
proof (induction b q v i j c rule: find_loop.induct)
  case (1 b q v i j c)
  define n where "n = 8 * j + i"
  define j' i' where "j' = (if i = 7 then Suc j else j)" and "i' = (if i = 7 then 0 else Suc i)"
  have n': "8 * j' + i' = Suc n" and i': "i' < 8"
    using "1.prems"(1) by (auto simp: n_def j'_def i'_def)
  have imod: "i mod 8 = 7 \<longleftrightarrow> i = 7" using "1.prems"(1) by simp
  define W where "W = push_bit i (1 :: u8)"
  note free = bin_byte_bit [OF "1.prems"(1), of b j, folded n_def W_def]
    and v = "1.prems"(3) [folded W_def]
  show ?case
  proof (cases "j < 32")
    case False
    then have "n = 256" using "1.prems"(1,2) by (simp add: n_def)
    then show ?thesis
      using False "1.prems"(8) by (subst find_loop.simps) (auto simp: is_first_run_def n_def)
  next
    case True
    define c' where "c' = (if bin_byte b j AND W = 0 then c + 1 else 0)"
    have uc: "unat (c + 1) = unat c + 1"
      using "1.prems"(4) unsigned_less [of q, where ?'a = nat] by (simp add: unat_plus_if')
    have step: "find_loop b q v i j c =
        (if bin_byte b j AND W = 0 \<and> c' = q then of_nat i + 1 + of_nat j * 8 - q
         else find_loop b q (push_bit 1 W) i' j' c')"
      using True imod
      by (subst find_loop.simps) (simp add: Let_def v c'_def i'_def j'_def)
    show ?thesis
    proof (cases "bin_byte b j AND W = 0 \<and> c' = q")
      case True
      then have q: "unat q = unat c + 1" "c + 1 = q" and nb: "\<not> bin_bit b n"
        using uc free by (auto simp: c'_def)
      have "(of_nat i + 1 + of_nat j * 8 - q :: u8) = of_nat (n + 1 - unat q)"
        using q(1) "1.prems"(5) by (simp add: of_nat_diff n_def algebra_simps flip: q(2))
      moreover have "run_free b (n + 1 - unat q) (unat q)"
      proof -
        have "k \<in> {n - unat c..<n} \<or> k = n" if "k \<in> {n + 1 - unat q..<n + 1 - unat q + unat q}" for k
          using that q "1.prems"(5) by (auto simp: n_def)
        then show ?thesis
          using "1.prems"(5,6) nb unfolding run_free_def n_def by fastforce
      qed
      moreover have "\<not> run_free b s' (unat q)" if "s' < n + 1 - unat q" for s'
        using "1.prems"(8) [of s'] that by (auto simp: n_def)
      moreover have "n + 1 - unat q + unat q \<le> 256"
        using q "1.prems"(1,2,5) \<open>j < 32\<close> by (simp add: n_def)
      ultimately show ?thesis
        unfolding step is_first_run_def using True by auto
    next
      case no: False
      have v': "(if push_bit 1 W = 0 then 1 else push_bit 1 W) = push_bit i' 1"
        using push1_next8 [OF "1.prems"(1)] by (simp only: W_def i'_def)
      have cW: "unat c' = (if bin_bit b n then 0 else unat c + 1)"
        using uc free by (auto simp: c'_def)
      have c'q: "unat c' < unat q"
        using no uc "1.prems"(4) cW free by (cases "c' = q") (auto simp: word_unat_eq_iff)
      have no_run: "\<not> run_free b s (unat q)" if "s + unat q \<le> 8 * j' + i'" for s
      proof (cases "s + unat q \<le> n")
        case True
        then show ?thesis using "1.prems"(8) by (simp add: n_def)
      next
        case False
        then have s: "s + unat q = Suc n" using that n' by simp
        show ?thesis
        proof (cases "bin_bit b n")
          case True
          then show ?thesis using s "1.prems"(4) by (auto simp: run_free_def)
        next
          case False
          then have "Suc (unat c) < unat q" using c'q cW by simp
          then have "n - unat c - 1 \<in> {s..<s + unat q}" "n \<noteq> unat c"
            using s by auto
          then show ?thesis using "1.prems"(7) by (auto simp: run_free_def n_def)
        qed
      qed
      have inv: "run_free b (8 * j' + i' - unat c') (unat c')" "unat c' \<le> 8 * j' + i'"
        "8 * j' + i' = unat c' \<or> bin_bit b (8 * j' + i' - unat c' - 1)"
        unfolding n' using "1.prems"(5-7) cW by (auto simp: run_free_def n_def less_Suc_eq)
      have le: "8 * j' + i' \<le> 256"
        using n' \<open>j < 32\<close> "1.prems"(1) by (simp add: n_def)
      have "is_first_run b q (find_loop b q (push_bit 1 W) i' j' c')"
      proof (cases "i = 7")
        case True
        then show ?thesis
          using "1.IH"(1) [of W "bin_byte b j AND W = 0" c'] no
          i' le v' c'q inv no_run \<open>j < 32\<close> v imod by (simp add: c'_def i'_def j'_def)
      next
        case False
        then show ?thesis
          using "1.IH"(2) [of W "bin_byte b j AND W = 0" c'] no
          i' le v' c'q inv no_run \<open>j < 32\<close> v imod by (simp add: c'_def i'_def j'_def)
      qed
      then show ?thesis
        by (simp only: step no if_False)
    qed
  qed
qed

lemma find_is_first_run: "0 < unat q \<Longrightarrow> is_first_run b q (slowest_find_consecutive_bin b q)"
  unfolding slowest_find_consecutive_bin_def
  by (rule find_loop_correct) (auto simp: run_free_def)

text \<open>C3: the allocator's bitmap scan returns the first start of \<open>q\<close>
  consecutive free bins of the 256, and 0 when there is none: the byte-by-byte
  loop with its rotating mask agrees with the search over bin numbers.\<close>

theorem find_consecutive_bin_correct:
  assumes "0 < unat q"
  shows "slowest_find_consecutive_bin b q = of_nat (first_run b (unat q))"
proof -
  let ?P = "\<lambda>s. run_free b s (unat q)"
  let ?xs = "[0..<257 - unat q]"
  have q: "unat q \<le> 255"
    using unsigned_less [of q, where ?'a = nat] by simp
  show ?thesis
  proof (cases "List.find ?P ?xs")
    case None
    then have "\<forall>s. s + unat q \<le> 256 \<longrightarrow> \<not> ?P s"
      by (auto simp: find_None_iff)
    then show ?thesis
      using find_is_first_run [OF assms, of b] None by (auto simp: is_first_run_def first_run_def)
  next
    case (Some s)
    then obtain i where i: "i < length ?xs" "?P (?xs ! i)" "s = ?xs ! i" "\<forall>j < i. \<not> ?P (?xs ! j)"
      by (auto simp: find_Some_iff)
    then have s: "s + unat q \<le> 256" "?P s" "\<forall>s' < s. \<not> ?P s'"
      using q by auto
    have "r = of_nat s" if r: "is_first_run b q r" for r
    proof -
      obtain t where t: "?P t" "\<forall>s' < t. \<not> ?P s'" "r = of_nat t"
        using r s(1,2) unfolding is_first_run_def by blast
      then have "t = s" using s(2,3) by (metis linorder_neqE_nat)
      then show ?thesis using t by simp
    qed
    then show ?thesis
      using find_is_first_run [OF assms, of b] Some by (simp add: first_run_def)
  qed
qed

lemma find_consecutive_bin_correct_witness:
  "slowest_find_consecutive_bin [0x0f, 0, 0, 0] 3 = of_nat (first_run [0x0f, 0, 0, 0] 3)
   \<and> first_run [0x0f, 0, 0, 0] 3 = 4"
proof
  show "slowest_find_consecutive_bin [0x0f, 0, 0, 0] 3 = of_nat (first_run [0x0f, 0, 0, 0] 3)"
    using find_consecutive_bin_correct [of 3 "[0x0f, 0, 0, 0]"] by simp
  show "first_run [0x0f, 0, 0, 0] 3 = 4"
    by code_simp
qed

subsection \<open>Clearing bins\<close>

lemma unset_loop_bits:
  "length b = 4 \<Longrightarrow> e < 255 \<Longrightarrow> s < 64 \<Longrightarrow> i \<le> Suc e \<Longrightarrow>
   (if v = 0 then 1 else v) = push_bit (i mod 64) 1 \<Longrightarrow> p = i div 64 \<Longrightarrow>
   \<exists>b'. unset_loop b p s e i v = Some b' \<and> length b' = 4 \<and>
     (\<forall>k. bin_bit b' k = (bin_bit b k \<and> \<not> (i \<le> k \<and> s \<le> k \<and> k \<le> e)))"
proof (induction b p s e i v rule: unset_loop.induct)
  case (1 b p s e i v)
  define b' where "b' = b[i div 64 := b ! (i div 64) AND NOT (push_bit (i mod 64) 1)]"
  show ?case
  proof (cases "e < i")
    case True
    then show ?thesis using "1.prems"(1) by (subst unset_loop.simps) auto
  next
    case False
    then have i: "i < 255" "\<not> 255 \<le> i" "i < 256" using "1.prems"(2) by auto
    have len: "length b' = 4" using "1.prems" by (simp add: b'_def)
    have bits: "bin_bit b' k = (bin_bit b k \<and> k \<noteq> i)" for k
      unfolding b'_def by (rule bin_bit_and_not) (use "1.prems" i in auto)
    show ?thesis
    proof (cases "i < s")
      case True
      then have d: "i div 64 = Suc i div 64" using "1.prems"(3) by simp
      have step: "unset_loop b p s e i v = unset_loop b (i div 64) s e (Suc i)
          (push_bit 1 (push_bit (i mod 64) 1))"
        using False i True
        by (subst unset_loop.simps) (simp only: Let_def "1.prems"(5,6) if_True if_False)
      have "Suc i \<le> Suc e" using False by simp
      then show ?thesis
        unfolding step
        using "1.IH"(1) [OF False i(2) refl True "1.prems"(1-3) _ _ d [folded "1.prems"(6)],
            unfolded "1.prems"(5,6), OF _ push1_next] True
        by (metis Suc_leD Suc_leI le_antisym not_less)
    next
      case ge: False
      have d: "(if i mod 64 = 63 then Suc (i div 64) else i div 64) = Suc i div 64"
        by (auto simp: div_Suc mod_Suc)
      have step: "unset_loop b p s e i v =
          unset_loop b' (if i mod 64 = 63 then Suc (i div 64) else i div 64) s e (Suc i)
          (push_bit 1 (push_bit (i mod 64) 1))"
        using False i ge
        by (subst unset_loop.simps) (simp only: Let_def "1.prems"(5,6) b'_def if_True if_False)
      have "Suc i \<le> Suc e" using False by simp
      then obtain b2 where "unset_loop b p s e i v = Some b2" "length b2 = 4"
        "\<forall>k. bin_bit b2 k = (bin_bit b' k \<and> \<not> (Suc i \<le> k \<and> s \<le> k \<and> k \<le> e))"
        unfolding step
        using "1.IH"(2) [OF False i(2) refl ge, unfolded "1.prems"(5,6), OF len [unfolded b'_def]
            "1.prems"(2,3) _ push1_next d, folded b'_def] by blast
      moreover have "(bin_bit b' k \<and> \<not> (Suc i \<le> k \<and> s \<le> k \<and> k \<le> e)) =
          (bin_bit b k \<and> \<not> (i \<le> k \<and> s \<le> k \<and> k \<le> e))" for k
        using bits [of k] ge False by auto
      ultimately show ?thesis by auto
    qed
  qed
qed

lemma unset_bin_bits:
  assumes "length b = 4" "unat s < 64" "unat s + unat q < 255"
  obtains b' where "unset_bin b s q = Some b'" "length b' = 4"
    "\<And>k. bin_bit b' k = (bin_bit b k \<and> \<not> (unat s \<le> k \<and> k \<le> unat s + unat q))"
proof -
  have "unat (s + q) = unat s + unat q"
    using assms(3) by (simp add: unat_plus_if')
  then show ?thesis
    using that unset_loop_bits [of b "unat s + unat q" "unat s" 0 1 0] assms
    by (auto simp: unset_bin_def)
qed

lemma unset_loop_255: "i \<le> 255 \<Longrightarrow> unset_loop b p s 255 i v = None"
proof (induction "255 - i" arbitrary: b p i v)
  case 0
  then show ?case by (subst unset_loop.simps) simp
next
  case (Suc n)
  then show ?case by (subst unset_loop.simps) (simp add: Let_def)
qed

lemma unset_bin_never_returns: "s + q = 255 \<Longrightarrow> unset_bin b s q = None"
  by (simp add: unset_bin_def unset_loop_255)

lemma unset_bin_wrap:
  assumes "unat s + unat q = 256" "0 < unat s"
  shows "unset_bin b s q = Some b"
proof -
  have e: "unat (s + q) = 0" using assms(1) by (simp add: unat_plus_if')
  show ?thesis
    unfolding unset_bin_def e using assms(2)
    by (subst unset_loop.simps) (simp add: Let_def, subst unset_loop.simps, simp)
qed
end
