(* ===== verification/Chain.thy ===== *)
theory Chain
  imports Prelude
begin

text \<open>
  Singly linked lists.  Records of the program that are chained through a
  \<open>next\<close> pointer live in a store indexed by natural numbers; \<open>None\<close> is the
  null pointer.  \<open>path\<close> relates a start pointer to the list of cells it
  reaches, \<open>chain_last\<close> is the loop \<open>for (c = p; c->next; c = c->next);\<close>.  The
  locale \<open>linked\<close> states what a store promises about its \<open>next\<close> field and
  derives what a write at the end of a chain does.
\<close>

fun path :: "(nat \<Rightarrow> nat option) \<Rightarrow> nat \<Rightarrow> nat list \<Rightarrow> bool" where
  "path nx p [] = False"
| "path nx p [x] = (p = x \<and> nx x = None)"
| "path nx p (x # y # xs) = (p = x \<and> nx x = Some y \<and> path nx y (y # xs))"

partial_function (option) chain_last :: "(nat \<Rightarrow> nat option) \<Rightarrow> nat \<Rightarrow> nat option" where
  [code]: "chain_last nx p = (case nx p of None \<Rightarrow> Some p | Some q \<Rightarrow> chain_last nx q)"

definition opath :: "(nat \<Rightarrow> nat option) \<Rightarrow> nat option \<Rightarrow> nat list \<Rightarrow> bool" where
  "opath nx p xs = (case p of None \<Rightarrow> xs = [] | Some c \<Rightarrow> path nx c xs)"

lemma path_nonempty [dest]: "path nx p xs \<Longrightarrow> xs \<noteq> []"
  by (cases xs) auto

lemma path_hd: "path nx p xs \<Longrightarrow> hd xs = p"
  by (cases "(nx, p, xs)" rule: path.cases) auto

lemma path_Cons: "path nx p (x # xs) \<longleftrightarrow>
    p = x \<and> (case nx x of None \<Rightarrow> xs = [] | Some q \<Rightarrow> path nx q xs)"
  by (cases xs) (use path_hd [of nx _ xs] in \<open>auto split: option.splits\<close>)

lemma path_last_None: "path nx p xs \<Longrightarrow> nx (last xs) = None"
  by (induction nx p xs rule: path.induct) auto

lemma path_det: "path nx p xs \<Longrightarrow> path nx p ys \<Longrightarrow> xs = ys"
proof (induction xs arbitrary: p ys)
  case (Cons x xs)
  then show ?case
    by (cases ys) (auto simp: path_Cons split: option.splits)
qed auto

lemma path_suffix: "path nx p (xs @ y # ys) \<Longrightarrow> path nx y (y # ys)"
  by (induction xs arbitrary: p) (auto simp: path_Cons split: option.splits)

lemma path_distinct: "path nx p xs \<Longrightarrow> distinct xs"
proof (induction xs arbitrary: p)
  case Nil
  then show ?case by simp
next
  case (Cons x xs)
  have "x \<notin> set xs"
  proof
    assume "x \<in> set xs"
    then obtain as bs where xs: "xs = as @ x # bs" by (auto dest: split_list)
    then have "path nx x (x # bs)"
      using Cons.prems path_suffix [of nx p "x # as" x bs] by simp
    moreover have "path nx x (x # xs)"
      using Cons.prems by (auto simp: path_Cons)
    ultimately have "xs = bs" by (auto dest: path_det)
    then show False using xs by simp
  qed
  then show ?case
    using Cons by (auto simp: path_Cons split: option.splits)
qed

lemma path_cong: "path nx p xs \<Longrightarrow> (\<And>x. x \<in> set xs \<Longrightarrow> nx' x = nx x) \<Longrightarrow> path nx' p xs"
  by (induction nx p xs rule: path.induct) auto

lemma chain_last_path [chain_simps]: "path nx p xs \<Longrightarrow> chain_last nx p = Some (last xs)"
  by (induction nx p xs rule: path.induct) (subst chain_last.simps, simp)+

lemma path_extend:
  assumes "path nx p xs" "last xs = t" "q \<notin> set xs" "nx' t = Some q" "nx' q = None"
    and "\<And>x. x \<in> set xs \<Longrightarrow> x \<noteq> t \<Longrightarrow> nx' x = nx x"
  shows "path nx' p (xs @ [q])"
  using assms path_distinct [OF assms(1)]
proof (induction nx p xs rule: path.induct)
  case (3 nx p x y xs)
  then have "x \<noteq> t" by (metis last_ConsR last_in_set distinct.simps(2) list.distinct(1))
  then show ?case using 3 by auto
qed auto

lemma path_redirect:
  assumes "path nx p (xs @ t # ys)" "nx' t = Some q" "nx' q = None"
    and "\<And>x. x \<in> set xs \<Longrightarrow> nx' x = nx x"
  shows "path nx' p (xs @ [t, q])"
  using assms
proof (induction xs arbitrary: p)
  case Nil
  then show ?case by (simp add: path_Cons)
next
  case (Cons x xs)
  have "path nx' y (xs @ [t, q])" if "path nx y (xs @ t # ys)" for y
    using Cons.IH [of y] that Cons.prems(2-4) by simp
  then show ?case
    using Cons.prems by (auto simp: path_Cons split: option.splits)
qed

lemma opath_cong: "opath nx p xs \<Longrightarrow> (\<And>x. x \<in> set xs \<Longrightarrow> nx' x = nx x) \<Longrightarrow> opath nx' p xs"
  using path_cong [of nx _ xs nx'] by (cases p) (auto simp: opath_def)

lemma opath_det: "opath nx p xs \<Longrightarrow> opath nx p ys \<Longrightarrow> xs = ys"
  by (auto simp: opath_def path_det split: option.splits)

subsection \<open>Loops over a chain\<close>

text \<open>\<open>scan\<close> is \<open>for (c = p, i = 0; c; c = c->next, i++)\<close> with a body that may
  return a result, \<open>iter\<close> the same loop with a body that changes the state (the
  \<open>next\<close> field is read after the body has run).  A body may itself not come
  back; the outer \<open>None\<close> is a loop that does not end.\<close>

partial_function (option) scan_from ::
    "(nat \<Rightarrow> nat option) \<Rightarrow> (nat \<Rightarrow> nat \<Rightarrow> 'a option option) \<Rightarrow> nat \<Rightarrow> nat \<Rightarrow> 'a option option" where
  [code]: "scan_from nx f i c =
     Option.bind (f i c) (\<lambda>r.
       case r of Some x \<Rightarrow> Some (Some x)
       | None \<Rightarrow> (case nx c of None \<Rightarrow> Some None | Some c' \<Rightarrow> scan_from nx f (Suc i) c'))"

definition scan :: "(nat \<Rightarrow> nat option) \<Rightarrow> (nat \<Rightarrow> nat \<Rightarrow> 'a option option) \<Rightarrow> nat option \<Rightarrow> 'a option option" where
  "scan nx f p = (case p of None \<Rightarrow> Some None | Some c \<Rightarrow> scan_from nx f 0 c)"

partial_function (option) iter_from ::
    "('s \<Rightarrow> nat \<Rightarrow> nat option) \<Rightarrow> (nat \<Rightarrow> 's \<Rightarrow> 's option) \<Rightarrow> nat \<Rightarrow> 's \<Rightarrow> 's option" where
  [code]: "iter_from nx f c s =
     Option.bind (f c s) (\<lambda>s. case nx s c of None \<Rightarrow> Some s | Some c' \<Rightarrow> iter_from nx f c' s)"

definition iter :: "('s \<Rightarrow> nat \<Rightarrow> nat option) \<Rightarrow> (nat \<Rightarrow> 's \<Rightarrow> 's option) \<Rightarrow> nat option \<Rightarrow> 's \<Rightarrow> 's option" where
  "iter nx f p s = (case p of None \<Rightarrow> Some s | Some c \<Rightarrow> iter_from nx f c s)"

fun first_some :: "(nat \<Rightarrow> nat \<Rightarrow> 'a option) \<Rightarrow> nat \<Rightarrow> nat list \<Rightarrow> 'a option" where
  "first_some g i [] = None"
| "first_some g i (x # xs) = (case g i x of Some r \<Rightarrow> Some r | None \<Rightarrow> first_some g (Suc i) xs)"

fun fold_opt :: "(nat \<Rightarrow> 's \<Rightarrow> 's option) \<Rightarrow> nat list \<Rightarrow> 's \<Rightarrow> 's option" where
  "fold_opt f [] s = Some s"
| "fold_opt f (x # xs) s = Option.bind (f x s) (fold_opt f xs)"

lemma scan_from_path:
  "path nx p xs \<Longrightarrow> (\<And>i x. x \<in> set xs \<Longrightarrow> f i x = Some (g i x)) \<Longrightarrow>
   scan_from nx f i p = Some (first_some g i xs)"
proof (induction xs arbitrary: p i)
  case (Cons x xs)
  show ?case
  proof (cases "g i x")
    case (Some r)
    then show ?thesis using Cons.prems by (subst scan_from.simps) (simp add: path_Cons)
  next
    case None
    then show ?thesis
      using Cons.prems Cons.IH [of "the (nx x)" "Suc i"]
      by (subst scan_from.simps) (auto simp: path_Cons split: option.splits)
  qed
qed auto

lemma scan_opath [chain_simps]:
  "opath nx p xs \<Longrightarrow> (\<And>i x. x \<in> set xs \<Longrightarrow> f i x = Some (g i x)) \<Longrightarrow>
   scan nx f p = Some (first_some g 0 xs)"
  by (auto simp: scan_def opath_def scan_from_path split: option.splits)

lemma scan_pure [chain_simps]:
  "opath nx p xs \<Longrightarrow> scan nx (\<lambda>i c. Some (g i c)) p = Some (first_some g 0 xs)"
  by (rule scan_opath) simp_all

lemma iter_from_path:
  assumes "path (nx s) p xs" "P s"
    and "\<And>x s. x \<in> set xs \<Longrightarrow> P s \<Longrightarrow> \<exists>s'. f x s = Some s' \<and> P s' \<and> nx s' = nx s"
  shows "iter_from nx f p s = fold_opt f xs s \<and> (\<exists>s'. fold_opt f xs s = Some s' \<and> P s' \<and> nx s' = nx s)"
  using assms
proof (induction xs arbitrary: p s)
  case (Cons x xs)
  then obtain s' where s': "f x s = Some s'" "P s'" "nx s' = nx s" by fastforce
  show ?case
  proof (cases "nx s x")
    case None
    then show ?thesis using Cons.prems(1) s' by (subst iter_from.simps) (simp add: path_Cons)
  next
    case (Some y)
    then have "path (nx s') y xs" using Cons.prems(1) s' by (simp add: path_Cons)
    then have "iter_from nx f y s' = fold_opt f xs s' \<and> (\<exists>s2. fold_opt f xs s' = Some s2 \<and> P s2 \<and> nx s2 = nx s')"
      using Cons.IH [of s' y] Cons.prems(3) s'(2) by simp
    then show ?thesis using Cons.prems(1) Some s' by (subst iter_from.simps) (simp add: path_Cons)
  qed
qed auto

lemma iter_opath:
  assumes "opath (nx s) p xs" "P s"
    and "\<And>x s. x \<in> set xs \<Longrightarrow> P s \<Longrightarrow> \<exists>s'. f x s = Some s' \<and> P s' \<and> nx s' = nx s"
  shows "iter nx f p s = fold_opt f xs s \<and> (\<exists>s'. fold_opt f xs s = Some s' \<and> P s' \<and> nx s' = nx s)"
  using assms iter_from_path [of nx s _ xs P f] by (cases p) (auto simp: iter_def opath_def)

text \<open>A body that may fail: the loop is the fold over the path, failure included.\<close>

lemma iter_from_path_partial:
  assumes "path (nx s) p xs" "P s"
    and "\<And>x s s'. x \<in> set xs \<Longrightarrow> P s \<Longrightarrow> f x s = Some s' \<Longrightarrow> P s' \<and> nx s' = nx s"
  shows "iter_from nx f p s = fold_opt f xs s"
  using assms
proof (induction xs arbitrary: p s)
  case (Cons x xs)
  show ?case
  proof (cases "f x s")
    case None
    then show ?thesis using Cons.prems(1) by (subst iter_from.simps) (simp add: path_Cons)
  next
    case (Some s')
    then have s': "P s'" "nx s' = nx s" using Cons.prems(2) Cons.prems(3) [of x s s'] by simp_all
    have "iter_from nx f y s' = fold_opt f xs s'" if "nx s x = Some y" for y
      using that Cons.prems s' by (intro Cons.IH) (auto simp: path_Cons)
    then show ?thesis using Cons.prems(1) Some s' by (subst iter_from.simps) (auto simp: path_Cons split: option.splits)
  qed
qed auto

lemma iter_opath_partial:
  assumes "opath (nx s) p xs" "P s"
    and "\<And>x s s'. x \<in> set xs \<Longrightarrow> P s \<Longrightarrow> f x s = Some s' \<Longrightarrow> P s' \<and> nx s' = nx s"
  shows "iter nx f p s = fold_opt f xs s"
  using assms iter_from_path_partial [of nx s _ xs P f] by (cases p) (auto simp: iter_def opath_def)

lemma iter_from_keeps:
  assumes "iter_from nx f c s = Some s'" "P s" "\<And>x s s'. P s \<Longrightarrow> f x s = Some s' \<Longrightarrow> P s'"
  shows "P s'"
  using assms
proof (induction nx f c s s' rule: iter_from.raw_induct [rotated 1, consumes 1, case_names step])
  case (step g nx f c s s')
  from step(2) obtain s1 where s1: "f c s = Some s1" "(case nx s1 c of None \<Rightarrow> Some s1 | Some c' \<Rightarrow> g nx f c' s1) = Some s'"
    by (auto simp: bind_eq_Some_conv)
  have "P s1" using step(3,4) s1(1) by blast
  then show ?case using s1(2) step(1) [OF _ _ step(4)] by (auto split: option.splits)
qed

lemma iter_keeps:
  "iter nx f p s = Some s' \<Longrightarrow> P s \<Longrightarrow> (\<And>x s s'. P s \<Longrightarrow> f x s = Some s' \<Longrightarrow> P s') \<Longrightarrow> P s'"
  by (auto simp: iter_def split: option.splits elim: iter_from_keeps)

lemma fold_opt_append: "fold_opt f (xs @ ys) s = Option.bind (fold_opt f xs s) (fold_opt f ys)"
proof (induction xs arbitrary: s)
  case (Cons x xs)
  then show ?case by (cases "f x s") simp_all
qed simp

lemma first_some_None: "(\<And>i x. x \<in> set xs \<Longrightarrow> g i x = None) \<Longrightarrow> first_some g n xs = None"
  by (induction xs arbitrary: n) auto

lemma first_some_nth:
  "k < length xs \<Longrightarrow> (\<And>j. j < k \<Longrightarrow> g (n + j) (xs ! j) = None) \<Longrightarrow> g (n + k) (xs ! k) = Some r \<Longrightarrow>
   first_some g n xs = Some r"
proof (induction xs arbitrary: n k)
  case (Cons x xs)
  show ?case
  proof (cases k)
    case 0
    then show ?thesis using Cons.prems by simp
  next
    case (Suc k')
    have "g n x = None" using Cons.prems(2) [of 0] Suc by simp
    moreover have "first_some g (Suc n) xs = Some r"
    proof (rule Cons.IH [of k'])
      show "g (Suc n + j) (xs ! j) = None" if "j < k'" for j
        using Cons.prems(2) [of "Suc j"] Suc that by simp
    qed (use Cons.prems Suc in auto)
    ultimately show ?thesis by simp
  qed
qed auto

lemma first_some_None_nth:
  "(\<And>j. j < length xs \<Longrightarrow> g (n + j) (xs ! j) = None) \<Longrightarrow> first_some g n xs = None"
proof (induction xs arbitrary: n)
  case (Cons x xs)
  have "first_some g (Suc n) xs = None"
    by (rule Cons.IH) (use Cons.prems [of "Suc j" for j] in auto)
  then show ?case using Cons.prems [of 0] by simp
qed simp

lemma first_some_SomeD:
  "first_some g n xs = Some r \<Longrightarrow> \<exists>k < length xs. g (n + k) (xs ! k) = Some r"
proof (induction xs arbitrary: n)
  case (Cons x xs)
  show ?case
  proof (cases "g n x")
    case None
    then obtain k where "k < length xs" "g (Suc n + k) (xs ! k) = Some r"
      using Cons.IH [of "Suc n"] Cons.prems by auto
    then show ?thesis by (intro exI [of _ "Suc k"]) simp
  qed (use Cons.prems in auto)
qed simp

lemma first_some_not_None:
  "k < length xs \<Longrightarrow> g (n + k) (xs ! k) \<noteq> None \<Longrightarrow> first_some g n xs \<noteq> None"
proof (induction xs arbitrary: n k)
  case (Cons x xs)
  then show ?case by (cases k) (auto split: option.splits)
qed simp

lemma first_some_find: "first_some (\<lambda>i x. if P x then Some x else None) n xs = List.find P xs"
  by (induction xs arbitrary: n) auto

subsection \<open>Stores with a next field\<close>

locale linked =
  fixes next_of :: "'st \<Rightarrow> nat \<Rightarrow> nat option"
    and link :: "nat \<Rightarrow> nat \<Rightarrow> 'st \<Rightarrow> 'st"
  assumes next_link: "next_of (link p q s) r = (if r = p then Some q else next_of s r)"
begin

lemma path_link:
  assumes "path (next_of s) p xs" "last xs = t" "q \<notin> set xs" "next_of s q = None"
  shows "path (next_of (link t q s)) p (xs @ [q])"
  using assms by (intro path_extend [OF assms(1,2,3)]) (auto simp: next_link dest: path_nonempty)

lemma last_link:
  assumes "path (next_of s) p xs" "last xs = t" "q \<notin> set xs" "next_of s q = None"
  shows "chain_last (next_of (link t q s)) p = Some q"
  using chain_last_path [OF path_link [OF assms]] by simp

text \<open>Linking in the middle of a chain cuts off what followed.\<close>

lemma path_link_cut:
  assumes "path (next_of s) p (xs @ t # ys)" "q \<noteq> t" "next_of s q = None"
  shows "path (next_of (link t q s)) p (xs @ [t, q])"
  using path_distinct [OF assms(1)] assms
  by (intro path_redirect [OF assms(1)]) (auto simp: next_link)

lemma path_link_other:
  assumes "path (next_of s) p xs" "t \<notin> set xs"
  shows "path (next_of (link t q s)) p xs"
  using assms by (intro path_cong [OF assms(1)]) (auto simp: next_link)

end

subsection \<open>Lists with a head and a tail pointer\<close>

text \<open>Most chains of the linker are kept by a head and a tail pointer and grow
  by \<open>if (head == 0) head = c; else tail->next = c; tail = c;\<close>.  A store that
  keeps these three laws represents a list, and the append is the append of
  lists.\<close>

locale head_tail = linked next_of link
  for next_of :: "'st \<Rightarrow> nat \<Rightarrow> nat option" and link :: "nat \<Rightarrow> nat \<Rightarrow> 'st \<Rightarrow> 'st" +
  fixes hd_of :: "'st \<Rightarrow> nat option"
    and tl_of :: "'st \<Rightarrow> nat option"
    and app :: "nat \<Rightarrow> 'st \<Rightarrow> 'st"
  assumes hd_app: "hd_of (app c s) = (case hd_of s of None \<Rightarrow> Some c | Some h \<Rightarrow> Some h)"
    and tl_app: "tl_of (app c s) = Some c"
    and next_app: "next_of (app c s) r =
      (if hd_of s = None then next_of s r
       else if tl_of s = Some r then Some c else next_of s r)"
begin

definition repr :: "'st \<Rightarrow> nat list \<Rightarrow> bool" where
  "repr s xs \<longleftrightarrow> opath (next_of s) (hd_of s) xs \<and> (xs \<noteq> [] \<longrightarrow> tl_of s = Some (last xs))"

lemma repr_empty: "hd_of s = None \<Longrightarrow> repr s []"
  by (simp add: repr_def opath_def)

lemma repr_det: "repr s xs \<Longrightarrow> repr s ys \<Longrightarrow> xs = ys"
  by (auto simp: repr_def opath_det)

theorem append_refines:
  assumes "repr s xs" "c \<notin> set xs" "next_of s c = None"
  shows "repr (app c s) (xs @ [c])"
proof (cases "hd_of s")
  case None
  then have "xs = []" using assms(1) by (simp add: repr_def opath_def)
  then show ?thesis
    using None assms(3) by (simp add: repr_def opath_def hd_app tl_app next_app)
next
  case (Some h)
  then have p: "path (next_of s) h xs" "tl_of s = Some (last xs)"
    using assms(1) path_nonempty by (auto simp: repr_def opath_def)
  have "path (next_of (app c s)) h (xs @ [c])"
  proof (rule path_extend [OF p(1) refl assms(2)])
    have "last xs \<in> set xs" using p(1) by (auto intro: last_in_set)
    then have "last xs \<noteq> c" using assms(2) by auto
    then show "next_of (app c s) (last xs) = Some c" "next_of (app c s) c = None"
      using Some p(2) assms(3) by (simp_all add: next_app)
    show "next_of (app c s) x = next_of s x" if "x \<in> set xs" "x \<noteq> last xs" for x
      using that p(2) by (simp add: next_app)
  qed
  then show ?thesis
    using Some by (simp add: repr_def opath_def hd_app tl_app)
qed

end

end
