(* ===== verification/Heap.thy ===== *)
theory Heap
  imports HeapBits Chain "HOL-Library.Signed_Division" "HOL-Library.Monad_Syntax"
begin

text \<open>
  The allocator of \<open>core/memory/__alloc.c\<close>.  One page holds an array of
  \<open>Bin\<close> slots (48 bytes each, 85 fit); a slot describes one mapped page by a
  bitmap of 256 bins of 16 bytes.  The slots in use form a list through
  \<open>next\<close> from \<open>bin_head\<close>; \<open>bin_tail\<close> is where the search of \<open>__malloc\<close>
  starts.  A slot is named by its index in the array, so \<open>c + 1\<close> of the code
  is \<open>Suc c\<close>.  The addresses that the coming \<open>__os__mmap\<close> calls return are the
  list \<open>os_maps\<close> of the state; \<open>mapped\<close> collects the mappings made, the latest first,
  each with its length, which the kernel rounds up to whole pages.  A result \<open>None\<close> is a run that does not come
  back: a fault (use before \<open>mem_init\<close>, a slot outside the page, no mapping
  left) or a loop that never ends.  What the code writes to its log file is
  left out.
\<close>

subsection \<open>State\<close>

record Bin =
  bin :: "u64 list"
  nxt :: "nat option"
  page_addr :: nat

record heap =
  bins :: "nat \<Rightarrow> Bin"
  bin_head :: "nat option"
  bin_tail :: "nat option"
  INIT_DONE :: bool
  hmem :: mem
  os_maps :: "nat list"
  mapped :: "(nat \<times> nat) list"

definition BIN_SLOTS :: nat where
  "BIN_SLOTS = 0x1000 div 48"

definition empty_bin :: Bin where
  "empty_bin = \<lparr>bin = [0, 0, 0, 0], nxt = None, page_addr = 0\<rparr>"

definition upd_slot :: "nat \<Rightarrow> (Bin \<Rightarrow> Bin) \<Rightarrow> heap \<Rightarrow> heap" where
  "upd_slot c f h = h\<lparr>bins := (bins h)(c := f (bins h c))\<rparr>"

definition next_bin :: "heap \<Rightarrow> nat \<Rightarrow> nat option" where
  "next_bin h c = nxt (bins h c)"

definition link_bin :: "nat \<Rightarrow> nat \<Rightarrow> heap \<Rightarrow> heap" where
  "link_bin p c h = upd_slot p (\<lambda>b. b\<lparr>nxt := Some c\<rparr>) h"

interpretation hb: linked next_bin link_bin
  by unfold_locales (auto simp: next_bin_def link_bin_def upd_slot_def)

definition page_up :: "nat \<Rightarrow> nat" where
  "page_up n = (n + 0xfff) div 0x1000 * 0x1000"

definition os_mmap :: "nat \<Rightarrow> heap \<Rightarrow> (nat \<times> heap) option" where
  "os_mmap len h = (case os_maps h of [] \<Rightarrow> None
     | m # ms \<Rightarrow> Some (m, h\<lparr>os_maps := ms, mapped := (m, page_up len) # mapped h\<rparr>))"

definition new_slot :: "nat \<Rightarrow> heap \<Rightarrow> unit option" where
  "new_slot c h = (if c < BIN_SLOTS then Some () else None)"

subsection \<open>Operations\<close>

definition mem_init :: "heap \<Rightarrow> heap option" where
  "mem_init h =
     (if INIT_DONE h then Some h
      else do {
        (c, h) \<leftarrow> os_mmap 0x1000 h;
        if c = 0 then Some h
        else do {
          let h = h\<lparr>bins := (\<lambda>_. empty_bin), bin_head := Some 0, bin_tail := Some 0\<rparr>;
          let h = upd_slot 0 (\<lambda>b. b\<lparr>bin := set_bin0 1 (bin b), nxt := None\<rparr>) h;
          (m, h) \<leftarrow> os_mmap 0x1000 h;
          Some ((upd_slot 0 (\<lambda>b. b\<lparr>page_addr := m\<rparr>) h)\<lparr>INIT_DONE := True\<rparr>)
        }
      })"

definition expand_heap :: "int \<Rightarrow> heap \<Rightarrow> (nat \<times> heap) option" where
  "expand_heap sz h = do {
     (m, h) \<leftarrow> os_mmap (nat sz) h;
     hd \<leftarrow> bin_head h;
     pre \<leftarrow> chain_last (next_bin h) hd;
     new_slot (Suc pre) h;
     let h = link_bin pre (Suc pre) h;
     let h = upd_slot (Suc pre) (\<lambda>b. b\<lparr>page_addr := m, nxt := None, bin := [- 1, - 1, - 1, - 1]\<rparr>) h;
     Some (m, h)
   }"

text \<open>The search loop of \<open>__malloc\<close> with its \<open>goto b1\<close>: \<open>c\<close> is the slot
  examined; when its \<open>next\<close> is null the slot after it is set up on a new page
  and examined in turn.\<close>

partial_function (option) malloc_from :: "u8 \<Rightarrow> heap \<Rightarrow> nat \<Rightarrow> (nat \<times> heap) option" where
  [code]: "malloc_from q h c =
     (let a = slowest_find_consecutive_bin (bin (bins h c)) q in
      if a \<noteq> 0 then
        (let h = upd_slot c (\<lambda>b. b\<lparr>bin := set_bin (bin b) a q\<rparr>) h;
             r = page_addr (bins h c) + 16 * unat a
         in Some (r, h\<lparr>hmem := (hmem h)(r - 1 := q)\<rparr>))
      else case next_bin h c of
        Some c' \<Rightarrow> malloc_from q h c'
      | None \<Rightarrow>
          Option.bind (os_mmap 0x1000 h) (\<lambda>(m, h).
          Option.bind (new_slot (Suc c) h) (\<lambda>_.
          Option.bind (bin_tail h) (\<lambda>t.
          let h = upd_slot (Suc c) (\<lambda>b. b\<lparr>page_addr := m, nxt := None, bin := set_bin0 1 (bin b)\<rparr>) h;
              h = (link_bin t (Suc c) h)\<lparr>bin_tail := Some (Suc c)\<rparr>
          in malloc_from q h (Suc c)))))"

definition malloc_bins :: "int \<Rightarrow> u8" where
  "malloc_bins sz = of_int (sz sdiv 0x10 + 1)"

definition malloc :: "int \<Rightarrow> heap \<Rightarrow> (nat \<times> heap) option" where
  "malloc sz h =
     (if 0x1000 - 0x10 \<le> sz then expand_heap sz h
      else do {
        c \<leftarrow> bin_tail h;
        malloc_from (malloc_bins sz) h c
      })"

definition thalloc :: "heap \<Rightarrow> (nat \<times> heap) option" where
  "thalloc h = expand_heap 1024 h"

definition zero_bytes :: "nat \<Rightarrow> nat \<Rightarrow> mem \<Rightarrow> mem" where
  "zero_bytes p n m = (\<lambda>x. if p \<le> x \<and> x < p + n then 0 else m x)"

definition free_in :: "nat \<Rightarrow> u8 \<Rightarrow> nat \<Rightarrow> heap \<Rightarrow> heap option" where
  "free_in p q c h = do {
     b' \<leftarrow> unset_bin (bin (bins h c)) (of_nat ((p - page_addr (bins h c)) div 0x10)) q;
     Some ((upd_slot c (\<lambda>b. b\<lparr>bin := b'\<rparr>) h)\<lparr>hmem := zero_bytes p (16 * unat q) (hmem h)\<rparr>)
   }"

partial_function (option) free_from :: "nat \<Rightarrow> u8 \<Rightarrow> heap \<Rightarrow> nat \<Rightarrow> heap option" where
  [code]: "free_from p q h c =
     (if page_addr (bins h c) \<le> p \<and> p - page_addr (bins h c) < 0x1000 then free_in p q c h
      else case next_bin h c of None \<Rightarrow> Some h | Some c' \<Rightarrow> free_from p q h c')"

definition free :: "nat \<Rightarrow> heap \<Rightarrow> heap option" where
  "free p h =
     (let q = (if p mod 0x1000 = 0 then 255 else hmem h (p - 1))
      in Option.bind (bin_head h) (free_from p q h))"

text \<open>The size of a file mapping, \<open>(size + 0xfff) \<and> 0xfffff000\<close>.\<close>

definition map_size :: "u32 \<Rightarrow> u32" where
  "map_size sz = (sz + 0xfff) AND 0xfffff000"

lemma and_shift_less:
  fixes x :: "'a :: len word"
  assumes "x \<noteq> 0"
  shows "unat (x AND push_bit 1 x) < unat x"
proof -
  obtain n where n: "bit x n" "\<And>m. m < n \<Longrightarrow> \<not> bit x m"
    using assms by (metis bit_eq_iff bit_0_eq bot_apply bot_bool_def exists_least_iff)
  have "\<not> bit (x AND push_bit 1 x) n"
    using n unfolding bit_and_iff bit_push_bit_iff by (cases n) auto
  then have "x AND push_bit 1 x \<noteq> x"
    using n(1) by metis
  moreover have "x AND push_bit 1 x \<le> x"
    by (rule word_and_le2)
  ultimately show ?thesis
    by (simp add: word_less_nat_alt [symmetric])
qed

function maxConsecutiveOnes :: "u32 \<Rightarrow> nat" where
  "maxConsecutiveOnes x = (if x = 0 then 0 else Suc (maxConsecutiveOnes (x AND push_bit 1 x)))"
  by auto
termination
  by (relation "measure unat") (auto intro!: and_shift_less simp del: push_bit_Suc simp flip: One_nat_def)

declare maxConsecutiveOnes.simps [simp del]

subsection \<open>The longest run of ones\<close>

definition ones_run :: "u32 \<Rightarrow> nat \<Rightarrow> nat \<Rightarrow> bool" where
  "ones_run x n k \<longleftrightarrow> (\<forall>i < k. bit x (n + i))"

lemma ones_run_shift:
  assumes "0 < k"
  shows "(\<exists>n. ones_run (x AND push_bit 1 x) n k) \<longleftrightarrow> (\<exists>n. ones_run x n (Suc k))"
proof
  assume "\<exists>n. ones_run (x AND push_bit 1 x) n k"
  then obtain n where n: "\<forall>i < k. bit x (n + i) \<and> 1 \<le> n + i \<and> bit x (n + i - 1)"
    unfolding ones_run_def bit_and_iff bit_push_bit_iff by blast
  then have "1 \<le> n" using assms by (metis add_0_right)
  then have "ones_run x (n - 1) (Suc k)"
    using n assms unfolding ones_run_def
    by (auto simp: less_Suc_eq) (metis Suc_diff_1 Suc_pred add_Suc assms diff_Suc_1 lessI One_nat_def add_Suc_right less_imp_le_nat)
  then show "\<exists>n. ones_run x n (Suc k)" ..
next
  assume "\<exists>n. ones_run x n (Suc k)"
  then obtain n where n: "\<forall>i < Suc k. bit x (n + i)"
    unfolding ones_run_def by blast
  have "ones_run (x AND push_bit 1 x) (Suc n) k"
    unfolding ones_run_def bit_and_iff bit_push_bit_iff
  proof (intro allI impI)
    fix i assume "i < k"
    then have "bit x (n + Suc i)" "bit x (n + i)" using n by auto
    moreover have "n + Suc i < LENGTH(32)"
      using calculation(1) by (rule bit_imp_le_length)
    ultimately show "bit x (Suc n + i) \<and> 1 \<le> Suc n + i \<and> possible_bit TYPE(u32) (Suc n + i) \<and>
        bit x (Suc n + i - 1)"
      by (simp add: possible_bit_word)
  qed
  then show "\<exists>n. ones_run (x AND push_bit 1 x) n k" ..
qed

lemma maxConsecutiveOnes_iff: "k \<le> maxConsecutiveOnes x \<longleftrightarrow> k = 0 \<or> (\<exists>n. ones_run x n k)"
proof (induction x arbitrary: k rule: maxConsecutiveOnes.induct)
  case (1 x)
  show ?case
  proof (cases "x = 0")
    case True
    then show ?thesis
      by (subst maxConsecutiveOnes.simps) (auto simp: ones_run_def)
  next
    case False
    then obtain n where "bit x n" by (auto simp: bit_eq_iff)
    then have "ones_run x n (Suc 0)" by (simp add: ones_run_def)
    then show ?thesis
      using "1.IH" [OF False, of "k - 1"] ones_run_shift [of "k - 1" x] False
      by (subst maxConsecutiveOnes.simps) (cases "k - 1"; cases k; auto simp del: push_bit_Suc)
  qed
qed

subsection \<open>The allocator state\<close>

text \<open>A block handed out: bins \<open>a ..< a + q\<close> of a slot, or a whole slot of
  \<open>expand_heap\<close>.\<close>

datatype blk = Small nat nat nat | Large nat nat

fun blk_bins :: "blk \<Rightarrow> (nat \<times> nat) set" where
  "blk_bins (Small s a q) = {s} \<times> {a..<a + q}"
| "blk_bins (Large s n) = {s} \<times> {0..<256}"

fun blk_lo :: "heap \<Rightarrow> blk \<Rightarrow> nat" where
  "blk_lo h (Small s a q) = page_addr (bins h s) + 16 * a - 1"
| "blk_lo h (Large s n) = page_addr (bins h s)"

fun blk_hi :: "heap \<Rightarrow> blk \<Rightarrow> nat" where
  "blk_hi h (Small s a q) = page_addr (bins h s) + 16 * (a + q) - 1"
| "blk_hi h (Large s n) = page_addr (bins h s) + n"

text \<open>The mappings of the slots, in the order of the slots: all but the first one,
  which holds the slots themselves.\<close>

definition slot_maps :: "heap \<Rightarrow> (nat \<times> nat) list" where
  "slot_maps h = tl (rev (mapped h))"

fun blk_ok :: "(nat \<times> nat) list \<Rightarrow> blk \<Rightarrow> bool" where
  "blk_ok ms (Small s a q) = (1 \<le> a \<and> 1 \<le> q \<and> a + q \<le> 256)"
| "blk_ok ms (Large s n) = (s < length ms \<and> n \<le> snd (ms ! s))"

fun blk_slot :: "blk \<Rightarrow> nat" where
  "blk_slot (Small s a q) = s"
| "blk_slot (Large s n) = s"

text \<open>No two mappings share a byte; this is what \<open>mmap\<close> without \<open>MAP_FIXED\<close> promises.\<close>

definition apart :: "nat \<times> nat \<Rightarrow> nat \<times> nat \<Rightarrow> bool" where
  "apart x y \<longleftrightarrow> fst x + snd x \<le> fst y \<or> fst y + snd y \<le> fst x"

definition disjoint_maps :: "(nat \<times> nat) list \<Rightarrow> bool" where
  "disjoint_maps ms \<longleftrightarrow> sorted_wrt apart ms"

lemma apart_sym: "apart x y \<longleftrightarrow> apart y x"
  by (auto simp: apart_def)

lemma disjoint_maps_nth:
  "disjoint_maps ms \<Longrightarrow> i < length ms \<Longrightarrow> j < length ms \<Longrightarrow> i \<noteq> j \<Longrightarrow> apart (ms ! i) (ms ! j)"
  unfolding disjoint_maps_def sorted_wrt_iff_nth_less by (metis apart_sym nat_neq_iff)

lemma disjoint_maps_slots: "disjoint_maps (mapped h) \<Longrightarrow> disjoint_maps (slot_maps h)"
proof -
  assume "disjoint_maps (mapped h)"
  moreover have "(\<lambda>x y. apart y x) = apart" by (intro ext) (rule apart_sym)
  ultimately have "sorted_wrt apart (rev (mapped h))" by (simp add: sorted_wrt_rev disjoint_maps_def)
  then show ?thesis by (cases "rev (mapped h)") (simp_all add: disjoint_maps_def slot_maps_def)
qed

lemma slot_maps_grow:
  "mapped h \<noteq> [] \<Longrightarrow> mapped h' = x # mapped h \<Longrightarrow> slot_maps h' = slot_maps h @ [x]"
  by (simp add: slot_maps_def)

lemma page_up_ge: "n \<le> page_up n"
  using div_mult_mod_eq [of "n + 0xfff" "0x1000"] mod_less_divisor [of "0x1000" "n + 0xfff"]
  unfolding page_up_def by linarith

lemma page_up_pos: "0 < n \<Longrightarrow> 0x1000 \<le> page_up n"
  unfolding page_up_def by (cases "(n + 0xfff) div 0x1000") auto

definition blk_marked :: "heap \<Rightarrow> blk \<Rightarrow> bool" where
  "blk_marked h b \<longleftrightarrow> (\<forall>(s, k) \<in> blk_bins b. bin_bit (bin (bins h s)) k)"

definition blks_ok :: "nat \<Rightarrow> heap \<Rightarrow> blk list \<Rightarrow> bool" where
  "blks_ok n h L \<longleftrightarrow>
     (\<forall>b \<in> set L. blk_ok (slot_maps h) b \<and> blk_slot b < n \<and> blk_marked h b)
     \<and> sorted_wrt (\<lambda>b c. blk_bins b \<inter> blk_bins c = {}) L"

lemma blk_markedD: "blk_marked h b \<Longrightarrow> (s, k) \<in> blk_bins b \<Longrightarrow> bin_bit (bin (bins h s)) k"
  by (auto simp: blk_marked_def)

lemma blks_ok_Cons:
  "blks_ok n h (b # L) \<longleftrightarrow> blk_ok (slot_maps h) b \<and> blk_slot b < n \<and> blk_marked h b
     \<and> (\<forall>c \<in> set L. blk_bins b \<inter> blk_bins c = {}) \<and> blks_ok n h L"
  by (auto simp: blks_ok_def)

lemma blk_bins_range:
  "(s, k) \<in> blk_bins b \<Longrightarrow> blk_ok ms b \<Longrightarrow> s = blk_slot b \<and> k < 256"
  by (cases b) auto

lemma blk_ok_append: "blk_ok ms b \<Longrightarrow> blk_ok (ms @ xs) b"
  by (cases b) (auto simp: nth_append)

lemma blks_ok_mono:
  assumes "blks_ok n h L" "n \<le> n'" "slot_maps h' = slot_maps h @ xs"
    and "\<And>s k. s < n \<Longrightarrow> k < 256 \<Longrightarrow> bin_bit (bin (bins h s)) k \<Longrightarrow> bin_bit (bin (bins h' s)) k"
  shows "blks_ok n' h' L"
proof -
  have "blk_ok (slot_maps h') b \<and> blk_slot b < n' \<and> blk_marked h' b" if "b \<in> set L" for b
  proof -
    have b: "blk_ok (slot_maps h) b" "blk_slot b < n" "blk_marked h b"
      using assms(1) that by (auto simp: blks_ok_def)
    then have "blk_marked h' b"
      using assms(4) blk_bins_range [OF _ b(1)] unfolding blk_marked_def by fastforce
    then show ?thesis using b(1,2) assms(2,3) blk_ok_append by simp
  qed
  then show ?thesis using assms(1) unfolding blks_ok_def by blast
qed

definition pages :: "heap \<Rightarrow> nat \<Rightarrow> nat" where
  "pages h s = page_addr (bins h s)"

text \<open>The slots below \<open>n\<close> are in use, one for every mapping behind the first.\<close>

definition slots_used :: "nat \<Rightarrow> heap \<Rightarrow> bool" where
  "slots_used n h \<longleftrightarrow> n \<le> BIN_SLOTS \<and> (\<forall>s. n \<le> s \<longrightarrow> bins h s = empty_bin) \<and> length (mapped h) = Suc n"

definition slots_ok :: "nat \<Rightarrow> heap \<Rightarrow> bool" where
  "slots_ok n h \<longleftrightarrow> slots_used n h
     \<and> (\<forall>s < n. length (bin (bins h s)) = 4 \<and> bin_bit (bin (bins h s)) 0
          \<and> fst (slot_maps h ! s) = pages h s \<and> 0x1000 \<le> snd (slot_maps h ! s))"

lemma slot_maps_length: "slots_used n h \<Longrightarrow> length (slot_maps h) = n"
  by (simp add: slots_used_def slot_maps_def)

definition chain_ok :: "nat \<Rightarrow> heap \<Rightarrow> bool" where
  "chain_ok n h \<longleftrightarrow> bin_head h = Some 0 \<and>
     (\<exists>t xs ys. bin_tail h = Some t \<and> path (next_bin h) 0 (xs @ t # ys)
        \<and> (\<forall>s \<in> set (xs @ t # ys). s < n) \<and> Suc (last (t # ys)) = n)"

lemma chain_okI:
  "bin_head h = Some 0 \<Longrightarrow> bin_tail h = Some t \<Longrightarrow> path (next_bin h) 0 (xs @ t # ys) \<Longrightarrow>
   (\<And>s. s \<in> set (xs @ t # ys) \<Longrightarrow> s < n) \<Longrightarrow> Suc (last (t # ys)) = n \<Longrightarrow> chain_ok n h"
  unfolding chain_ok_def by blast

definition heap_inv :: "nat \<Rightarrow> heap \<Rightarrow> blk list \<Rightarrow> bool" where
  "heap_inv n h L \<longleftrightarrow> slots_ok n h \<and> chain_ok n h \<and> blks_ok n h L"

lemma slots_disj:
  assumes "disjoint_maps (mapped h)" "slots_ok n h" "s < n" "s' < n" "s \<noteq> s'"
  shows "page_addr (bins h s) + snd (slot_maps h ! s) \<le> page_addr (bins h s') \<or>
    page_addr (bins h s') + snd (slot_maps h ! s') \<le> page_addr (bins h s)"
proof -
  have "length (slot_maps h) = n" using assms(2) slot_maps_length by (simp add: slots_ok_def)
  then have "apart (slot_maps h ! s) (slot_maps h ! s')"
    using disjoint_maps_nth [OF disjoint_maps_slots [OF assms(1)]] assms(3-5) by simp
  then show ?thesis using assms(2-4) by (simp add: apart_def slots_ok_def pages_def)
qed

text \<open>Blocks on different bins never share a byte; the header byte before a
  small block counts as part of it.\<close>

lemma blk_hi_bound:
  assumes "slots_ok n h" "blk_ok (slot_maps h) b" "blk_slot b < n"
  shows "blk_hi h b \<le> page_addr (bins h (blk_slot b)) + snd (slot_maps h ! blk_slot b)"
proof (cases b)
  case (Small s a q)
  then have "a + q \<le> 256" "0x1000 \<le> snd (slot_maps h ! s)" using assms by (simp_all add: slots_ok_def)
  then show ?thesis using Small by simp
qed (use assms in simp)

lemma blk_lo_bound:
  assumes "blk_ok ms b"
  shows "page_addr (bins h (blk_slot b)) \<le> blk_lo h b"
  using assms by (cases b) auto

lemma blk_disjoint_slot:
  assumes "blk_ok ms b" "blk_ok ms c" "blk_slot b = blk_slot c" "blk_bins b \<inter> blk_bins c = {}"
  shows "\<exists>s a q a' q'. b = Small s a q \<and> c = Small s a' q' \<and> (a + q \<le> a' \<or> a' + q' \<le> a)"
proof -
  have disj: "x \<notin> blk_bins b \<or> x \<notin> blk_bins c" for x
    using assms(4) by auto
  show ?thesis
  proof (cases b)
    case b: (Small s a q)
    show ?thesis
    proof (cases c)
      case c: (Small s' a' q')
      have "\<not> (a' \<le> a \<and> a < a' + q')" "\<not> (a \<le> a' \<and> a' < a + q)" "1 \<le> q" "1 \<le> q'" "s' = s"
        using disj [of "(s, a)"] disj [of "(s, a')"] b c assms(1-3) by auto
      then show ?thesis unfolding b c by simp linarith
    next
      case (Large s' m)
      then show ?thesis using disj [of "(s, a)"] b assms(1-3) by simp
    qed
  next
    case b: (Large s m)
    show ?thesis
    proof (cases c)
      case (Small s' a' q')
      then show ?thesis using disj [of "(s, a')"] b assms(1-3) by simp
    next
      case (Large s' m')
      then show ?thesis using disj [of "(s, 0)"] b assms(3) by simp
    qed
  qed
qed

lemma blk_disjoint:
  assumes "disjoint_maps (mapped h)" "slots_ok n h" "blk_ok (slot_maps h) b" "blk_ok (slot_maps h) c"
    "blk_slot b < n" "blk_slot c < n" "blk_bins b \<inter> blk_bins c = {}"
  shows "blk_hi h b \<le> blk_lo h c \<or> blk_hi h c \<le> blk_lo h b"
proof (cases "blk_slot b = blk_slot c")
  case True
  from blk_disjoint_slot [OF assms(3,4) True assms(7)] show ?thesis
    by (elim exE conjE disjE) (auto intro!: diff_le_mono)
next
  case False
  show ?thesis
    using slots_disj [OF assms(1,2,5,6) False] blk_hi_bound [OF assms(2,3,5)]
      blk_hi_bound [OF assms(2,4,6)] blk_lo_bound [OF assms(3), of h] blk_lo_bound [OF assms(4), of h]
    by linarith
qed

subsection \<open>What \<open>malloc\<close> does\<close>

definition take_run :: "u8 \<Rightarrow> nat \<Rightarrow> heap \<Rightarrow> nat \<times> heap" where
  "take_run q c h =
     (let a = slowest_find_consecutive_bin (bin (bins h c)) q;
          h = upd_slot c (\<lambda>b. b\<lparr>bin := set_bin (bin b) a q\<rparr>) h;
          r = page_addr (bins h c) + 16 * unat a
      in (r, h\<lparr>hmem := (hmem h)(r - 1 := q)\<rparr>))"

definition add_slot :: "nat \<Rightarrow> nat \<Rightarrow> heap \<Rightarrow> heap" where
  "add_slot t c h =
     (link_bin t c (upd_slot c (\<lambda>b. b\<lparr>page_addr := hd (os_maps h), nxt := None, bin := set_bin0 1 (bin b)\<rparr>) h))
       \<lparr>bin_tail := Some c, os_maps := tl (os_maps h), mapped := (hd (os_maps h), 0x1000) # mapped h\<rparr>"

definition has_run :: "u8 \<Rightarrow> heap \<Rightarrow> nat \<Rightarrow> bool" where
  "has_run q h c \<longleftrightarrow> slowest_find_consecutive_bin (bin (bins h c)) q \<noteq> 0"

lemma malloc_from_hit: "has_run q h c \<Longrightarrow> malloc_from q h c = Some (take_run q c h)"
  by (subst malloc_from.simps) (simp add: has_run_def take_run_def Let_def)

lemma malloc_from_path:
  assumes "path (next_bin h) c ys"
  shows "malloc_from q h c =
    (case List.find (has_run q h) ys of
       Some s \<Rightarrow> Some (take_run q s h)
     | None \<Rightarrow> (case (os_maps h, bin_tail h) of
         (m # ms, Some t) \<Rightarrow>
            if Suc (last ys) < BIN_SLOTS
            then malloc_from q (add_slot t (Suc (last ys)) h) (Suc (last ys)) else None
       | _ \<Rightarrow> None))"
  using assms
proof (induction ys arbitrary: c)
  case Nil
  then show ?case by simp
next
  case (Cons x ys)
  have x: "c = x" using Cons.prems by (simp add: path_Cons)
  show ?case
  proof (cases "has_run q h x")
    case True
    then show ?thesis using malloc_from_hit x by simp
  next
    case no: False
    show ?thesis
    proof (cases "next_bin h x")
      case None
      then have ys: "ys = []" using Cons.prems by (simp add: path_Cons)
      have slot: "(link_bin t (Suc x) (upd_slot (Suc x) (\<lambda>b. b\<lparr>page_addr := m, nxt := None,
          bin := set_bin0 1 (bin b)\<rparr>) (h\<lparr>os_maps := ms, mapped := (m, 0x1000) # mapped h\<rparr>)))\<lparr>bin_tail := Some (Suc x)\<rparr> =
          add_slot t (Suc x) h" if "os_maps h = m # ms" for t m ms
        by (simp add: add_slot_def link_bin_def upd_slot_def that)
      have "malloc_from q h x = (case (os_maps h, bin_tail h) of
         (m # ms, Some t) \<Rightarrow> if Suc x < BIN_SLOTS then malloc_from q (add_slot t (Suc x) h) (Suc x) else None
       | _ \<Rightarrow> None)"
        using no None
        by (subst malloc_from.simps, cases "os_maps h"; cases "bin_tail h")
           (simp_all add: has_run_def os_mmap_def new_slot_def Let_def slot page_up_def)
      then show ?thesis
        using no unfolding x ys last_ConsL [OF refl] by simp
    next
      case (Some y)
      then have "path (next_bin h) y ys" using Cons.prems by (simp add: path_Cons)
      then have "ys \<noteq> []" by auto
      moreover have "malloc_from q h x = malloc_from q h y"
        using no Some by (subst malloc_from.simps) (simp add: has_run_def)
      ultimately show ?thesis
        using Cons.IH [of y] \<open>path (next_bin h) y ys\<close> no unfolding x last_ConsR [OF \<open>ys \<noteq> []\<close>] by simp
    qed
  qed
qed

lemma find_bits_fresh:
  assumes "0 < unat q"
  shows "slowest_find_consecutive_bin (set_bin0 1 (bin empty_bin)) q = 1"
proof -
  have bits: "bin_bit (set_bin0 1 (bin empty_bin)) k = (k = 0)" if "k < 256" for k
    using that by (auto simp: bin_bit_def set_bin0_def empty_bin_def bit_simps nth_Cons' div_eq_0_iff)
  have "run_free (set_bin0 1 (bin empty_bin)) 1 (unat q)"
    using bits unsigned_less [of q, where ?'a = nat] by (auto simp: run_free_def)
  moreover have "\<not> run_free (set_bin0 1 (bin empty_bin)) 0 (unat q)"
    using bits [of 0] assms by (auto simp: run_free_def)
  ultimately show ?thesis
    using find_is_first_run [OF assms, of "set_bin0 1 (bin empty_bin)"]
      unsigned_less [of q, where ?'a = nat]
    unfolding is_first_run_def
    by (auto simp: ) (metis One_nat_def less_one linorder_neqE_nat of_nat_1)
qed

subsection \<open>The invariant is kept\<close>

lemma has_run_bits:
  assumes "has_run q h c" "0 < unat q"
  obtains a where "slowest_find_consecutive_bin (bin (bins h c)) q = of_nat a" "1 \<le> a"
    "a + unat q \<le> 256" "unat (of_nat a :: u8) = a"
    "\<And>k. a \<le> k \<Longrightarrow> k < a + unat q \<Longrightarrow> \<not> bin_bit (bin (bins h c)) k"
proof -
  obtain a where a: "slowest_find_consecutive_bin (bin (bins h c)) q = of_nat a"
      "a + unat q \<le> 256" "run_free (bin (bins h c)) a (unat q)"
    using find_is_first_run [OF assms(2), of "bin (bins h c)"] assms(1)
    unfolding is_first_run_def has_run_def by blast
  have "unat (of_nat a :: u8) = a"
    using a(2) assms(2) by (simp add: unat_of_nat)
  moreover have "1 \<le> a"
    using a(1) assms(1) by (cases a) (auto simp: has_run_def)
  ultimately show ?thesis
    using that a by (auto simp: run_free_def)
qed

text \<open>A run is taken: the slot list stays as it is, the bits of the run are set.\<close>

lemma take_run_slots:
  assumes "take_run q c h = (r, h')"
  shows "next_bin h' = next_bin h" "bin_head h' = bin_head h" "bin_tail h' = bin_tail h" "mapped h' = mapped h"
    "s \<noteq> c \<Longrightarrow> bins h' s = bins h s" "page_addr (bins h' s) = page_addr (bins h s)"
  using assms by (auto simp: take_run_def Let_def upd_slot_def next_bin_def)

lemma chain_ok_cong:
  "chain_ok n h \<Longrightarrow> next_bin h' = next_bin h \<Longrightarrow> bin_head h' = bin_head h \<Longrightarrow> bin_tail h' = bin_tail h \<Longrightarrow> chain_ok n h'"
  by (simp add: chain_ok_def)

lemma take_run_used:
  assumes "slots_used n h" "chain_ok n h" "c < n" "take_run q c h = (r, h')"
  shows "slots_used n h'" "chain_ok n h'"
proof -
  note t = take_run_slots [OF assms(4)]
  show "slots_used n h'" using assms(1,3) t(5) by (simp add: slots_used_def t(4))
  show "chain_ok n h'" by (rule chain_ok_cong [OF assms(2) t(1-3)])
qed

lemma take_run_inv:
  assumes inv: "slots_ok n h" "chain_ok n h" "blks_ok n h L"
    and run: "has_run q h c" "0 < unat q" "c < n"
    and res: "take_run q c h = (r, h')"
  obtains a where "slots_ok n h'" "chain_ok n h'" "blks_ok n h' (Small c a (unat q) # L)"
    "r = page_addr (bins h c) + 16 * a" "1 \<le> a"
    "\<And>s. page_addr (bins h' s) = page_addr (bins h s)"
proof -
  obtain a where a: "slowest_find_consecutive_bin (bin (bins h c)) q = of_nat a" "1 \<le> a"
    "a + unat q \<le> 256" "unat (of_nat a :: u8) = a"
    "\<And>k. a \<le> k \<Longrightarrow> k < a + unat q \<Longrightarrow> \<not> bin_bit (bin (bins h c)) k"
    by (rule has_run_bits [OF run(1,2)]) blast
  let ?b = "set_bin (bin (bins h c)) (of_nat a) q"
  note t = take_run_slots [OF res]
  have used: "slots_used n h" and len: "length (bin (bins h c)) = 4"
    using inv(1) run(3) by (simp_all add: slots_ok_def)
  have bits: "bin_bit ?b k = (bin_bit (bin (bins h c)) k \<or> a \<le> k \<and> k < a + unat q)" if "k < 256" for k
    using set_bin_bits [of "bin (bins h c)" q "of_nat a" k] len a that run(2) by simp
  have r: "r = page_addr (bins h c) + 16 * a" and bin': "bin (bins h' c) = ?b"
    using res a(1,4) by (auto simp: take_run_def Let_def upd_slot_def)
  have grow: "bin_bit (bin (bins h' s)) k" if "bin_bit (bin (bins h s)) k" "k < 256" for s k
    using that t(5) by (cases "s = c") (auto simp: bin' bits)
  have maps: "slot_maps h' = slot_maps h" by (simp add: slot_maps_def t(4))
  have len': "length (bin (bins h' s)) = length (bin (bins h s))" for s
    using t(5) len by (cases "s = c") (simp_all add: bin')
  have slots: "slots_ok n h'"
    using inv(1) grow [of _ 0] take_run_used(1) [OF used inv(2) run(3) res]
    by (simp add: slots_ok_def maps len' pages_def t(6))
  have "(c, k) \<notin> blk_bins b" if "b \<in> set L" "a \<le> k" "k < a + unat q" for b k
    using that inv(3) a(5) blk_markedD unfolding blks_ok_def by blast
  then have fresh: "blk_bins (Small c a (unat q)) \<inter> blk_bins b = {}" if "b \<in> set L" for b
    using that by auto
  have "blk_marked h' (Small c a (unat q))"
    using bits a(3) by (simp add: blk_marked_def bin')
  then have "blks_ok n h' (Small c a (unat q) # L)"
    using fresh a(2,3) run(2,3) blks_ok_mono [OF inv(3) order_refl, of h' "[]"] grow maps
    by (simp add: blks_ok_Cons)
  then show ?thesis
    using that [OF slots chain_ok_cong [OF inv(2) t(1-3)] _ r a(2) t(6)] by blast
qed

text \<open>A slot \<open>n\<close> is put behind the last one and linked to \<open>p\<close>: what \<open>malloc\<close> and
  \<open>expand_heap\<close> do with a new mapping.\<close>

lemma link_slot:
  assumes "slots_used n h" "n < BIN_SLOTS" "mapped h' = x # mapped h"
    and "\<And>s. s \<noteq> n \<Longrightarrow> s \<noteq> p \<Longrightarrow> bins h' s = bins h s" "bins h' p = (bins h p)\<lparr>nxt := Some n\<rparr>" "p < n"
  shows "slots_used (Suc n) h'" "slot_maps h' = slot_maps h @ [x]"
    "s < n \<Longrightarrow> bin (bins h' s) = bin (bins h s)" "s < n \<Longrightarrow> page_addr (bins h' s) = page_addr (bins h s)"
    "s \<noteq> p \<Longrightarrow> s \<noteq> n \<Longrightarrow> next_bin h' s = next_bin h s" "next_bin h' p = Some n"
proof -
  show "slots_used (Suc n) h'" using assms(1-4,6) by (simp add: slots_used_def)
  show "slot_maps h' = slot_maps h @ [x]"
    by (rule slot_maps_grow [OF _ assms(3)]) (use assms(1) in \<open>auto simp: slots_used_def\<close>)
  show "s < n \<Longrightarrow> bin (bins h' s) = bin (bins h s)" "s < n \<Longrightarrow> page_addr (bins h' s) = page_addr (bins h s)"
    "s \<noteq> p \<Longrightarrow> s \<noteq> n \<Longrightarrow> next_bin h' s = next_bin h s" "next_bin h' p = Some n"
    using assms(4-6) by (cases "s = p"; simp add: next_bin_def)+
qed

lemma link_slot_ok:
  assumes "slots_ok n h" "n < BIN_SLOTS" "mapped h' = (m, l) # mapped h"
    and "\<And>s. s \<noteq> n \<Longrightarrow> s \<noteq> p \<Longrightarrow> bins h' s = bins h s" "bins h' p = (bins h p)\<lparr>nxt := Some n\<rparr>" "p < n"
    and "length (bin (bins h' n)) = 4" "bin_bit (bin (bins h' n)) 0" "page_addr (bins h' n) = m" "0x1000 \<le> l"
  shows "slots_ok (Suc n) h'" "blks_ok n h L \<Longrightarrow> blks_ok (Suc n) h' L"
proof -
  have used: "slots_used n h" using assms(1) by (simp add: slots_ok_def)
  note link = link_slot [OF used assms(2-6)]
  have len: "length (slot_maps h) = n" by (rule slot_maps_length [OF used])
  have "length (bin (bins h' s)) = 4 \<and> bin_bit (bin (bins h' s)) 0 \<and> fst (slot_maps h' ! s) = pages h' s \<and>
      0x1000 \<le> snd (slot_maps h' ! s)" if "s < Suc n" for s
  proof (cases "s < n")
    case True
    then show ?thesis using assms(1) link(2-4) len by (simp add: slots_ok_def pages_def nth_append)
  next
    case False
    then have "s = n" using that by simp
    then show ?thesis using assms(7-10) link(2) len by (simp add: pages_def nth_append)
  qed
  then show "slots_ok (Suc n) h'" using link(1) by (simp add: slots_ok_def)
  show "blks_ok (Suc n) h' L" if "blks_ok n h L"
    by (rule blks_ok_mono [OF that _ link(2)]) (simp_all add: link(3))
qed

lemma add_slot_used:
  assumes "slots_used n h" "chain_ok n h" "n < BIN_SLOTS" "bin_tail h = Some t" "os_maps h = m # ms"
  defines "h' \<equiv> add_slot t n h"
  shows "slots_used (Suc n) h'" "chain_ok (Suc n) h'" "mapped h' = (m, 0x1000) # mapped h" "t < n"
    "\<And>s. s \<noteq> n \<Longrightarrow> s \<noteq> t \<Longrightarrow> bins h' s = bins h s" "bins h' t = (bins h t)\<lparr>nxt := Some n\<rparr>"
    "bin (bins h' n) = set_bin0 1 (bin empty_bin)" "page_addr (bins h' n) = m"
proof -
  obtain xs ys where p: "path (next_bin h) 0 (xs @ t # ys)" "\<forall>s \<in> set (xs @ t # ys). s < n"
    "bin_head h = Some 0"
    using assms(2,4) by (auto simp: chain_ok_def)
  show t: "t < n" using p(2) by simp
  have e: "bins h n = empty_bin" using assms(1) by (simp add: slots_used_def)
  have bins': "bins h' s = (if s = n then \<lparr>bin = set_bin0 1 (bin empty_bin), nxt = None, page_addr = m\<rparr>
      else if s = t then (bins h s)\<lparr>nxt := Some n\<rparr> else bins h s)" for s
    using t assms(5) e by (auto simp: h'_def add_slot_def link_bin_def upd_slot_def empty_bin_def)
  have rest: "bin_head h' = Some 0" "bin_tail h' = Some n"
    using p(3) by (simp_all add: h'_def add_slot_def link_bin_def upd_slot_def)
  show m: "mapped h' = (m, 0x1000) # mapped h"
    using assms(5) by (simp add: h'_def add_slot_def link_bin_def upd_slot_def)
  show eqs: "\<And>s. s \<noteq> n \<Longrightarrow> s \<noteq> t \<Longrightarrow> bins h' s = bins h s" "bins h' t = (bins h t)\<lparr>nxt := Some n\<rparr>"
    "bin (bins h' n) = set_bin0 1 (bin empty_bin)" "page_addr (bins h' n) = m"
    using t by (simp_all add: bins')
  note link = link_slot [OF assms(1,3) m eqs(1,2) t]
  show "slots_used (Suc n) h'" by (rule link(1))
  have "path (next_bin h') 0 (xs @ [t, n])"
  proof (rule path_redirect [OF p(1)])
    show "next_bin h' x = next_bin h x" if "x \<in> set xs" for x
      using that path_distinct [OF p(1)] p(2) by (intro link(5)) auto
  qed (use t link(6) in \<open>simp_all add: next_bin_def bins'\<close>)
  then show "chain_ok (Suc n) h'"
    using p(2) by (intro chain_okI [OF rest, of "xs @ [t]" "[]"]) (auto simp: less_SucI)
qed

lemma expand_heap_used:
  assumes "slots_used n h" "chain_ok n h" "expand_heap sz h = Some (r, h')"
  obtains p where "n < BIN_SLOTS" "mapped h' = (r, page_up (nat sz)) # mapped h" "p < n"
    "\<And>s. s \<noteq> n \<Longrightarrow> s \<noteq> p \<Longrightarrow> bins h' s = bins h s" "bins h' p = (bins h p)\<lparr>nxt := Some n\<rparr>"
    "bins h' n = \<lparr>bin = [- 1, - 1, - 1, - 1], nxt = None, page_addr = r\<rparr>"
    "slots_used (Suc n) h'" "chain_ok (Suc n) h'"
proof -
  obtain t xs ys where p: "path (next_bin h) 0 (xs @ t # ys)" "\<forall>s \<in> set (xs @ t # ys). s < n"
    "bin_head h = Some 0" "bin_tail h = Some t" "Suc (last (t # ys)) = n"
    using assms(2) by (auto simp: chain_ok_def)
  define l where "l = last (t # ys)"
  have n: "n = Suc l" "l < n" "chain_last (next_bin h) 0 = Some l"
    using p(5) chain_last_path [OF p(1)] by (simp_all add: l_def)
  have chain_next: "chain_last (next_bin (h\<lparr>os_maps := ms, mapped := M\<rparr>)) 0 = Some l" for ms M
    using n(3) by (simp add: next_bin_def [abs_def])
  obtain m ms where m: "n < BIN_SLOTS" "r = m"
    "h' = upd_slot n (\<lambda>b. b\<lparr>page_addr := m, nxt := None, bin := [- 1, - 1, - 1, - 1]\<rparr>)
       (link_bin l n (h\<lparr>os_maps := ms, mapped := (m, page_up (nat sz)) # mapped h\<rparr>))"
    using assms(3) chain_next n(1) p(3)
    by (cases "os_maps h")
       (auto simp: expand_heap_def os_mmap_def new_slot_def Let_def split: if_splits)
  have bins': "bins h' s = (if s = n then \<lparr>bin = [- 1, - 1, - 1, - 1], nxt = None, page_addr = r\<rparr>
      else if s = l then (bins h s)\<lparr>nxt := Some n\<rparr> else bins h s)" for s
    using n(2) by (auto simp: m(2,3) link_bin_def upd_slot_def)
  have rest: "bin_head h' = Some 0" "bin_tail h' = Some t" "mapped h' = (r, page_up (nat sz)) # mapped h"
    using p by (simp_all add: m(2,3) link_bin_def upd_slot_def)
  have eqs: "\<And>s. s \<noteq> n \<Longrightarrow> s \<noteq> l \<Longrightarrow> bins h' s = bins h s" "bins h' l = (bins h l)\<lparr>nxt := Some n\<rparr>"
    "bins h' n = \<lparr>bin = [- 1, - 1, - 1, - 1], nxt = None, page_addr = r\<rparr>"
    using n(2) by (simp_all add: bins')
  note link = link_slot [OF assms(1) m(1) rest(3) eqs(1,2) n(2)]
  have "path (next_bin h') 0 ((xs @ t # ys) @ [n])"
    by (rule path_extend [OF p(1), of l]) (use p(2) n in \<open>auto simp: l_def next_bin_def bins'\<close>)
  then have "chain_ok (Suc n) h'"
    using p(2) by (intro chain_okI [OF rest(1,2), of xs "ys @ [n]"]) (auto simp: less_SucI)
  then show ?thesis using that m(1) rest(3) n(2) eqs link(1) by blast
qed

lemma all_bins_set: "k < 256 \<Longrightarrow> bin_bit [- 1, - 1, - 1, - 1] k"
proof -
  assume "k < 256"
  then have "k div 64 < 4" by simp
  then have "k div 64 \<in> {0, 1, 2, 3}" by auto
  then show ?thesis by (auto simp: bin_bit_def bit_simps)
qed

lemma expand_heap_inv:
  assumes "heap_inv n h L" "0 < sz" "expand_heap sz h = Some (r, h')"
  shows "heap_inv (Suc n) h' (Large n (nat sz) # L)" "r = page_addr (bins h' n)"
    "\<And>s. s < n \<Longrightarrow> page_addr (bins h' s) = page_addr (bins h s)"
proof -
  have inv: "slots_ok n h" "chain_ok n h" "blks_ok n h L" "slots_used n h"
    using assms(1) by (auto simp: heap_inv_def slots_ok_def)
  obtain p where p: "n < BIN_SLOTS" "mapped h' = (r, page_up (nat sz)) # mapped h"
    "\<And>s. s \<noteq> n \<Longrightarrow> s \<noteq> p \<Longrightarrow> bins h' s = bins h s" "bins h' p = (bins h p)\<lparr>nxt := Some n\<rparr>" "p < n"
    and new: "bins h' n = \<lparr>bin = [- 1, - 1, - 1, - 1], nxt = None, page_addr = r\<rparr>"
    and chain: "chain_ok (Suc n) h'"
    by (rule expand_heap_used [OF inv(4,2) assms(3)]) blast
  note ok = link_slot_ok [OF inv(1) p, unfolded new, simplified, OF all_bins_set page_up_pos]
  have "slots_ok (Suc n) h'" "blks_ok (Suc n) h' L"
    using ok assms(2) inv(3) by simp_all
  moreover have "blk_bins (Large n (nat sz)) \<inter> blk_bins b = {}" if "b \<in> set L" for b
    using that inv(3) blk_bins_range [of _ _ b "slot_maps h"] unfolding blks_ok_def by fastforce
  moreover have "blk_marked h' (Large n (nat sz))"
    using all_bins_set by (simp add: blk_marked_def new)
  moreover have "blk_ok (slot_maps h') (Large n (nat sz))"
    using link_slot(2) [OF inv(4) p(1-5)] slot_maps_length [OF inv(4)] page_up_ge by (simp add: nth_append)
  ultimately show "heap_inv (Suc n) h' (Large n (nat sz) # L)"
    using chain by (simp add: heap_inv_def blks_ok_Cons)
  show "r = page_addr (bins h' n)" by (simp add: new)
  show "\<And>s. s < n \<Longrightarrow> page_addr (bins h' s) = page_addr (bins h s)"
    by (rule link_slot(4) [OF inv(4) p])
qed

lemma malloc_bins_small:
  assumes "0 \<le> sz" "sz < 0xff0"
  shows "unat (malloc_bins sz) = nat sz div 16 + 1" "nat sz < 16 * unat (malloc_bins sz)"
proof -
  have "sz sdiv 16 = int (nat sz div 16)"
    using assms by (simp add: signed_divide_int_def sgn_if zdiv_int)
  then have "malloc_bins sz = of_nat (nat sz div 16 + 1)"
    by (simp add: malloc_bins_def)
  moreover have "nat sz div 16 + 1 < 256" using assms by auto
  ultimately show *: "unat (malloc_bins sz) = nat sz div 16 + 1"
    by (simp add: unat_of_nat take_bit_nat_eq_self del: of_nat_add of_nat_Suc)
  show "nat sz < 16 * unat (malloc_bins sz)"
    unfolding * by simp
qed

text \<open>A small request takes a run of a slot in use or of a new one.\<close>

lemma malloc_small_cases:
  assumes used: "slots_used n h" "chain_ok n h" and sz: "0 \<le> sz" "sz < 0xff0"
  obtains s where "s < n" "has_run (malloc_bins sz) h s" "malloc sz h = Some (take_run (malloc_bins sz) s h)"
  | t m ms where "n < BIN_SLOTS" "bin_tail h = Some t" "os_maps h = m # ms"
      "has_run (malloc_bins sz) (add_slot t n h) n" "malloc sz h = Some (take_run (malloc_bins sz) n (add_slot t n h))"
  | "malloc sz h = None" "os_maps h = [] \<or> n = BIN_SLOTS"
proof -
  define q where "q = malloc_bins sz"
  have q: "0 < unat q" using malloc_bins_small [OF sz] by (simp add: q_def)
  obtain t xs ys where p: "path (next_bin h) 0 (xs @ t # ys)" "\<forall>s \<in> set (xs @ t # ys). s < n"
    "bin_tail h = Some t" "Suc (last (t # ys)) = n"
    using used(2) by (auto simp: chain_ok_def)
  have m: "malloc sz h = malloc_from q h t"
    using sz p(3) by (simp add: malloc_def q_def)
  note walk = malloc_from_path [OF path_suffix [OF p(1)], of q, unfolded p(3,4), folded m]
  show ?thesis
  proof (cases "List.find (has_run q h) (t # ys)")
    case (Some s)
    then show ?thesis
      using find_SomeD [OF Some] p(2) walk that(1) [of s] by (auto simp: q_def)
  next
    case none: None
    show ?thesis
    proof (cases "os_maps h = [] \<or> n = BIN_SLOTS")
      case True
      then show ?thesis using walk none that(3) by (auto split: list.splits)
    next
      case False
      then obtain mp ms where os: "os_maps h = mp # ms" and lt: "n < BIN_SLOTS"
        using used(1) by (cases "os_maps h") (auto simp: slots_used_def)
      have "has_run q (add_slot t n h) n"
        using find_bits_fresh [OF q] add_slot_used(7) [OF used lt p(3) os] by (simp add: has_run_def)
      then show ?thesis
        using that(2) [OF lt p(3) os] walk none os lt malloc_from_hit by (simp add: q_def)
    qed
  qed
qed

lemma malloc_used:
  assumes "slots_used n h" "chain_ok n h" "0 \<le> sz" "malloc sz h = Some (r, h')"
  shows "\<exists>n'. slots_used n' h' \<and> chain_ok n' h'"
proof (cases "sz < 0xff0")
  case True
  from malloc_small_cases [OF assms(1-3) True] show ?thesis
  proof cases
    case (1 s)
    then have "take_run (malloc_bins sz) s h = (r, h')" using assms(4) by simp
    then show ?thesis using take_run_used [OF assms(1,2) 1(1)] by blast
  next
    case (2 t m ms)
    then have "take_run (malloc_bins sz) n (add_slot t n h) = (r, h')" using assms(4) by simp
    then show ?thesis
      using take_run_used [OF add_slot_used(1,2) [OF assms(1,2) 2(1-3)] lessI] by blast
  next
    case 3
    then show ?thesis using assms(4) by simp
  qed
next
  case False
  then have "expand_heap sz h = Some (r, h')" using assms(4) by (simp add: malloc_def)
  then show ?thesis by (rule expand_heap_used [OF assms(1,2)]) blast
qed

text \<open>What one allocation adds: a block that holds the bytes handed out.\<close>

definition alloc_grows :: "nat \<Rightarrow> heap \<Rightarrow> blk list \<Rightarrow> int \<Rightarrow> nat \<Rightarrow> heap \<Rightarrow> bool" where
  "alloc_grows n h L sz r h' \<longleftrightarrow>
     (\<exists>n' b. heap_inv n' h' (b # L) \<and> blk_lo h' b \<le> r
        \<and> r + nat sz \<le> blk_hi h' b \<and> (\<forall>s < n. page_addr (bins h' s) = page_addr (bins h s)))"

lemma take_run_grows:
  assumes inv: "heap_inv n h L" and run: "has_run q h c" "nat sz < 16 * unat q" "c < n"
    and res: "take_run q c h = (r, h')"
  shows "alloc_grows n h L sz r h'"
proof -
  have "0 < unat q" using run(2) by (cases "unat q") auto
  from take_run_inv [OF _ _ _ run(1) this run(3) res, of L] inv
  obtain a where a: "slots_ok n h'" "chain_ok n h'" "blks_ok n h' (Small c a (unat q) # L)"
    "r = page_addr (bins h c) + 16 * a" "1 \<le> a"
    "\<And>s. page_addr (bins h' s) = page_addr (bins h s)"
    unfolding heap_inv_def by metis
  then show ?thesis
    using run(2) unfolding alloc_grows_def heap_inv_def
    by (intro exI [of _ n] exI [of _ "Small c a (unat q)"]) auto
qed

lemma expand_heap_grows:
  assumes "heap_inv n h L" "0 < sz" "expand_heap sz h = Some (r, h')"
  shows "alloc_grows n h L sz r h'"
  using expand_heap_inv [OF assms] unfolding alloc_grows_def
  by (intro exI [of _ "Suc n"] exI [of _ "Large n (nat sz)"]) auto

lemma malloc_inv:
  assumes inv: "heap_inv n h L" and sz: "0 \<le> sz" and res: "malloc sz h = Some (r, h')"
  shows "alloc_grows n h L sz r h'"
proof (cases "sz < 0xff0")
  case small: True
  have ok: "slots_ok n h" "chain_ok n h" "blks_ok n h L" "slots_used n h"
    using inv by (auto simp: heap_inv_def slots_ok_def)
  have q: "nat sz < 16 * unat (malloc_bins sz)" by (rule malloc_bins_small(2) [OF sz small])
  from malloc_small_cases [OF ok(4,2) sz small] show ?thesis
  proof cases
    case (1 s)
    then show ?thesis using take_run_grows [OF inv 1(2) q 1(1)] res by simp
  next
    case (2 t m ms)
    define g where "g = add_slot t n h"
    note add = add_slot_used [OF ok(4,2) 2(1-3), folded g_def]
    have "length (bin (bins g n)) = 4" "bin_bit (bin (bins g n)) 0"
      by (simp_all add: add(7) set_bin0_def empty_bin_def bin_bit_def)
    note new = link_slot_ok [OF ok(1) 2(1) add(3,5,6,4) this add(8) order_refl]
    have "heap_inv (Suc n) g L" using new add(2) ok(3) by (simp add: heap_inv_def)
    then have "alloc_grows (Suc n) g L sz r h'"
      using take_run_grows [OF _ 2(4) [folded g_def] q lessI] 2(5) res by (simp add: g_def)
    then show ?thesis
      using link_slot(4) [OF ok(4) 2(1) add(3,5,6,4)] unfolding alloc_grows_def by (metis less_Suc_eq)
  next
    case 3
    then show ?thesis using res by simp
  qed
next
  case False
  then have "expand_heap sz h = Some (r, h')" using res by (simp add: malloc_def)
  then show ?thesis using expand_heap_grows [OF inv] False by simp
qed

lemma mem_init_inv:
  assumes "mem_init h = Some h'" "\<not> INIT_DONE h" "mapped h = []" "INIT_DONE h'"
  shows "heap_inv 1 h' []"
proof -
  obtain c m where h': "bins h' = (\<lambda>_. empty_bin)(0 := \<lparr>bin = set_bin0 1 (bin empty_bin), nxt = None, page_addr = m\<rparr>)"
      "bin_head h' = Some 0" "bin_tail h' = Some 0" "mapped h' = [(m, 0x1000), (c, 0x1000)]"
    using assms
    by (auto simp: mem_init_def os_mmap_def upd_slot_def Let_def empty_bin_def page_up_def split: list.splits if_splits)
  have "chain_ok 1 h'"
    by (rule chain_okI [of h' 0 "[]" "[]"]) (simp_all add: h' next_bin_def)
  then show ?thesis
    unfolding heap_inv_def slots_ok_def slots_used_def blks_ok_def
    by (simp add: h' slot_maps_def pages_def set_bin0_def empty_bin_def bin_bit_def BIN_SLOTS_def)
qed

subsection \<open>Sequences of allocations\<close>

text \<open>The states the program can reach by \<open>mem_init\<close> and then any calls of
  \<open>__malloc\<close> and \<open>__thalloc\<close>, with the blocks handed out so far, the latest first.\<close>

inductive heap_reach :: "heap \<Rightarrow> (nat \<times> int) list \<Rightarrow> bool" where
  init: "\<lbrakk>\<not> INIT_DONE h; mapped h = []; mem_init h = Some h'; INIT_DONE h'\<rbrakk> \<Longrightarrow> heap_reach h' []"
| alloc: "\<lbrakk>heap_reach h U; 0 \<le> sz; malloc sz h = Some (r, h')\<rbrakk> \<Longrightarrow> heap_reach h' ((r, sz) # U)"
| thread: "\<lbrakk>heap_reach h U; thalloc h = Some (r, h')\<rbrakk> \<Longrightarrow> heap_reach h' ((r, 1024) # U)"

text \<open>The states it can reach if it also calls \<open>__free\<close>, with any pointer.\<close>

inductive heap_run :: "heap \<Rightarrow> bool" where
  init: "\<lbrakk>\<not> INIT_DONE h; mapped h = []; mem_init h = Some h'; INIT_DONE h'\<rbrakk> \<Longrightarrow> heap_run h'"
| alloc: "\<lbrakk>heap_run h; 0 \<le> sz; malloc sz h = Some (r, h')\<rbrakk> \<Longrightarrow> heap_run h'"
| thread: "\<lbrakk>heap_run h; thalloc h = Some (r, h')\<rbrakk> \<Longrightarrow> heap_run h'"
| free: "\<lbrakk>heap_run h; free p h = Some h'\<rbrakk> \<Longrightarrow> heap_run h'"

definition blk_holds :: "heap \<Rightarrow> nat \<times> int \<Rightarrow> blk \<Rightarrow> bool" where
  "blk_holds h u b \<longleftrightarrow> blk_lo h b \<le> fst u \<and> fst u + nat (snd u) \<le> blk_hi h b"

lemma blk_holds_cong:
  "page_addr (bins h' (blk_slot b)) = page_addr (bins h (blk_slot b)) \<Longrightarrow> blk_holds h' u b = blk_holds h u b"
  by (cases b) (simp_all add: blk_holds_def)

lemma alloc_grows_reach:
  assumes "alloc_grows n h L sz r h'" "heap_inv n h L" "list_all2 (blk_holds h) U L"
  shows "\<exists>n L. heap_inv n h' L \<and> list_all2 (blk_holds h') ((r, sz) # U) L"
proof -
  obtain n' b where n': "heap_inv n' h' (b # L)" "blk_lo h' b \<le> r" "r + nat sz \<le> blk_hi h' b"
    "\<forall>s < n. page_addr (bins h' s) = page_addr (bins h s)"
    using assms(1) unfolding alloc_grows_def by blast
  have "\<forall>c \<in> set L. blk_slot c < n"
    using assms(2) by (auto simp: heap_inv_def blks_ok_def)
  then have "blk_holds h' u c = blk_holds h u c" if "c \<in> set L" for u c
    using that n'(4) blk_holds_cong [of h' c h] by blast
  then have "list_all2 (blk_holds h') U L"
    using assms(3) unfolding list_all2_conv_all_nth by (metis nth_mem)
  then have "list_all2 (blk_holds h') ((r, sz) # U) (b # L)"
    using n'(2,3) by (simp add: blk_holds_def)
  then show ?thesis using n'(1) by blast
qed

lemma heap_reach_inv:
  "heap_reach h U \<Longrightarrow> \<exists>n L. heap_inv n h L \<and> list_all2 (blk_holds h) U L"
proof (induction rule: heap_reach.induct)
  case (init h h')
  then show ?case
    using mem_init_inv [OF init(3,1,2,4)] by (intro exI [of _ 1] exI [of _ "[]"]) simp
next
  case (alloc h U sz r h')
  then obtain n L where L: "heap_inv n h L" "list_all2 (blk_holds h) U L" by blast
  show ?case by (rule alloc_grows_reach [OF malloc_inv [OF L(1) alloc(2,3)] L])
next
  case (thread h U r h')
  then obtain n L where L: "heap_inv n h L" "list_all2 (blk_holds h) U L" by blast
  have "expand_heap 1024 h = Some (r, h')" using thread(2) by (simp add: thalloc_def)
  from alloc_grows_reach [OF expand_heap_grows [OF L(1) _ this] L] show ?case by simp
qed

lemma free_from_bits:
  assumes "path (next_bin h) d xs" "free_from p q h d = Some h'"
  shows "h' = h \<or> (\<exists>c \<in> set xs. \<exists>b' m'. h' = (upd_slot c (\<lambda>b. b\<lparr>bin := b'\<rparr>) h)\<lparr>hmem := m'\<rparr>)"
  using assms
proof (induction xs arbitrary: d)
  case Nil
  then show ?case by simp
next
  case (Cons x xs)
  have x: "d = x" using Cons.prems(1) by (simp add: path_Cons)
  show ?case
  proof (cases "page_addr (bins h x) \<le> p \<and> p - page_addr (bins h x) < 0x1000")
    case True
    then have "free_in p q x h = Some h'" using Cons.prems(2) x by (subst (asm) free_from.simps) simp
    then show ?thesis by (auto simp: free_in_def bind_eq_Some_conv)
  next
    case no: False
    show ?thesis
    proof (cases "next_bin h x")
      case None
      then show ?thesis using Cons.prems(2) x no by (subst (asm) free_from.simps) auto
    next
      case (Some y)
      then have "free_from p q h y = Some h'"
        using Cons.prems(2) x no by (subst (asm) free_from.simps) auto
      moreover have "path (next_bin h) y xs" using Cons.prems(1) Some by (simp add: path_Cons)
      ultimately show ?thesis using Cons.IH [of y] by auto
    qed
  qed
qed

lemma free_used:
  assumes "slots_used n h" "chain_ok n h" "free p h = Some h'"
  shows "slots_used n h'" "chain_ok n h'"
proof -
  obtain xs where xs: "bin_head h = Some 0" "path (next_bin h) 0 xs" "\<forall>s \<in> set xs. s < n"
    using assms(2) by (auto simp: chain_ok_def)
  obtain q where "free_from p q h 0 = Some h'"
    using assms(3) xs(1) by (auto simp: free_def Let_def)
  from free_from_bits [OF xs(2) this] have *: "slots_used n h' \<and> chain_ok n h'"
  proof (elim disjE bexE exE)
    fix c b' m' assume c: "c \<in> set xs" and h': "h' = (upd_slot c (\<lambda>b. b\<lparr>bin := b'\<rparr>) h)\<lparr>hmem := m'\<rparr>"
    have "slots_used n h'" using assms(1) c xs(3) by (auto simp: slots_used_def h' upd_slot_def)
    moreover have "next_bin h' = next_bin h" by (rule ext) (simp add: next_bin_def h' upd_slot_def)
    then have "chain_ok n h'" by (rule chain_ok_cong [OF assms(2)]) (simp_all add: h' upd_slot_def)
    ultimately show ?thesis by blast
  qed (use assms in simp)
  show "slots_used n h'" "chain_ok n h'" using * by blast+
qed

lemma heap_run_used: "heap_run h \<Longrightarrow> \<exists>n. slots_used n h \<and> chain_ok n h"
proof (induction rule: heap_run.induct)
  case (init h h')
  then show ?case using mem_init_inv [OF init(3,1,2,4)] by (auto simp: heap_inv_def slots_ok_def)
next
  case (alloc h sz r h')
  then show ?case using malloc_used by blast
next
  case (thread h r h')
  then obtain n where n: "slots_used n h" "chain_ok n h" by blast
  have "expand_heap 1024 h = Some (r, h')" using thread(2) by (simp add: thalloc_def)
  then show ?case by (rule expand_heap_used [OF n]) blast
next
  case (free h p h')
  then show ?case using free_used by blast
qed

text \<open>C1: after \<open>mem_init\<close>, the blocks that any sequence of \<open>__malloc\<close> and \<open>__thalloc\<close>
  calls hands out never overlap, small ones that share a page and ones with a mapping
  of their own alike.  Of the kernel it is only needed that the mappings the allocator
  made, each with the length it asked for in whole pages, do not overlap.\<close>

theorem malloc_blocks_disjoint:
  assumes "heap_reach h U" "disjoint_maps (mapped h)" "i < j" "j < length U"
  shows "fst (U ! i) + nat (snd (U ! i)) \<le> fst (U ! j) \<or> fst (U ! j) + nat (snd (U ! j)) \<le> fst (U ! i)"
proof -
  obtain n L where L: "heap_inv n h L" "list_all2 (blk_holds h) U L"
    using heap_reach_inv [OF assms(1)] by blast
  have len: "length L = length U" using L(2) by (simp add: list_all2_lengthD)
  have ij: "i < length L" "j < length L" using assms len by simp_all
  have inv: "slots_ok n h" "blks_ok n h L" using L(1) by (auto simp: heap_inv_def)
  have "blk_bins (L ! i) \<inter> blk_bins (L ! j) = {}"
    using inv(2) assms(3) ij(2) by (auto simp: blks_ok_def sorted_wrt_iff_nth_less)
  moreover have "blk_ok (slot_maps h) (L ! k) \<and> blk_slot (L ! k) < n" if "k < length L" for k
    using inv(2) that by (auto simp: blks_ok_def)
  ultimately have "blk_hi h (L ! i) \<le> blk_lo h (L ! j) \<or> blk_hi h (L ! j) \<le> blk_lo h (L ! i)"
    using blk_disjoint [OF assms(2) inv(1)] ij by blast
  then show ?thesis
    using list_all2_nthD2 [OF L(2) ij(1)] list_all2_nthD2 [OF L(2) ij(2)]
    unfolding blk_holds_def by linarith
qed

text \<open>C2: after any sequence of \<open>__malloc\<close>, \<open>__thalloc\<close> and \<open>__free\<close> calls, a small
  request is served as long as the kernel grants a mapping and the page of slots, which
  has room for 85, is not full (one slot is used for every mapping behind the first):
  the search loop of \<open>__malloc\<close>, with its jump back after a new page, ends and returns
  a block.\<close>

theorem malloc_returns:
  assumes "heap_run h" "0 \<le> sz" "sz < 0xff0" "os_maps h \<noteq> []" "length (mapped h) - 1 < 85"
  shows "\<exists>r h'. malloc sz h = Some (r, h')"
proof -
  obtain n where n: "slots_used n h" "chain_ok n h" using heap_run_used [OF assms(1)] by blast
  have "n < BIN_SLOTS" using n(1) assms(5) by (simp add: slots_used_def BIN_SLOTS_def)
  from malloc_small_cases [OF n assms(2,3)] show ?thesis
  proof cases
    case (1 s)
    then show ?thesis by (cases "take_run (malloc_bins sz) s h") simp
  next
    case (2 t m ms)
    then show ?thesis by (cases "take_run (malloc_bins sz) n (add_slot t n h)") simp
  next
    case 3
    then show ?thesis using assms(4) \<open>n < BIN_SLOTS\<close> by simp
  qed
qed

subsection \<open>Concrete runs\<close>

definition os_start :: "nat list \<Rightarrow> heap" where
  "os_start ms = \<lparr>bins = (\<lambda>_. empty_bin), bin_head = None, bin_tail = None, INIT_DONE = False,
     hmem = (\<lambda>_. 0), os_maps = ms, mapped = []\<rparr>"

definition one_page :: "nat \<Rightarrow> u64 \<Rightarrow> mem \<Rightarrow> nat list \<Rightarrow> heap" where
  "one_page p b m ms = \<lparr>bins = (\<lambda>_. empty_bin)(0 := \<lparr>bin = [b, 0, 0, 0], nxt = None, page_addr = p\<rparr>),
     bin_head = Some 0, bin_tail = Some 0, INIT_DONE = True, hmem = m, os_maps = ms,
     mapped = [(p, 0x1000), (0x1000, 0x1000)]\<rparr>"

lemma mem_init_start: "mem_init (os_start (0x1000 # p # ms)) = Some (one_page p 1 (\<lambda>_. 0) ms)"
  by (simp add: mem_init_def os_start_def os_mmap_def upd_slot_def one_page_def empty_bin_def set_bin0_def page_up_def)

lemma one_page_maps: "0x2000 \<le> p \<Longrightarrow> disjoint_maps (mapped (one_page p b m ms))"
  by (simp add: one_page_def disjoint_maps_def apart_def)

lemma malloc_one_page:
  assumes "sz < 0xff0" "malloc_bins sz = q" "slowest_find_consecutive_bin [b, 0, 0, 0] q = a" "a \<noteq> 0"
    "set_bin [b, 0, 0, 0] a q = [b', 0, 0, 0]"
  shows "malloc sz (one_page p b m ms) =
    Some (p + 16 * unat a, one_page p b' (m(p + 16 * unat a - 1 := q)) ms)"
  using assms malloc_from_hit [of q "one_page p b m ms" 0]
  by (simp add: malloc_def one_page_def has_run_def take_run_def upd_slot_def Let_def)

lemma free_one_page:
  assumes "p mod 0x1000 = 0" "0 < k" "k < 256" "m (p + 16 * k - 1) = q"
    "unset_bin [b, 0, 0, 0] (of_nat k) q = Some [b', 0, 0, 0]"
  shows "free (p + 16 * k) (one_page p b m ms) = Some (one_page p b' (zero_bytes (p + 16 * k) (16 * unat q) m) ms)"
proof -
  have "(p + 16 * k) mod 0x1000 = 16 * k"
    using assms(1-3) by (simp add: mod_add_eq [symmetric])
  then have ne: "(p + 16 * k) mod 0x1000 \<noteq> 0" using assms(2) by simp
  have "free_from (p + 16 * k) q (one_page p b m ms) 0 =
      Some (one_page p b' (zero_bytes (p + 16 * k) (16 * unat q) m) ms)"
    using assms(3,5)
    by (subst free_from.simps) (simp add: one_page_def free_in_def upd_slot_def)
  then show ?thesis
    using ne assms(4) by (simp add: free_def one_page_def)
qed

lemma bitmap_values:
  "slowest_find_consecutive_bin [1, 0, 0, 0] 1 = 1" "set_bin [1, 0, 0, 0] 1 1 = [3, 0, 0, 0]"
  "slowest_find_consecutive_bin [3, 0, 0, 0] 1 = 2" "set_bin [3, 0, 0, 0] 2 1 = [7, 0, 0, 0]"
  "slowest_find_consecutive_bin [1, 0, 0, 0] 2 = 1" "set_bin [1, 0, 0, 0] 1 2 = [7, 0, 0, 0]"
  "unset_bin [7, 0, 0, 0] 1 1 = Some [1, 0, 0, 0]" "unset_bin [3, 0, 0, 0] 1 1 = Some [1, 0, 0, 0]"
  "malloc_bins 8 = 1" "malloc_bins 20 = 2"
  by code_simp+

definition mem2 :: mem where
  "mem2 = (\<lambda>_. 0)(0x200f := 1, 0x201f := 1)"

lemma one_page_reach: "heap_reach (one_page p 1 (\<lambda>_. 0) ms) []"
  by (rule heap_reach.init [of "os_start (0x1000 # p # ms)"])
     (simp_all add: mem_init_start, simp_all add: os_start_def one_page_def)

lemma heap_reach_two: "heap_reach (one_page 0x2000 7 mem2 []) [(0x2020, 8), (0x2010, 8)]"
proof -
  have "heap_reach (one_page 0x2000 3 ((\<lambda>_. 0)(0x200f := 1)) []) [(0x2010, 8)]"
    by (rule heap_reach.alloc [OF one_page_reach [of "0x2000"]]) (simp_all add: malloc_one_page bitmap_values)
  then show ?thesis
    by (rule heap_reach.alloc) (simp_all add: malloc_one_page bitmap_values mem2_def)
qed

text \<open>A third block, of 5000 bytes, in a mapping of its own.\<close>

definition heap3 :: heap where
  "heap3 = (one_page 0x2000 7 mem2 [])\<lparr>bins := (bins (one_page 0x2000 7 mem2 []))
       (0 := \<lparr>bin = [7, 0, 0, 0], nxt = Some 1, page_addr = 0x2000\<rparr>,
        1 := \<lparr>bin = [- 1, - 1, - 1, - 1], nxt = None, page_addr = 0x8000\<rparr>),
     mapped := [(0x8000, 0x2000), (0x2000, 0x1000), (0x1000, 0x1000)]\<rparr>"

lemma heap_reach_three: "heap_reach heap3 [(0x8000, 5000), (0x2020, 8), (0x2010, 8)]"
proof -
  have "heap_reach (one_page 0x2000 1 (\<lambda>_. 0) [0x8000]) []" by (rule one_page_reach)
  then have "heap_reach (one_page 0x2000 3 ((\<lambda>_. 0)(0x200f := 1)) [0x8000]) [(0x2010, 8)]"
    by (rule heap_reach.alloc) (simp_all add: malloc_one_page bitmap_values)
  then have "heap_reach (one_page 0x2000 7 mem2 [0x8000]) [(0x2020, 8), (0x2010, 8)]"
    by (rule heap_reach.alloc) (simp_all add: malloc_one_page bitmap_values mem2_def)
  then show ?thesis
  proof (rule heap_reach.alloc)
    show "malloc 5000 (one_page 0x2000 7 mem2 [0x8000]) = Some (0x8000, heap3)"
      by (simp add: malloc_def expand_heap_def os_mmap_def one_page_def page_up_def chain_last.simps next_bin_def
          new_slot_def BIN_SLOTS_def link_bin_def upd_slot_def heap3_def fun_eq_iff)
  qed simp
qed

lemma malloc_blocks_disjoint_witness: "(0x8000 :: nat) + nat 5000 \<le> 0x2010 \<or> (0x2010 :: nat) + nat 8 \<le> 0x8000"
proof -
  have "disjoint_maps (mapped heap3)" by (simp add: heap3_def disjoint_maps_def apart_def)
  from malloc_blocks_disjoint [OF heap_reach_three this, of 0 2] show ?thesis by simp
qed

text \<open>A block is given, freed, and the next request served.\<close>

lemma malloc_returns_witness: "\<exists>r h'. malloc 100 (one_page 0x2000 1 (zero_bytes 0x2010 16 ((\<lambda>_. 0)(0x200f := 1))) [0x7000]) = Some (r, h')"
proof -
  have "heap_run (one_page 0x2000 1 (\<lambda>_. 0) [0x7000])"
    by (rule heap_run.init [of "os_start [0x1000, 0x2000, 0x7000]"])
       (simp_all add: mem_init_start, simp_all add: os_start_def one_page_def)
  then have "heap_run (one_page 0x2000 3 ((\<lambda>_. 0)(0x200f := 1)) [0x7000])"
    by (rule heap_run.alloc [where sz = 8]) (simp_all add: malloc_one_page bitmap_values)
  then have "heap_run (one_page 0x2000 1 (zero_bytes 0x2010 16 ((\<lambda>_. 0)(0x200f := 1))) [0x7000])"
    by (rule heap_run.free [where p = "0x2010"])
       (use free_one_page [where p = "0x2000" and k = 1 and m = "(\<lambda>_. 0)(0x200f := 1)" and q = 1 and b = 3 and b' = 1] in
         \<open>simp add: bitmap_values\<close>)
  then show ?thesis
    by (rule malloc_returns) (simp_all add: one_page_def)
qed

subsection \<open>Freeing\<close>

text \<open>Releasing a whole mapping never returns.  A block that
  \<open>expand_heap\<close> handed out starts on a page boundary; \<open>__free\<close> then clears 255
  bins from bin 0 with an 8-bit counter whose bound is 255, and the loop never
  ends.\<close>

theorem free_of_page_hangs:
  assumes "bin_head h = Some c" "page_addr (bins h c) = p" "p mod 0x1000 = 0"
  shows "free p h = None"
  using assms by (subst free_def) (simp add: free_from.simps [of _ _ _ c] free_in_def unset_bin_never_returns)

lemma free_of_page_hangs_witness: "free 0x2000 (one_page 0x2000 1 (\<lambda>_. 0) []) = None"
  by (rule free_of_page_hangs [of _ 0]) (simp_all add: one_page_def)

lemma free_from_path:
  assumes "path (next_bin h) d xs" "c \<in> set xs"
    and "page_addr (bins h c) \<le> p" "p < page_addr (bins h c) + 0x1000"
    and "\<And>s. s \<in> set xs \<Longrightarrow> s \<noteq> c \<Longrightarrow> \<not> (page_addr (bins h s) \<le> p \<and> p < page_addr (bins h s) + 0x1000)"
  shows "free_from p q h d = free_in p q c h"
  using assms
proof (induction xs arbitrary: d)
  case Nil
  then show ?case by simp
next
  case (Cons x xs)
  have x: "d = x" using Cons.prems(1) by (simp add: path_Cons)
  show ?case
  proof (cases "x = c")
    case True
    then show ?thesis using Cons.prems(3,4) x by (subst free_from.simps) auto
  next
    case False
    then obtain y where y: "next_bin h x = Some y" "path (next_bin h) y xs"
      using Cons.prems(1,2) by (auto simp: path_Cons split: option.splits)
    have "\<not> (page_addr (bins h x) \<le> p \<and> p - page_addr (bins h x) < 0x1000)"
      using Cons.prems(5) [of x] False by (simp, linarith)
    then have "free_from p q h d = free_from p q h y"
      using y(1) x by (subst free_from.simps) auto
    then show ?thesis
      using Cons.IH [OF y(2)] Cons.prems False by simp
  qed
qed

lemma nat_sixteenths:
  assumes "16 * int n < sz" "sz < 16 * int n + 16"
  shows "16 * n < nat sz" "nat sz div 16 = n"
proof -
  show "16 * n < nat sz" using assms(1) by linarith
  moreover have "nat sz < 16 * n + 16" using assms by linarith
  ultimately show "nat sz div 16 = n" by linarith
qed

lemma find_unique_slot:
  assumes "0 < unat q" "run_free b a (unat q)" "\<And>s. s < a \<Longrightarrow> \<not> run_free b s (unat q)" "a + unat q \<le> 256"
  shows "slowest_find_consecutive_bin b q = of_nat a"
  using find_is_first_run [OF assms(1), of b] unfolding is_first_run_def
proof (elim disjE exE conjE)
  fix s assume s: "run_free b s (unat q)" "\<forall>s' < s. \<not> run_free b s' (unat q)"
    and r: "slowest_find_consecutive_bin b q = of_nat s"
  have "s = a" using assms(2,3) s by (meson linorder_neqE_nat)
  then show ?thesis using r by simp
qed (use assms(2,4) in simp)

lemma free_small_heap:
  assumes chain: "bin_head h = Some d" "path (next_bin h) d xs" "c \<in> set xs" "\<forall>s \<in> set xs. s < n"
    and slots: "slots_ok n h" "disjoint_maps (mapped h)" "page_addr (bins h c) mod 0x1000 = 0"
    and blk: "0 < a" "a < 64" "a + unat q < 255" "hmem h (page_addr (bins h c) + 16 * a - 1) = q"
  defines "p \<equiv> page_addr (bins h c) + 16 * a"
  obtains b' where "free p h =
      Some ((upd_slot c (\<lambda>b. b\<lparr>bin := b'\<rparr>) h)\<lparr>hmem := zero_bytes p (16 * unat q) (hmem h)\<rparr>)"
    "\<And>k. bin_bit b' k = (bin_bit (bin (bins h c)) k \<and> \<not> (a \<le> k \<and> k \<le> a + unat q))"
proof -
  have "p mod 0x1000 = 16 * a"
    using slots(3) blk(1,2) by (simp add: p_def mod_add_eq [symmetric])
  then have "free p h = free_from p q h d"
    using blk(1,4) chain(1) by (simp add: free_def p_def)
  also have "\<dots> = free_in p q c h"
  proof (rule free_from_path [OF chain(2,3)])
    show "page_addr (bins h c) \<le> p" "p < page_addr (bins h c) + 0x1000"
      using blk(2) by (simp_all add: p_def)
    show "\<not> (page_addr (bins h s) \<le> p \<and> p < page_addr (bins h s) + 0x1000)"
      if "s \<in> set xs" "s \<noteq> c" for s
    proof -
      have s: "s < n" "c < n" using that chain(3,4) by blast+
      then have "0x1000 \<le> snd (slot_maps h ! s)" "0x1000 \<le> snd (slot_maps h ! c)"
        using slots(1) by (simp_all add: slots_ok_def)
      then show ?thesis
        using slots_disj [OF slots(2,1) s that(2)] blk(2) by (auto simp: p_def)
    qed
  qed
  finally have f: "free p h = free_in p q c h" .
  have ua: "unat (of_nat a :: u8) = a"
    using blk(2) by (simp add: unat_of_nat take_bit_nat_eq_self)
  have "length (bin (bins h c)) = 4" using slots(1) chain(3,4) by (auto simp: slots_ok_def)
  then obtain b' where b': "unset_bin (bin (bins h c)) (of_nat a) q = Some b'"
    "\<And>k. bin_bit b' k = (bin_bit (bin (bins h c)) k \<and> \<not> (a \<le> k \<and> k \<le> a + unat q))"
    using unset_bin_bits [of "bin (bins h c)" "of_nat a" q] blk(2,3) unfolding ua by blast
  have "free p h = Some ((upd_slot c (\<lambda>b. b\<lparr>bin := b'\<rparr>) h)\<lparr>hmem := zero_bytes p (16 * unat q) (hmem h)\<rparr>)"
    unfolding f free_in_def using b'(1) by (simp add: p_def)
  then show ?thesis using that b'(2) by blast
qed

text \<open>C4: what \<open>__free\<close> does to a small block in the first 64 bins of its
  page: it finds the page through the slot list, returns, clears the bins of the
  block and the one bin after it, changes no other bin of any page, and zeroes
  the \<open>16 * q\<close> bytes from the block on.\<close>

theorem free_small_block:
  assumes chain: "bin_head h = Some d" "path (next_bin h) d xs" "c \<in> set xs" "\<forall>s \<in> set xs. s < n"
    and slots: "slots_ok n h" "disjoint_maps (mapped h)" "page_addr (bins h c) mod 0x1000 = 0"
    and blk: "0 < a" "a < 64" "a + unat q < 255" "hmem h (page_addr (bins h c) + 16 * a - 1) = q"
  defines "p \<equiv> page_addr (bins h c) + 16 * a"
  shows "\<exists>h'. free p h = Some h' \<and> hmem h' = zero_bytes p (16 * unat q) (hmem h) \<and>
    (\<forall>s k. bin_bit (bin (bins h' s)) k =
      (bin_bit (bin (bins h s)) k \<and> \<not> (s = c \<and> a \<le> k \<and> k \<le> a + unat q)))"
proof -
  obtain b' where "free p h =
      Some ((upd_slot c (\<lambda>b. b\<lparr>bin := b'\<rparr>) h)\<lparr>hmem := zero_bytes p (16 * unat q) (hmem h)\<rparr>)"
    "\<And>k. bin_bit b' k = (bin_bit (bin (bins h c)) k \<and> \<not> (a \<le> k \<and> k \<le> a + unat q))"
    using free_small_heap [OF assms(1-11), folded p_def] by blast
  then show ?thesis by (auto simp: upd_slot_def)
qed

lemma one_page_ok: "slots_ok 1 (one_page 0x2000 7 mem2 [])"
proof -
  have "bin_bit [7, 0, 0, 0] 0" by (simp add: bin_bit_def)
  then show ?thesis by (simp add: slots_ok_def slots_used_def one_page_def BIN_SLOTS_def pages_def slot_maps_def)
qed

lemma free_small_block_witness:
  "\<exists>h'. free 0x2010 (one_page 0x2000 7 mem2 []) = Some h' \<and>
    (\<forall>k. bin_bit (bin (bins h' 0)) k = (bin_bit [7, 0, 0, 0] k \<and> \<not> (1 \<le> k \<and> k \<le> 2)))"
  using free_small_block [of "one_page 0x2000 7 mem2 []" 0 "[0]" 0 1 1 1] one_page_ok one_page_maps [of "0x2000" 7 mem2 "[]"]
  by (auto simp: one_page_def next_bin_def mem2_def)

text \<open>C5: freeing a block releases the start of its right neighbour.  Let \<open>x\<close> be a
  block of \<open>q\<close> bins in the first 64 bins of a page, and \<open>y\<close> the address right behind it,
  where the next block starts.  \<open>__free(x)\<close> wipes the size byte in front of \<open>y\<close> and
  clears the first bin of \<open>y\<close>.  If the search of \<open>__malloc\<close> starts in that page and the bins before \<open>x\<close>
  are taken, a request for more than the \<open>16 * q\<close> bytes up to \<open>y\<close>, by up to 15, then
  gets \<open>x\<close>: the new block runs into \<open>y\<close>.\<close>

theorem free_releases_neighbour:
  assumes chain: "bin_head h = Some d" "path (next_bin h) d xs" "c \<in> set xs" "\<forall>s \<in> set xs. s < n"
    and slots: "slots_ok n h" "disjoint_maps (mapped h)" "page_addr (bins h c) mod 0x1000 = 0"
    and blk: "0 < a" "a < 64" "a + unat q < 255" "hmem h (page_addr (bins h c) + 16 * a - 1) = q" "0 < unat q"
    and first: "bin_tail h = Some c" "\<forall>k < a. bin_bit (bin (bins h c)) k"
    and sz: "16 * int (unat q) < sz" "sz < 16 * int (unat q) + 16"
  defines "x \<equiv> page_addr (bins h c) + 16 * a"
  defines "y \<equiv> x + 16 * unat q"
  shows "\<exists>h' h''. free x h = Some h' \<and> hmem h' (y - 1) = 0 \<and> \<not> bin_bit (bin (bins h' c)) (a + unat q) \<and>
    malloc sz h' = Some (x, h'') \<and> y < x + nat sz"
proof -
  obtain b' where f: "free x h =
      Some ((upd_slot c (\<lambda>b. b\<lparr>bin := b'\<rparr>) h)\<lparr>hmem := zero_bytes x (16 * unat q) (hmem h)\<rparr>)"
    and b': "\<And>k. bin_bit b' k = (bin_bit (bin (bins h c)) k \<and> \<not> (a \<le> k \<and> k \<le> a + unat q))"
    using free_small_heap [OF chain slots blk(1-4), folded x_def] by blast
  define h' where "h' = (upd_slot c (\<lambda>b. b\<lparr>bin := b'\<rparr>) h)\<lparr>hmem := zero_bytes x (16 * unat q) (hmem h)\<rparr>"
  have "x \<le> y - 1" "y - 1 < x + 16 * unat q" using blk(5) unfolding y_def by linarith+
  then have h': "bin (bins h' c) = b'" "page_addr (bins h' c) = page_addr (bins h c)" "bin_tail h' = Some c"
    "hmem h' (y - 1) = 0"
    using first(1) by (simp_all add: h'_def upd_slot_def zero_bytes_def)
  have small: "0 \<le> sz" "sz < 0xff0" using sz blk(1,3) by linarith+
  have "nat sz div 16 = unat q" by (rule nat_sixteenths(2) [OF sz])
  then have bins: "unat (malloc_bins sz) = unat q + 1" using malloc_bins_small(1) [OF small] by simp
  have run: "run_free b' a (unat q + 1)" by (simp add: run_free_def b')
  have before: "\<not> run_free b' s (unat q + 1)" if "s < a" for s
  proof -
    have "bin_bit b' s" using that first(2) by (simp add: b')
    then show ?thesis unfolding run_free_def by (intro notI) (drule bspec [of _ _ s], simp_all)
  qed
  have find: "slowest_find_consecutive_bin b' (malloc_bins sz) = of_nat a"
    by (rule find_unique_slot) (use run before blk(3) in \<open>simp_all add: bins\<close>)
  have ua: "unat (of_nat a :: u8) = a"
    using blk(2) by (simp add: unat_of_nat take_bit_nat_eq_self)
  then have "has_run (malloc_bins sz) h' c"
    using blk(1) find h'(1) unfolding has_run_def by (metis less_irrefl unat_0)
  then have "malloc sz h' = Some (take_run (malloc_bins sz) c h')"
    using small h'(3) malloc_from_hit by (simp add: malloc_def)
  moreover have "fst (take_run (malloc_bins sz) c h') = x"
    using h'(1,2) find ua by (simp add: take_run_def Let_def upd_slot_def x_def)
  moreover have "\<not> bin_bit (bin (bins h' c)) (a + unat q)" by (simp add: h'(1) b')
  moreover have "y < x + nat sz" using nat_sixteenths(1) [OF sz] by (simp add: y_def)
  ultimately show ?thesis
    using f [folded h'_def] h'(4) by (cases "take_run (malloc_bins sz) c h'") auto
qed

text \<open>Two blocks of 8 bytes, at \<open>0x2010\<close> and \<open>0x2020\<close>; the first is freed, and a request
  for 20 bytes gets it.\<close>

lemma free_releases_neighbour_witness:
  "\<exists>h' h''. free 0x2010 (one_page 0x2000 7 mem2 []) = Some h' \<and> hmem h' 0x201f = 0 \<and>
    malloc 20 h' = Some (0x2010, h'') \<and> (0x2020 :: nat) < 0x2010 + nat 20"
proof -
  have "bin_bit [7, 0, 0, 0] 0" by (simp add: bin_bit_def)
  then show ?thesis
    using free_releases_neighbour [of "one_page 0x2000 7 mem2 []" 0 "[0]" 0 1 1 1 20] one_page_ok
      one_page_maps [of "0x2000" 7 mem2 "[]"]
    by (auto simp: one_page_def next_bin_def mem2_def)
qed

subsection \<open>File mappings\<close>

lemma map_size_round: "unat sz \<le> 0xfffff000 \<Longrightarrow> unat (map_size sz) = (unat sz + 0xfff) div 0x1000 * 0x1000"
proof -
  assume le: "unat sz \<le> 0xfffff000"
  have m: "(0xfffff000 :: u32) = NOT (mask 12)"
    by (simp add: mask_eq_exp_minus_1)
  have "map_size sz = push_bit 12 (drop_bit 12 (sz + 0xfff))"
    unfolding map_size_def m by (rule bit_word_eqI) (auto simp: bit_simps)
  moreover have "unat (sz + 0xfff) = unat sz + 0xfff"
    using le by (simp add: unat_plus_if')
  moreover have "unat (push_bit 12 (drop_bit 12 x)) = unat x div 0x1000 * 0x1000" for x :: u32
  proof -
    have "unat x div 0x1000 * 0x1000 < 2 ^ 32"
      using unsigned_less [of x, where ?'a = nat] div_times_less_eq_dividend [of "unat x" "0x1000"]
      by simp
    then show ?thesis
      by (simp add: push_bit_eq_mult drop_bit_eq_div unat_mult_lem [THEN iffD1] unat_div unat_word_ariths(2))
  qed
  ultimately show ?thesis by simp
qed

text \<open>The length mapped for a file is the file's size rounded up to whole pages.\<close>

lemma map_size_page:
  assumes "unat sz \<le> 0xfffff000"
  shows "unat (map_size sz) mod 0x1000 = 0 \<and> unat sz \<le> unat (map_size sz)
    \<and> unat (map_size sz) < unat sz + 0x1000"
  unfolding map_size_round [OF assms]
  using div_mult_mod_eq [of "unat sz + 0xfff" "0x1000"] mod_less_divisor [of "0x1000" "unat sz + 0xfff"]
  by (intro conjI) (simp, linarith, linarith)

end
