(* ===== verification/CString.thy ===== *)
theory CString
  imports Prelude
begin

text \<open>
  The string helpers of \<open>core/std/string.c\<close>, the bounded comparison of
  \<open>core/std/hash_table.c\<close> and the number reader of \<open>core/utils.c\<close>.
  Strings are byte lists that end where the C code would read the NUL.
\<close>

subsection \<open>\<open>core/std/string.c\<close>\<close>

fun z_strcmp :: "cstr \<Rightarrow> cstr \<Rightarrow> u8" where
  "z_strcmp (a # p1) (b # p2) =
     (if a \<noteq> 0 \<and> b \<noteq> 0 \<and> a = b then z_strcmp p1 p2 else a - b)"
| "z_strcmp p1 p2 = hdz p1 - hdz p2"

fun z_strlen :: "cstr \<Rightarrow> nat" where
  "z_strlen [] = 0"
| "z_strlen (c # p) = (if c = 0 then 0 else Suc (z_strlen p))"

text \<open>\<open>sprintf\<close> copies \<open>p\<close> over \<open>q\<close> as long as \<open>q\<close> is not at its NUL; the
  byte read from \<open>p\<close> may be one past its end.\<close>

fun z_sprintf :: "u8 list \<Rightarrow> u8 list \<Rightarrow> u8 list" where
  "z_sprintf p [] = []"
| "z_sprintf p (c # q) = (if c = 0 then c # q else hdz p # z_sprintf (tl p) q)"

datatype tok_result =
    TokNext nat    \<comment> \<open>\<open>return p + 1\<close> after the space was replaced by NUL\<close>
  | TokEnd u8      \<comment> \<open>\<open>return has\<close>: 0 or 1, not a pointer\<close>

fun z_strtok_loop :: "nat \<Rightarrow> u8 \<Rightarrow> u8 list \<Rightarrow> u8 list \<times> tok_result" where
  "z_strtok_loop i has [] = ([], TokEnd has)"
| "z_strtok_loop i has (c # p) =
     (if c = 0x20 then (0 # p, TokNext (Suc i))
      else if c = 0 then (c # p, TokEnd has)
      else (let (p', r) = z_strtok_loop (Suc i) 1 p in (c # p', r)))"

definition z_strtok :: "u8 list \<Rightarrow> u8 list \<times> tok_result" where
  "z_strtok p = z_strtok_loop 0 0 p"

text \<open>The string at an address of the byte memory.\<close>

partial_function (option) str_at :: "mem \<Rightarrow> nat \<Rightarrow> cstr option" where
  [code]: "str_at m a = (if m a = 0 then Some []
     else Option.bind (str_at m (Suc a)) (\<lambda>s. Some (m a # s)))"

lemma str_at_bytes: "get_bytes a (length s + 1) m = s @ [0] \<Longrightarrow> nul_free s \<Longrightarrow> str_at m a = Some s"
proof (induction s arbitrary: a)
  case Nil
  then show ?case by (subst str_at.simps) (simp add: get_bytes_Suc)
next
  case (Cons b s)
  then have "m a = b" "get_bytes (Suc a) (length s + 1) m = s @ [0]"
    by (simp_all add: get_bytes_Suc)
  then show ?case using Cons by (subst str_at.simps) simp
qed

text \<open>A literal of the source.\<close>

definition ascii :: "string \<Rightarrow> cstr" where
  "ascii s = map (\<lambda>c. of_nat (of_char c)) s"

subsection \<open>\<open>strncmp\<close> of \<open>core/std/hash_table.c\<close>\<close>

fun strncmp :: "cstr \<Rightarrow> cstr \<Rightarrow> nat \<Rightarrow> u8" where
  "strncmp p1 p2 0 = 0"
| "strncmp (a # p1) (b # p2) (Suc i) =
     (if a \<noteq> 0 \<and> b \<noteq> 0 \<and> a = b then strncmp p1 p2 i else a - b)"
| "strncmp p1 p2 (Suc i) = hdz p1 - hdz p2"

subsection \<open>\<open>ascii_to_bin\<close> of \<open>core/utils.c\<close>\<close>

text \<open>The loop walks from the last digit back to the \<open>x\<close>.  Digit value and
  shift are computed in \<open>int\<close> and only then widened to \<open>uint64_t\<close>: the sum
  adds a sign-extended 32-bit word.  A shift of 32 or more is undefined in C
  and is \<open>None\<close> here, as is a range too short to hold \<open>0x\<close>, where the loop
  runs below the buffer.  \<open>Some (-1)\<close> is the parse error.\<close>

definition hex_digit :: "u8 \<Rightarrow> u32 option" where
  "hex_digit c =
     (if 0x30 \<le> c \<and> c \<le> 0x39 then Some (ucast (c - 0x30))
      else if 0x61 \<le> c \<and> c \<le> 0x66 then Some (ucast (c - 0x61) + 10)
      else None)"

fun ascii_loop :: "u8 list \<Rightarrow> u64 \<Rightarrow> nat \<Rightarrow> u64 option" where
  "ascii_loop [] r s = Some r"
| "ascii_loop (c # x) r s =
     (case hex_digit c of
        None \<Rightarrow> Some (- 1)
      | Some d \<Rightarrow> if s < 32 then ascii_loop x (r + scast (push_bit s d)) (s + 4) else None)"

definition ascii_to_bin :: "u8 list \<Rightarrow> u64 option" where
  "ascii_to_bin t =
     (if t = [] then None
      else if hd t = 0x30 \<and> hdz (tl t) = 0x78
      then ascii_loop (rev (drop 2 t)) 0 0
      else Some (- 1))"

subsection \<open>Correctness of the comparisons\<close>

lemma z_strcmp_eq0: "nul_free s \<Longrightarrow> nul_free t \<Longrightarrow> z_strcmp s t = 0 \<longleftrightarrow> s = t"
  by (induction s t rule: z_strcmp.induct) (auto simp: hdz_def split: list.splits)

lemma z_strcmp_refl [simp]: "nul_free s \<Longrightarrow> z_strcmp s s = 0"
  by (simp add: z_strcmp_eq0)

lemma z_strlen_nul_free [simp]: "nul_free s \<Longrightarrow> z_strlen s = length s"
  by (induction s) auto

lemma z_strlen_takeWhile: "z_strlen s = length (takeWhile (\<lambda>c. c \<noteq> 0) s)"
  by (induction s) auto

lemma strncmp_eq0:
  "nul_free s \<Longrightarrow> nul_free t \<Longrightarrow> strncmp s t n = 0 \<longleftrightarrow> take n s = take n t"
  by (induction s t n rule: strncmp.induct) (auto simp: hdz_def split: list.splits)

lemma z_strtok_loop_word:
  "nul_free w \<Longrightarrow> 0x20 \<notin> set w \<Longrightarrow>
   z_strtok_loop i h (w @ 0x20 # rest) = (w @ 0 # rest, TokNext (i + length w + 1))"
  by (induction w arbitrary: i h) auto

lemma z_strtok_word:
  "nul_free w \<Longrightarrow> 0x20 \<notin> set w \<Longrightarrow>
   z_strtok (w @ 0x20 # rest) = (w @ 0 # rest, TokNext (length w + 1))"
  by (simp add: z_strtok_def z_strtok_loop_word)

lemma z_sprintf_length [simp]: "length (z_sprintf p q) = length q"
  by (induction p q rule: z_sprintf.induct) auto

end
