(* ===== verification/HashFun.thy ===== *)
theory HashFun
  imports CString
begin

text \<open>
  The string hashes of \<open>core/link/hashtable.c\<close> and
  \<open>core/std/hash_table.c\<close>.  \<open>elf_hash\<close> works in \<open>uint32_t\<close>; \<open>sysv_hash\<close>
  and \<open>gnu_hash\<close> accumulate in \<open>uint_fast32_t\<close>, which is 64 bits wide on
  x86-64, and cut the result down to 32 bits when they return.
\<close>

fun elf_hash_loop :: "u32 \<Rightarrow> cstr \<Rightarrow> u32" where
  "elf_hash_loop h [] = h"
| "elf_hash_loop h (c # name) =
     (if c = 0 then h
      else let h = push_bit 4 h + ucast c;
               g = h AND 0xf0000000;
               h = (if g \<noteq> 0 then h XOR drop_bit 24 g else h)
           in elf_hash_loop (h AND NOT g) name)"

definition elf_hash :: "cstr \<Rightarrow> u32" where
  "elf_hash name = elf_hash_loop 0 name"

fun sysv_hash_loop :: "u64 \<Rightarrow> cstr \<Rightarrow> u64" where
  "sysv_hash_loop h [] = h"
| "sysv_hash_loop h (c # s) =
     (if c = 0 then h
      else let h = 16 * h + ucast c
           in sysv_hash_loop (h XOR (drop_bit 24 h AND 0xf0)) s)"

definition sysv_hash :: "cstr \<Rightarrow> u32" where
  "sysv_hash s0 = ucast (sysv_hash_loop 0 s0 AND 0xfffffff)"

fun gnu_hash_loop :: "u64 \<Rightarrow> cstr \<Rightarrow> u64" where
  "gnu_hash_loop h [] = h"
| "gnu_hash_loop h (c # s) =
     (if c = 0 then h else gnu_hash_loop (h + (h * 32 + ucast c)) s)"

definition gnu_hash :: "cstr \<Rightarrow> u32" where
  "gnu_hash s0 = ucast (gnu_hash_loop 5381 s0)"

subsection \<open>\<open>sysv_hash\<close> and \<open>elf_hash\<close> agree\<close>

lemma hash_masks:
  "(0xfffffff :: u32) = mask 28" "(0xfffffff :: u64) = mask 28"
  "(0xf0000000 :: u32) = push_bit 28 (mask 4)" "(0xf0 :: u64) = push_bit 4 (mask 4)"
  by (simp_all add: mask_eq_exp_minus_1)

lemma ucast_shift_add:
  fixes h :: u64
  assumes "ucast h AND 0xfffffff = (k :: u32)"
  shows "(ucast (16 * h + ucast (c :: u8)) :: u32) = push_bit 4 k + ucast c"
proof -
  have "push_bit 4 k = (ucast (push_bit 4 h) :: u32)"
    unfolding assms [symmetric] hash_masks
    by (rule bit_word_eqI) (auto simp: bit_simps)
  moreover have "16 * h = push_bit 4 h"
    by (simp add: push_bit_eq_mult)
  moreover have "(ucast (ucast c :: u64) :: u32) = ucast c"
    by (rule bit_word_eqI) (auto simp: bit_simps)
  ultimately show ?thesis
    by (simp add: ucast_add_64_32)
qed

lemma xor_guard: "(if g \<noteq> 0 then h XOR drop_bit n g else h) = (h :: u32) XOR drop_bit n g"
  by simp

lemma sysv_elf_step:
  fixes h :: u64
  assumes "ucast h AND 0xfffffff = (k :: u32)"
  shows "ucast ((16 * h + ucast c) XOR (drop_bit 24 (16 * h + ucast (c :: u8)) AND 0xf0)) AND 0xfffffff =
         (let h = push_bit 4 k + ucast c; g = h AND 0xf0000000;
              h = (if g \<noteq> 0 then h XOR drop_bit 24 g else h)
          in h AND NOT g)"
proof -
  define H where "H = 16 * h + ucast c"
  define L where "L = push_bit 4 k + ucast c"
  have L: "L = ucast H"
    unfolding H_def L_def using ucast_shift_add [OF assms] by simp
  have guard: "(if L AND 0xf0000000 \<noteq> 0 then L XOR drop_bit 24 (L AND 0xf0000000) else L) =
      L XOR drop_bit 24 (L AND 0xf0000000)"
    by (rule xor_guard)
  have "ucast (H XOR (drop_bit 24 H AND 0xf0)) AND 0xfffffff =
      (L XOR drop_bit 24 (L AND 0xf0000000)) AND NOT (L AND 0xf0000000)"
    unfolding L hash_masks by (rule bit_word_eqI) (auto simp: bit_simps)
  then show ?thesis
    unfolding Let_def H_def [symmetric] L_def [symmetric] guard .
qed

lemma sysv_elf_loop:
  "ucast h AND 0xfffffff = k \<Longrightarrow> ucast (sysv_hash_loop h s) AND 0xfffffff = elf_hash_loop k s"
proof (induction s arbitrary: h k)
  case Nil
  then show ?case by simp
next
  case (Cons c s)
  show ?case
    using Cons.prems Cons.IH [OF sysv_elf_step [OF Cons.prems, of c]]
    by (simp add: Let_def)
qed

lemma ucast_mask28: "(ucast (x AND 0xfffffff :: u64) :: u32) = ucast x AND 0xfffffff"
  unfolding hash_masks by (rule bit_word_eqI) (auto simp: bit_simps)

text \<open>C6: the two System V hashes of the linker are the same function: the
  unmasked 64-bit accumulation of \<open>sysv_hash\<close>, cut to 28 bits at the end,
  returns what \<open>elf_hash\<close> computes in 32 bits with its masking at every
  character.\<close>

theorem sysv_hash_is_elf_hash: "sysv_hash s = elf_hash s"
  unfolding sysv_hash_def elf_hash_def ucast_mask28 by (rule sysv_elf_loop) simp

lemma sysv_hash_28bit: "sysv_hash s AND 0xf0000000 = 0"
  unfolding sysv_hash_def ucast_mask28 hash_masks by (rule bit_word_eqI) (auto simp: bit_simps)

subsection \<open>\<open>gnu_hash\<close>\<close>

primrec gnu_spec :: "nat \<Rightarrow> u8 list \<Rightarrow> nat" where
  "gnu_spec h [] = h"
| "gnu_spec h (c # s) = gnu_spec (33 * h + unat c) s"

lemma gnu_hash_loop_spec: "nul_free s \<Longrightarrow> gnu_hash_loop (of_nat h) s = of_nat (gnu_spec h s)"
proof (induction s arbitrary: h)
  case Nil
  then show ?case by simp
next
  case (Cons c s)
  have "(of_nat h :: u64) + (of_nat h * 32 + ucast c) = of_nat (33 * h + unat c)"
    by (simp add: algebra_simps)
  then show ?case using Cons by (simp del: of_nat_add of_nat_mult)
qed

end
