(* ===== verification/ElfTypes.thy ===== *)
theory ElfTypes
  imports Prelude
begin

text \<open>
  The on-disk structures of \<open>include/elf.h\<close> that the linker reads and writes.
  A structure is a record; \<open>rd_*\<close> reads one from a byte memory at the offsets
  of the C layout (little-endian, naturally aligned, no padding in any of
  them), \<open>enc_*\<close> gives the bytes that a \<open>write\<close> of the structure puts out.
  \<open>rd_enc_*\<close>: reading back what was encoded gives the structure.
\<close>

subsection \<open>Constants\<close>

definition ET_EXEC :: u16 where "ET_EXEC = 2"
definition ET_DYN :: u16 where "ET_DYN = 3"

definition EV_CURRENT :: u32 where "EV_CURRENT = 1"

definition SHT_PROGBITS :: u32 where "SHT_PROGBITS = 1"
definition SHT_SYMTAB :: u32 where "SHT_SYMTAB = 2"
definition SHT_STRTAB :: u32 where "SHT_STRTAB = 3"
definition SHT_RELA :: u32 where "SHT_RELA = 4"
definition SHT_DYNAMIC :: u32 where "SHT_DYNAMIC = 6"
definition SHT_NOTE :: u32 where "SHT_NOTE = 7"
definition SHT_NOBITS :: u32 where "SHT_NOBITS = 8"
definition SHT_DYNSYM :: u32 where "SHT_DYNSYM = 11"
definition SHT_INIT_ARRAY :: u32 where "SHT_INIT_ARRAY = 14"
definition SHT_FINI_ARRAY :: u32 where "SHT_FINI_ARRAY = 15"

lemmas SHT_defs = SHT_PROGBITS_def SHT_SYMTAB_def SHT_STRTAB_def SHT_RELA_def SHT_DYNAMIC_def
  SHT_NOTE_def SHT_NOBITS_def SHT_DYNSYM_def SHT_INIT_ARRAY_def SHT_FINI_ARRAY_def

definition SHF_WRITE :: u32 where "SHF_WRITE = 1"
definition SHF_ALLOC :: u32 where "SHF_ALLOC = 2"
definition SHF_EXECINSTR :: u32 where "SHF_EXECINSTR = 4"

definition SHN_UNDEF :: u16 where "SHN_UNDEF = 0"
definition SHN_ABS :: u16 where "SHN_ABS = 0xfff1"
definition SHN_COMMON :: u16 where "SHN_COMMON = 0xfff2"

definition STB_GLOBAL :: u8 where "STB_GLOBAL = 1"
definition STT_NOTYPE :: u8 where "STT_NOTYPE = 0"
definition STT_OBJECT :: u8 where "STT_OBJECT = 1"
definition STT_FUNC :: u8 where "STT_FUNC = 2"
definition STT_SECTION :: u8 where "STT_SECTION = 3"
definition STV_DEFAULT :: u8 where "STV_DEFAULT = 0"

lemmas STT_defs = STT_NOTYPE_def STT_OBJECT_def STT_FUNC_def STT_SECTION_def

definition ELF64_ST_BIND :: "u8 \<Rightarrow> u8" where "ELF64_ST_BIND v = drop_bit 4 v"
definition ELF64_ST_TYPE :: "u8 \<Rightarrow> u8" where "ELF64_ST_TYPE v = v AND 0xf"
definition ELF64_ST_INFO :: "u8 \<Rightarrow> u8 \<Rightarrow> u8" where "ELF64_ST_INFO b t = push_bit 4 b + (t AND 0xf)"
definition ELF64_ST_VISIBILITY :: "u8 \<Rightarrow> u8" where "ELF64_ST_VISIBILITY v = v AND 3"

definition ELF64_R_SYM :: "u64 \<Rightarrow> u64" where "ELF64_R_SYM i = drop_bit 32 i"
definition ELF64_R_TYPE :: "u64 \<Rightarrow> u64" where "ELF64_R_TYPE i = i AND 0xffffffff"
definition ELF64_R_INFO :: "u64 \<Rightarrow> u64 \<Rightarrow> u64" where "ELF64_R_INFO s t = push_bit 32 s + t"

definition PT_LOAD :: u32 where "PT_LOAD = 1"
definition PT_DYNAMIC :: u32 where "PT_DYNAMIC = 2"
definition PT_INTERP :: u32 where "PT_INTERP = 3"
definition PT_PHDR :: u32 where "PT_PHDR = 6"
definition PT_GNU_PROPERTY :: u32 where "PT_GNU_PROPERTY = 0x6474e553"

definition PF_X :: u32 where "PF_X = 1"
definition PF_W :: u32 where "PF_W = 2"
definition PF_R :: u32 where "PF_R = 4"

definition R_X86_64_64 :: u32 where "R_X86_64_64 = 1"
definition R_X86_64_PC32 :: u32 where "R_X86_64_PC32 = 2"
definition R_X86_64_PLT32 :: u32 where "R_X86_64_PLT32 = 4"
definition R_X86_64_GLOB_DAT :: u32 where "R_X86_64_GLOB_DAT = 6"
definition R_X86_64_JUMP_SLOT :: u32 where "R_X86_64_JUMP_SLOT = 7"
definition R_X86_64_RELATIVE :: u32 where "R_X86_64_RELATIVE = 8"
definition R_X86_64_32 :: u32 where "R_X86_64_32 = 10"
definition R_X86_64_32S :: u32 where "R_X86_64_32S = 11"
definition R_X86_64_REX_GOTPCRELX :: u32 where "R_X86_64_REX_GOTPCRELX = 42"

lemmas R_defs = R_X86_64_64_def R_X86_64_PC32_def R_X86_64_PLT32_def R_X86_64_GLOB_DAT_def
  R_X86_64_JUMP_SLOT_def R_X86_64_RELATIVE_def R_X86_64_32_def R_X86_64_32S_def
  R_X86_64_REX_GOTPCRELX_def

definition R_IA64_PLTOFF64MSB :: u16 where "R_IA64_PLTOFF64MSB = 0x3e"
definition EM_X86_64 :: u16 where "EM_X86_64 = 62"

definition DT_NULL :: u32 where "DT_NULL = 0"
definition DT_NEEDED :: u32 where "DT_NEEDED = 1"
definition DT_HASH :: u32 where "DT_HASH = 4"
definition DT_STRTAB :: u32 where "DT_STRTAB = 5"
definition DT_SYMTAB :: u32 where "DT_SYMTAB = 6"
definition DT_RELA :: u32 where "DT_RELA = 7"
definition DT_RELASZ :: u32 where "DT_RELASZ = 8"
definition DT_RELAENT :: u32 where "DT_RELAENT = 9"
definition DT_STRSZ :: u32 where "DT_STRSZ = 10"
definition DT_SYMENT :: u32 where "DT_SYMENT = 11"
definition DT_INIT_ARRAY :: u32 where "DT_INIT_ARRAY = 25"
definition DT_FINI_ARRAY :: u32 where "DT_FINI_ARRAY = 26"
definition DT_INIT_ARRAYSZ :: u32 where "DT_INIT_ARRAYSZ = 27"
definition DT_FINI_ARRAYSZ :: u32 where "DT_FINI_ARRAYSZ = 28"
definition DT_GNU_HASH :: u32 where "DT_GNU_HASH = 0x6ffffef5"

lemmas DT_defs = DT_NULL_def DT_NEEDED_def DT_HASH_def DT_STRTAB_def DT_SYMTAB_def DT_RELA_def DT_RELASZ_def DT_RELAENT_def DT_STRSZ_def DT_SYMENT_def DT_INIT_ARRAY_def DT_FINI_ARRAY_def DT_INIT_ARRAYSZ_def DT_FINI_ARRAYSZ_def DT_GNU_HASH_def

subsection \<open>Structures\<close>

record Elf64_Ehdr =
  e_ident :: "u8 list"
  e_type :: u16
  e_machine :: u16
  e_version :: u32
  e_entry :: u64
  e_phoff :: u64
  e_shoff :: u64
  e_flags :: u32
  e_ehsize :: u16
  e_phentsize :: u16
  e_phnum :: u16
  e_shentsize :: u16
  e_shnum :: u16
  e_shstrndx :: u16

definition enc_ehdr :: "Elf64_Ehdr \<Rightarrow> u8 list" where
  "enc_ehdr e = e_ident e @ le16 (e_type e) @ le16 (e_machine e) @ le32 (e_version e)
     @ le64 (e_entry e) @ le64 (e_phoff e) @ le64 (e_shoff e) @ le32 (e_flags e)
     @ le16 (e_ehsize e) @ le16 (e_phentsize e) @ le16 (e_phnum e) @ le16 (e_shentsize e)
     @ le16 (e_shnum e) @ le16 (e_shstrndx e)"

definition rd_ehdr :: "nat \<Rightarrow> mem \<Rightarrow> Elf64_Ehdr" where
  "rd_ehdr a m = \<lparr>e_ident = get_bytes a 16 m, e_type = get16 (a + 0x10) m,
     e_machine = get16 (a + 0x12) m, e_version = get32 (a + 0x14) m, e_entry = get64 (a + 0x18) m,
     e_phoff = get64 (a + 0x20) m, e_shoff = get64 (a + 0x28) m, e_flags = get32 (a + 0x30) m,
     e_ehsize = get16 (a + 0x34) m, e_phentsize = get16 (a + 0x36) m, e_phnum = get16 (a + 0x38) m,
     e_shentsize = get16 (a + 0x3a) m, e_shnum = get16 (a + 0x3c) m, e_shstrndx = get16 (a + 0x3e) m\<rparr>"

record Elf64_Phdr =
  p_type :: u32
  p_flags :: u32
  p_offset :: u64
  p_vaddr :: u64
  p_paddr :: u64
  p_filesz :: u64
  p_memsz :: u64
  p_align :: u64

definition enc_phdr :: "Elf64_Phdr \<Rightarrow> u8 list" where
  "enc_phdr p = le32 (p_type p) @ le32 (p_flags p) @ le64 (p_offset p) @ le64 (p_vaddr p)
     @ le64 (p_paddr p) @ le64 (p_filesz p) @ le64 (p_memsz p) @ le64 (p_align p)"

definition rd_phdr :: "nat \<Rightarrow> mem \<Rightarrow> Elf64_Phdr" where
  "rd_phdr a m = \<lparr>p_type = get32 a m, p_flags = get32 (a + 4) m, p_offset = get64 (a + 8) m,
     p_vaddr = get64 (a + 16) m, p_paddr = get64 (a + 24) m, p_filesz = get64 (a + 32) m,
     p_memsz = get64 (a + 40) m, p_align = get64 (a + 48) m\<rparr>"

record Elf64_Shdr =
  sh_name :: u32
  sh_type :: u32
  sh_flags :: u64
  sh_addr :: u64
  sh_offset :: u64
  sh_size :: u64
  sh_link :: u32
  sh_info :: u32
  sh_addralign :: u64
  sh_entsize :: u64

definition rd_shdr :: "nat \<Rightarrow> mem \<Rightarrow> Elf64_Shdr" where
  "rd_shdr a m = \<lparr>sh_name = get32 a m, sh_type = get32 (a + 4) m, sh_flags = get64 (a + 8) m,
     sh_addr = get64 (a + 0x10) m, sh_offset = get64 (a + 0x18) m, sh_size = get64 (a + 0x20) m,
     sh_link = get32 (a + 0x28) m, sh_info = get32 (a + 0x2c) m, sh_addralign = get64 (a + 0x30) m,
     sh_entsize = get64 (a + 0x38) m\<rparr>"

definition enc_shdr :: "Elf64_Shdr \<Rightarrow> u8 list" where
  "enc_shdr s = le32 (sh_name s) @ le32 (sh_type s) @ le64 (sh_flags s) @ le64 (sh_addr s)
     @ le64 (sh_offset s) @ le64 (sh_size s) @ le32 (sh_link s) @ le32 (sh_info s)
     @ le64 (sh_addralign s) @ le64 (sh_entsize s)"

record Elf32_Shdr =
  sh32_name :: u32
  sh32_type :: u32
  sh32_flags :: u32
  sh32_addr :: u32
  sh32_offset :: u32
  sh32_size :: u32
  sh32_link :: u32
  sh32_info :: u32
  sh32_addralign :: u32
  sh32_entsize :: u32

definition rd_shdr32 :: "nat \<Rightarrow> mem \<Rightarrow> Elf32_Shdr" where
  "rd_shdr32 a m = \<lparr>sh32_name = get32 a m, sh32_type = get32 (a + 4) m, sh32_flags = get32 (a + 8) m,
     sh32_addr = get32 (a + 12) m, sh32_offset = get32 (a + 16) m, sh32_size = get32 (a + 20) m,
     sh32_link = get32 (a + 24) m, sh32_info = get32 (a + 28) m, sh32_addralign = get32 (a + 32) m,
     sh32_entsize = get32 (a + 36) m\<rparr>"

record Elf64_Sym =
  st_name :: u32
  st_info :: u8
  st_other :: u8
  st_shndx :: u16
  st_value :: u64
  st_size :: u64

definition rd_sym :: "nat \<Rightarrow> mem \<Rightarrow> Elf64_Sym" where
  "rd_sym a m = \<lparr>st_name = get32 a m, st_info = m (a + 4), st_other = m (a + 5),
     st_shndx = get16 (a + 6) m, st_value = get64 (a + 8) m, st_size = get64 (a + 16) m\<rparr>"

definition enc_sym :: "Elf64_Sym \<Rightarrow> u8 list" where
  "enc_sym s = le32 (st_name s) @ [st_info s, st_other s] @ le16 (st_shndx s)
     @ le64 (st_value s) @ le64 (st_size s)"

record Elf32_Sym =
  st32_name :: u32
  st32_value :: u32
  st32_size :: u32
  st32_info :: u8
  st32_other :: u8
  st32_shndx :: u16

definition rd_sym32 :: "nat \<Rightarrow> mem \<Rightarrow> Elf32_Sym" where
  "rd_sym32 a m = \<lparr>st32_name = get32 a m, st32_value = get32 (a + 4) m, st32_size = get32 (a + 8) m,
     st32_info = m (a + 12), st32_other = m (a + 13), st32_shndx = get16 (a + 14) m\<rparr>"

record Elf64_Rela =
  r_offset :: u64
  r_info :: u64
  r_addend :: u64

definition rd_rela :: "nat \<Rightarrow> mem \<Rightarrow> Elf64_Rela" where
  "rd_rela a m = \<lparr>r_offset = get64 a m, r_info = get64 (a + 8) m, r_addend = get64 (a + 16) m\<rparr>"

definition enc_rela :: "Elf64_Rela \<Rightarrow> u8 list" where
  "enc_rela r = le64 (r_offset r) @ le64 (r_info r) @ le64 (r_addend r)"

record Elf64_Dyn =
  d_tag :: u64
  d_val :: u64

definition rd_dyn :: "nat \<Rightarrow> mem \<Rightarrow> Elf64_Dyn" where
  "rd_dyn a m = \<lparr>d_tag = get64 a m, d_val = get64 (a + 8) m\<rparr>"

definition enc_dyn :: "Elf64_Dyn \<Rightarrow> u8 list" where
  "enc_dyn d = le64 (d_tag d) @ le64 (d_val d)"

subsection \<open>Sizes and round trips\<close>

lemma enc_lengths [layout_simps]:
  "length (e_ident e) = 16 \<Longrightarrow> length (enc_ehdr e) = 64"
  "length (enc_phdr p) = 56" "length (enc_shdr s) = 64" "length (enc_sym y) = 24"
  "length (enc_rela r) = 24" "length (enc_dyn d) = 16"
  by (simp_all add: enc_ehdr_def enc_phdr_def enc_shdr_def enc_sym_def enc_rela_def enc_dyn_def)

lemma get_at_put:
  "get32 a (put_bytes a bs m) = of_le32 (take 4 bs)" if "4 \<le> length bs" for a bs m
  using get_put_bytes_in(2) [of 0 bs a m] that by simp

lemma get64_at_put:
  "get64 a (put_bytes a bs m) = of_le64 (take 8 bs)" if "8 \<le> length bs" for a bs m
  using get_put_bytes_in(3) [of 0 bs a m] that by simp

lemma rd_enc_ehdr: "length (e_ident e) = 16 \<Longrightarrow> rd_ehdr a (put_bytes a (enc_ehdr e) m) = e"
  using get_bytes_put_bytes_in [of 0 16 "enc_ehdr e" a m]
  by (simp add: rd_ehdr_def get_put_bytes_in layout_simps) (simp add: enc_ehdr_def)

lemma rd_enc_phdr: "rd_phdr a (put_bytes a (enc_phdr p) m) = p"
  by (simp add: rd_phdr_def get_put_bytes_in get_at_put layout_simps) (simp add: enc_phdr_def)

lemma rd_enc_shdr: "rd_shdr a (put_bytes a (enc_shdr s) m) = s"
  by (simp add: rd_shdr_def get_put_bytes_in get_at_put layout_simps) (simp add: enc_shdr_def)

lemma rd_enc_sym: "rd_sym a (put_bytes a (enc_sym s) m) = s"
  by (simp add: rd_sym_def get_put_bytes_in get_at_put put_bytes_apply layout_simps) (simp add: enc_sym_def nth_append)

lemma rd_enc_rela: "rd_rela a (put_bytes a (enc_rela r) m) = r"
  by (simp add: rd_rela_def get_put_bytes_in get64_at_put layout_simps) (simp add: enc_rela_def)

lemma rd_enc_dyn: "rd_dyn a (put_bytes a (enc_dyn d) m) = d"
  by (simp add: rd_dyn_def get_put_bytes_in get64_at_put layout_simps) (simp add: enc_dyn_def)

lemma rd_put_other [mem_simps]:
  "a + 64 \<le> b \<or> b + length bs \<le> a \<Longrightarrow> rd_shdr a (put_bytes b bs m) = rd_shdr a m"
  "a + 24 \<le> b \<or> b + length bs \<le> a \<Longrightarrow> rd_sym a (put_bytes b bs m) = rd_sym a m"
  "a + 24 \<le> b \<or> b + length bs \<le> a \<Longrightarrow> rd_rela a (put_bytes b bs m) = rd_rela a m"
  "a + 16 \<le> b \<or> b + length bs \<le> a \<Longrightarrow> rd_dyn a (put_bytes b bs m) = rd_dyn a m"
  by (auto simp: rd_shdr_def rd_sym_def rd_rela_def rd_dyn_def mem_simps)

lemma rd_shdr_fields [mem_simps]:
  "rd_shdr a (put64 (a + 0x10) v m) = (rd_shdr a m)\<lparr>sh_addr := v\<rparr>"
  "rd_shdr a (put64 (a + 0x18) v m) = (rd_shdr a m)\<lparr>sh_offset := v\<rparr>"
  "rd_shdr a (put64 (a + 0x20) v m) = (rd_shdr a m)\<lparr>sh_size := v\<rparr>"
  by (simp_all add: rd_shdr_def mem_simps)

subsection \<open>Packing of the info fields\<close>

lemma st_info_or: "ELF64_ST_INFO b t = push_bit 4 b OR (t AND mask 4)"
proof -
  have "push_bit 4 b AND (t AND mask 4) = 0"
    by (rule bit_word_eqI) (auto simp: bit_simps)
  then have "push_bit 4 b + (t AND mask 4) = push_bit 4 b OR (t AND mask 4)"
    by (rule disjunctive_add_eq_or)
  then show ?thesis by (simp add: ELF64_ST_INFO_def mask_eq_exp_minus_1)
qed

lemma st_info_split:
  "ELF64_ST_TYPE (ELF64_ST_INFO b t) = t AND 0xf"
  "ELF64_ST_BIND (ELF64_ST_INFO b t) = b AND 0xf"
proof -
  have m: "(0xf :: u8) = mask 4" by (simp add: mask_eq_exp_minus_1)
  show "ELF64_ST_TYPE (ELF64_ST_INFO b t) = t AND 0xf"
    unfolding ELF64_ST_TYPE_def st_info_or m by (rule bit_word_eqI) (auto simp: bit_simps)
  show "ELF64_ST_BIND (ELF64_ST_INFO b t) = b AND 0xf"
    unfolding ELF64_ST_BIND_def st_info_or m by (rule bit_word_eqI) (auto simp: bit_simps)
qed

lemma r_info_split:
  assumes "s < 0x100000000" "t < 0x100000000"
  shows "ELF64_R_SYM (ELF64_R_INFO s t) = s" "ELF64_R_TYPE (ELF64_R_INFO s t) = t"
proof -
  have m: "(0xffffffff :: u64) = mask 32" by (simp add: mask_eq_exp_minus_1)
  have t: "t AND mask 32 = t" and s: "s AND mask 32 = s"
    using assms by (simp_all add: mask_eq_iff word_less_def)
  have "push_bit 32 s AND (t AND mask 32) = 0"
    by (rule bit_word_eqI) (auto simp: bit_simps)
  then have "push_bit 32 s AND t = 0" using t by simp
  then have i: "ELF64_R_INFO s t = push_bit 32 s OR t"
    by (simp add: ELF64_R_INFO_def disjunctive_add_eq_or)
  have "bit s n \<Longrightarrow> n < 32" "bit t n \<Longrightarrow> n < 32" for n
    using s t by (metis bit_and_iff bit_mask_iff)+
  then show "ELF64_R_SYM (ELF64_R_INFO s t) = s" "ELF64_R_TYPE (ELF64_R_INFO s t) = t"
    unfolding ELF64_R_SYM_def ELF64_R_TYPE_def i m by (auto simp: bit_eq_iff bit_simps)
qed

end
