(* ===== verification/LinkState.thy ===== *)
theory LinkState
  imports Chain CString ElfTypes "HOL-Library.Monad_Syntax"
begin

text \<open>
  The data model of the linker: the structures of \<open>include/link.h\<close> and the
  operations of \<open>core/link/object.c\<close>, \<open>core/link/section.c\<close> and
  \<open>core/link/elf/symbol.c\<close> on them.  Every structure the code allocates with
  \<open>__malloc\<close> is a record in a store of its own, named by the number of
  structures of that kind allocated before (\<open>None\<close> is the null pointer);
  \<open>__malloc\<close> memory is zero, so a new record has null and 0 in every field.
  Section headers, symbols and relocations stay where they are, in the byte
  memory \<open>lmem\<close>, and pointers to them are addresses.  \<open>Confp\<close> is \<open>conf\<close>.
  Strings a record points to are kept by value.  A null pointer that is
  followed gives \<open>None\<close>; log output is left out.
\<close>

subsection \<open>Structures of \<open>link.h\<close>\<close>

record SymbolChain =
  syc_next :: "nat option"
  syc_p :: nat
  syc_schain :: "nat option"
  syc_name :: cstr

record SymbolHashTable =
  sht_nbucket :: u32
  sht_nchain :: u32
  sht_bucket :: "nat \<Rightarrow> nat option"

record SectionContainer =
  scon_next :: "nat option"
  scon_init :: "nat option"
  scon_this :: "nat option"
  scon_size :: u32
  scon_vaddr :: u32
  scon_name :: "cstr option"
  scon_candidates :: nat

record SectionChain =
  sch_data :: nat
  sch_next :: "nat option"
  sch_this :: "nat option"
  sch_p :: nat
  sch_obj :: "nat option"
  sch_vaddr :: u32

record ObjectChain =
  obj_next :: "nat option"
  symbol_num :: u32
  export_symbol_num :: u32
  symbol_chain_head :: "nat option"
  symbol_chain_tail :: "nat option"
  section_chain_head :: "nat option"
  section_chain_tail :: "nat option"
  symbol_table_p :: nat
  str_table_p :: nat
  sh_str_table_p :: nat
  reloc_section_head :: "nat option"
  reloc_section_tail :: "nat option"
  section_head :: nat
  map_base :: nat

record RelocationChain =
  rel_next :: "nat option"
  rel_p :: nat
  rel_sec :: nat

record ListContainer =
  lc_init :: "nat option"
  lc_current :: "nat option"

record hash_table_parameter =
  htp_nbucket :: u32
  htp_bloom_size :: u32
  htp_bloom_shift :: u32

text \<open>The fields of \<open>Config\<close> that the ELF linker uses.\<close>

record Config =
  file_format :: u8
  base_address :: u32
  out_size :: u32
  pack :: u8
  nodynamic :: u8
  dynlib :: "cstr list option"
  outfile_type :: u8
  dynamic_entry_num :: u32
  virtual_address_offset :: u32
  output_vaddr_alignment :: u32
  entry_address :: u64
  entry_function_name :: "cstr option"
  program_header_num :: u32
  shdr_num :: u32
  initial_section :: "nat option"
  current_section :: "nat option"
  initial_object :: "nat option"
  current_object :: "nat option"
  ExportHashTable :: SymbolHashTable
  DynamicImportHashTable :: SymbolHashTable
  use_dt_hash :: u8
  no_interp :: u8
  has_gnu_property :: u8
  program_header_tail :: u32
  hash_table_p :: nat
  hash_table_param :: hash_table_parameter
  bss_size :: u32
  dynsym_head :: nat
  dynstr_head :: nat
  gnu_hash_head :: nat
  interp_name :: cstr

record lst =
  conf :: Config
  scons :: "nat \<Rightarrow> SectionContainer"
  n_scons :: nat
  schs :: "nat \<Rightarrow> SectionChain"
  n_schs :: nat
  objs :: "nat \<Rightarrow> ObjectChain"
  n_objs :: nat
  syms :: "nat \<Rightarrow> SymbolChain"
  n_syms :: nat
  rels :: "nat \<Rightarrow> RelocationChain"
  n_rels :: nat
  lmem :: mem
  mallocs :: "nat list"

text \<open>\<open>mallocs\<close> are the addresses that the coming \<open>__malloc\<close> calls for byte
  areas return.\<close>

definition new_area :: "lst \<Rightarrow> (nat \<times> lst) option" where
  "new_area s = (case mallocs s of [] \<Rightarrow> None | a # as \<Rightarrow> Some (a, s\<lparr>mallocs := as\<rparr>))"

definition zero_scon :: SectionContainer where
  "zero_scon = \<lparr>scon_next = None, scon_init = None, scon_this = None, scon_size = 0, scon_vaddr = 0,
     scon_name = None, scon_candidates = 0\<rparr>"

definition zero_sch :: SectionChain where
  "zero_sch = \<lparr>sch_data = 0, sch_next = None, sch_this = None, sch_p = 0, sch_obj = None, sch_vaddr = 0\<rparr>"

definition upd_conf :: "(Config \<Rightarrow> Config) \<Rightarrow> lst \<Rightarrow> lst" where
  "upd_conf f s = s\<lparr>conf := f (conf s)\<rparr>"

definition upd_scon :: "nat \<Rightarrow> (SectionContainer \<Rightarrow> SectionContainer) \<Rightarrow> lst \<Rightarrow> lst" where
  "upd_scon k f s = s\<lparr>scons := (scons s)(k := f (scons s k))\<rparr>"

definition upd_sch :: "nat \<Rightarrow> (SectionChain \<Rightarrow> SectionChain) \<Rightarrow> lst \<Rightarrow> lst" where
  "upd_sch k f s = s\<lparr>schs := (schs s)(k := f (schs s k))\<rparr>"

definition upd_obj :: "nat \<Rightarrow> (ObjectChain \<Rightarrow> ObjectChain) \<Rightarrow> lst \<Rightarrow> lst" where
  "upd_obj k f s = s\<lparr>objs := (objs s)(k := f (objs s k))\<rparr>"

definition upd_sym :: "nat \<Rightarrow> (SymbolChain \<Rightarrow> SymbolChain) \<Rightarrow> lst \<Rightarrow> lst" where
  "upd_sym k f s = s\<lparr>syms := (syms s)(k := f (syms s k))\<rparr>"

definition upd_rel :: "nat \<Rightarrow> (RelocationChain \<Rightarrow> RelocationChain) \<Rightarrow> lst \<Rightarrow> lst" where
  "upd_rel k f s = s\<lparr>rels := (rels s)(k := f (rels s k))\<rparr>"

definition upd_mem :: "(mem \<Rightarrow> mem) \<Rightarrow> lst \<Rightarrow> lst" where
  "upd_mem f s = s\<lparr>lmem := f (lmem s)\<rparr>"

lemmas upd_defs = upd_conf_def upd_scon_def upd_sch_def upd_obj_def upd_sym_def upd_rel_def upd_mem_def

subsection \<open>\<open>core/link/object.c\<close>\<close>

definition alloc_obj_chain_init :: "nat \<Rightarrow> nat \<Rightarrow> u32 \<Rightarrow> lst \<Rightarrow> nat \<times> lst" where
  "alloc_obj_chain_init sym_begin str_begin sym_num s =
     (let k = n_objs s;
          oc = \<lparr>obj_next = None, symbol_num = sym_num, export_symbol_num = 0,
            symbol_chain_head = None, symbol_chain_tail = None,
            section_chain_head = None, section_chain_tail = None,
            symbol_table_p = sym_begin, str_table_p = str_begin, sh_str_table_p = 0,
            reloc_section_head = None, reloc_section_tail = None, section_head = 0, map_base = 0\<rparr>
      in (k, s\<lparr>objs := (objs s)(k := oc), n_objs := Suc k\<rparr>))"

definition z_alloc_obj_chain :: "nat \<Rightarrow> nat \<Rightarrow> u32 \<Rightarrow> lst \<Rightarrow> (nat \<times> lst) option" where
  "z_alloc_obj_chain sym_begin str_begin sym_num s = do {
     let (sc, s) = alloc_obj_chain_init sym_begin str_begin sym_num s;
     cur \<leftarrow> current_object (conf s);
     let s = upd_obj cur (\<lambda>o'. o'\<lparr>obj_next := Some sc\<rparr>) s;
     Some (sc, upd_conf (\<lambda>c. c\<lparr>current_object := Some sc\<rparr>) s)
   }"

definition alloc_obj_chain :: "nat \<Rightarrow> nat \<Rightarrow> u32 \<Rightarrow> lst \<Rightarrow> lst option" where
  "alloc_obj_chain sym_begin str_begin sym_num s = do {
     let (sc, s) = alloc_obj_chain_init sym_begin str_begin sym_num s;
     s \<leftarrow> (if initial_object (conf s) = None
           then Some (upd_conf (\<lambda>c. c\<lparr>initial_object := Some sc\<rparr>) s)
           else do {
             cur \<leftarrow> current_object (conf s);
             Some (upd_obj cur (\<lambda>o'. o'\<lparr>obj_next := Some sc\<rparr>) s)
           });
     Some (upd_conf (\<lambda>c. c\<lparr>current_object := Some sc\<rparr>) s)
   }"

definition obj_append :: "nat \<Rightarrow> nat \<Rightarrow> lst \<Rightarrow> lst" where
  "obj_append oc schain s =
     (let s = (if section_chain_head (objs s oc) = None
               then upd_obj oc (\<lambda>o'. o'\<lparr>section_chain_head := Some schain\<rparr>) s
               else (case section_chain_tail (objs s oc) of None \<Rightarrow> s
                 | Some t \<Rightarrow> upd_sch t (\<lambda>c. c\<lparr>sch_next := Some schain\<rparr>) s))
      in upd_obj oc (\<lambda>o'. o'\<lparr>section_chain_tail := Some schain\<rparr>) s)"

definition update_object_chain :: "nat \<Rightarrow> nat \<Rightarrow> lst \<Rightarrow> lst option" where
  "update_object_chain oc schain s =
     (if section_chain_head (objs s oc) \<noteq> None \<and> section_chain_tail (objs s oc) = None then None
      else Some (obj_append oc schain s))"

definition iterate_object_chain :: "(nat \<Rightarrow> lst \<Rightarrow> lst option) \<Rightarrow> lst \<Rightarrow> lst option" where
  "iterate_object_chain f s = iter (\<lambda>s oc. obj_next (objs s oc)) f (initial_object (conf s)) s"

definition get_sc_from_obj :: "nat \<Rightarrow> lst \<Rightarrow> nat option option" where
  "get_sc_from_obj index s = do {
     cur \<leftarrow> current_object (conf s);
     scan (\<lambda>c. sch_next (schs s c)) (\<lambda>i sc. Some (if i + 1 = index then Some sc else None))
       (section_chain_head (objs s cur))
   }"

subsection \<open>\<open>core/link/section.c\<close>\<close>

definition alloc_section_container_init ::
    "u32 \<Rightarrow> cstr option \<Rightarrow> nat \<Rightarrow> ListContainer option \<Rightarrow> lst \<Rightarrow> (nat \<times> ListContainer option \<times> lst) option" where
  "alloc_section_container_init va nm cl Sc s = do {
     let sc = n_scons s;
     let s = s\<lparr>scons := (scons s)(sc := zero_scon\<lparr>scon_vaddr := va, scon_name := nm, scon_candidates := cl\<rparr>),
               n_scons := Suc sc\<rparr>;
     case Sc of
       None \<Rightarrow> Some (sc, None, s)
     | Some l \<Rightarrow> (case lc_init l of
         None \<Rightarrow> Some (sc, Some (l\<lparr>lc_init := Some sc, lc_current := Some sc\<rparr>), s)
       | Some _ \<Rightarrow> do {
           cur \<leftarrow> lc_current l;
           Some (sc, Some (l\<lparr>lc_current := Some sc\<rparr>),
                 upd_scon cur (\<lambda>c. c\<lparr>scon_next := Some sc\<rparr>) s)
         })
   }"

definition alloc_section_container ::
    "u32 \<Rightarrow> cstr option \<Rightarrow> nat \<Rightarrow> ListContainer option \<Rightarrow> lst \<Rightarrow> (nat \<times> ListContainer option \<times> lst) option" where
  "alloc_section_container va nm cl Sc s = do {
     (sc, Sc, s) \<leftarrow> alloc_section_container_init va nm cl Sc s;
     cur \<leftarrow> current_section (conf s);
     let s = upd_scon cur (\<lambda>c. c\<lparr>scon_next := Some sc\<rparr>) s;
     Some (sc, Sc, upd_conf (\<lambda>c. c\<lparr>current_section := Some sc\<rparr>) s)
   }"

text \<open>The two lists a new section chain is appended to: the members of its
  container, linked by \<open>this\<close>, and the sections of the current object, linked by
  \<open>next\<close>.\<close>

definition con_append :: "nat \<Rightarrow> nat \<Rightarrow> lst \<Rightarrow> lst" where
  "con_append scon sec2 s =
     (let s = (if scon_init (scons s scon) \<noteq> None
               then (case scon_this (scons s scon) of None \<Rightarrow> s
                 | Some t \<Rightarrow> upd_sch t (\<lambda>c. c\<lparr>sch_this := Some sec2\<rparr>) s)
               else upd_scon scon (\<lambda>c. c\<lparr>scon_init := Some sec2\<rparr>) s)
      in upd_scon scon (\<lambda>c. c\<lparr>scon_this := Some sec2\<rparr>) s)"

definition chain_into_container :: "nat \<Rightarrow> nat \<Rightarrow> lst \<Rightarrow> lst option" where
  "chain_into_container scon sec2 s =
     (if scon_init (scons s scon) \<noteq> None \<and> scon_this (scons s scon) = None then None
      else Some (con_append scon sec2 s))"

definition alloc_section_chain :: "nat \<Rightarrow> nat \<Rightarrow> nat \<Rightarrow> nat option \<Rightarrow> lst \<Rightarrow> (nat \<times> lst) option" where
  "alloc_section_chain p offset scon obj s = do {
     let sec2 = n_schs s;
     let ob = (case obj of Some x \<Rightarrow> Some x | None \<Rightarrow> current_object (conf s));
     let s = s\<lparr>schs := (schs s)(sec2 := zero_sch\<lparr>sch_p := p, sch_data := offset, sch_obj := ob\<rparr>),
               n_schs := Suc sec2\<rparr>;
     s \<leftarrow> chain_into_container scon sec2 s;
     s \<leftarrow> (case current_object (conf s) of None \<Rightarrow> Some s | Some oc \<Rightarrow> update_object_chain oc sec2 s);
     Some (sec2, s)
   }"

definition next_scon :: "lst \<Rightarrow> nat \<Rightarrow> nat option" where
  "next_scon s k = scon_next (scons s k)"

definition this_sch :: "lst \<Rightarrow> nat \<Rightarrow> nat option" where
  "this_sch s k = sch_this (schs s k)"

definition name_is :: "lst \<Rightarrow> cstr \<Rightarrow> nat \<Rightarrow> bool" where
  "name_is s nm k = (case scon_name (scons s k) of None \<Rightarrow> False | Some n \<Rightarrow> z_strcmp n nm = 0)"

definition match_section :: "cstr \<Rightarrow> lst \<Rightarrow> nat option option" where
  "match_section nm s =
     scan (next_scon s) (\<lambda>i k. Some (if name_is s nm k then Some k else None)) (initial_section (conf s))"

definition get_section_index_by_name :: "cstr \<Rightarrow> nat \<Rightarrow> lst \<Rightarrow> u16 option" where
  "get_section_index_by_name nm q s = do {
     r \<leftarrow> scan (next_scon s) (\<lambda>i k.
       if name_is s nm k then
         scan (this_sch s) (\<lambda>j c. Some (if sch_p (schs s c) = q
             then Some (push_bit 8 (ucast (of_nat i :: u8)) OR ucast (of_nat j :: u8)) else None))
           (scon_init (scons s k))
       else Some None) (initial_section (conf s));
     Some (case r of None \<Rightarrow> 0 | Some x \<Rightarrow> x)
   }"

definition get_section_chain_by_index :: "u16 \<Rightarrow> lst \<Rightarrow> nat option option" where
  "get_section_chain_by_index index s =
     (let index1 = ucast (drop_bit 8 index) :: u8; index2 = ucast (0xff AND index) :: u8 in
      scan (next_scon s) (\<lambda>i k.
        scan (this_sch s) (\<lambda>j c. Some (if of_nat i = index1 \<and> of_nat j = index2 then Some c else None))
          (scon_init (scons s k))) (initial_section (conf s)))"

definition iterate_section_container :: "(nat \<Rightarrow> lst \<Rightarrow> lst option) \<Rightarrow> lst \<Rightarrow> lst option" where
  "iterate_section_container f s = iter next_scon f (initial_section (conf s)) s"

subsection \<open>The chains are lists\<close>

definition next_sch :: "lst \<Rightarrow> nat \<Rightarrow> nat option" where
  "next_sch s k = sch_next (schs s k)"

definition next_obj :: "lst \<Rightarrow> nat \<Rightarrow> nat option" where
  "next_obj s k = obj_next (objs s k)"

interpretation con: head_tail this_sch "\<lambda>p q. upd_sch p (\<lambda>c. c\<lparr>sch_this := Some q\<rparr>)"
    "\<lambda>s. scon_init (scons s k)" "\<lambda>s. scon_this (scons s k)" "con_append k" for k
  by unfold_locales
    (auto simp: this_sch_def con_append_def upd_sch_def upd_scon_def Let_def split: option.splits)

interpretation osec: head_tail next_sch "\<lambda>p q. upd_sch p (\<lambda>c. c\<lparr>sch_next := Some q\<rparr>)"
    "\<lambda>s. section_chain_head (objs s k)" "\<lambda>s. section_chain_tail (objs s k)" "obj_append k" for k
  by unfold_locales
    (auto simp: next_sch_def obj_append_def upd_sch_def upd_obj_def Let_def split: option.splits)

text \<open>The sections of a container, and those of an object.\<close>

definition container_list :: "lst \<Rightarrow> nat \<Rightarrow> nat list \<Rightarrow> bool" where
  "container_list s k xs \<longleftrightarrow> opath (this_sch s) (scon_init (scons s k)) xs \<and>
     (xs \<noteq> [] \<longrightarrow> scon_this (scons s k) = Some (last xs))"

definition object_list :: "lst \<Rightarrow> nat \<Rightarrow> nat list \<Rightarrow> bool" where
  "object_list s k xs \<longleftrightarrow> opath (next_sch s) (section_chain_head (objs s k)) xs \<and>
     (xs \<noteq> [] \<longrightarrow> section_chain_tail (objs s k) = Some (last xs))"

lemma container_list_repr: "container_list s k xs = con.repr k s xs"
  by (simp add: container_list_def con.repr_def)

lemma object_list_repr: "object_list s k xs = osec.repr k s xs"
  by (simp add: object_list_def osec.repr_def)

lemma container_list_cong:
  assumes "container_list s k xs" "scon_init (scons s' k) = scon_init (scons s k)"
    "scon_this (scons s' k) = scon_this (scons s k)" "\<And>x. x \<in> set xs \<Longrightarrow> this_sch s' x = this_sch s x"
  shows "container_list s' k xs"
  using assms path_cong [of "this_sch s" _ xs "this_sch s'"]
  by (auto simp: container_list_def opath_def split: option.splits)

lemma object_list_cong:
  assumes "object_list s k xs" "section_chain_head (objs s' k) = section_chain_head (objs s k)"
    "section_chain_tail (objs s' k) = section_chain_tail (objs s k)"
    "\<And>x. x \<in> set xs \<Longrightarrow> next_sch s' x = next_sch s x"
  shows "object_list s' k xs"
  using assms path_cong [of "next_sch s" _ xs "next_sch s'"]
  by (auto simp: object_list_def opath_def split: option.splits)

text \<open>C11: \<open>alloc_section_chain\<close> puts the new section at the end of two lists at
  once, the members of its container and the sections of the current object,
  whatever their lengths, and leaves every other container alone.\<close>

theorem alloc_section_chain_appends:
  assumes "container_list s k xs" "object_list s oc ys" "current_object (conf s) = Some oc"
    and "\<forall>x \<in> set xs \<union> set ys. x < n_schs s"
  shows "\<exists>s'. alloc_section_chain p off k None s = Some (n_schs s, s') \<and>
    container_list s' k (xs @ [n_schs s]) \<and> object_list s' oc (ys @ [n_schs s]) \<and>
    sch_p (schs s' (n_schs s)) = p \<and> sch_obj (schs s' (n_schs s)) = Some oc \<and>
    (\<forall>k' zs. k' \<noteq> k \<longrightarrow> set zs \<inter> set xs = {} \<longrightarrow> (\<forall>z \<in> set zs. z < n_schs s) \<longrightarrow>
       container_list s k' zs \<longrightarrow> container_list s' k' zs)"
proof -
  let ?n = "n_schs s"
  define s1 where "s1 = s\<lparr>schs := (schs s)(?n := zero_sch\<lparr>sch_p := p, sch_data := off, sch_obj := Some oc\<rparr>),
      n_schs := Suc ?n\<rparr>"
  define s2 where "s2 = con_append k ?n s1"
  define s3 where "s3 = obj_append oc ?n s2"
  have fresh: "?n \<notin> set xs" "?n \<notin> set ys" using assms(4) by auto
  have c1: "container_list s1 k xs"
    by (rule container_list_cong [OF assms(1)]) (use fresh in \<open>auto simp: s1_def this_sch_def\<close>)
  have o1: "object_list s1 oc ys"
    by (rule object_list_cong [OF assms(2)]) (use fresh in \<open>auto simp: s1_def next_sch_def\<close>)
  have n1: "this_sch s1 ?n = None" "next_sch s1 ?n = None"
    by (simp_all add: s1_def this_sch_def next_sch_def zero_sch_def)
  have t1: "scon_init (scons s1 k) = None \<or> scon_this (scons s1 k) \<noteq> None"
    using c1 by (auto simp: container_list_def opath_def split: option.splits)
  have sc1: "scons s1 = scons s" by (simp add: s1_def)
  have c2: "container_list s2 k (xs @ [?n])"
    using con.append_refines [of k s1 xs ?n] c1 fresh n1 by (simp add: container_list_repr s2_def)
  have s2: "next_sch s2 = next_sch s1" "objs s2 = objs s1" "conf s2 = conf s" "sch_p (schs s2 x) = sch_p (schs s1 x)"
    "sch_obj (schs s2 x) = sch_obj (schs s1 x)" for x
    by (auto simp: s2_def con_append_def upd_sch_def upd_scon_def Let_def next_sch_def s1_def fun_eq_iff
        split: option.splits)
  have o2: "object_list s2 oc ys"
    by (rule object_list_cong [OF o1]) (simp_all add: s2)
  have t2: "section_chain_head (objs s2 oc) = None \<or> section_chain_tail (objs s2 oc) \<noteq> None"
    using o2 by (auto simp: object_list_def opath_def split: option.splits)
  have o3: "object_list s3 oc (ys @ [?n])"
    using osec.append_refines [of oc s2 ys ?n] o2 fresh n1 s2(1) by (simp add: object_list_repr s3_def)
  have s3: "this_sch s3 = this_sch s2" "scons s3 = scons s2" "sch_p (schs s3 x) = sch_p (schs s2 x)"
    "sch_obj (schs s3 x) = sch_obj (schs s2 x)" for x
    by (auto simp: s3_def obj_append_def upd_sch_def upd_obj_def Let_def this_sch_def fun_eq_iff
        split: option.splits)
  have c3: "container_list s3 k (xs @ [?n])"
    by (rule container_list_cong [OF c2]) (simp_all add: s3)
  have run: "alloc_section_chain p off k None s = Some (?n, s3)"
    using t1 [unfolded sc1] t2 assms(3) s2(3)
    by (auto simp: alloc_section_chain_def Let_def s1_def [symmetric] chain_into_container_def
        update_object_chain_def s2_def [symmetric] s3_def [symmetric])
  have other: "container_list s3 k' zs"
    if "k' \<noteq> k" "set zs \<inter> set xs = {}" "\<forall>z \<in> set zs. z < ?n" "container_list s k' zs" for k' zs
  proof (rule container_list_cong [OF that(4)])
    have "z \<noteq> ?n" "scon_init (scons s k) \<noteq> None \<Longrightarrow> scon_this (scons s k) \<noteq> Some z" if "z \<in> set zs" for z
      using \<open>z \<in> set zs\<close> \<open>\<forall>z \<in> set zs. z < ?n\<close> \<open>set zs \<inter> set xs = {}\<close> assms(1)
      by (fastforce simp: container_list_def opath_def disjoint_iff split: option.splits
          dest: path_nonempty intro: last_in_set)+
    then show "this_sch s3 z = this_sch s z" if "z \<in> set zs" for z
      using that by (auto simp: s3 s2_def con_append_def s1_def upd_sch_def upd_scon_def Let_def this_sch_def
          split: option.splits)
  qed (use that(1) in \<open>auto simp: s3 s2_def con_append_def s1_def upd_sch_def upd_scon_def Let_def
        split: option.splits\<close>)
  show ?thesis
    using run c3 o3 other by (intro exI [of _ s3]) (auto simp: s3 s2 s1_def)
qed

subsection \<open>Section numbers\<close>

text \<open>The containers of the program and, for each, its sections.\<close>

definition section_table :: "lst \<Rightarrow> nat list \<Rightarrow> (nat \<Rightarrow> nat list) \<Rightarrow> bool" where
  "section_table s ks cs \<longleftrightarrow> opath (next_scon s) (initial_section (conf s)) ks \<and>
     (\<forall>k \<in> set ks. opath (this_sch s) (scon_init (scons s k)) (cs k) \<and> length (cs k) \<le> 256)
     \<and> length ks \<le> 256"

lemma of_nat_u8_eq: "i < 256 \<Longrightarrow> j < 256 \<Longrightarrow> (of_nat i :: u8) = of_nat j \<longleftrightarrow> i = j"
  by (simp add: word_unat_eq_iff unat_of_nat take_bit_nat_eq_self)

lemma index_bytes:
  "ucast (drop_bit 8 (push_bit 8 (ucast (a :: u8)) OR ucast (b :: u8) :: u16)) = a"
  "ucast (0xff AND (push_bit 8 (ucast (a :: u8)) OR ucast (b :: u8) :: u16)) = b"
proof -
  have m: "(0xff :: u16) = mask 8" by (simp add: mask_eq_exp_minus_1)
  show "ucast (drop_bit 8 (push_bit 8 (ucast (a :: u8)) OR ucast (b :: u8) :: u16)) = a"
    by (rule bit_word_eqI) (auto simp: bit_simps dest: bit_imp_le_length)
  show "ucast (0xff AND (push_bit 8 (ucast (a :: u8)) OR ucast (b :: u8) :: u16)) = b"
    unfolding m by (rule bit_word_eqI) (auto simp: bit_simps)
qed

lemma get_section_chain_by_index_nth:
  assumes tab: "section_table s ks cs" and ij: "i < length ks" "j < length (cs (ks ! i))"
  shows "get_section_chain_by_index (push_bit 8 (ucast (of_nat i :: u8)) OR ucast (of_nat j :: u8)) s
    = Some (Some (cs (ks ! i) ! j))"
proof -
  let ?f = "\<lambda>i' k. first_some (\<lambda>j' c. if of_nat i' = (of_nat i :: u8) \<and> of_nat j' = (of_nat j :: u8)
      then Some c else None) 0 (cs k)"
  have lens: "length ks \<le> 256" "length (cs (ks ! i)) \<le> 256"
    using tab ij(1) by (auto simp: section_table_def)
  have "scan (next_scon s) (\<lambda>i' k. scan (this_sch s) (\<lambda>j' c. Some (if of_nat i' = (of_nat i :: u8)
      \<and> of_nat j' = (of_nat j :: u8) then Some c else None)) (scon_init (scons s k)))
      (initial_section (conf s)) = Some (first_some ?f 0 ks)"
    using tab unfolding section_table_def by (intro scan_opath) (auto simp: scan_pure)
  moreover have "first_some ?f 0 ks = Some (cs (ks ! i) ! j)"
  proof -
    have "?f (0 + i) (ks ! i) = Some (cs (ks ! i) ! j)"
      by (rule first_some_nth [where n = 0, simplified, OF ij(2)])
        (use lens ij in \<open>auto simp: of_nat_u8_eq\<close>)
    moreover have "?f (0 + i') (ks ! i') = None" if "i' < i" for i'
      by (rule first_some_None) (use lens ij that in \<open>auto simp: of_nat_u8_eq\<close>)
    ultimately show ?thesis
      using first_some_nth [of i ks ?f 0] ij(1) by blast
  qed
  ultimately show ?thesis
    by (simp only: get_section_chain_by_index_def index_bytes Let_def)
qed

lemma get_section_index_found:
  assumes tab: "section_table s ks cs"
    and found: "k \<in> set ks" "name_is s nm k" "c \<in> set (cs k)" "sch_p (schs s c) = q"
  shows "\<exists>i j. get_section_index_by_name nm q s = Some (push_bit 8 (ucast (of_nat i :: u8)) OR ucast (of_nat j :: u8)) \<and>
    i < length ks \<and> name_is s nm (ks ! i) \<and> j < length (cs (ks ! i)) \<and> sch_p (schs s (cs (ks ! i) ! j)) = q"
proof -
  let ?g = "\<lambda>i j c. if sch_p (schs s c) = q
    then Some (push_bit 8 (ucast (of_nat i :: u8)) OR ucast (of_nat j :: u8) :: u16) else None"
  let ?f = "\<lambda>i k. if name_is s nm k then first_some (?g i) 0 (cs k) else None"
  have idx: "get_section_index_by_name nm q s =
      Some (case first_some ?f 0 ks of None \<Rightarrow> 0 | Some x \<Rightarrow> x)"
  proof -
    have "scan (next_scon s) (\<lambda>i k. if name_is s nm k then
         scan (this_sch s) (\<lambda>j c. Some (?g i j c)) (scon_init (scons s k)) else Some None)
        (initial_section (conf s)) = Some (first_some ?f 0 ks)"
      using tab unfolding section_table_def by (intro scan_opath) (auto simp: scan_pure)
    then show ?thesis by (simp add: get_section_index_by_name_def)
  qed
  have "first_some ?f 0 ks \<noteq> None"
  proof
    assume none: "first_some ?f 0 ks = None"
    obtain i where i: "i < length ks" "ks ! i = k" using found(1) by (auto simp: in_set_conv_nth)
    then have "?f (0 + i) (ks ! i) = None"
      using none first_some_not_None [of i ks ?f 0] by blast
    then have "first_some (?g i) 0 (cs k) = None"
      using i(2) found(2) unfolding add_0_left by simp
    moreover obtain j where "j < length (cs k)" "cs k ! j = c" using found(3) by (auto simp: in_set_conv_nth)
    then have "first_some (?g i) 0 (cs k) \<noteq> None"
      using found(4) by (intro first_some_not_None [of j]) auto
    ultimately show False by simp
  qed
  then obtain index where some: "first_some ?f 0 ks = Some index" by auto
  then obtain i where i: "i < length ks" "?f i (ks ! i) = Some index"
    using first_some_SomeD [of ?f 0 ks index] unfolding add_0_left by blast
  then have "first_some (?g i) 0 (cs (ks ! i)) = Some index" and nm: "name_is s nm (ks ! i)"
    by (simp_all split: if_splits)
  then obtain j where j: "j < length (cs (ks ! i))" "?g i j (cs (ks ! i) ! j) = Some index"
    using first_some_SomeD [of "?g i" 0 "cs (ks ! i)" index] unfolding add_0_left by blast
  then show ?thesis
    using idx some i(1) nm by (intro exI [of _ i] exI [of _ j]) (auto split: if_splits)
qed

text \<open>C12: the 16-bit section numbers of the linker, container index in the
  high byte and position in the container in the low byte, name a section: the
  number \<open>get_section_index_by_name\<close> computes for a header that is in a
  container of that name is resolved by \<open>get_section_chain_by_index\<close> to a
  section with that header, for up to 256 containers of up to 256 sections.\<close>

theorem section_index_roundtrip:
  assumes tab: "section_table s ks cs"
    and found: "k \<in> set ks" "name_is s nm k" "c \<in> set (cs k)" "sch_p (schs s c) = q"
  shows "\<exists>index c'. get_section_index_by_name nm q s = Some index \<and>
    get_section_chain_by_index index s = Some (Some c') \<and> sch_p (schs s c') = q"
proof -
  obtain i j where ij: "get_section_index_by_name nm q s = Some (push_bit 8 (ucast (of_nat i :: u8)) OR ucast (of_nat j :: u8))"
      "i < length ks" "j < length (cs (ks ! i))" "sch_p (schs s (cs (ks ! i) ! j)) = q"
    using get_section_index_found [where c = c, OF tab found] by blast
  then show ?thesis
    using get_section_chain_by_index_nth [OF tab ij(2,3)] by blast
qed

subsection \<open>Concrete states\<close>

definition zero_sht :: SymbolHashTable where
  "zero_sht = \<lparr>sht_nbucket = 0, sht_nchain = 0, sht_bucket = (\<lambda>_. None)\<rparr>"

definition zero_conf :: Config where
  "zero_conf = \<lparr>file_format = 2, base_address = 0, out_size = 0, pack = 0, nodynamic = 0, dynlib = None,
     outfile_type = 0, dynamic_entry_num = 0, virtual_address_offset = 0, output_vaddr_alignment = 0,
     entry_address = 0, entry_function_name = None, program_header_num = 0, shdr_num = 0,
     initial_section = Some 0, current_section = Some 0, initial_object = Some 0,
     current_object = Some 0, ExportHashTable = zero_sht, DynamicImportHashTable = zero_sht,
     use_dt_hash = 0, no_interp = 0, has_gnu_property = 0, program_header_tail = 0, hash_table_p = 0,
     hash_table_param = \<lparr>htp_nbucket = 0, htp_bloom_size = 0, htp_bloom_shift = 0\<rparr>, bss_size = 0,
     dynsym_head = 0, dynstr_head = 0, gnu_hash_head = 0, interp_name = []\<rparr>"

definition zero_obj :: ObjectChain where
  "zero_obj = \<lparr>obj_next = None, symbol_num = 0, export_symbol_num = 0, symbol_chain_head = None,
     symbol_chain_tail = None, section_chain_head = None, section_chain_tail = None, symbol_table_p = 0,
     str_table_p = 0, sh_str_table_p = 0, reloc_section_head = None, reloc_section_tail = None,
     section_head = 0, map_base = 0\<rparr>"

definition zero_sym :: SymbolChain where
  "zero_sym = \<lparr>syc_next = None, syc_p = 0, syc_schain = None, syc_name = []\<rparr>"

definition zero_lst :: lst where
  "zero_lst = \<lparr>conf = zero_conf, scons = (\<lambda>_. zero_scon), n_scons = 1, schs = (\<lambda>_. zero_sch), n_schs = 0,
     objs = (\<lambda>_. zero_obj), n_objs = 1, syms = (\<lambda>_. zero_sym), n_syms = 0,
     rels = (\<lambda>_. \<lparr>rel_next = None, rel_p = 0, rel_sec = 0\<rparr>), n_rels = 0, lmem = (\<lambda>_. 0), mallocs = []\<rparr>"

lemmas zero_defs = zero_lst_def zero_conf_def zero_obj_def zero_scon_def zero_sch_def zero_sym_def zero_sht_def

lemma alloc_section_chain_appends_witness:
  "\<exists>s'. alloc_section_chain 100 0 0 None zero_lst = Some (0, s') \<and>
    container_list s' 0 [0] \<and> object_list s' 0 [0]"
  using alloc_section_chain_appends [of zero_lst 0 "[]" 0 "[]" 100 0]
  by (auto simp: container_list_def object_list_def opath_def zero_defs)

text \<open>Containers 0 (no name) and 1 (\<open>.t\<close>), the second with two sections.\<close>

definition two_sections :: lst where
  "two_sections = zero_lst\<lparr>
     scons := (\<lambda>_. zero_scon)(0 := zero_scon\<lparr>scon_next := Some 1\<rparr>,
       1 := zero_scon\<lparr>scon_name := Some [0x2e, 0x74], scon_init := Some 0, scon_this := Some 1\<rparr>),
     schs := (\<lambda>_. zero_sch)(0 := zero_sch\<lparr>sch_p := 100, sch_this := Some 1\<rparr>, 1 := zero_sch\<lparr>sch_p := 164\<rparr>)\<rparr>"

lemma section_index_roundtrip_witness:
  "\<exists>index c'. get_section_index_by_name [0x2e, 0x74] 164 two_sections = Some index \<and>
    get_section_chain_by_index index two_sections = Some (Some c') \<and> sch_p (schs two_sections c') = 164"
proof (rule section_index_roundtrip [where ks = "[0, 1]" and cs = "\<lambda>k. if k = 1 then [0, 1] else []" and k = 1 and c = 1])
  show "section_table two_sections [0, 1] (\<lambda>k. if k = 1 then [0, 1] else [])"
    by (simp add: section_table_def opath_def next_scon_def this_sch_def two_sections_def zero_defs)
qed (simp_all add: name_is_def two_sections_def zero_defs)

end
