(* ===== verification/LinkSymbols.thy ===== *)
theory LinkSymbols
  imports HashFun ElfTypes LinkState
begin

text \<open>
  The symbol chains of \<open>core/link/elf/symbol.c\<close>, the section headers that
  \<open>core/link/elf/section.c\<close> allocates, and the tables \<open>init_hashtable\<close> sets up for
  ELF output.  An imported name is entered in the bucket
  \<open>elf_hash name % nbucket\<close> of a hash table whose buckets are chains of
  \<open>SymbolChain\<close> records.  A zero \<open>nbucket\<close> (division by zero) and a chain that
  does not end are \<open>None\<close>.
\<close>

definition alloc_symbol_chain :: "nat \<Rightarrow> cstr \<Rightarrow> nat option \<Rightarrow> lst \<Rightarrow> nat \<times> lst" where
  "alloc_symbol_chain p nm schain s =
     (let k = n_syms s;
          c = \<lparr>syc_next = None, syc_p = p, syc_schain = schain, syc_name = nm\<rparr>
      in (k, s\<lparr>syms := (syms s)(k := c), n_syms := Suc k\<rparr>))"

definition next_syc :: "lst \<Rightarrow> nat \<Rightarrow> nat option" where
  "next_syc s k = syc_next (syms s k)"

text \<open>The loop \<open>for (; schain && i == shndx; schain = schain->next, i++)\<close>.\<close>

partial_function (option) skip_equal :: "(nat \<Rightarrow> nat option) \<Rightarrow> nat \<Rightarrow> nat \<Rightarrow> nat option \<Rightarrow> nat option option" where
  [code]: "skip_equal nx shndx i p =
     (if p = None \<or> i \<noteq> shndx then Some p else skip_equal nx shndx (Suc i) (nx (the p)))"

definition osym_append :: "nat \<Rightarrow> nat \<Rightarrow> lst \<Rightarrow> lst" where
  "osym_append oc chain s =
     (let s = (if symbol_chain_head (objs s oc) = None
               then upd_obj oc (\<lambda>o'. o'\<lparr>symbol_chain_head := Some chain\<rparr>) s
               else (case symbol_chain_tail (objs s oc) of None \<Rightarrow> s
                 | Some t \<Rightarrow> upd_sym t (\<lambda>c. c\<lparr>syc_next := Some chain\<rparr>) s))
      in upd_obj oc (\<lambda>o'. o'\<lparr>symbol_chain_tail := Some chain\<rparr>) s)"

definition alloc_export_symbol_chain :: "nat \<Rightarrow> cstr \<Rightarrow> nat \<Rightarrow> lst \<Rightarrow> lst option" where
  "alloc_export_symbol_chain is nm shndx s = do {
     cur \<leftarrow> current_object (conf s);
     schain \<leftarrow> skip_equal (next_sch s) shndx 0 (section_chain_head (objs s cur));
     let (chain, s) = alloc_symbol_chain is nm schain s;
     if symbol_chain_head (objs s cur) \<noteq> None \<and> symbol_chain_tail (objs s cur) = None then None
     else Some (upd_obj cur (\<lambda>o'. o'\<lparr>export_symbol_num := export_symbol_num o' + 1\<rparr>) (osym_append cur chain s))
   }"

definition sht_slot :: "SymbolHashTable \<Rightarrow> cstr \<Rightarrow> nat option" where
  "sht_slot t nm = (if sht_nbucket t = 0 then None else Some (unat (elf_hash nm mod sht_nbucket t)))"

text \<open>\<open>ht\<close> 0 is the export table, 1 the import table; any other value leaves the
  null pointer that is then read.\<close>

definition table_of :: "nat \<Rightarrow> lst \<Rightarrow> SymbolHashTable option" where
  "table_of ht s = (if ht = 0 then Some (ExportHashTable (conf s))
     else if ht = 1 then Some (DynamicImportHashTable (conf s)) else None)"

definition lookup_symbol :: "cstr \<Rightarrow> nat \<Rightarrow> lst \<Rightarrow> nat option" where
  "lookup_symbol nm ht s = do {
     t \<leftarrow> table_of ht s;
     b \<leftarrow> sht_slot t nm;
     r \<leftarrow> scan (next_syc s) (\<lambda>i c. Some (if z_strcmp nm (syc_name (syms s c)) = 0
                                         then Some (syc_p (syms s c)) else None)) (sht_bucket t b);
     Some (case r of None \<Rightarrow> 0 | Some p \<Rightarrow> p)
   }"

definition set_import_bucket :: "nat \<Rightarrow> nat \<Rightarrow> lst \<Rightarrow> lst" where
  "set_import_bucket b c = upd_conf (\<lambda>cf. cf\<lparr>DynamicImportHashTable :=
     (DynamicImportHashTable cf)\<lparr>sht_bucket := (sht_bucket (DynamicImportHashTable cf))(b := Some c)\<rparr>\<rparr>)"

definition alloc_dynamic_symbol_chain :: "nat \<Rightarrow> cstr \<Rightarrow> nat option \<Rightarrow> lst \<Rightarrow> lst option" where
  "alloc_dynamic_symbol_chain is nm schain s = do {
     b \<leftarrow> sht_slot (DynamicImportHashTable (conf s)) nm;
     case sht_bucket (DynamicImportHashTable (conf s)) b of
       None \<Rightarrow> (let (c, s) = alloc_symbol_chain is nm schain s in Some (set_import_bucket b c s))
     | Some h \<Rightarrow> do {
         t \<leftarrow> chain_last (next_syc s) h;
         let (c, s) = alloc_symbol_chain is nm schain s;
         Some (upd_sym t (\<lambda>x. x\<lparr>syc_next := Some c\<rparr>) s)
       }
   }"

text \<open>\<open>__z__link__alloc_elf_section\<close>: all fields but \<open>sh_offset\<close> are written.\<close>

definition alloc_elf_section :: "u32 \<Rightarrow> u64 \<Rightarrow> lst \<Rightarrow> (nat \<times> lst) option" where
  "alloc_elf_section type flags s = do {
     (a, s) \<leftarrow> new_area s;
     Some (a, upd_mem (\<lambda>m. put_bytes a (enc_shdr \<lparr>sh_name = 0, sh_type = type, sh_flags = flags, sh_addr = 0,
       sh_offset = sh_offset (rd_shdr a m), sh_size = 0, sh_link = 5, sh_info = 0, sh_addralign = 0,
       sh_entsize = 0\<rparr>) m) s)
   }"

text \<open>\<open>init_hashtable\<close> up to its early return for ELF; the bucket arrays are part of
  the configuration record, the import table's is not cleared.\<close>

definition init_hashtable :: "lst \<Rightarrow> lst option" where
  "init_hashtable s = do {
     s \<leftarrow> (if use_dt_hash (conf s) \<noteq> 0
           then do {
             (dt, s) \<leftarrow> new_area s;
             let s = upd_conf (\<lambda>c. c\<lparr>hash_table_p := dt\<rparr>) s;
             Some (upd_mem (\<lambda>m. put32 (dt + 4) 0 (put32 dt 100 m)) s)
           }
           else Some s);
     let s = upd_conf (\<lambda>c. c\<lparr>ExportHashTable := \<lparr>sht_nbucket = 100, sht_nchain = 0, sht_bucket = (\<lambda>_. None)\<rparr>\<rparr>) s;
     Some (upd_conf (\<lambda>c. c\<lparr>DynamicImportHashTable :=
       \<lparr>sht_nbucket = 10, sht_nchain = 0, sht_bucket = sht_bucket (DynamicImportHashTable c)\<rparr>\<rparr>) s)
   }"

subsection \<open>Exported symbols are a list\<close>

interpretation osym: head_tail next_syc "\<lambda>p q. upd_sym p (\<lambda>c. c\<lparr>syc_next := Some q\<rparr>)"
    "\<lambda>s. symbol_chain_head (objs s k)" "\<lambda>s. symbol_chain_tail (objs s k)" "osym_append k" for k
  by unfold_locales
    (auto simp: next_syc_def osym_append_def upd_sym_def upd_obj_def Let_def split: option.splits)

lemma skip_equal_nonzero: "shndx \<noteq> 0 \<Longrightarrow> skip_equal nx shndx 0 p = Some p"
  by (subst skip_equal.simps) simp

definition export_list :: "lst \<Rightarrow> nat \<Rightarrow> nat list \<Rightarrow> bool" where
  "export_list s k xs \<longleftrightarrow> osym.repr k s xs \<and> (\<forall>x \<in> set xs. x < n_syms s)"

lemma alloc_export_symbol_chain_total:
  assumes "current_object (conf s) = Some k" "export_list s k xs" "shndx \<noteq> 0"
  shows "\<exists>s'. alloc_export_symbol_chain p nm shndx s = Some s' \<and> export_list s' k (xs @ [n_syms s]) \<and>
    export_symbol_num (objs s' k) = export_symbol_num (objs s k) + 1 \<and>
    syms s' (n_syms s) = \<lparr>syc_next = None, syc_p = p, syc_schain = section_chain_head (objs s k), syc_name = nm\<rparr>"
proof -
  define c where "c = \<lparr>syc_next = None, syc_p = p, syc_schain = section_chain_head (objs s k), syc_name = nm\<rparr>"
  define s1 where "s1 = s\<lparr>syms := (syms s)(n_syms s := c), n_syms := Suc (n_syms s)\<rparr>"
  have old: "osym.repr k s xs" "\<And>x. x \<in> set xs \<Longrightarrow> x < n_syms s" using assms(2) by (auto simp: export_list_def)
  have r1: "osym.repr k s1 xs"
  proof -
    have "opath (next_syc s1) (symbol_chain_head (objs s k)) xs"
      by (rule opath_cong [where nx = "next_syc s"])
        (use old in \<open>auto simp: osym.repr_def next_syc_def s1_def\<close>)
    then show ?thesis using old(1) by (simp add: osym.repr_def s1_def)
  qed
  have fresh: "n_syms s \<notin> set xs" using old(2) by blast
  have tl: "symbol_chain_tail (objs s k) \<noteq> Some (n_syms s)" if "symbol_chain_head (objs s k) \<noteq> None"
  proof -
    have "xs \<noteq> []" using that old(1) path_nonempty by (auto simp: osym.repr_def opath_def)
    then have "symbol_chain_tail (objs s k) = Some (last xs)" "last xs \<in> set xs"
      using old(1) by (simp_all add: osym.repr_def)
    then show ?thesis using fresh by auto
  qed
  have "osym.repr k (osym_append k (n_syms s) s1) (xs @ [n_syms s])"
    by (rule osym.append_refines [OF r1 fresh]) (simp add: next_syc_def s1_def c_def)
  moreover have "\<not> (symbol_chain_head (objs s k) \<noteq> None \<and> symbol_chain_tail (objs s k) = None)" "objs s1 = objs s"
    using old(1) path_nonempty by (auto simp: osym.repr_def opath_def s1_def)
  moreover have "syms (osym_append k (n_syms s) s1) (n_syms s) = c" "n_syms (osym_append k (n_syms s) s1) = Suc (n_syms s)"
    "export_symbol_num (objs (osym_append k (n_syms s) s1) k) = export_symbol_num (objs s k)"
    using tl by (auto simp: osym_append_def upd_sym_def upd_obj_def s1_def Let_def split: option.splits)
  moreover have "osym.repr k (upd_obj k (\<lambda>o'. o'\<lparr>export_symbol_num := n\<rparr>) s2) ys = osym.repr k s2 ys" for n s2 ys
  proof -
    have "next_syc (s2\<lparr>objs := f\<rparr>) = next_syc s2" for f by (simp add: next_syc_def fun_eq_iff)
    then show ?thesis by (simp add: osym.repr_def upd_obj_def)
  qed
  ultimately show ?thesis
    using assms old(2)
    by (auto simp: alloc_export_symbol_chain_def skip_equal_nonzero alloc_symbol_chain_def Let_def
        c_def [symmetric] s1_def [symmetric] export_list_def upd_obj_def less_Suc_eq
        simp del: not_None_eq)
qed

text \<open>Registering a global symbol of an object appends it to the object's
  symbol chain and counts it.  The section attached to it is always the object's
  first section: the loop that should walk to section \<open>shndx\<close> runs while
  \<open>i == shndx\<close>, so it does not run at all for a section number other than 0.\<close>

theorem export_symbol_appends:
  assumes "current_object (conf s) = Some k" "export_list s k xs" "shndx \<noteq> 0"
  shows "\<exists>s'. alloc_export_symbol_chain p nm shndx s = Some s' \<and> export_list s' k (xs @ [n_syms s]) \<and>
    export_symbol_num (objs s' k) = export_symbol_num (objs s k) + 1 \<and>
    syms s' (n_syms s) = \<lparr>syc_next = None, syc_p = p, syc_schain = section_chain_head (objs s k), syc_name = nm\<rparr>"
  using alloc_export_symbol_chain_total [OF assms] .

lemma export_symbol_appends_witness:
  "\<exists>s'. alloc_export_symbol_chain 0x500 [0x66] 3 zero_lst = Some s' \<and> export_list s' 0 [0] \<and>
    export_symbol_num (objs s' 0) = 1 \<and>
    syms s' 0 = \<lparr>syc_next = None, syc_p = 0x500, syc_schain = None, syc_name = [0x66]\<rparr>"
  using export_symbol_appends [of zero_lst 0 "[]" 3 "0x500" "[0x66]"]
  by (simp add: export_list_def osym.repr_def opath_def zero_defs)

subsection \<open>A table where the first entry of a name wins\<close>

locale first_wins =
  fixes look :: "'s \<Rightarrow> cstr \<Rightarrow> nat option"
    and ins :: "cstr \<Rightarrow> nat \<Rightarrow> 's \<Rightarrow> 's option"
    and inv :: "'s \<Rightarrow> bool"
  assumes ins_law: "\<lbrakk>inv s; nul_free nm\<rbrakk> \<Longrightarrow> \<exists>s'. ins nm p s = Some s' \<and> inv s' \<and>
      (\<forall>x. nul_free x \<longrightarrow> look s' x = (case look s x of Some q \<Rightarrow> Some q
                                      | None \<Rightarrow> if x = nm then Some p else None))"
begin

primrec ins_all :: "(cstr \<times> nat) list \<Rightarrow> 's \<Rightarrow> 's option" where
  "ins_all [] s = Some s"
| "ins_all (e # es) s = Option.bind (ins (fst e) (snd e) s) (ins_all es)"

text \<open>Entering a list is looking up in that list.\<close>

lemma ins_all_map_of:
  "inv s \<Longrightarrow> \<forall>e \<in> set es. nul_free (fst e) \<Longrightarrow>
   \<exists>s'. ins_all es s = Some s' \<and> inv s' \<and>
     (\<forall>x. nul_free x \<longrightarrow> look s' x = (case look s x of Some q \<Rightarrow> Some q | None \<Rightarrow> map_of es x))"
proof (induction es arbitrary: s)
  case (Cons e es)
  obtain nm p where e: "e = (nm, p)" by (cases e)
  obtain s1 where s1: "ins nm p s = Some s1" "inv s1" "\<And>x. nul_free x \<Longrightarrow>
      look s1 x = (case look s x of Some q \<Rightarrow> Some q | None \<Rightarrow> if x = nm then Some p else None)"
    using ins_law [of s nm p] Cons.prems e by auto
  obtain s' where "ins_all es s1 = Some s'" "inv s'" "\<And>x. nul_free x \<Longrightarrow>
      look s' x = (case look s1 x of Some q \<Rightarrow> Some q | None \<Rightarrow> map_of es x)"
    using Cons.IH [OF s1(2)] Cons.prems by auto
  then show ?case using s1 e by (auto split: option.splits)
qed (simp split: option.splits)

end

subsection \<open>The import table keeps the law\<close>

definition import_slot :: "lst \<Rightarrow> cstr \<Rightarrow> nat" where
  "import_slot s nm = unat (elf_hash nm mod sht_nbucket (DynamicImportHashTable (conf s)))"

definition import_inv :: "lst \<Rightarrow> bool" where
  "import_inv s \<longleftrightarrow> (let t = DynamicImportHashTable (conf s) in sht_nbucket t \<noteq> 0 \<and>
     (\<forall>b. \<exists>xs. opath (next_syc s) (sht_bucket t b) xs \<and>
        (\<forall>k \<in> set xs. k < n_syms s \<and> nul_free (syc_name (syms s k)) \<and> import_slot s (syc_name (syms s k)) = b)))"

definition match_import :: "lst \<Rightarrow> cstr \<Rightarrow> nat \<Rightarrow> nat option" where
  "match_import s nm c = (if z_strcmp nm (syc_name (syms s c)) = 0 then Some (syc_p (syms s c)) else None)"

definition import_look :: "lst \<Rightarrow> cstr \<Rightarrow> nat option" where
  "import_look s nm = (case scan (next_syc s) (\<lambda>i c. Some (match_import s nm c))
       (sht_bucket (DynamicImportHashTable (conf s)) (import_slot s nm)) of
     Some r \<Rightarrow> r | None \<Rightarrow> None)"

lemma import_look_path:
  "opath (next_syc s) (sht_bucket (DynamicImportHashTable (conf s)) (import_slot s nm)) xs \<Longrightarrow>
   import_look s nm = first_some (\<lambda>_. match_import s nm) 0 xs"
  by (simp add: scan_pure import_look_def)

lemma lookup_symbol_import:
  assumes "import_inv s"
  shows "lookup_symbol nm 1 s = Some (case import_look s nm of None \<Rightarrow> 0 | Some p \<Rightarrow> p)"
proof -
  obtain xs where "opath (next_syc s) (sht_bucket (DynamicImportHashTable (conf s)) (import_slot s nm)) xs"
    using assms by (auto simp: import_inv_def Let_def)
  from scan_pure [OF this, of "\<lambda>_. match_import s nm"] show ?thesis
    using assms
    by (simp add: lookup_symbol_def table_of_def sht_slot_def import_inv_def Let_def import_look_def
        import_slot_def [symmetric] match_import_def [symmetric])
qed

lemma first_some_append:
  "first_some g n (xs @ ys) = (case first_some g n xs of Some r \<Rightarrow> Some r | None \<Rightarrow> first_some g (n + length xs) ys)"
  by (induction xs arbitrary: n) (auto split: option.splits)

lemma import_slot_cong: "sht_nbucket (DynamicImportHashTable (conf s')) = sht_nbucket (DynamicImportHashTable (conf s)) \<Longrightarrow>
  import_slot s' nm = import_slot s nm"
  by (simp add: import_slot_def)

lemma first_some_cong: "(\<And>i x. x \<in> set xs \<Longrightarrow> g i x = h i x) \<Longrightarrow> first_some g n xs = first_some h n xs"
  by (induction xs arbitrary: n) (auto split: option.splits)

lemma import_insert:
  assumes inv: "import_inv s" and nm: "nul_free nm"
  shows "\<exists>s'. alloc_dynamic_symbol_chain p nm sc s = Some s' \<and> import_inv s' \<and>
    (\<forall>x. nul_free x \<longrightarrow> import_look s' x = (case import_look s x of Some q \<Rightarrow> Some q
                                      | None \<Rightarrow> if x = nm then Some p else None))"
proof -
  let ?t = "DynamicImportHashTable (conf s)"
  define b where "b = import_slot s nm"
  define k where "k = n_syms s"
  define s1 where "s1 = s\<lparr>syms := (syms s)(k := \<lparr>syc_next = None, syc_p = p, syc_schain = sc, syc_name = nm\<rparr>), n_syms := Suc k\<rparr>"
  have "\<exists>xs. \<forall>b. opath (next_syc s) (sht_bucket ?t b) (xs b) \<and>
        (\<forall>k \<in> set (xs b). k < n_syms s \<and> nul_free (syc_name (syms s k)) \<and> import_slot s (syc_name (syms s k)) = b)"
    using inv unfolding import_inv_def Let_def by (intro choice) blast
  then obtain xs where xs: "\<And>b. opath (next_syc s) (sht_bucket ?t b) (xs b)"
    "\<And>b k. k \<in> set (xs b) \<Longrightarrow> k < n_syms s \<and> nul_free (syc_name (syms s k)) \<and> import_slot s (syc_name (syms s k)) = b"
    by blast
  have k: "k \<notin> set (xs b')" for b' using xs(2) by (auto simp: k_def)
  have nb: "sht_nbucket ?t \<noteq> 0" using inv by (simp add: import_inv_def Let_def)
  have "\<exists>s'. alloc_dynamic_symbol_chain p nm sc s = Some s' \<and> n_syms s' = Suc k \<and>
      sht_nbucket (DynamicImportHashTable (conf s')) = sht_nbucket ?t \<and>
      (\<forall>x. syc_p (syms s' x) = syc_p (syms s1 x) \<and> syc_name (syms s' x) = syc_name (syms s1 x)) \<and>
      (\<forall>b'. opath (next_syc s') (sht_bucket (DynamicImportHashTable (conf s')) b') (xs b' @ (if b' = b then [k] else [])))"
  proof (cases "sht_bucket ?t b")
    case None
    then have e: "xs b = []" using xs(1) [of b] by (simp add: opath_def)
    let ?s = "set_import_bucket b k s1"
    have n: "next_syc ?s x = (if x = k then None else next_syc s x)" for x
      by (simp add: next_syc_def set_import_bucket_def upd_conf_def s1_def)
    have "opath (next_syc ?s) (sht_bucket (DynamicImportHashTable (conf ?s)) b') (xs b' @ (if b' = b then [k] else []))" for b'
    proof (cases "b' = b")
      case True
      then show ?thesis using e n by (simp add: opath_def set_import_bucket_def upd_conf_def)
    next
      case False
      have "opath (next_syc ?s) (sht_bucket ?t b') (xs b')"
        by (rule opath_cong [OF xs(1)]) (use k n in auto)
      then show ?thesis using False by (simp add: set_import_bucket_def upd_conf_def s1_def)
    qed
    then show ?thesis
      using None nb
      by (intro exI [of _ ?s]) (simp add: alloc_dynamic_symbol_chain_def sht_slot_def alloc_symbol_chain_def
          b_def [unfolded import_slot_def, symmetric] k_def [symmetric] s1_def [symmetric],
          simp add: set_import_bucket_def upd_conf_def s1_def)
  next
    case (Some h)
    then have p: "path (next_syc s) h (xs b)" using xs(1) [of b] by (simp add: opath_def)
    let ?l = "last (xs b)"
    let ?s = "upd_sym ?l (\<lambda>x. x\<lparr>syc_next := Some k\<rparr>) s1"
    have l: "?l \<in> set (xs b)" using p path_nonempty by (intro last_in_set) auto
    have n: "next_syc ?s x = (if x = ?l then Some k else if x = k then None else next_syc s x)" for x
      using l k by (auto simp: next_syc_def upd_sym_def s1_def)
    have lk: "?l \<noteq> k" using l k by metis
    have "opath (next_syc ?s) (sht_bucket ?t b') (xs b' @ (if b' = b then [k] else []))" for b'
    proof (cases "b' = b")
      case True
      have "path (next_syc ?s) h (xs b @ [k])"
        by (rule path_extend [OF p refl k]) (use n k lk in auto)
      then show ?thesis using True Some by (simp add: opath_def)
    next
      case False
      then have "?l \<notin> set (xs b')" using xs(2) [of ?l b] xs(2) [of ?l b'] l by auto
      then have "opath (next_syc ?s) (sht_bucket ?t b') (xs b')"
        by (intro opath_cong [OF xs(1)]) (use k n in auto)
      then show ?thesis using False by simp
    qed
    moreover have "alloc_dynamic_symbol_chain p nm sc s = Some ?s"
      using Some nb chain_last_path [OF p]
      by (simp add: alloc_dynamic_symbol_chain_def sht_slot_def alloc_symbol_chain_def
          b_def [unfolded import_slot_def, symmetric] k_def [symmetric] s1_def [symmetric])
    moreover have "n_syms ?s = Suc k" "conf ?s = conf s"
      "\<And>x. syc_p (syms ?s x) = syc_p (syms s1 x) \<and> syc_name (syms ?s x) = syc_name (syms s1 x)"
      by (simp_all add: upd_sym_def s1_def)
    ultimately show ?thesis by (intro exI [of _ ?s]) simp
  qed
  then obtain s' where s': "alloc_dynamic_symbol_chain p nm sc s = Some s'" "n_syms s' = Suc k"
      "sht_nbucket (DynamicImportHashTable (conf s')) = sht_nbucket ?t"
      "\<And>x. syc_p (syms s' x) = syc_p (syms s1 x)" "\<And>x. syc_name (syms s' x) = syc_name (syms s1 x)"
      "\<And>b'. opath (next_syc s') (sht_bucket (DynamicImportHashTable (conf s')) b') (xs b' @ (if b' = b then [k] else []))"
    by blast
  note slot = import_slot_cong [OF s'(3)]
  have nk: "syc_name (syms s1 k) = nm" "x \<noteq> k \<Longrightarrow> syc_name (syms s1 x) = syc_name (syms s x)" for x
    by (simp_all add: s1_def)
  have "import_inv s'"
    unfolding import_inv_def Let_def s'(2,3,5) slot
  proof (intro conjI allI)
    fix b'
    have "\<forall>j \<in> set (xs b' @ (if b' = b then [k] else [])). j < Suc k \<and> nul_free (syc_name (syms s1 j)) \<and> import_slot s (syc_name (syms s1 j)) = b'"
      using xs(2) [of _ b'] k nm nk by (auto simp: b_def k_def s1_def less_Suc_eq)
    then show "\<exists>ys. opath (next_syc s') (sht_bucket (DynamicImportHashTable (conf s')) b') ys \<and>
        (\<forall>j \<in> set ys. j < Suc k \<and> nul_free (syc_name (syms s1 j)) \<and> import_slot s (syc_name (syms s1 j)) = b')"
      using s'(6) [of b'] by blast
  qed (use nb in auto)
  moreover have "import_look s' x = (case import_look s x of Some q \<Rightarrow> Some q | None \<Rightarrow> if x = nm then Some p else None)"
    if "nul_free x" for x
  proof -
    let ?b = "import_slot s x"
    have m: "match_import s' x c = match_import s x c" if "c \<in> set (xs ?b)" for i c
      using that k by (auto simp: match_import_def s' s1_def)
    have "first_some (\<lambda>_. match_import s' x) 0 (xs ?b) = first_some (\<lambda>_. match_import s x) 0 (xs ?b)"
      by (rule first_some_cong) (rule m)
    then show ?thesis
      using import_look_path [OF xs(1)] import_look_path [of s' x, unfolded slot, OF s'(6)] that nm
      by (auto simp: first_some_append match_import_def s' nk z_strcmp_eq0 b_def s1_def split: option.splits)
  qed
  ultimately show ?thesis using s'(1) by blast
qed

interpretation impt: first_wins import_look "\<lambda>nm p. alloc_dynamic_symbol_chain p nm None" import_inv
  by unfold_locales (rule import_insert)

text \<open>Entering a list of imports, in order.\<close>

primrec enter_imports :: "(cstr \<times> nat) list \<Rightarrow> lst \<Rightarrow> lst option" where
  "enter_imports [] s = Some s"
| "enter_imports (e # es) s = Option.bind (alloc_dynamic_symbol_chain (snd e) (fst e) None s) (enter_imports es)"

lemma enter_imports_ins_all: "enter_imports es s = impt.ins_all es s"
  by (induction es arbitrary: s) (simp_all add: fun_eq_iff [symmetric] cong: Option.bind_cong)

lemma import_inv_empty:
  assumes "sht_nbucket (DynamicImportHashTable (conf s)) \<noteq> 0"
    "sht_bucket (DynamicImportHashTable (conf s)) = (\<lambda>_. None)"
  shows "import_inv s" "import_look s nm = None"
  using assms by (auto simp: import_inv_def Let_def opath_def import_look_def scan_def intro: exI [of _ "[]"])

text \<open>C10: the import table is a finite map in which the first entry of a name
  wins: after entering any list of (name, address) pairs into the empty table,
  \<open>lookup_symbol\<close> ends for every name and returns the address of the first pair with
  that name, and 0 for a name that is not in the list.\<close>

theorem import_table_is_map:
  assumes "sht_nbucket (DynamicImportHashTable (conf s)) \<noteq> 0"
    "sht_bucket (DynamicImportHashTable (conf s)) = (\<lambda>_. None)"
    and "\<forall>e \<in> set es. nul_free (fst e)" "nul_free nm"
  shows "\<exists>s'. enter_imports es s = Some s' \<and>
    lookup_symbol nm 1 s' = Some (case map_of es nm of None \<Rightarrow> 0 | Some p \<Rightarrow> p)"
proof -
  obtain s' where "impt.ins_all es s = Some s'" "import_inv s'" "import_look s' nm = map_of es nm"
    using impt.ins_all_map_of [OF import_inv_empty(1) [OF assms(1,2)] assms(3)]
      import_inv_empty(2) [OF assms(1,2)] assms(4) by auto
  then show ?thesis using lookup_symbol_import [of s' nm] by (simp add: enter_imports_ins_all)
qed

lemma import_table_is_map_witness:
  "\<exists>s'. enter_imports [([0x61], 100), ([0x62], 200), ([0x61], 300)]
      (upd_conf (\<lambda>c. c\<lparr>DynamicImportHashTable := zero_sht\<lparr>sht_nbucket := 10\<rparr>\<rparr>) zero_lst) = Some s' \<and>
    lookup_symbol [0x61] 1 s' = Some 100"
  using import_table_is_map [of "upd_conf (\<lambda>c. c\<lparr>DynamicImportHashTable := zero_sht\<lparr>sht_nbucket := 10\<rparr>\<rparr>) zero_lst"
      "[([0x61], 100), ([0x62], 200), ([0x61], 300)]" "[0x61]"]
  by (simp add: upd_conf_def zero_sht_def)

end
