(* ===== verification/HashTables.thy ===== *)
theory HashTables
  imports HashFun LinkState
begin

text \<open>
  The symbol hash tables the linker builds in memory: the System V table
  (\<open>DT_HASH\<close>) of \<open>core/link/hashtable.c\<close>, and the GNU table, which
  \<open>core/link/elf/dynamic.c\<close> fills and \<open>core/link/hashtable.c\<close> searches.  A table
  is a byte area at address \<open>t\<close>; all words are read and written there as the C
  code does.  The lookups compare with the name of a symbol of \<open>.dynsym\<close>,
  \<open>sym_name\<close>.  A search or an insertion that does not end is \<open>None\<close>.
\<close>

definition sym_name :: "mem \<Rightarrow> nat \<Rightarrow> nat \<Rightarrow> nat \<Rightarrow> cstr option" where
  "sym_name m dsyms strings i = str_at m (strings + unat (st_name (rd_sym (dsyms + 24 * i) m)))"

subsection \<open>The System V table\<close>

text \<open>\<open>nbucket\<close> at \<open>t\<close>, \<open>nchain\<close> at \<open>t + 4\<close>, the buckets from \<open>t + 8\<close>, then the
  chain words.\<close>

definition dt_bucket :: "nat \<Rightarrow> nat" where
  "dt_bucket t = t + 8"

definition dt_chain :: "nat \<Rightarrow> mem \<Rightarrow> nat" where
  "dt_chain t m = dt_bucket t + 4 * unat (get32 t m)"

partial_function (option) dt_end :: "nat \<Rightarrow> mem \<Rightarrow> nat \<Rightarrow> nat option" where
  [code]: "dt_end chain m p =
     (if get32 p m = 0 then Some p else dt_end chain m (chain + 4 * unat (get32 p m)))"

definition check_dt_hash_collision :: "nat \<Rightarrow> nat \<Rightarrow> u32 \<Rightarrow> u32 \<Rightarrow> mem \<Rightarrow> mem option" where
  "check_dt_hash_collision bucket chain md sym_index m =
     (let b = bucket + 4 * unat md in
      if get32 b m \<noteq> 0 then
        Option.bind (dt_end chain m (chain + 4 * unat (get32 b m))) (\<lambda>p. Some (put32 p sym_index m))
      else Some (put32 b sym_index m))"

definition add_dt_hash_entry :: "nat \<Rightarrow> cstr \<Rightarrow> u32 \<Rightarrow> mem \<Rightarrow> mem option" where
  "add_dt_hash_entry t nm sym_index m =
     (if get32 t m = 0 then None
      else let md = sysv_hash nm mod get32 t m;
               m = put32 (t + 4) (get32 (t + 4) m + 1) m
           in check_dt_hash_collision (dt_bucket t) (dt_chain t m) md sym_index m)"

partial_function (option) sysv_from :: "(nat \<Rightarrow> cstr option) \<Rightarrow> nat \<Rightarrow> mem \<Rightarrow> cstr \<Rightarrow> u32 \<Rightarrow> u32 option" where
  [code]: "sysv_from nm chain m s i =
     (if i = 0 then Some 0
      else Option.bind (nm (unat i)) (\<lambda>x.
        if z_strcmp s x = 0 then Some i
        else sysv_from nm chain m s (get32 (chain + 4 * unat i) m)))"

definition sysv_lookup_in :: "(nat \<Rightarrow> cstr option) \<Rightarrow> nat \<Rightarrow> cstr \<Rightarrow> u32 \<Rightarrow> mem \<Rightarrow> u32 option" where
  "sysv_lookup_in nm t s h m =
     (if get32 t m = 0 then None
      else sysv_from nm (dt_chain t m) m s (get32 (dt_bucket t + 4 * unat (h mod get32 t m)) m))"

definition sysv_lookup :: "cstr \<Rightarrow> u32 \<Rightarrow> lst \<Rightarrow> u32 option" where
  "sysv_lookup s h st =
     sysv_lookup_in (sym_name (lmem st) (dynsym_head (conf st)) (dynstr_head (conf st)))
       (hash_table_p (conf st)) s h (lmem st)"

subsection \<open>The GNU table\<close>

text \<open>\<open>nbuckets\<close>, \<open>symoffset\<close>, \<open>bloom_size\<close>, \<open>bloom_shift\<close> at \<open>t\<close>, the 64-bit
  bloom words from \<open>t + 16\<close>, the buckets, the chain of hash words.\<close>

definition gnu_bloom :: "nat \<Rightarrow> mem \<Rightarrow> u32 \<Rightarrow> nat" where
  "gnu_bloom t m index = t + 16 + 8 * unat (index AND (get32 (t + 8) m - 1))"

definition gnu_bucket :: "nat \<Rightarrow> mem \<Rightarrow> nat" where
  "gnu_bucket t m = t + 16 + 8 * unat (get32 (t + 8) m)"

definition gnu_chain :: "nat \<Rightarrow> mem \<Rightarrow> nat" where
  "gnu_chain t m = gnu_bucket t m + 4 * unat (get32 t m)"

definition set_bloom_bits :: "nat \<Rightarrow> u32 \<Rightarrow> mem \<Rightarrow> mem" where
  "set_bloom_bits t gh m =
     (let shift1 = unat (gh mod 64);
          shift2 = unat (drop_bit (unat (get32 (t + 12) m)) gh mod 64);
          bit1 = push_bit shift1 1;
          bit2 = push_bit shift2 1;
          index = gh div 64;
          v = gnu_bloom t m index
      in put64 v (get64 v m OR bit1 OR bit2) m)"

partial_function (option) gnu_free :: "mem \<Rightarrow> nat \<Rightarrow> nat option" where
  [code]: "gnu_free m p = (if get32 p m = 0 then Some p else gnu_free m (p + 4))"

definition check_gnu_hash_collision ::
    "nat \<Rightarrow> nat \<Rightarrow> u32 \<Rightarrow> u32 \<Rightarrow> u32 \<Rightarrow> u32 \<Rightarrow> mem \<Rightarrow> mem option" where
  "check_gnu_hash_collision bucket chain gh md sym_index sym_offset m =
     (let p = bucket + 4 * unat md in
      if get32 p m \<noteq> 0 then
        Option.bind (gnu_free m (chain + 4 * unat (get32 p m) - 4 * unat sym_offset)) (\<lambda>q.
          Some (put32 q (gh AND 0xfffffffe) m))
      else Some (put32 (chain + 4 * unat sym_index - 4 * unat sym_offset) (gh AND 0xfffffffe)
                  (put32 p sym_index m)))"

definition add_gnu_hash_entry :: "nat \<Rightarrow> cstr \<Rightarrow> u32 \<Rightarrow> mem \<Rightarrow> mem option" where
  "add_gnu_hash_entry t nm sym_index m =
     (if get32 t m = 0 then None
      else let gh = gnu_hash nm;
               m = set_bloom_bits t gh m;
               md = gh mod get32 t m
           in check_gnu_hash_collision (gnu_bucket t m) (gnu_chain t m) gh md sym_index
                (get32 (t + 4) m) m)"

partial_function (option) gnu_from ::
    "(nat \<Rightarrow> cstr option) \<Rightarrow> mem \<Rightarrow> cstr \<Rightarrow> u32 \<Rightarrow> nat \<Rightarrow> u32 \<Rightarrow> u32 option" where
  [code]: "gnu_from nm m s h1 hashval i =
     (let h2 = get32 hashval m in
      if h1 = h2 OR 1 then
        Option.bind (nm (unat i)) (\<lambda>x.
          if z_strcmp s x = 0 then Some i
          else if h2 AND 1 \<noteq> 0 then Some 0
          else gnu_from nm m s h1 (hashval + 4) (i + 1))
      else if h2 AND 1 \<noteq> 0 then Some 0
      else gnu_from nm m s h1 (hashval + 4) (i + 1))"

definition gnu_lookup :: "(nat \<Rightarrow> cstr option) \<Rightarrow> nat \<Rightarrow> u32 \<Rightarrow> cstr \<Rightarrow> mem \<Rightarrow> u32 option" where
  "gnu_lookup nm t h1 s m =
     (if get32 t m = 0 then None
      else let buckets = gnu_bucket t m;
               i = get32 (buckets + 4 * unat (h1 mod get32 t m)) m
           in if i = 0 then Some 0
              else gnu_from nm m s (h1 OR 1) (gnu_chain t m + 4 * unat (i - get32 (t + 4) m)) i)"

definition gnu_lookup_filtered ::
    "(nat \<Rightarrow> cstr option) \<Rightarrow> nat \<Rightarrow> u32 \<Rightarrow> cstr \<Rightarrow> u32 \<Rightarrow> u64 \<Rightarrow> mem \<Rightarrow> u32 option" where
  "gnu_lookup_filtered nm t h1 s fofs fmask m =
     (let f = get64 (gnu_bloom t m fofs) m in
      if f AND fmask = 0 then Some 0
      else if drop_bit (unat (drop_bit (unat (get32 (t + 12) m)) h1 mod 64)) f AND 1 = 0 then Some 0
      else gnu_lookup nm t h1 s m)"

definition find_sym2_in :: "(nat \<Rightarrow> cstr option) \<Rightarrow> nat \<Rightarrow> cstr \<Rightarrow> mem \<Rightarrow> u32 option" where
  "find_sym2_in nm t s m =
     (let gh = gnu_hash s in
      gnu_lookup_filtered nm t gh s (gh div 64) (push_bit (unat (gh mod 64)) 1) m)"

definition find_sym2 :: "cstr \<Rightarrow> lst \<Rightarrow> u32 option" where
  "find_sym2 s st =
     find_sym2_in (sym_name (lmem st) (dynsym_head (conf st)) (dynstr_head (conf st)))
       (gnu_hash_head (conf st)) s (lmem st)"

subsection \<open>What both tables promise\<close>

text \<open>Symbols are entered in the order of their numbers, from 1 on.  \<open>inv ns m\<close>:
  the table in \<open>m\<close> holds exactly the names \<open>ns\<close>, the \<open>i\<close>-th with number \<open>i + 1\<close>;
  \<open>room n\<close> bounds how many fit and \<open>good\<close> which names can be entered.\<close>

locale symbol_table =
  fixes add :: "cstr \<Rightarrow> u32 \<Rightarrow> mem \<Rightarrow> mem option"
    and look :: "(nat \<Rightarrow> cstr option) \<Rightarrow> cstr \<Rightarrow> mem \<Rightarrow> u32 option"
    and inv :: "cstr list \<Rightarrow> mem \<Rightarrow> bool"
    and room :: nat
    and good :: "cstr \<Rightarrow> bool"
  assumes add_inv: "\<lbrakk>inv ns m; length ns < room; good nm\<rbrakk>
      \<Longrightarrow> \<exists>m'. add nm (of_nat (Suc (length ns))) m = Some m' \<and> inv (ns @ [nm]) m'"
    and look_hit: "\<lbrakk>inv ns m; length ns \<le> room; s \<in> set ns; nul_free s;
        \<And>i. i < length ns \<Longrightarrow> nul_free (ns ! i) \<and> symname (Suc i) = Some (ns ! i)\<rbrakk>
      \<Longrightarrow> \<exists>i < length ns. look symname s m = Some (of_nat (Suc i)) \<and> ns ! i = s"
begin

primrec add_all :: "cstr list \<Rightarrow> nat \<Rightarrow> mem \<Rightarrow> mem option" where
  "add_all [] k m = Some m"
| "add_all (nm # ns) k m = Option.bind (add nm (of_nat k) m) (add_all ns (Suc k))"

lemma add_all_inv:
  "inv ms m \<Longrightarrow> length ms + length ns \<le> room \<Longrightarrow> (\<forall>n \<in> set ns. good n) \<Longrightarrow>
   \<exists>m'. add_all ns (Suc (length ms)) m = Some m' \<and> inv (ms @ ns) m'"
proof (induction ns arbitrary: ms m)
  case (Cons nm ns)
  then obtain m1 where m1: "add nm (of_nat (Suc (length ms))) m = Some m1" "inv (ms @ [nm]) m1"
    using add_inv [of ms m nm] by auto
  then show ?case
    using Cons.IH [of "ms @ [nm]" m1] Cons.prems by simp
qed simp

lemma enter_then_look:
  assumes "inv [] m" "length ns \<le> room" "\<forall>n \<in> set ns. good n \<and> nul_free n" "s \<in> set ns"
  shows "\<exists>m'. add_all ns 1 m = Some m' \<and>
    (\<forall>nm. (\<forall>i < length ns. nm (Suc i) = Some (ns ! i)) \<longrightarrow>
       (\<exists>i < length ns. look nm s m' = Some (of_nat (Suc i)) \<and> ns ! i = s))"
proof -
  obtain m' where "add_all ns 1 m = Some m'" "inv ns m'"
    using add_all_inv [of "[]" m ns] assms by auto
  then show ?thesis
    using look_hit [of ns m' s] assms by (auto dest: nth_mem)
qed

end

subsection \<open>The System V table keeps its promise\<close>

definition CHAIN_ROOM :: nat where
  "CHAIN_ROOM = 0x2fff"

definition onz :: "u32 \<Rightarrow> nat option" where
  "onz w = (if w = 0 then None else Some (unat w))"

text \<open>The table as words from \<open>t\<close>: 0 \<open>nbucket\<close>, \<open>2 + b\<close> bucket \<open>b\<close>,
  \<open>2 + nbucket + i\<close> chain word \<open>i\<close>.\<close>

definition tword :: "nat \<Rightarrow> mem \<Rightarrow> nat \<Rightarrow> u32" where
  "tword t m k = get32 (t + 4 * k) m"

definition dt_next :: "nat \<Rightarrow> mem \<Rightarrow> nat \<Rightarrow> nat option" where
  "dt_next t m i = onz (get32 (dt_chain t m + 4 * i) m)"

definition in_bucket :: "nat \<Rightarrow> cstr list \<Rightarrow> nat \<Rightarrow> nat list" where
  "in_bucket nb ns b = filter (\<lambda>i. unat (sysv_hash (ns ! (i - 1))) mod nb = b) [1..<Suc (length ns)]"

definition dt_inv :: "nat \<Rightarrow> cstr list \<Rightarrow> mem \<Rightarrow> bool" where
  "dt_inv t ns m \<longleftrightarrow> 0 < unat (tword t m 0) \<and>
     (\<forall>i. length ns < i \<longrightarrow> i \<le> CHAIN_ROOM \<longrightarrow> dt_next t m i = None) \<and>
     (\<forall>b < unat (tword t m 0). opath (dt_next t m) (onz (tword t m (2 + b))) (in_bucket (unat (tword t m 0)) ns b))"

lemma dt_addr:
  "tword t m 0 = get32 t m" "dt_bucket t + 4 * b = t + 4 * (2 + b)"
  "dt_chain t m + 4 * i = t + 4 * (2 + unat (get32 t m) + i)"
  by (simp_all add: tword_def dt_bucket_def dt_chain_def)

lemma dt_next_tword: "dt_next t m i = onz (tword t m (2 + unat (tword t m 0) + i))"
  by (simp add: dt_next_def tword_def dt_addr(3))

lemma tword_put: "tword t (put32 (t + 4 * j) w m) k = (if k = j then w else tword t m k)"
  by (simp add: tword_def mem_simps)

lemma in_bucket_append:
  "in_bucket nb (ns @ [nm]) b =
   in_bucket nb ns b @ (if unat (sysv_hash nm) mod nb = b then [Suc (length ns)] else [])"
proof -
  have "filter (\<lambda>i. unat (sysv_hash ((ns @ [nm]) ! (i - 1))) mod nb = b) [1..<Suc (length ns)] =
      filter (\<lambda>i. unat (sysv_hash (ns ! (i - 1))) mod nb = b) [1..<Suc (length ns)]"
    by (rule filter_cong) (auto simp: nth_append)
  then show ?thesis by (simp add: in_bucket_def)
qed

lemma in_bucket_set: "i \<in> set (in_bucket nb ns b) \<Longrightarrow> 1 \<le> i \<and> i \<le> length ns"
  by (auto simp: in_bucket_def)

lemma in_bucket_hash: "i \<in> set (in_bucket nb ns b) \<Longrightarrow> unat (sysv_hash (ns ! (i - 1))) mod nb = b"
  by (simp add: in_bucket_def)

lemma dt_end_path:
  "path (dt_next t m) i xs \<Longrightarrow> dt_end (dt_chain t m) m (dt_chain t m + 4 * i) = Some (dt_chain t m + 4 * last xs)"
proof (induction xs arbitrary: i)
  case (Cons x xs)
  note w = dt_next_def [of t m i]
  show ?case
  proof (cases "get32 (dt_chain t m + 4 * i) m = 0")
    case True
    then show ?thesis using Cons.prems w by (subst dt_end.simps) (auto simp: path_Cons onz_def)
  next
    case False
    then have "path (dt_next t m) (unat (get32 (dt_chain t m + 4 * i) m)) xs"
      using Cons.prems w by (auto simp: path_Cons onz_def)
    then show ?thesis
      using Cons.IH False by (subst dt_end.simps) (auto dest: path_nonempty)
  qed
qed auto

lemma sysv_from_path:
  assumes "opath (dt_next t m) (onz w) xs"
    and "\<And>i. i \<in> set xs \<Longrightarrow> nm i = Some (f i) \<and> i < 2 ^ 32"
  shows "sysv_from nm (dt_chain t m) m s w =
    Some (case List.find (\<lambda>i. z_strcmp s (f i) = 0) xs of None \<Rightarrow> 0 | Some i \<Rightarrow> of_nat i)"
  using assms
proof (induction xs arbitrary: w)
  case Nil
  then have "w = 0" by (auto simp: opath_def onz_def split: if_splits)
  then show ?case by (subst sysv_from.simps) simp
next
  case (Cons x xs)
  then have w: "w \<noteq> 0" "unat w = x" "opath (dt_next t m) (dt_next t m x) xs"
    by (auto simp: opath_def onz_def path_Cons split: if_splits option.splits)
  note n = dt_next_def [of t m x]
  have x: "of_nat x = w" using w(2) by auto
  show ?case
    using Cons.prems(2) [of x] w(1,2) Cons.IH [OF w(3) [unfolded n]] Cons.prems(2) x
    by (subst sysv_from.simps) auto
qed

lemma dt_add_inv:
  assumes inv: "dt_inv t ns m" and room: "length ns < CHAIN_ROOM"
  shows "\<exists>m'. add_dt_hash_entry t nm (of_nat (Suc (length ns))) m = Some m' \<and> dt_inv t (ns @ [nm]) m'"
proof -
  define n where "n = Suc (length ns)"
  define nb where "nb = unat (tword t m 0)"
  define m1 where "m1 = put32 (t + 4) (get32 (t + 4) m + 1) m"
  have nb: "0 < nb" using inv by (simp add: dt_inv_def nb_def)
  have idx: "unat (of_nat n :: u32) = n" "(of_nat n :: u32) \<noteq> 0"
    using room by (auto simp: n_def CHAIN_ROOM_def unat_of_nat take_bit_nat_eq_self word_unat_eq_iff
        simp del: of_nat_Suc)
  define b where "b = unat (sysv_hash nm) mod nb"
  have b: "b < nb" using nb by (simp add: b_def)
  have m1: "tword t m1 k = (if k = 1 then tword t m 1 + 1 else tword t m k)" for k
    using tword_put [of t 1 "get32 (t + 4) m + 1" m k] by (simp add: m1_def tword_def)
  have n1: "dt_next t m1 = dt_next t m"
    by (rule ext) (simp add: dt_next_tword m1)
  have g1: "get32 t m1 = get32 t m"
    using m1 [of 0] by (simp add: dt_addr(1))
  have nb0: "nb = unat (get32 t m)" by (simp add: nb_def dt_addr(1))
  have md: "unat (sysv_hash nm mod get32 t m) = b"
    by (simp add: b_def nb0 unat_mod)
  have c1: "dt_chain t m1 = dt_chain t m" by (simp add: dt_chain_def g1)
  let ?xs = "in_bucket nb ns b"
  have path: "opath (dt_next t m) (onz (tword t m (2 + b))) ?xs"
    using inv b by (simp add: dt_inv_def nb_def)
  have n_free: "n \<notin> set (in_bucket nb ns b')" for b'
    using in_bucket_set [of n nb ns b'] by (auto simp: n_def)
  have add: "add_dt_hash_entry t nm (of_nat n) m =
      check_dt_hash_collision (dt_bucket t) (dt_chain t m) (sysv_hash nm mod get32 t m) (of_nat n) m1"
    using nb by (auto simp: add_dt_hash_entry_def Let_def m1_def [symmetric] c1 nb0)
  have bw: "get32 (dt_bucket t + 4 * b) m1 = tword t m (2 + b)"
    using m1 [of "2 + b"] unfolding dt_addr(2) tword_def [symmetric] by simp
  obtain k where k: "check_dt_hash_collision (dt_bucket t) (dt_chain t m) (sysv_hash nm mod get32 t m) (of_nat n) m1
      = Some (put32 (t + 4 * k) (of_nat n) m1)"
    "k = (if ?xs = [] then 2 + b else 2 + nb + last ?xs)"
  proof (cases "tword t m (2 + b) = 0")
    case True
    then have "?xs = []" using path by (simp add: opath_def onz_def)
    then show ?thesis
      using that [of "2 + b"] True bw md by (simp add: check_dt_hash_collision_def dt_addr(2))
  next
    case False
    then have p: "path (dt_next t m1) (unat (tword t m (2 + b))) ?xs"
      using path by (simp add: opath_def onz_def n1)
    then have ne: "?xs \<noteq> []" by auto
    have "dt_end (dt_chain t m) m1 (dt_chain t m + 4 * unat (tword t m (2 + b))) =
        Some (t + 4 * (2 + nb + last ?xs))"
      using dt_end_path [OF p] unfolding c1 dt_addr(3) nb0 .
    then show ?thesis
      using that [of "2 + nb + last ?xs"] ne False bw md by (simp add: check_dt_hash_collision_def Let_def)
  qed
  define m2 where "m2 = put32 (t + 4 * k) (of_nat n) m1"
  have k2: "2 \<le> k" using k(2) by simp
  have m2: "tword t m2 j = (if j = k then of_nat n else tword t m1 j)" for j
    by (simp add: m2_def tword_put)
  have nb2: "tword t m2 0 = tword t m 0" using k2 by (simp add: m2 m1)
  have next2: "dt_next t m2 i = (if ?xs \<noteq> [] \<and> i = last ?xs then Some n else dt_next t m i)" for i
    using b k(2) idx by (auto simp: dt_next_tword nb2 m2 m1 nb_def [symmetric] onz_def)
  have buck2: "tword t m2 (2 + b') = (if ?xs = [] \<and> b' = b then of_nat n else tword t m (2 + b'))" if "b' < nb" for b'
    using that k(2) by (auto simp: m2 m1)
  have last_le: "?xs \<noteq> [] \<Longrightarrow> last ?xs < n"
    using in_bucket_set [of "last ?xs" nb ns b] by (auto simp: n_def)
  have n_none: "dt_next t m n = None" using inv room by (simp add: dt_inv_def n_def)
  have "dt_inv t (ns @ [nm]) m2"
    unfolding dt_inv_def nb2 nb_def [symmetric]
  proof (intro conjI allI impI)
    show "0 < nb" by (fact nb)
    show "dt_next t m2 i = None" if "length (ns @ [nm]) < i" "i \<le> CHAIN_ROOM" for i
      using that inv last_le by (auto simp: next2 dt_inv_def n_def)
    fix b' assume b': "b' < nb"
    have old: "opath (dt_next t m) (onz (tword t m (2 + b'))) (in_bucket nb ns b')"
      using inv b' by (simp add: dt_inv_def nb_def)
    show "opath (dt_next t m2) (onz (tword t m2 (2 + b'))) (in_bucket nb (ns @ [nm]) b')"
    proof (cases "b' = b")
      case False
      have "last ?xs \<notin> set (in_bucket nb ns b')" if "?xs \<noteq> []"
        using last_in_set [OF that] False in_bucket_hash by blast
      then have "opath (dt_next t m2) (onz (tword t m (2 + b'))) (in_bucket nb ns b')"
        by (intro opath_cong [OF old]) (auto simp: next2)
      then show ?thesis
        using False buck2 [OF b'] by (simp add: in_bucket_append b_def [symmetric])
    next
      case True
      then have app: "in_bucket nb (ns @ [nm]) b' = ?xs @ [n]"
        by (simp add: in_bucket_append b_def n_def)
      show ?thesis
      proof (cases "?xs = []")
        case True
        then show ?thesis
          using \<open>b' = b\<close> buck2 [OF b] app n_none idx by (simp add: opath_def onz_def next2)
      next
        case ne: False
        then obtain h where h: "onz (tword t m (2 + b)) = Some h" "path (dt_next t m) h ?xs"
          using path by (auto simp: opath_def split: option.splits)
        have "path (dt_next t m2) h (?xs @ [n])"
          by (rule path_extend [OF h(2) refl n_free]) (use ne n_none last_le in \<open>auto simp: next2\<close>)
        then show ?thesis
          using \<open>b' = b\<close> buck2 [OF b] app ne h(1) by (simp add: opath_def)
      qed
    qed
  qed
  then show ?thesis using add k(1) by (simp add: m2_def n_def)
qed

lemma dt_look_hit:
  assumes inv: "dt_inv t ns m" and room: "length ns \<le> CHAIN_ROOM" and s: "s \<in> set ns" "nul_free s"
    and nm: "\<And>i. i < length ns \<Longrightarrow> nul_free (ns ! i) \<and> nm (Suc i) = Some (ns ! i)"
  shows "\<exists>i < length ns. sysv_lookup_in nm t s (sysv_hash s) m = Some (of_nat (Suc i)) \<and> ns ! i = s"
proof -
  define nb where "nb = unat (tword t m 0)"
  define b where "b = unat (sysv_hash s) mod nb"
  have nb: "0 < nb" "nb = unat (get32 t m)" using inv by (simp_all add: dt_inv_def nb_def dt_addr(1))
  let ?xs = "in_bucket nb ns b"
  have b: "b < nb" "unat (sysv_hash s mod get32 t m) = b" using nb by (simp_all add: b_def unat_mod)
  have "get32 (dt_bucket t + 4 * b) m = tword t m (2 + b)"
    unfolding dt_addr(2) tword_def ..
  moreover have "opath (dt_next t m) (onz (tword t m (2 + b))) ?xs"
    using inv b(1) by (simp add: dt_inv_def nb_def)
  moreover have "nm i = Some (ns ! (i - 1)) \<and> i < 2 ^ 32" if "i \<in> set ?xs" for i
    using in_bucket_set [OF that] nm [of "i - 1"] room by (auto simp: CHAIN_ROOM_def)
  ultimately have look: "sysv_lookup_in nm t s (sysv_hash s) m =
      Some (case List.find (\<lambda>i. z_strcmp s (ns ! (i - 1)) = 0) ?xs of None \<Rightarrow> 0 | Some i \<Rightarrow> of_nat i)"
    using sysv_from_path [of t m _ ?xs nm "\<lambda>i. ns ! (i - 1)" s] nb b by (auto simp: sysv_lookup_in_def)
  have eq: "z_strcmp s (ns ! (i - 1)) = 0 \<longleftrightarrow> ns ! (i - 1) = s" if "i \<in> set ?xs" for i
    using in_bucket_set [OF that] nm [of "i - 1"] s(2) by (auto simp: z_strcmp_eq0)
  obtain k where k: "k < length ns" "ns ! k = s" using s(1) by (auto simp: in_set_conv_nth)
  then have "Suc k \<in> set ?xs" by (simp add: in_bucket_def b_def del: upt_Suc)
  then obtain i where i: "List.find (\<lambda>i. z_strcmp s (ns ! (i - 1)) = 0) ?xs = Some i"
    using eq k by (cases "List.find (\<lambda>i. z_strcmp s (ns ! (i - 1)) = 0) ?xs") (auto simp: find_None_iff)
  then have "i \<in> set ?xs" "ns ! (i - 1) = s" using find_SomeD [OF i] eq by auto
  then show ?thesis
    using look i in_bucket_set [of i nb ns b] by (intro exI [of _ "i - 1"]) auto
qed

interpretation dt: symbol_table "add_dt_hash_entry t" "\<lambda>nm s. sysv_lookup_in nm t s (sysv_hash s)"
    "dt_inv t" CHAIN_ROOM "\<lambda>_. True" for t
proof unfold_locales
  show "\<exists>m'. add_dt_hash_entry t nm (of_nat (Suc (length ns))) m = Some m' \<and> dt_inv t (ns @ [nm]) m'"
    if "dt_inv t ns m" "length ns < CHAIN_ROOM" for ns m nm
    using dt_add_inv [OF that] .
  show "\<exists>i < length ns. sysv_lookup_in nm t s (sysv_hash s) m = Some (of_nat (Suc i)) \<and> ns ! i = s"
    if "dt_inv t ns m" "length ns \<le> CHAIN_ROOM" "s \<in> set ns" "nul_free s"
      "\<And>i. i < length ns \<Longrightarrow> nul_free (ns ! i) \<and> nm (Suc i) = Some (ns ! i)" for ns m s nm
    using dt_look_hit [OF that] .
qed

text \<open>Entering a list of names, the first with number \<open>k\<close>.\<close>

primrec enter_dt :: "nat \<Rightarrow> cstr list \<Rightarrow> nat \<Rightarrow> mem \<Rightarrow> mem option" where
  "enter_dt t [] k m = Some m"
| "enter_dt t (nm # ns) k m = Option.bind (add_dt_hash_entry t nm (of_nat k) m) (enter_dt t ns (Suc k))"

lemma enter_dt_add_all: "enter_dt t ns k m = dt.add_all t ns k m"
  by (induction ns arbitrary: k m) (simp_all add: fun_eq_iff [symmetric] cong: Option.bind_cong)

text \<open>C9: the System V hash table of the linker is correct: after entering any
  list of names, numbered from 1, into an empty table, every insertion has
  ended, and \<open>sysv_lookup\<close> of each name entered ends and returns the number of a
  symbol of that name.\<close>

theorem dt_hash_roundtrip:
  assumes "get32 t m \<noteq> 0" "\<And>k. k \<noteq> 0 \<Longrightarrow> k \<noteq> 1 \<Longrightarrow> get32 (t + 4 * k) m = 0"
    and "length ns \<le> CHAIN_ROOM" "\<forall>n \<in> set ns. nul_free n" "s \<in> set ns"
  shows "\<exists>m'. enter_dt t ns 1 m = Some m' \<and>
    (\<forall>nm. (\<forall>i < length ns. nm (Suc i) = Some (ns ! i)) \<longrightarrow>
      (\<exists>i < length ns. sysv_lookup_in nm t s (sysv_hash s) m' = Some (of_nat (Suc i)) \<and> ns ! i = s))"
proof -
  have z: "tword t m (2 + j) = 0" for j
    using assms(2) [of "2 + j"] by (simp add: tword_def)
  have "dt_inv t [] m"
    using assms(1) z unfolding dt_inv_def dt_next_tword
    by (simp add: in_bucket_def onz_def opath_def unat_gt_0 dt_addr(1) add.assoc del: add_2_eq_Suc)
  then show ?thesis
    using dt.enter_then_look [of t m ns s] assms(3-5) by (simp add: enter_dt_add_all)
qed

lemma get32_zero [simp]: "get32 a (\<lambda>_. 0) = 0"
  by (simp add: get32_def get_bytes_def of_le32_def)

lemma get_first_word:
  assumes "4 dvd a"
  shows "get32 a (put32 0 w (\<lambda>_. 0)) = (if a = 0 then w else 0)"
proof -
  obtain k where "a = 0 + 4 * k" using assms by auto
  then show ?thesis using get_put_index(1) [of 0 k 0 w "\<lambda>_. 0"] by simp
qed

lemma dt_hash_roundtrip_witness:
  "\<exists>m'. enter_dt 0 [[0x61], [0x62] :: cstr] 1 (put32 0 10 (\<lambda>_. 0)) = Some m' \<and>
    (\<forall>nm. (\<forall>i < 2. nm (Suc i) = Some ([[0x61], [0x62] :: cstr] ! i)) \<longrightarrow>
      (\<exists>i < 2. sysv_lookup_in nm 0 [0x62] (sysv_hash [0x62]) m' = Some (of_nat (Suc i)) \<and>
        [[0x61], [0x62]] ! i = [0x62 :: u8]))"
proof -
  have l: "length [[0x61], [0x62] :: cstr] = 2" by simp
  show ?thesis
    by (rule dt_hash_roundtrip [of 0 "put32 0 10 (\<lambda>_. 0)" "[[0x61], [0x62]]" "[0x62]", unfolded l])
      (simp_all add: get_first_word CHAIN_ROOM_def)
qed

subsection \<open>The GNU table keeps its promise\<close>

abbreviation gmask :: u32 where "gmask \<equiv> 0xfffffffe"

definition bloom_has :: "nat \<Rightarrow> mem \<Rightarrow> u32 \<Rightarrow> bool" where
  "bloom_has t m h \<longleftrightarrow> (let f = get64 (gnu_bloom t m (h div 64)) m in
     bit f (unat (h mod 64)) \<and> bit f (unat (drop_bit (unat (get32 (t + 12) m)) h mod 64)))"

definition first_in_bucket :: "nat \<Rightarrow> cstr list \<Rightarrow> nat \<Rightarrow> nat option" where
  "first_in_bucket nb ns b = List.find (\<lambda>k. unat (gnu_hash (ns ! k)) mod nb = b) [0..<length ns]"

text \<open>\<open>gnu_words t bs nb f h m\<close>: the header, the buckets (from \<open>f\<close>) and the first
  words of the chain (from \<open>h\<close>).\<close>

definition gnu_inv :: "nat \<Rightarrow> cstr list \<Rightarrow> mem \<Rightarrow> bool" where
  "gnu_inv t ns m \<longleftrightarrow> get32 t m \<noteq> 0 \<and> get32 (t + 4) m = 1 \<and> get32 (t + 8) m \<noteq> 0 \<and>
     (\<forall>k < length ns. get32 (gnu_chain t m + 4 * k) m = gnu_hash (ns ! k) AND gmask \<and>
        gnu_hash (ns ! k) AND gmask \<noteq> 0 \<and> bloom_has t m (gnu_hash (ns ! k))) \<and>
     (\<forall>k. length ns \<le> k \<longrightarrow> k \<le> CHAIN_ROOM \<longrightarrow> get32 (gnu_chain t m + 4 * k) m = 0) \<and>
     (\<forall>b < unat (get32 t m). get32 (gnu_bucket t m + 4 * b) m =
        (case first_in_bucket (unat (get32 t m)) ns b of None \<Rightarrow> 0 | Some k \<Rightarrow> of_nat (Suc k)))"

lemma find_append': "List.find P (xs @ ys) = (case List.find P xs of Some x \<Rightarrow> Some x | None \<Rightarrow> List.find P ys)"
  by (induction xs) auto

lemma first_in_bucket_append:
  "first_in_bucket nb (ns @ [nm]) b =
   (case first_in_bucket nb ns b of Some k \<Rightarrow> Some k
    | None \<Rightarrow> if unat (gnu_hash nm) mod nb = b then Some (length ns) else None)"
proof -
  have "List.find (\<lambda>k. unat (gnu_hash ((ns @ [nm]) ! k)) mod nb = b) [0..<length ns] =
      first_in_bucket nb ns b"
    unfolding first_in_bucket_def by (rule find_cong) (auto simp: nth_append)
  then show ?thesis
    using find_append' [of "\<lambda>k. unat (gnu_hash ((ns @ [nm]) ! k)) mod nb = b" "[0..<length ns]"]
    by (simp add: first_in_bucket_def split: option.splits)
qed

lemma first_in_bucket_le:
  assumes "j < length ns" "unat (gnu_hash (ns ! j)) mod nb = b"
  shows "\<exists>k \<le> j. first_in_bucket nb ns b = Some k"
proof (cases "first_in_bucket nb ns b")
  case None
  then show ?thesis using assms by (auto simp: first_in_bucket_def find_None_iff)
next
  case (Some k)
  then obtain i where i: "i < length ns" "k = i" "\<forall>l < i. unat (gnu_hash (ns ! l)) mod nb \<noteq> b"
    by (auto simp: first_in_bucket_def find_Some_iff)
  then have "k \<le> j" using assms(2) not_le by blast
  then show ?thesis using Some by auto
qed

lemma gmask_even: "\<not> bit (h AND gmask) 0"
  by (simp add: bit_0 even_and_iff)

lemma gmask_or_1: "(h AND gmask) OR 1 = h OR 1"
proof -
  have "gmask OR 1 = (- 1 :: u32)" by simp
  then show ?thesis by (simp only: bit.disj_conj_distrib2 bit.conj_one_right)
qed

lemma gmask_or_1_ne: "h AND gmask \<noteq> 0 \<Longrightarrow> h OR 1 \<noteq> 1"
  using bit.conj_disj_distrib2 [of h 1 gmask] by auto

lemma bloom_index:
  assumes "get32 (t + 8) m \<noteq> 0"
  shows "unat (i AND (get32 (t + 8) m - 1)) < unat (get32 (t + 8) m)"
proof -
  have "unat (i AND (get32 (t + 8) m - 1)) \<le> unat (get32 (t + 8) m - 1)"
    by (simp add: word_and_le1 flip: word_le_nat_alt)
  moreover have "unat (get32 (t + 8) m - 1) < unat (get32 (t + 8) m)"
    using assms by (simp add: unat_minus_one unat_gt_0)
  ultimately show ?thesis by simp
qed

lemma bloom_word_hit:
  "f AND push_bit n 1 = 0 \<longleftrightarrow> \<not> bit (f :: u64) n" "drop_bit n f AND 1 = 0 \<longleftrightarrow> \<not> bit f n"
  by (simp_all add: and_exp_eq_0_iff_not_bit bit_iff_odd_drop_bit and_one_eq odd_iff_mod_2_eq_one)

lemma set_bloom_bits_words:
  assumes "get32 (t + 8) m \<noteq> 0" "a + 4 \<le> t + 16 \<or> gnu_bucket t m \<le> a"
  shows "get32 a (set_bloom_bits t h m) = get32 a m"
proof -
  have "a + 4 \<le> gnu_bloom t m (h div 64) \<or> gnu_bloom t m (h div 64) + 8 \<le> a"
    using bloom_index [OF assms(1), of "h div 64"] assms(2)
    by (simp add: gnu_bloom_def gnu_bucket_def) linarith
  then show ?thesis
    by (simp only: set_bloom_bits_def Let_def get_put_other(8))
qed

lemma set_bloom_bits_layout:
  assumes "get32 (t + 8) m \<noteq> 0"
  shows "gnu_bloom t (set_bloom_bits t h m) = gnu_bloom t m"
    "gnu_bucket t (set_bloom_bits t h m) = gnu_bucket t m"
    "gnu_chain t (set_bloom_bits t h m) = gnu_chain t m"
  using set_bloom_bits_words [OF assms, of "t + 8"] set_bloom_bits_words [OF assms, of t]
  by (simp_all add: gnu_bloom_def gnu_bucket_def gnu_chain_def fun_eq_iff)

lemma set_bloom_bits_get64:
  "get64 (t + 16 + 8 * i) (set_bloom_bits t h m) =
   (if t + 16 + 8 * i = gnu_bloom t m (h div 64)
    then get64 (t + 16 + 8 * i) m OR push_bit (unat (h mod 64)) 1
      OR push_bit (unat (drop_bit (unat (get32 (t + 12) m)) h mod 64)) 1
    else get64 (t + 16 + 8 * i) m)"
  by (simp add: set_bloom_bits_def gnu_bloom_def Let_def get_put_index(2) del: push_bit_of_1)

lemma mod_64_less: "unat (h mod (64 :: u32)) < 64"
  by (simp add: unat_mod)

lemma set_bloom_bits_has:
  assumes "get32 (t + 8) m \<noteq> 0"
  shows "bloom_has t (set_bloom_bits t h m) h"
    "bloom_has t m h' \<Longrightarrow> bloom_has t (set_bloom_bits t h m) h'"
proof -
  have g: "gnu_bloom t m i = t + 16 + 8 * unat (i AND (get32 (t + 8) m - 1))" for i
    by (simp add: gnu_bloom_def)
  note l = set_bloom_bits_layout(1) [OF assms] set_bloom_bits_words [OF assms, of "t + 12"]
  note b = set_bloom_bits_get64 [of t "unat (h div 64 AND (get32 (t + 8) m - 1))" h m, folded g]
    set_bloom_bits_get64 [of t "unat (h' div 64 AND (get32 (t + 8) m - 1))" h m, folded g]
  show "bloom_has t (set_bloom_bits t h m) h"
    using mod_64_less [of h] mod_64_less [of "drop_bit (unat (get32 (t + 12) m)) h"]
    by (simp add: bloom_has_def Let_def l b(1) bit_or_iff bit_push_bit_iff bit_1_iff del: push_bit_of_1)
  show "bloom_has t (set_bloom_bits t h m) h'" if "bloom_has t m h'"
    using that by (auto simp add: bloom_has_def Let_def l b(2) bit_or_iff simp del: push_bit_of_1)
qed
text \<open>Adding an entry is: the bloom bits, the chain word number \<open>length ns\<close>, and the
  bucket word when it was empty.\<close>

lemma gnu_free_run:
  "(\<And>k. i \<le> k \<Longrightarrow> k < n \<Longrightarrow> get32 (c + 4 * k) m \<noteq> 0) \<Longrightarrow> i \<le> n \<Longrightarrow> get32 (c + 4 * n) m = 0 \<Longrightarrow>
   gnu_free m (c + 4 * i) = Some (c + 4 * n)"
proof (induction "n - i" arbitrary: i)
  case 0
  then show ?case by (subst gnu_free.simps) simp
next
  case (Suc d)
  then have "gnu_free m (c + 4 * Suc i) = Some (c + 4 * n)" by (intro Suc.hyps(1)) auto
  then show ?case using Suc.prems(1) [of i] Suc.hyps(2) by (subst gnu_free.simps) (simp add: ac_simps)
qed

definition gnu_put :: "nat \<Rightarrow> cstr list \<Rightarrow> cstr \<Rightarrow> mem \<Rightarrow> mem" where
  "gnu_put t ns nm m =
     (let m1 = set_bloom_bits t (gnu_hash nm) m;
          b = unat (gnu_hash nm mod get32 t m);
          m2 = (if get32 (gnu_bucket t m + 4 * b) m = 0
                then put32 (gnu_bucket t m + 4 * b) (of_nat (Suc (length ns))) m1 else m1)
      in put32 (gnu_chain t m + 4 * length ns) (gnu_hash nm AND gmask) m2)"

lemma first_in_bucket_SomeD: "first_in_bucket nb ns b = Some k \<Longrightarrow> k < length ns \<and> unat (gnu_hash (ns ! k)) mod nb = b"
  by (auto simp: first_in_bucket_def find_Some_iff)

lemma unat_Suc_room: "k \<le> CHAIN_ROOM \<Longrightarrow> unat (of_nat (Suc k) :: u32) = Suc k \<and> (of_nat (Suc k) :: u32) \<noteq> 0"
  by (auto simp: CHAIN_ROOM_def unat_of_nat take_bit_nat_eq_self word_unat_eq_iff simp del: of_nat_Suc)

lemma add_gnu_put:
  assumes inv: "gnu_inv t ns m" and room: "length ns < CHAIN_ROOM"
  shows "add_gnu_hash_entry t nm (of_nat (Suc (length ns))) m = Some (gnu_put t ns nm m)"
proof -
  define m1 where "m1 = set_bloom_bits t (gnu_hash nm) m"
  define b where "b = unat (gnu_hash nm mod get32 t m)"
  have nz: "get32 t m \<noteq> 0" "get32 (t + 4) m = 1" "get32 (t + 8) m \<noteq> 0"
    using inv by (simp_all add: gnu_inv_def)
  have b: "b < unat (get32 t m)" using nz(1) by (simp add: b_def unat_mod unat_gt_0)
  note w = set_bloom_bits_words [OF nz(3), of _ "gnu_hash nm", folded m1_def]
  have l: "get32 t m1 = get32 t m" "get32 (t + 4) m1 = 1" "gnu_bucket t m1 = gnu_bucket t m" "gnu_chain t m1 = gnu_chain t m"
    using w nz(2) set_bloom_bits_layout [OF nz(3), of "gnu_hash nm"] by (simp_all add: m1_def)
  have wb: "get32 (gnu_bucket t m + 4 * b) m1 = get32 (gnu_bucket t m + 4 * b) m" by (rule w) simp
  have wc: "get32 (gnu_chain t m + 4 * k) m1 = get32 (gnu_chain t m + 4 * k) m" for k
    by (rule w) (simp add: gnu_chain_def)
  have add: "add_gnu_hash_entry t nm (of_nat (Suc (length ns))) m =
      check_gnu_hash_collision (gnu_bucket t m) (gnu_chain t m) (gnu_hash nm) (gnu_hash nm mod get32 t m)
        (of_nat (Suc (length ns))) 1 m1"
    using nz l by (simp add: add_gnu_hash_entry_def m1_def [symmetric] Let_def del: of_nat_Suc)
  let ?w = "get32 (gnu_bucket t m + 4 * b) m"
  show ?thesis
  proof (cases "?w = 0")
    case True
    have "gnu_chain t m + 4 * Suc (length ns) - 4 * unat (1 :: u32) = gnu_chain t m + 4 * length ns" by simp
    then show ?thesis
      using True wb unat_Suc_room [of "length ns"] room unfolding add
      by (simp add: check_gnu_hash_collision_def gnu_put_def Let_def m1_def [symmetric] b_def [symmetric] del: of_nat_Suc)
  next
    case False
    then obtain k where k: "k < length ns" "?w = of_nat (Suc k)"
      using inv b by (auto simp: gnu_inv_def first_in_bucket_def find_Some_iff split: option.splits)
    then have "unat ?w = Suc k" using unat_Suc_room [of k] room by (simp del: of_nat_Suc)
    then have eq: "gnu_chain t m + 4 * unat ?w - 4 * unat (1 :: u32) = gnu_chain t m + 4 * k" by simp
    have "gnu_free m1 (gnu_chain t m + 4 * k) = Some (gnu_chain t m + 4 * length ns)"
      using inv k(1) room by (intro gnu_free_run) (auto simp: wc gnu_inv_def)
    then show ?thesis
      using False wb eq unfolding add
      by (simp add: check_gnu_hash_collision_def gnu_put_def Let_def m1_def [symmetric] b_def [symmetric] del: of_nat_Suc)
  qed
qed

lemma gnu_put_words:
  assumes inv: "gnu_inv t ns m"
  shows "a + 4 \<le> t + 16 \<Longrightarrow> get32 a (gnu_put t ns nm m) = get32 a m"
    "get32 (gnu_chain t m + 4 * k) (gnu_put t ns nm m) =
      (if k = length ns then gnu_hash nm AND gmask else get32 (gnu_chain t m + 4 * k) m)"
    "j < unat (get32 t m) \<Longrightarrow> get32 (gnu_bucket t m + 4 * j) (gnu_put t ns nm m) =
      (if j = unat (gnu_hash nm mod get32 t m) \<and> get32 (gnu_bucket t m + 4 * j) m = 0
       then of_nat (Suc (length ns)) else get32 (gnu_bucket t m + 4 * j) m)"
    "a + 8 \<le> gnu_bucket t m \<Longrightarrow> get64 a (gnu_put t ns nm m) =
      get64 a (set_bloom_bits t (gnu_hash nm) m)"
proof -
  define m1 where "m1 = set_bloom_bits t (gnu_hash nm) m"
  define b where "b = unat (gnu_hash nm mod get32 t m)"
  define w where "w = (of_nat (Suc (length ns)) :: u32)"
  define m2 where "m2 = (if get32 (gnu_bucket t m + 4 * b) m = 0 then put32 (gnu_bucket t m + 4 * b) w m1 else m1)"
  have g: "gnu_put t ns nm m = put32 (gnu_chain t m + 4 * length ns) (gnu_hash nm AND gmask) m2"
    by (simp add: gnu_put_def Let_def m1_def [symmetric] b_def [symmetric] w_def [symmetric] m2_def del: of_nat_Suc)
  have nz: "get32 t m \<noteq> 0" "get32 (t + 8) m \<noteq> 0" using inv by (simp_all add: gnu_inv_def)
  have b: "b < unat (get32 t m)" using nz(1) by (simp add: b_def unat_mod unat_gt_0)
  have c: "gnu_chain t m = gnu_bucket t m + 4 * unat (get32 t m)" by (simp add: gnu_chain_def)
  have m1: "a + 4 \<le> t + 16 \<or> gnu_bucket t m \<le> a \<Longrightarrow> get32 a m1 = get32 a m" for a
    using set_bloom_bits_words [OF nz(2)] by (simp add: m1_def)
  have t16: "t + 16 \<le> gnu_bucket t m" by (simp add: gnu_bucket_def)
  have m2: "a + 4 \<le> gnu_bucket t m \<or> gnu_chain t m \<le> a \<Longrightarrow> get32 a m2 = get32 a m1" for a
    using b c by (auto simp: m2_def get_put_other)
  show "get32 a (gnu_put t ns nm m) = get32 a m" if "a + 4 \<le> t + 16"
    using that m2 [of a] m1 [of a] t16 c by (simp add: g get_put_other)
  show "get32 (gnu_chain t m + 4 * k) (gnu_put t ns nm m) =
      (if k = length ns then gnu_hash nm AND gmask else get32 (gnu_chain t m + 4 * k) m)"
    using m2 [of "gnu_chain t m + 4 * k"] m1 [of "gnu_chain t m + 4 * k"] c
    by (simp add: g get_put_index(1))
  show "get32 (gnu_bucket t m + 4 * j) (gnu_put t ns nm m) =
      (if j = unat (gnu_hash nm mod get32 t m) \<and> get32 (gnu_bucket t m + 4 * j) m = 0
       then of_nat (Suc (length ns)) else get32 (gnu_bucket t m + 4 * j) m)" if "j < unat (get32 t m)"
    using that c m1 [of "gnu_bucket t m + 4 * j"] unfolding b_def [symmetric] w_def [symmetric]
    by (auto simp add: g m2_def get_put_other get_put_index(1))
  show "get64 a (gnu_put t ns nm m) = get64 a (set_bloom_bits t (gnu_hash nm) m)" if "a + 8 \<le> gnu_bucket t m"
    using that c by (simp add: g m2_def get_put_other m1_def)
qed

lemma gnu_add_inv:
  assumes inv: "gnu_inv t ns m" and room: "length ns < CHAIN_ROOM" and good: "gnu_hash nm AND gmask \<noteq> 0"
  shows "\<exists>m'. add_gnu_hash_entry t nm (of_nat (Suc (length ns))) m = Some m' \<and> gnu_inv t (ns @ [nm]) m'"
proof -
  let ?m = "gnu_put t ns nm m"
  note w = gnu_put_words [OF inv, of _ nm]
  have nz: "get32 t m \<noteq> 0" "get32 (t + 4) m = 1" "get32 (t + 8) m \<noteq> 0"
    using inv by (simp_all add: gnu_inv_def)
  have h: "get32 t ?m = get32 t m" "get32 (t + 4) ?m = 1" "get32 (t + 8) ?m = get32 (t + 8) m" "get32 (t + 12) ?m = get32 (t + 12) m"
    using w(1) nz(2) by simp_all
  have l: "gnu_bloom t ?m = gnu_bloom t m" "gnu_bucket t ?m = gnu_bucket t m" "gnu_chain t ?m = gnu_chain t m"
    using h by (simp_all add: gnu_bloom_def gnu_bucket_def gnu_chain_def fun_eq_iff)
  have "bloom_has t ?m h \<longleftrightarrow> bloom_has t (set_bloom_bits t (gnu_hash nm) m) h" for h
  proof -
    have "gnu_bloom t m (h div 64) + 8 \<le> gnu_bucket t m"
      using bloom_index [OF nz(3), of "h div 64"] by (simp add: gnu_bloom_def gnu_bucket_def)
    then show ?thesis
      using w(4) [of "gnu_bloom t m (h div 64)"] set_bloom_bits_words [OF nz(3), of "t + 12"] h
        set_bloom_bits_layout(1) [OF nz(3), of "gnu_hash nm"]
      by (simp add: bloom_has_def Let_def l)
  qed
  then have bh: "bloom_has t ?m (gnu_hash nm)" "bloom_has t m h' \<Longrightarrow> bloom_has t ?m h'" for h'
    using set_bloom_bits_has [OF nz(3)] by simp_all
  have "gnu_inv t (ns @ [nm]) ?m"
    unfolding gnu_inv_def h l
  proof (intro conjI allI impI)
    fix k assume k: "k < length (ns @ [nm])"
    show "get32 (gnu_chain t m + 4 * k) ?m = gnu_hash ((ns @ [nm]) ! k) AND gmask"
      "gnu_hash ((ns @ [nm]) ! k) AND gmask \<noteq> 0" "bloom_has t ?m (gnu_hash ((ns @ [nm]) ! k))"
      using k w(2) [of k] inv good bh by (auto simp: gnu_inv_def nth_append)
  next
    fix k assume "length (ns @ [nm]) \<le> k" "k \<le> CHAIN_ROOM"
    then show "get32 (gnu_chain t m + 4 * k) ?m = 0"
      using w(2) [of k] inv by (simp add: gnu_inv_def)
  next
    fix b assume b: "b < unat (get32 t m)"
    have "get32 (gnu_bucket t m + 4 * b) m = 0 \<longleftrightarrow> first_in_bucket (unat (get32 t m)) ns b = None"
    proof (cases "first_in_bucket (unat (get32 t m)) ns b")
      case None
      then show ?thesis using inv b by (simp add: gnu_inv_def)
    next
      case (Some k)
      then have "k \<le> CHAIN_ROOM" using first_in_bucket_SomeD [OF Some] room by simp
      then show ?thesis using Some inv b unat_Suc_room [of k] by (simp add: gnu_inv_def del: of_nat_Suc)
    qed
    then show "get32 (gnu_bucket t m + 4 * b) ?m =
        (case first_in_bucket (unat (get32 t m)) (ns @ [nm]) b of None \<Rightarrow> 0 | Some k \<Rightarrow> of_nat (Suc k))"
      using w(3) [OF b] inv b
      by (auto simp: gnu_inv_def first_in_bucket_append unat_mod split: option.splits)
  qed (use nz in simp_all)
  then show ?thesis using add_gnu_put [OF inv room] by blast
qed

lemma gnu_from_hit:
  assumes "k \<le> j" "j \<le> CHAIN_ROOM" "z_strcmp s (f j) = 0" "h = gnu_hash s"
    and "\<And>i. k \<le> i \<Longrightarrow> i < j \<Longrightarrow> z_strcmp s (f i) \<noteq> 0"
    and "\<And>i. i \<le> j \<Longrightarrow> get32 (c + 4 * i) m = gnu_hash (f i) AND gmask \<and> nm (Suc i) = Some (f i)"
    and "gnu_hash (f j) = gnu_hash s"
  shows "gnu_from nm m s (h OR 1) (c + 4 * k) (of_nat (Suc k)) = Some (of_nat (Suc j))"
  using assms(1,5)
proof (induction "j - k" arbitrary: k)
  case 0
  then have "k = j" by simp
  then show ?case
    using assms(3,4,7) assms(6) [of j] unat_Suc_room [OF assms(2)]
    by (subst gnu_from.simps) (simp add: Let_def gmask_or_1 del: of_nat_Suc)
next
  case (Suc d)
  have next1: "gnu_from nm m s (h OR 1) (c + 4 * Suc k) (of_nat (Suc (Suc k))) = Some (of_nat (Suc j))"
    using Suc.hyps(2) Suc.prems by (intro Suc.hyps(1)) auto
  have e: "c + 4 * k + 4 = c + 4 * Suc k" "(of_nat (Suc k) :: u32) + 1 = of_nat (Suc (Suc k))" by simp_all
  have k: "k < j" using Suc.hyps(2) by simp
  have "(gnu_hash (f k) AND gmask) AND 1 = 0"
    using gmask_even [of "gnu_hash (f k)"] by (simp add: and_one_eq bit_0 even_iff_mod_2_eq_zero)
  then show ?case
    using k Suc.prems(2) [of k] assms(6) [of k] unat_Suc_room [of k] assms(2) next1
    by (subst gnu_from.simps) (auto simp add: Let_def e simp del: of_nat_Suc)
qed
text \<open>What a lookup needs of the table: everything but the room behind the chain.\<close>

definition gnu_table :: "nat \<Rightarrow> cstr list \<Rightarrow> mem \<Rightarrow> bool" where
  "gnu_table t ns m \<longleftrightarrow> get32 t m \<noteq> 0 \<and> get32 (t + 4) m = 1 \<and> get32 (t + 8) m \<noteq> 0 \<and>
     (\<forall>k < length ns. get32 (gnu_chain t m + 4 * k) m = gnu_hash (ns ! k) AND gmask \<and>
        gnu_hash (ns ! k) AND gmask \<noteq> 0 \<and> bloom_has t m (gnu_hash (ns ! k))) \<and>
     (\<forall>b < unat (get32 t m). get32 (gnu_bucket t m + 4 * b) m =
        (case first_in_bucket (unat (get32 t m)) ns b of None \<Rightarrow> 0 | Some k \<Rightarrow> of_nat (Suc k)))"

lemma gnu_inv_table: "gnu_inv t ns m \<Longrightarrow> gnu_table t ns m"
  by (simp add: gnu_inv_def gnu_table_def)

lemma gnu_look_hit:
  assumes inv: "gnu_table t ns m" and room: "length ns \<le> CHAIN_ROOM" and s: "s \<in> set ns" "nul_free s"
    and nm: "\<And>i. i < length ns \<Longrightarrow> nul_free (ns ! i) \<and> nm (Suc i) = Some (ns ! i)"
  shows "\<exists>i < length ns. find_sym2_in nm t s m = Some (of_nat (Suc i)) \<and> ns ! i = s"
proof -
  define j where "j = (LEAST j. j < length ns \<and> ns ! j = s)"
  have ex: "\<exists>j. j < length ns \<and> ns ! j = s" using s(1) by (auto simp: in_set_conv_nth)
  have j: "j < length ns" "ns ! j = s"
    using LeastI_ex [OF ex] by (simp_all add: j_def)
  have least: "ns ! i \<noteq> s" if "i < j" for i
    using not_less_Least [OF that [unfolded j_def]] that j(1) by auto
  let ?h = "gnu_hash s" and ?nb = "unat (get32 t m)"
  define b where "b = unat ?h mod ?nb"
  have nz: "get32 t m \<noteq> 0" "get32 (t + 4) m = 1" using inv by (simp_all add: gnu_table_def)
  have b: "b < ?nb" "unat (?h mod get32 t m) = b" using nz(1) by (simp_all add: b_def unat_mod unat_gt_0)
  obtain k where k: "k \<le> j" "first_in_bucket ?nb ns b = Some k"
    using first_in_bucket_le [OF j(1), of ?nb b] j(2) by (auto simp: b_def)
  have w: "get32 (gnu_bucket t m + 4 * b) m = of_nat (Suc k)"
    using inv b(1) k(2) by (simp add: gnu_table_def)
  have kr: "(of_nat (Suc k) :: u32) \<noteq> 0" "unat (of_nat (Suc k) - 1 :: u32) = k"
    using unat_Suc_room [of k] k(1) j(1) room by (simp_all add: unat_minus_one del: of_nat_Suc)
  have eq: "z_strcmp s (ns ! i) = 0 \<longleftrightarrow> ns ! i = s" if "i < length ns" for i
    using nm [OF that] s(2) by (auto simp: z_strcmp_eq0)
  have scan: "gnu_from nm m s (?h OR 1) (gnu_chain t m + 4 * k) (of_nat (Suc k)) = Some (of_nat (Suc j))"
    using k(1) j room least eq nm inv
    by (intro gnu_from_hit [where f = "\<lambda>i. ns ! i"]) (auto simp: gnu_table_def)
  have "gnu_lookup nm t ?h s m = Some (of_nat (Suc j))"
    using w kr nz b scan by (simp add: gnu_lookup_def Let_def del: of_nat_Suc)
  moreover have "bloom_has t m ?h" using inv j by (auto simp: gnu_table_def)
  ultimately show ?thesis
    using j by (auto simp: find_sym2_in_def gnu_lookup_filtered_def Let_def bloom_word_hit bloom_has_def
        simp del: push_bit_of_1 of_nat_Suc)
qed

interpretation gnu: symbol_table "add_gnu_hash_entry t" "\<lambda>nm. find_sym2_in nm t" "gnu_inv t" CHAIN_ROOM
    "\<lambda>nm. gnu_hash nm AND gmask \<noteq> 0" for t
proof unfold_locales
  show "\<exists>m'. add_gnu_hash_entry t nm (of_nat (Suc (length ns))) m = Some m' \<and> gnu_inv t (ns @ [nm]) m'"
    if "gnu_inv t ns m" "length ns < CHAIN_ROOM" "gnu_hash nm AND gmask \<noteq> 0" for ns m nm
    using gnu_add_inv [OF that] .
  show "\<exists>i < length ns. find_sym2_in nm t s m = Some (of_nat (Suc i)) \<and> ns ! i = s"
    if "gnu_inv t ns m" "length ns \<le> CHAIN_ROOM" "s \<in> set ns" "nul_free s"
      "\<And>i. i < length ns \<Longrightarrow> nul_free (ns ! i) \<and> nm (Suc i) = Some (ns ! i)" for ns m s nm
    using gnu_look_hit [OF gnu_inv_table] that by blast
qed

primrec enter_gnu :: "nat \<Rightarrow> cstr list \<Rightarrow> nat \<Rightarrow> mem \<Rightarrow> mem option" where
  "enter_gnu t [] k m = Some m"
| "enter_gnu t (nm # ns) k m = Option.bind (add_gnu_hash_entry t nm (of_nat k) m) (enter_gnu t ns (Suc k))"

lemma enter_gnu_add_all: "enter_gnu t ns k m = gnu.add_all t ns k m"
  by (induction ns arbitrary: k m) (simp_all add: fun_eq_iff [symmetric] cong: Option.bind_cong)

lemma gnu_inv_empty:
  assumes "get32 t m \<noteq> 0" "get32 (t + 4) m = 1" "get32 (t + 8) m \<noteq> 0"
    and "\<And>a. gnu_bucket t m \<le> a \<Longrightarrow> a \<le> gnu_chain t m + 4 * CHAIN_ROOM \<Longrightarrow> get32 a m = 0"
  shows "gnu_inv t [] m"
  using assms by (simp add: gnu_inv_def first_in_bucket_def gnu_chain_def)

text \<open>C7: the GNU hash table of the linker is correct: after entering any list of
  names, numbered from 1, into an empty table whose symbol offset is 1, every
  insertion has ended, and \<open>find_sym2\<close> of each name entered passes the bloom filter,
  ends and returns the number of a symbol of that name.  The names are those whose
  hash is not 0 or 1: such a name leaves a zero chain word.\<close>

theorem gnu_hash_roundtrip:
  assumes "get32 t m \<noteq> 0" "get32 (t + 4) m = 1" "get32 (t + 8) m \<noteq> 0"
    and "\<And>a. gnu_bucket t m \<le> a \<Longrightarrow> a \<le> gnu_chain t m + 4 * CHAIN_ROOM \<Longrightarrow> get32 a m = 0"
    and "length ns \<le> CHAIN_ROOM" "\<forall>n \<in> set ns. nul_free n \<and> gnu_hash n AND 0xfffffffe \<noteq> 0" "s \<in> set ns"
  shows "\<exists>m'. enter_gnu t ns 1 m = Some m' \<and>
    (\<forall>nm. (\<forall>i < length ns. nm (Suc i) = Some (ns ! i)) \<longrightarrow>
      (\<exists>i < length ns. find_sym2_in nm t s m' = Some (of_nat (Suc i)) \<and> ns ! i = s))"
  using gnu.enter_then_look [of t m ns s] gnu_inv_empty [OF assms(1-4)] assms(5-7)
  by (simp add: enter_gnu_add_all)
text \<open>One bucket, one bloom word at 16, the bucket at 24, the chain from 28.\<close>

definition gnu_area :: "u64 \<Rightarrow> mem" where
  "gnu_area f = put64 16 f (put32 8 1 (put32 4 1 (put32 0 1 (\<lambda>_. 0))))"

lemma gnu_area_words:
  "get32 0 (gnu_area f) = 1" "get32 4 (gnu_area f) = 1" "get32 8 (gnu_area f) = 1" "get32 12 (gnu_area f) = 0"
  "24 \<le> a \<Longrightarrow> get32 a (gnu_area f) = 0" "get64 16 (gnu_area f) = f"
  by (simp_all add: gnu_area_def mem_simps)

lemma gnu_hash_roundtrip_witness:
  "\<exists>m'. enter_gnu 0 [[0x61], [0x62] :: cstr] 1 (gnu_area 0) = Some m' \<and>
    (\<forall>nm. (\<forall>i < 2. nm (Suc i) = Some ([[0x61], [0x62] :: cstr] ! i)) \<longrightarrow>
      (\<exists>i < 2. find_sym2_in nm 0 [0x62] m' = Some (of_nat (Suc i)) \<and>
        [[0x61], [0x62]] ! i = [0x62 :: u8]))"
proof -
  have l: "length [[0x61], [0x62] :: cstr] = 2" by simp
  show ?thesis
    by (rule gnu_hash_roundtrip [of 0 "gnu_area 0" "[[0x61], [0x62]]" "[0x62]", unfolded l])
      (simp_all add: gnu_area_words gnu_bucket_def CHAIN_ROOM_def gnu_hash_def hdz_def)
qed

subsection \<open>A miss behind the bloom filter\<close>

text \<open>Words that do not end the search and name no match are passed over.\<close>

lemma gnu_from_skip:
  assumes "\<And>k. k < d \<Longrightarrow> get32 (hv + 4 * k) m AND 1 = 0 \<and>
     (h1 = get32 (hv + 4 * k) m OR 1 \<longrightarrow> (\<exists>x. nm (unat (i + of_nat k)) = Some x \<and> z_strcmp s x \<noteq> 0))"
  shows "gnu_from nm m s h1 hv i = gnu_from nm m s h1 (hv + 4 * d) (i + of_nat d)"
  using assms
proof (induction d arbitrary: hv i)
  case (Suc d)
  have "gnu_from nm m s h1 (hv + 4) (i + 1) = gnu_from nm m s h1 (hv + 4 + 4 * d) (i + 1 + of_nat d)"
  proof (rule Suc.IH)
    fix k assume "k < d"
    then show "get32 (hv + 4 + 4 * k) m AND 1 = 0 \<and>
       (h1 = get32 (hv + 4 + 4 * k) m OR 1 \<longrightarrow> (\<exists>x. nm (unat (i + 1 + of_nat k)) = Some x \<and> z_strcmp s x \<noteq> 0))"
      using Suc.prems [of "Suc k"] by (simp add: add.assoc)
  qed
  then show ?case
    using Suc.prems [of 0] by (subst gnu_from.simps) (auto simp: Let_def add.assoc)
qed simp

text \<open>C13: no word of the chain carries the end bit, because every insertion clears
  it and nothing sets it.  So looking up a name that is not in the table, that
  passes the bloom filter and falls into a non-empty bucket does not end inside the
  table: the search goes on with the word behind the last entry, and over the unused
  part of the area (\<open>N\<close> words from the start of the chain, of which those behind the
  entries are still 0), so that what it returns, if anything, depends on the
  bytes behind the area.\<close>

theorem gnu_miss_leaves_table:
  assumes inv: "gnu_table t ns m" and pos: "length ns \<le> N" "N \<le> CHAIN_ROOM"
      "\<And>k. length ns \<le> k \<Longrightarrow> k < N \<Longrightarrow> get32 (gnu_chain t m + 4 * k) m = 0"
    and names: "\<And>k. k < length ns \<Longrightarrow> nul_free (ns ! k) \<and> nm (Suc k) = Some (ns ! k)"
    and s: "s \<notin> set ns" "nul_free s" "gnu_hash s AND 0xfffffffe \<noteq> 0" and filter: "bloom_has t m (gnu_hash s)"
    and bucket: "get32 (gnu_bucket t m + 4 * unat (gnu_hash s mod get32 t m)) m \<noteq> 0"
  shows "find_sym2_in nm t s m = gnu_from nm m s (gnu_hash s OR 1) (gnu_chain t m + 4 * N) (of_nat (Suc N))"
proof -
  let ?h = "gnu_hash s" and ?nb = "unat (get32 t m)"
  have nz: "get32 t m \<noteq> 0" "get32 (t + 4) m = 1" using inv by (simp_all add: gnu_table_def)
  let ?b = "unat (?h mod get32 t m)"
  have "?b < ?nb" using nz(1) by (simp add: unat_mod unat_gt_0)
  then obtain k0 where k0: "get32 (gnu_bucket t m + 4 * ?b) m = of_nat (Suc k0)" "k0 < length ns"
    using inv bucket first_in_bucket_SomeD by (auto simp: gnu_table_def split: option.splits)
  have kr: "(of_nat (Suc k0) :: u32) \<noteq> 0" "unat (of_nat (Suc k0) - 1 :: u32) = k0"
    using unat_Suc_room [of k0] k0(2) pos by (simp_all add: unat_minus_one del: of_nat_Suc)
  have e: "gnu_chain t m + 4 * k0 + 4 * k = gnu_chain t m + 4 * (k0 + k)"
      "of_nat (Suc k0) + of_nat k = (of_nat (Suc (k0 + k)) :: u32)" for k by simp_all
  have "gnu_from nm m s (?h OR 1) (gnu_chain t m + 4 * k0) (of_nat (Suc k0)) =
      gnu_from nm m s (?h OR 1) (gnu_chain t m + 4 * k0 + 4 * (N - k0)) (of_nat (Suc k0) + of_nat (N - k0))"
  proof (rule gnu_from_skip, intro conjI impI)
    fix k assume "k < N - k0"
    then have w: "get32 (gnu_chain t m + 4 * (k0 + k)) m = (if k0 + k < length ns then gnu_hash (ns ! (k0 + k)) AND gmask else 0)"
      using inv pos(3) [of "k0 + k"] by (auto simp: gnu_table_def simp del: distrib_left_numeral)
    show "get32 (gnu_chain t m + 4 * k0 + 4 * k) m AND 1 = 0"
      using gmask_even [of "gnu_hash (ns ! (k0 + k))"] unfolding e w
      by (simp add: and_one_eq bit_0 even_iff_mod_2_eq_zero)
    assume "?h OR 1 = get32 (gnu_chain t m + 4 * k0 + 4 * k) m OR 1"
    moreover have "?h OR 1 \<noteq> 1" using s(3) gmask_or_1_ne by simp
    ultimately have k: "k0 + k < length ns" unfolding e w by (auto split: if_splits)
    then show "\<exists>x. nm (unat (of_nat (Suc k0) + of_nat k :: u32)) = Some x \<and> z_strcmp s x \<noteq> 0"
      using names [OF k] s unat_Suc_room [of "k0 + k"] pos z_strcmp_eq0 [of s "ns ! (k0 + k)"] unfolding e
      by (auto simp del: of_nat_Suc)
  qed
  then have walk: "gnu_from nm m s (?h OR 1) (gnu_chain t m + 4 * k0) (of_nat (Suc k0)) =
      gnu_from nm m s (?h OR 1) (gnu_chain t m + 4 * N) (of_nat (Suc N))"
    using k0(2) pos(1) unfolding e by simp
  have "gnu_lookup nm t ?h s m = gnu_from nm m s (?h OR 1) (gnu_chain t m + 4 * N) (of_nat (Suc N))"
    using k0 kr nz walk by (simp add: gnu_lookup_def Let_def del: of_nat_Suc)
  then show ?thesis
    using filter by (auto simp: find_sym2_in_def gnu_lookup_filtered_def Let_def bloom_word_hit bloom_has_def
        simp del: push_bit_of_1)
qed

text \<open>One name, in an area with room for three: the search continues at 40, behind the
  area, as for the fourth symbol.\<close>

lemma gnu_miss_leaves_table_witness:
  "find_sym2_in (\<lambda>_. Some [0x61]) 0 [0x62] (put32 28 0x2b606 (put32 24 1 (gnu_area (-1)))) =
   gnu_from (\<lambda>_. Some [0x61]) (put32 28 0x2b606 (put32 24 1 (gnu_area (-1)))) [0x62] 0x2b607 40 4"
  (is "find_sym2_in _ _ _ ?m = _")
proof -
  have w: "get32 0 ?m = 1" "get32 4 ?m = 1" "get32 8 ?m = 1" "get32 12 ?m = 0" "get64 16 ?m = -1" "get32 24 ?m = 1"
    "get32 (28 + 4 * k) ?m = (if k = 0 then 0x2b606 else 0)" for k
    by (cases k; simp add: get_put_other gnu_area_words get_put_same)+
  have h: "gnu_hash [0x61] = 0x2b606" "gnu_hash [0x62] = 0x2b607"
    by (simp_all add: gnu_hash_def hdz_def)
  have l: "gnu_bucket 0 ?m = 24" "gnu_chain 0 ?m = 28" "gnu_bloom 0 ?m i = 16" for i
    using w by (simp_all add: gnu_bucket_def gnu_chain_def gnu_bloom_def)
  have bh: "bloom_has 0 ?m x" for x
    using w mod_64_less [of x] by (simp add: bloom_has_def Let_def l)
  have "gnu_table 0 [[0x61]] ?m"
    using w w(7) [of 0] l h bh by (simp add: gnu_table_def first_in_bucket_def)
  from gnu_miss_leaves_table [OF this, of 3 "\<lambda>_. Some [0x61]" "[0x62]"] show ?thesis
    using w l h bh by (simp add: CHAIN_ROOM_def)
qed

end
