(* ===== verification/Dynamic.thy ===== *)
theory Dynamic
  imports LinkSymbols HashTables
begin

text \<open>
  The dynamic section of an ELF output, \<open>core/link/elf/dynamic.c\<close>.  The file keeps
  an array \<open>D\<close> of \<open>DynamicParams\<close>, one for each area it fills (dynamic entries,
  init and fini arrays, hash tables, relocations, dynamic symbols and strings, PLT),
  the container of the PLT and the table of dynamic tags.  \<open>size\<close> and \<open>num\<close> are one
  field, as in the union of the C structure.  Writing through the null pointer
  and reading past the tag table is \<open>None\<close>.
\<close>

subsection \<open>State\<close>

record DynamicParams =
  sc_p :: "nat option"
  size_p :: nat
  data_p :: nat
  dsize :: u32
  alloc_size :: u32
  remain_size :: u32
  dname :: "cstr option"

record dyn =
  lk :: lst
  D :: "nat \<Rightarrow> DynamicParams"
  PLT_GOT_P :: "nat option"
  DynamicEntryTag :: "u32 list"

definition DT_DYNAMIC_INDEX :: nat where "DT_DYNAMIC_INDEX = 0"
definition INIT_ARRAY_INDEX :: nat where "INIT_ARRAY_INDEX = 1"
definition FINI_ARRAY_INDEX :: nat where "FINI_ARRAY_INDEX = 2"
definition DT_HASH_INDEX :: nat where "DT_HASH_INDEX = 3"
definition RELA_PLT_INDEX :: nat where "RELA_PLT_INDEX = 4"
definition DYNSYM_INDEX :: nat where "DYNSYM_INDEX = 5"
definition DYNSTR_INDEX :: nat where "DYNSTR_INDEX = 6"
definition PLT_GOT_INDEX :: nat where "PLT_GOT_INDEX = 7"
definition GNU_HASH_INDEX :: nat where "GNU_HASH_INDEX = 8"

lemmas index_defs = DT_DYNAMIC_INDEX_def INIT_ARRAY_INDEX_def FINI_ARRAY_INDEX_def DT_HASH_INDEX_def
  RELA_PLT_INDEX_def DYNSYM_INDEX_def DYNSTR_INDEX_def PLT_GOT_INDEX_def GNU_HASH_INDEX_def

text \<open>\<open>.dynamic\<close>, \<open>.init_array\<close>, \<open>.fini_array\<close>, \<open>.dt.hash\<close>, \<open>.gnu.hash\<close>, \<open>.rela.plt\<close>,
  \<open>.dynsym\<close>, \<open>.dynstr\<close>.\<close>

definition DT_DYNAMIC_NAME :: cstr where "DT_DYNAMIC_NAME = ascii ''.dynamic''"
definition DT_INIT_ARRAY_NAME :: cstr where "DT_INIT_ARRAY_NAME = ascii ''.init_array''"
definition DT_FINI_ARRAY_NAME :: cstr where "DT_FINI_ARRAY_NAME = ascii ''.fini_array''"
definition DT_HASH_NAME :: cstr where "DT_HASH_NAME = ascii ''.dt.hash''"
definition DT_GNU_HASH_NAME :: cstr where "DT_GNU_HASH_NAME = ascii ''.gnu.hash''"
definition DT_RELA_PLT_NAME :: cstr where "DT_RELA_PLT_NAME = ascii ''.rela.plt''"
definition DT_DYNSYM_NAME :: cstr where "DT_DYNSYM_NAME = ascii ''.dynsym''"
definition DT_DYNSTR_NAME :: cstr where "DT_DYNSTR_NAME = ascii ''.dynstr''"

definition NBUCKET :: u32 where "NBUCKET = 10"
definition DEFAULT_ENTRY_NUM :: nat where "DEFAULT_ENTRY_NUM = 14"
definition DEFAULT_DYNSYM_NUM :: u32 where "DEFAULT_DYNSYM_NUM = 0x3000"
definition DEFAULT_DYNSTR_NUM :: u32 where "DEFAULT_DYNSTR_NUM = 0x3000"
definition DEFAULT_RELA_PLT_NUM :: u32 where "DEFAULT_RELA_PLT_NUM = 0x3000"
definition DEFAULT_DT_HASH_CHAIN_NUM :: u32 where "DEFAULT_DT_HASH_CHAIN_NUM = 0x3000"

definition default_tags :: "u32 list" where
  "default_tags = [DT_NEEDED, DT_INIT_ARRAY, DT_INIT_ARRAYSZ, DT_FINI_ARRAY, DT_FINI_ARRAYSZ,
     DT_GNU_HASH, DT_RELA, DT_RELASZ, DT_RELAENT, DT_SYMTAB, DT_SYMENT, DT_STRTAB, DT_STRSZ, DT_NULL]"

definition upd_D :: "nat \<Rightarrow> (DynamicParams \<Rightarrow> DynamicParams) \<Rightarrow> dyn \<Rightarrow> dyn" where
  "upd_D i f d = d\<lparr>D := (D d)(i := f (D d i))\<rparr>"

definition upd_lk :: "(lst \<Rightarrow> lst) \<Rightarrow> dyn \<Rightarrow> dyn" where
  "upd_lk f d = d\<lparr>lk := f (lk d)\<rparr>"

definition lift_lk :: "(lst \<Rightarrow> lst option) \<Rightarrow> dyn \<Rightarrow> dyn option" where
  "lift_lk f d = Option.bind (f (lk d)) (\<lambda>s. Some (d\<lparr>lk := s\<rparr>))"

text \<open>A write through a pointer.\<close>

definition store :: "nat \<Rightarrow> (mem \<Rightarrow> mem) \<Rightarrow> dyn \<Rightarrow> dyn option" where
  "store a f d = (if a = 0 then None else Some (upd_lk (upd_mem f) d))"

definition base64 :: "dyn \<Rightarrow> u64" where
  "base64 d = scast (base_address (conf (lk d)))"

subsection \<open>Setting up the areas\<close>

definition need_allocate :: "u32 \<Rightarrow> nat" where
  "need_allocate tag =
     (if tag = DT_INIT_ARRAY then INIT_ARRAY_INDEX
      else if tag = DT_FINI_ARRAY then FINI_ARRAY_INDEX
      else if tag = DT_GNU_HASH then GNU_HASH_INDEX
      else if tag = DT_RELA then RELA_PLT_INDEX
      else if tag = DT_SYMTAB then DYNSYM_INDEX
      else if tag = DT_STRSZ then DYNSTR_INDEX
      else 0)"

text \<open>The loop that replaces \<open>DT_GNU_HASH\<close> in the first \<open>dynamic_entry_num\<close> tags.\<close>

definition use_dt_hash_tags :: "u32 \<Rightarrow> u32 list \<Rightarrow> u32 list option" where
  "use_dt_hash_tags n ts =
     (let k = nat (sint n) in
      if length ts < k then None
      else Some (map (\<lambda>t. if t = DT_GNU_HASH then DT_HASH else t) (take k ts) @ drop k ts))"

definition set_area :: "nat \<Rightarrow> u32 \<Rightarrow> cstr \<Rightarrow> dyn \<Rightarrow> dyn" where
  "set_area i n nm = upd_D i (\<lambda>p. p\<lparr>alloc_size := n, remain_size := n, dname := Some nm\<rparr>)"

definition init_dynamic :: "dyn \<Rightarrow> dyn option" where
  "init_dynamic d = do {
     let d = set_area DT_DYNAMIC_INDEX (16 * 0x20) DT_DYNAMIC_NAME d;
     let d = set_area INIT_ARRAY_INDEX 0x20 DT_INIT_ARRAY_NAME d;
     let d = upd_D FINI_ARRAY_INDEX (\<lambda>p. p\<lparr>alloc_size := 0x20\<rparr>) d;
     let d = upd_D INIT_ARRAY_INDEX (\<lambda>p. p\<lparr>remain_size := 0x20\<rparr>) d;
     let d = upd_D FINI_ARRAY_INDEX (\<lambda>p. p\<lparr>dname := Some DT_FINI_ARRAY_NAME\<rparr>) d;
     let nchain_max = DEFAULT_DT_HASH_CHAIN_NUM * 4;
     let cf = conf (lk d);
     d \<leftarrow> (if use_dt_hash cf \<noteq> 0
           then do {
             let size = 4 + 4 + 4 * (NBUCKET + 1);
             let d = upd_D DT_HASH_INDEX (\<lambda>p. p\<lparr>alloc_size := size + nchain_max, dsize := size,
               dname := Some DT_HASH_NAME\<rparr>) d;
             ts \<leftarrow> use_dt_hash_tags (dynamic_entry_num cf) (DynamicEntryTag d);
             Some (d\<lparr>DynamicEntryTag := ts\<rparr>)
           }
           else do {
             let bloom = (htp_bloom_size (hash_table_param cf) + 1) * 8;
             let bucket = htp_nbucket (hash_table_param cf) * 8;
             let size = 24 + bloom + bucket;
             Some (upd_D GNU_HASH_INDEX (\<lambda>p. p\<lparr>alloc_size := size + nchain_max,
               remain_size := size + nchain_max, dsize := size, dname := Some DT_GNU_HASH_NAME\<rparr>) d)
           });
     let d = set_area RELA_PLT_INDEX (DEFAULT_RELA_PLT_NUM * 24) DT_RELA_PLT_NAME d;
     let d = set_area DYNSYM_INDEX (DEFAULT_DYNSYM_NUM * 24) DT_DYNSYM_NAME d;
     let d = set_area DYNSTR_INDEX DEFAULT_DYNSTR_NUM DT_DYNSTR_NAME d;
     Some (upd_D DYNSTR_INDEX (\<lambda>p. p\<lparr>dsize := 1\<rparr>) d)
   }"

text \<open>A new section header and its chain; the pointer returned is the header.\<close>

definition new_dynamic_section :: "nat \<Rightarrow> dyn \<Rightarrow> (nat \<times> dyn) option" where
  "new_dynamic_section sc d = do {
     (shdr, s) \<leftarrow> alloc_elf_section SHT_DYNAMIC (ucast (SHF_ALLOC OR SHF_WRITE)) (lk d);
     (_, s) \<leftarrow> alloc_section_chain shdr 0 sc None s;
     Some (shdr, d\<lparr>lk := s\<rparr>)
   }"

definition add_dynamic_sc :: "nat \<Rightarrow> cstr option \<Rightarrow> nat option \<Rightarrow> dyn \<Rightarrow> dyn option" where
  "add_dynamic_sc index nm0 sc0 d = do {
     let nm = (case nm0 of None \<Rightarrow> dname (D d index) | Some n \<Rightarrow> Some n);
     (sc, d) \<leftarrow> (case sc0 of
         None \<Rightarrow> do {
           (sc, _, s) \<leftarrow> alloc_section_container 0 nm 0 None (lk d);
           Some (sc, upd_D index (\<lambda>p. p\<lparr>sc_p := Some sc\<rparr>) (d\<lparr>lk := s\<rparr>))
         }
       | Some sc \<Rightarrow> do {
           d \<leftarrow> store (size_p (D d index)) (put32 (size_p (D d index)) (dsize (D d index))) d;
           Some (sc, d)
         });
     (shdr, d) \<leftarrow> new_dynamic_section sc d;
     (a, s) \<leftarrow> new_area (lk d);
     let d = upd_D index (\<lambda>p. p\<lparr>data_p := a\<rparr>) (d\<lparr>lk := s\<rparr>);
     d \<leftarrow> store shdr (put64 (shdr + 0x18) (of_nat a)) d;
     Some (upd_D index (\<lambda>p. p\<lparr>size_p := shdr + 0x20\<rparr>) d)
   }"

definition grow :: "nat \<Rightarrow> dyn \<Rightarrow> dyn option" where
  "grow index d = add_dynamic_sc index None (sc_p (D d index)) d"

definition alloc_dynamic :: "dyn \<Rightarrow> dyn option" where
  "alloc_dynamic d = foldl (\<lambda>r t. Option.bind r (\<lambda>d.
       if need_allocate t \<noteq> 0 then add_dynamic_sc (need_allocate t) None None d else Some d))
     (Some d) (DynamicEntryTag d)"

subsection \<open>Adding entries\<close>

definition add_dynsym_entry :: "u32 \<Rightarrow> u32 \<Rightarrow> u32 \<Rightarrow> dyn \<Rightarrow> dyn option" where
  "add_dynsym_entry str_offset shndx v d = do {
     let a = data_p (D d DYNSYM_INDEX);
     let d = upd_D DYNSYM_INDEX (\<lambda>p. p\<lparr>data_p := a + 24\<rparr>) d;
     d \<leftarrow> store a (put_bytes a (enc_sym \<lparr>st_name = str_offset, st_info = ELF64_ST_INFO STB_GLOBAL STT_FUNC,
           st_other = ELF64_ST_VISIBILITY STV_DEFAULT, st_shndx = ucast shndx, st_value = ucast v, st_size = 0\<rparr>)) d;
     let d = upd_D DYNSYM_INDEX (\<lambda>p. p\<lparr>dsize := dsize p + 1\<rparr>) d;
     if unat (dsize (D d DYNSYM_INDEX)) * 24 = unat (alloc_size (D d DYNSYM_INDEX)) then
       grow DYNSYM_INDEX (upd_D DYNSYM_INDEX (\<lambda>p. p\<lparr>dsize := alloc_size p\<rparr>) d)
     else Some d
   }"

text \<open>The offset returned is the old size, also when the string goes to a new area.
  The terminating NUL is not written.\<close>

definition add_dynstr_entry :: "cstr \<Rightarrow> dyn \<Rightarrow> (u32 \<times> dyn) option" where
  "add_dynstr_entry nm d = do {
     let n = z_strlen nm;
     (p, d) \<leftarrow> (if unat (alloc_size (D d DYNSTR_INDEX)) < unat (dsize (D d DYNSTR_INDEX)) + n
       then do {
         d \<leftarrow> grow DYNSTR_INDEX d;
         Some (data_p (D d DYNSTR_INDEX), d)
       }
       else Some (data_p (D d DYNSTR_INDEX) + unat (dsize (D d DYNSTR_INDEX)), d));
     let r = dsize (D d DYNSTR_INDEX);
     d \<leftarrow> (if n = 0 then Some d else store p (put_bytes p (take n nm)) d);
     Some (r, upd_D DYNSTR_INDEX (\<lambda>q. q\<lparr>dsize := of_nat (p + n + 1 - data_p q)\<rparr>) d)
   }"

definition plt_code :: "u8 list" where
  "plt_code = [0xff, 0x25, 0x2, 0x0, 0x0, 0x0]"

definition add_pltgot_entry :: "dyn \<Rightarrow> (u32 \<times> dyn) option" where
  "add_pltgot_entry d = do {
     let a = data_p (D d PLT_GOT_INDEX);
     k \<leftarrow> PLT_GOT_P d;
     let r = scon_vaddr (scons (lk d) k) + dsize (D d PLT_GOT_INDEX) * 0x10;
     let d = upd_D PLT_GOT_INDEX (\<lambda>p. p\<lparr>dsize := dsize p + 1, data_p := a + 0x10\<rparr>) d;
     d \<leftarrow> store a (put_bytes a plt_code) d;
     d \<leftarrow> (if dsize (D d PLT_GOT_INDEX) * 0x10 = alloc_size (D d PLT_GOT_INDEX) then
             add_dynamic_sc PLT_GOT_INDEX None (PLT_GOT_P d)
               (upd_D PLT_GOT_INDEX (\<lambda>p. p\<lparr>dsize := alloc_size p\<rparr>) d)
           else Some d);
     Some (r, d)
   }"

definition put_rela :: "u64 \<Rightarrow> u64 \<Rightarrow> u64 \<Rightarrow> dyn \<Rightarrow> (nat \<times> dyn) option" where
  "put_rela off info addend d = do {
     let a = data_p (D d RELA_PLT_INDEX);
     let d = upd_D RELA_PLT_INDEX (\<lambda>p. p\<lparr>data_p := a + 24, dsize := dsize p + 24\<rparr>) d;
     d \<leftarrow> store a (put_bytes a (enc_rela \<lparr>r_offset = off, r_info = info, r_addend = addend\<rparr>)) d;
     d \<leftarrow> (if dsize (D d RELA_PLT_INDEX) = alloc_size (D d RELA_PLT_INDEX) then grow RELA_PLT_INDEX d
           else Some d);
     Some (a, d)
   }"

definition add_rela_plt_entry :: "u64 \<Rightarrow> u32 \<Rightarrow> u32 \<Rightarrow> u64 \<Rightarrow> dyn \<Rightarrow> (nat \<times> dyn) option" where
  "add_rela_plt_entry offset sym_index type addend d =
     put_rela (offset - base64 d)
       (ELF64_R_INFO (scast sym_index) (scast (ucast (ELF64_R_TYPE (scast type)) :: u32)))
       (addend - base64 d) d"

definition add_dyn_relative_entry :: "u64 \<Rightarrow> u64 \<Rightarrow> dyn \<Rightarrow> dyn option" where
  "add_dyn_relative_entry offset addend d =
     Option.bind (put_rela offset (ELF64_R_INFO 0 (ELF64_R_TYPE (ucast R_X86_64_RELATIVE))) addend d)
       (\<lambda>r. Some (snd r))"

text \<open>\<open>__z__link__add_dynamic_entry\<close>: the PLT entry of an imported name; with \<open>check\<close>
  the entry the import table already has.\<close>

definition add_dynamic_entry :: "cstr \<Rightarrow> u32 \<Rightarrow> bool \<Rightarrow> dyn \<Rightarrow> (u32 \<times> dyn) option" where
  "add_dynamic_entry str type check d = do {
     rela \<leftarrow> (if check then lookup_symbol str 1 (lk d) else Some 0);
     if rela \<noteq> 0 then Some (of_nat rela, d)
     else do {
       (r, d) \<leftarrow> add_pltgot_entry d;
       (off, d) \<leftarrow> add_dynstr_entry str d;
       d \<leftarrow> add_dynsym_entry off 0 0 d;
       (_, d) \<leftarrow> add_rela_plt_entry (ucast (r + 8)) (dsize (D d DYNSYM_INDEX) - 1) type 0 d;
       d \<leftarrow> lift_lk (alloc_dynamic_symbol_chain (unat r) str None) d;
       Some (r, d)
     }
   }"

definition add_dynamic_entry2 :: "u64 \<Rightarrow> cstr \<Rightarrow> dyn \<Rightarrow> (nat \<times> dyn) option" where
  "add_dynamic_entry2 offset str d = do {
     (off, d) \<leftarrow> add_dynstr_entry str d;
     d \<leftarrow> add_dynsym_entry off 0 0 d;
     add_rela_plt_entry offset (dsize (D d DYNSYM_INDEX) - 1) R_X86_64_GLOB_DAT 0 d
   }"

definition add_pltgot_sc :: "nat \<Rightarrow> cstr \<Rightarrow> dyn \<Rightarrow> dyn option" where
  "add_pltgot_sc index nm d =
     (if nodynamic (conf (lk d)) = 1 then Some d
      else do {
        (sc, _, s) \<leftarrow> alloc_section_container 0 (Some nm) 0 None (lk d);
        (shdr, d) \<leftarrow> new_dynamic_section sc (d\<lparr>lk := s, PLT_GOT_P := Some sc\<rparr>);
        (a, s) \<leftarrow> new_area (lk d);
        let d = upd_D index (\<lambda>p. p\<lparr>data_p := a\<rparr>) (d\<lparr>lk := s\<rparr>);
        d \<leftarrow> store shdr (put64 (shdr + 0x18) (of_nat a)) d;
        Some (upd_D index (\<lambda>p. p\<lparr>size_p := shdr + 0x20\<rparr>) d)
      })"

definition push_word :: "nat \<Rightarrow> u64 \<Rightarrow> dyn \<Rightarrow> dyn option" where
  "push_word index w d = do {
     let a = data_p (D d index);
     d \<leftarrow> store a (put64 a w) d;
     Some (upd_D index (\<lambda>p. p\<lparr>data_p := a + 8, dsize := dsize p + 8\<rparr>) d)
   }"

definition add_init_array :: "u64 \<Rightarrow> dyn \<Rightarrow> dyn option" where
  "add_init_array w d = do {
     d \<leftarrow> push_word INIT_ARRAY_INDEX w d;
     if dsize (D d INIT_ARRAY_INDEX) = alloc_size (D d INIT_ARRAY_INDEX) then grow INIT_ARRAY_INDEX d
     else Some d
   }"

definition add_fini_array :: "u64 \<Rightarrow> dyn \<Rightarrow> dyn option" where
  "add_fini_array w d = push_word FINI_ARRAY_INDEX w d"

text \<open>\<open>__z__link__add_dynamic\<close>.\<close>

definition add_dynamic :: "dyn \<Rightarrow> dyn option" where
  "add_dynamic d =
     (if nodynamic (conf (lk d)) \<noteq> 0 then Some d
      else do {
        d \<leftarrow> init_dynamic d;
        d \<leftarrow> add_dynamic_sc DT_DYNAMIC_INDEX (Some DT_DYNAMIC_NAME) None d;
        d \<leftarrow> alloc_dynamic d;
        let cf = conf (lk d);
        d \<leftarrow> (if use_dt_hash cf \<noteq> 0 then
                store (data_p (D d DT_HASH_INDEX)) (put32 (data_p (D d DT_HASH_INDEX)) NBUCKET) d
              else (let g = data_p (D d GNU_HASH_INDEX); h = hash_table_param cf in
                store g (\<lambda>m. put32 (g + 12) (htp_bloom_shift h) (put32 (g + 8) (htp_bloom_size h)
                  (put32 (g + 4) 1 (put32 g (htp_nbucket h) m)))) d));
        let d = upd_lk (upd_conf (\<lambda>c. c\<lparr>dynstr_head := data_p (D d DYNSTR_INDEX),
          dynsym_head := data_p (D d DYNSYM_INDEX), gnu_hash_head := data_p (D d GNU_HASH_INDEX)\<rparr>)) d;
        add_dynsym_entry 0 0 0 d
      })"

subsection \<open>Exporting symbols\<close>

text \<open>The body of the loop of \<open>__z__link__add_export_symbol\<close>.  The log line
  dereferences \<open>sym->schain\<close>, so a symbol without a section is \<open>None\<close>.\<close>

definition export_one :: "nat \<Rightarrow> dyn \<Rightarrow> dyn option" where
  "export_one k d = do {
     let sy = syms (lk d) k;
     let str = syc_name sy;
     let es = rd_sym (syc_p sy) (lmem (lk d));
     r \<leftarrow> get_section_chain_by_index (st_shndx es) (lk d);
     sc1 \<leftarrow> r;
     _ \<leftarrow> syc_schain sy;
     let v = (ucast (ucast (sch_vaddr (schs (lk d) sc1)) + st_value es - base64 d) :: u32);
     (off, d) \<leftarrow> add_dynstr_entry str d;
     d \<leftarrow> add_dynsym_entry off (ucast (st_shndx es)) v d;
     let i = dsize (D d DYNSYM_INDEX) - 1;
     d \<leftarrow> (if use_dt_hash (conf (lk d)) \<noteq> 0 then do {
             let t = data_p (D d DT_HASH_INDEX);
             m \<leftarrow> (if t = 0 then None else add_dt_hash_entry t str i (lmem (lk d)));
             Some (upd_D DT_HASH_INDEX (\<lambda>p. p\<lparr>dsize := dsize p + 4\<rparr>) (upd_lk (upd_mem (\<lambda>_. m)) d))
           }
           else do {
             let t = data_p (D d GNU_HASH_INDEX);
             m \<leftarrow> (if t = 0 then None else add_gnu_hash_entry t str i (lmem (lk d)));
             Some (upd_D GNU_HASH_INDEX (\<lambda>p. p\<lparr>dsize := dsize p + 4\<rparr>) (upd_lk (upd_mem (\<lambda>_. m)) d))
           });
     Some (case entry_function_name (conf (lk d)) of
         None \<Rightarrow> d
       | Some e \<Rightarrow> if z_strcmp e str = 0 then upd_lk (upd_conf (\<lambda>c. c\<lparr>entry_address := ucast v\<rparr>)) d else d)
   }"

definition add_export_symbol :: "nat \<Rightarrow> dyn \<Rightarrow> dyn option" where
  "add_export_symbol oc d = iter (\<lambda>d k. next_syc (lk d) k) export_one (symbol_chain_head (objs (lk d) oc)) d"

subsection \<open>Writing the dynamic entries\<close>

text \<open>What \<open>set_dynamic_entry\<close> does for a tag: the value it writes (if any), the
  offset it returns and the areas whose size it stores in their section header.\<close>

definition dyn_value :: "(nat \<Rightarrow> DynamicParams) \<Rightarrow> u32 \<Rightarrow> u32 \<Rightarrow> u64 option" where
  "dyn_value P tag offset =
     (if tag \<in> {DT_NEEDED, DT_INIT_ARRAY, DT_FINI_ARRAY, DT_HASH, DT_GNU_HASH, DT_RELA, DT_SYMTAB, DT_STRTAB}
      then Some (ucast offset)
      else if tag = DT_INIT_ARRAYSZ then Some (ucast (dsize (P INIT_ARRAY_INDEX)))
      else if tag = DT_FINI_ARRAYSZ then Some (ucast (dsize (P FINI_ARRAY_INDEX)))
      else if tag = DT_RELASZ then Some (ucast (dsize (P RELA_PLT_INDEX)))
      else if tag = DT_RELAENT then Some 24
      else if tag = DT_SYMENT then Some 24
      else if tag = DT_STRSZ then Some (ucast (dsize (P DYNSTR_INDEX)))
      else None)"

definition dyn_advance :: "(nat \<Rightarrow> DynamicParams) \<Rightarrow> u32 \<Rightarrow> u32" where
  "dyn_advance P tag =
     (if tag = DT_INIT_ARRAY then dsize (P INIT_ARRAY_INDEX)
      else if tag = DT_FINI_ARRAY then dsize (P FINI_ARRAY_INDEX)
      else if tag = DT_HASH then dsize (P DT_HASH_INDEX)
      else if tag = DT_GNU_HASH then dsize (P GNU_HASH_INDEX)
      else if tag = DT_RELA then dsize (P RELA_PLT_INDEX)
      else if tag = DT_SYMTAB then (1 + dsize (P DYNSYM_INDEX)) * 24
      else if tag = DT_STRSZ then dsize (P DYNSTR_INDEX)
      else 0)"

definition dyn_sizes :: "(nat \<Rightarrow> DynamicParams) \<Rightarrow> u32 \<Rightarrow> (nat \<times> u32) list" where
  "dyn_sizes P tag =
     (if tag = DT_INIT_ARRAYSZ then [(INIT_ARRAY_INDEX, dsize (P INIT_ARRAY_INDEX))]
      else if tag = DT_FINI_ARRAYSZ then [(FINI_ARRAY_INDEX, dsize (P FINI_ARRAY_INDEX))]
      else if tag = DT_HASH then [(DT_HASH_INDEX, dsize (P DT_HASH_INDEX))]
      else if tag = DT_GNU_HASH then [(GNU_HASH_INDEX, dsize (P GNU_HASH_INDEX))]
      else if tag = DT_RELA then [(RELA_PLT_INDEX, dsize (P RELA_PLT_INDEX)),
                                  (PLT_GOT_INDEX, dsize (P PLT_GOT_INDEX) * 0x10)]
      else if tag = DT_SYMTAB then [(DYNSYM_INDEX, (1 + dsize (P DYNSYM_INDEX)) * 24)]
      else if tag = DT_STRSZ then [(DYNSTR_INDEX, dsize (P DYNSTR_INDEX))]
      else [])"

fun store_sizes :: "(nat \<times> u32) list \<Rightarrow> dyn \<Rightarrow> dyn option" where
  "store_sizes [] d = Some d"
| "store_sizes ((i, w) # r) d = Option.bind (store (size_p (D d i)) (put32 (size_p (D d i)) w) d) (store_sizes r)"

definition set_dynamic_entry :: "nat \<Rightarrow> u32 \<Rightarrow> u32 \<Rightarrow> dyn \<Rightarrow> (u32 \<times> dyn) option" where
  "set_dynamic_entry a tag offset d = do {
     d \<leftarrow> store a (put64 a (scast tag)) d;
     d \<leftarrow> (case dyn_value (D d) tag offset of None \<Rightarrow> Some d | Some v \<Rightarrow> store (a + 8) (put64 (a + 8) v) d);
     d \<leftarrow> store_sizes (dyn_sizes (D d) tag) d;
     Some (offset + dyn_advance (D d) tag, d)
   }"

definition add_dt_needed1 :: "cstr \<Rightarrow> dyn \<Rightarrow> dyn option" where
  "add_dt_needed1 nm d = do {
     (_, d) \<leftarrow> add_dynstr_entry nm d;
     Some (upd_D DT_DYNAMIC_INDEX (\<lambda>p. p\<lparr>dsize := dsize p + 1\<rparr>) d)
   }"

fun contains_at :: "cstr \<Rightarrow> cstr \<Rightarrow> bool" where
  "contains_at [] pat = (pat = [])"
| "contains_at (c # s) pat = (take (length pat) (c # s) = pat \<or> contains_at s pat)"

fun needed_loop :: "cstr list \<Rightarrow> dyn \<Rightarrow> dyn option" where
  "needed_loop [] d = Some d"
| "needed_loop (nm # r) d =
     (if contains_at nm (ascii ''.so'') then Option.bind (add_dt_needed1 nm d) (needed_loop r) else Some d)"

definition add_dt_needed :: "dyn \<Rightarrow> dyn option" where
  "add_dt_needed d = (case dynlib (conf (lk d)) of None \<Rightarrow> Some d | Some ls \<Rightarrow> needed_loop ls d)"

text \<open>The two loops of \<open>__z__link__set_dynanmic\<close>.  The first writes one
  \<open>DT_NEEDED\<close> entry for each of the first strings of \<open>.dynstr\<close>, the second an entry
  for the tags 1, 2, ... of the tag table.\<close>

fun needed_entries :: "nat \<Rightarrow> nat \<Rightarrow> u32 \<Rightarrow> dyn \<Rightarrow> (nat \<times> dyn) option" where
  "needed_entries 0 a p d = Some (a, d)"
| "needed_entries (Suc k) a p d = do {
     (_, d) \<leftarrow> set_dynamic_entry a DT_NEEDED p d;
     x \<leftarrow> str_at (lmem (lk d)) (data_p (D d DYNSTR_INDEX) + unat p);
     needed_entries k (a + 16) (p + of_nat (length x) + 1)
       (upd_lk (upd_conf (\<lambda>c. c\<lparr>dynamic_entry_num := dynamic_entry_num c + 1\<rparr>)) d)
   }"

fun tag_entries :: "nat list \<Rightarrow> nat \<Rightarrow> u32 \<Rightarrow> dyn \<Rightarrow> (u32 \<times> dyn) option" where
  "tag_entries [] a r d = Some (r, d)"
| "tag_entries (i # is) a r d =
     (if length (DynamicEntryTag d) \<le> i then None
      else do {
        (r, d) \<leftarrow> set_dynamic_entry a (DynamicEntryTag d ! i) r d;
        tag_entries is (a + 16) r d
      })"

definition set_dynanmic :: "dyn \<Rightarrow> dyn option" where
  "set_dynanmic d =
     (if nodynamic (conf (lk d)) \<noteq> 0 then
        Some (upd_lk (upd_conf (\<lambda>c. c\<lparr>out_size := virtual_address_offset c - base_address c + 0x10\<rparr>)) d)
      else do {
        k \<leftarrow> PLT_GOT_P d;
        let r = scon_vaddr (scons (lk d) k) + dsize (D d PLT_GOT_INDEX) * 0x10 - base_address (conf (lk d));
        (a, d) \<leftarrow> needed_entries (unat (dsize (D d DT_DYNAMIC_INDEX))) (data_p (D d DT_DYNAMIC_INDEX)) 1 d;
        let n = dynamic_entry_num (conf (lk d));
        let r = r + n * 16;
        d \<leftarrow> store (size_p (D d 0)) (put32 (size_p (D d 0)) (n * 16)) d;
        (r, d) \<leftarrow> tag_entries [1..<Suc (nat (sint n))] a r d;
        Some (upd_lk (upd_conf (\<lambda>c. c\<lparr>out_size := r\<rparr>)) d)
      })"

subsection \<open>What the operations leave alone\<close>

lemma store_SomeD: "store a f d = Some d' \<Longrightarrow> a \<noteq> 0 \<and> d' = upd_lk (upd_mem f) d"
  by (auto simp: store_def split: if_splits)

lemma upd_lk_fields [simp]:
  "D (upd_lk f d) = D d" "DynamicEntryTag (upd_lk f d) = DynamicEntryTag d" "PLT_GOT_P (upd_lk f d) = PLT_GOT_P d"
  "lk (upd_lk f d) = f (lk d)"
  by (simp_all add: upd_lk_def)

lemma upd_D_fields [simp]:
  "lk (upd_D i f d) = lk d" "DynamicEntryTag (upd_D i f d) = DynamicEntryTag d" "PLT_GOT_P (upd_D i f d) = PLT_GOT_P d"
  "D (upd_D i f d) j = (if j = i then f (D d i) else D d j)"
  by (simp_all add: upd_D_def)

lemma upd_mem_fields [simp]:
  "conf (upd_mem f s) = conf s" "syms (upd_mem f s) = syms s" "n_syms (upd_mem f s) = n_syms s" "lmem (upd_mem f s) = f (lmem s)"
  by (simp_all add: upd_mem_def)

text \<open>The parts of the linker state that adding dynamic sections and entries does
  not touch.\<close>

definition keeps :: "dyn \<Rightarrow> dyn \<Rightarrow> bool" where
  "keeps d d' \<longleftrightarrow> syms (lk d') = syms (lk d) \<and> n_syms (lk d') = n_syms (lk d) \<and>
     DynamicImportHashTable (conf (lk d')) = DynamicImportHashTable (conf (lk d)) \<and>
     use_dt_hash (conf (lk d')) = use_dt_hash (conf (lk d)) \<and> nodynamic (conf (lk d')) = nodynamic (conf (lk d)) \<and>
     dynamic_entry_num (conf (lk d')) = dynamic_entry_num (conf (lk d)) \<and> DynamicEntryTag d' = DynamicEntryTag d"

lemma keeps_refl: "keeps d d" by (simp add: keeps_def)

lemma keeps_trans: "keeps d d1 \<Longrightarrow> keeps d1 d2 \<Longrightarrow> keeps d d2" by (simp add: keeps_def)

lemma keeps_upd_D: "keeps d (upd_D i f d)" by (simp add: keeps_def)

lemma keeps_store: "store a f d = Some d' \<Longrightarrow> keeps d d' \<and> D d' = D d"
  by (auto simp: keeps_def dest!: store_SomeD)

lemma alloc_section_container_keeps:
  assumes "alloc_section_container va nm cl Sc s = Some (sc, Sc', s')"
  shows "syms s' = syms s \<and> n_syms s' = n_syms s \<and> DynamicImportHashTable (conf s') = DynamicImportHashTable (conf s) \<and>
    use_dt_hash (conf s') = use_dt_hash (conf s) \<and> nodynamic (conf s') = nodynamic (conf s) \<and>
    dynamic_entry_num (conf s') = dynamic_entry_num (conf s) \<and> mallocs s' = mallocs s"
  using assms
  by (auto simp: alloc_section_container_def alloc_section_container_init_def Let_def upd_defs
      Option.bind_eq_Some_conv split: option.splits)

lemma alloc_section_chain_keeps:
  assumes "alloc_section_chain p off sc ob s = Some (c, s')"
  shows "syms s' = syms s \<and> n_syms s' = n_syms s \<and> conf s' = conf s \<and> mallocs s' = mallocs s"
proof -
  have con: "syms (con_append k c s) = syms s \<and> n_syms (con_append k c s) = n_syms s \<and> conf (con_append k c s) = conf s \<and>
      mallocs (con_append k c s) = mallocs s" for k c s
    by (simp add: con_append_def Let_def upd_defs split: option.split)
  have obj: "syms (obj_append k c s) = syms s \<and> n_syms (obj_append k c s) = n_syms s \<and> conf (obj_append k c s) = conf s \<and>
      mallocs (obj_append k c s) = mallocs s" for k c s
    by (simp add: obj_append_def Let_def upd_defs split: option.split)
  show ?thesis
    using assms con obj
    by (simp add: alloc_section_chain_def chain_into_container_def update_object_chain_def Let_def
        split: if_splits option.splits) auto
qed

lemma new_area_SomeD: "new_area s = Some (a, s') \<Longrightarrow> s' = s\<lparr>mallocs := tl (mallocs s)\<rparr> \<and> a = hd (mallocs s) \<and> mallocs s \<noteq> []"
  by (auto simp: new_area_def split: list.splits)

lemma new_dynamic_section_keeps:
  assumes "new_dynamic_section sc d = Some (a, d')"
  shows "keeps d d' \<and> D d' = D d \<and> PLT_GOT_P d' = PLT_GOT_P d"
  using assms
  by (auto simp: new_dynamic_section_def alloc_elf_section_def keeps_def Option.bind_eq_Some_conv
      dest!: alloc_section_chain_keeps new_area_SomeD)

lemma add_dynamic_sc_keeps:
  assumes "add_dynamic_sc i nm sc d = Some d'"
  shows "keeps d d' \<and> PLT_GOT_P d' = PLT_GOT_P d \<and> (\<forall>j. j \<noteq> i \<longrightarrow> D d' j = D d j) \<and>
    dsize (D d' i) = dsize (D d i) \<and> alloc_size (D d' i) = alloc_size (D d i)"
proof -
  obtain sc1 d1 where 1: "keeps d d1" "PLT_GOT_P d1 = PLT_GOT_P d" "\<And>j. j \<noteq> i \<Longrightarrow> D d1 j = D d j"
      "dsize (D d1 i) = dsize (D d i)" "alloc_size (D d1 i) = alloc_size (D d i)"
    and rest: "do {
     (shdr, d) \<leftarrow> new_dynamic_section sc1 d1;
     (a, s) \<leftarrow> new_area (lk d);
     let d = upd_D i (\<lambda>p. p\<lparr>data_p := a\<rparr>) (d\<lparr>lk := s\<rparr>);
     d \<leftarrow> store shdr (put64 (shdr + 0x18) (of_nat a)) d;
     Some (upd_D i (\<lambda>p. p\<lparr>size_p := shdr + 0x20\<rparr>) d)
   } = Some d'"
  proof (cases sc)
    case None
    then obtain sc1 x s where c: "alloc_section_container 0 (case nm of None \<Rightarrow> dname (D d i) | Some n \<Rightarrow> Some n) 0 None (lk d)
        = Some (sc1, x, s)"
      using assms by (auto simp: add_dynamic_sc_def Option.bind_eq_Some_conv)
    show ?thesis
      by (rule that [of "upd_D i (\<lambda>p. p\<lparr>sc_p := Some sc1\<rparr>) (d\<lparr>lk := s\<rparr>)" sc1])
        (use alloc_section_container_keeps [OF c] assms None c in \<open>auto simp: keeps_def add_dynamic_sc_def upd_D_def\<close>)
  next
    case (Some k)
    then obtain d1 where st: "store (size_p (D d i)) (put32 (size_p (D d i)) (dsize (D d i))) d = Some d1"
      using assms by (auto simp: add_dynamic_sc_def Option.bind_eq_Some_conv)
    show ?thesis
      by (rule that [of d1 k]) (use keeps_store [OF st] store_SomeD [OF st] assms Some st in \<open>auto simp: add_dynamic_sc_def\<close>)
  qed
  from rest obtain shdr d2 a s d3 where 2: "new_dynamic_section sc1 d1 = Some (shdr, d2)" "new_area (lk d2) = Some (a, s)"
      "store shdr (put64 (shdr + 0x18) (of_nat a)) (upd_D i (\<lambda>p. p\<lparr>data_p := a\<rparr>) (d2\<lparr>lk := s\<rparr>)) = Some d3"
      "d' = upd_D i (\<lambda>p. p\<lparr>size_p := shdr + 0x20\<rparr>) d3"
    by (auto simp: Option.bind_eq_Some_conv Let_def)
  have s: "syms s = syms (lk d2) \<and> n_syms s = n_syms (lk d2) \<and> conf s = conf (lk d2)"
    using new_area_SomeD [OF 2(2)] by simp
  note n = new_dynamic_section_keeps [OF 2(1)]
  have k3: "keeps d2 d3" "D d3 j = (if j = i then (D d2 i)\<lparr>data_p := a\<rparr> else D d2 j)" "PLT_GOT_P d3 = PLT_GOT_P d2" for j
    using store_SomeD [OF 2(3)] s by (auto simp: keeps_def)
  show ?thesis
    using 1 n k3 by (auto simp: 2(4) keeps_def)
qed

lemma grow_keeps: "grow i d = Some d' \<Longrightarrow> keeps d d'"
  using add_dynamic_sc_keeps by (auto simp: grow_def)

lemma add_dynsym_entry_keeps:
  assumes "add_dynsym_entry a b c d = Some d'"
  shows "keeps d d'"
  using assms
  by (auto simp: add_dynsym_entry_def Let_def Option.bind_eq_Some_conv split: if_splits
      dest!: keeps_store grow_keeps) (auto simp: keeps_def)

lemma add_dynstr_entry_keeps:
  assumes "add_dynstr_entry nm d = Some (r, d')"
  shows "keeps d d'"
  using assms
  by (auto simp: add_dynstr_entry_def Let_def Option.bind_eq_Some_conv split: if_splits
      dest!: keeps_store grow_keeps) (auto simp: keeps_def)

lemma add_pltgot_entry_keeps:
  assumes "add_pltgot_entry d = Some (r, d')"
  shows "keeps d d'"
  using assms
  by (auto simp: add_pltgot_entry_def Let_def Option.bind_eq_Some_conv split: if_splits
      dest!: keeps_store add_dynamic_sc_keeps) (auto simp: keeps_def)

lemma put_rela_keeps:
  assumes "put_rela a b c d = Some (r, d')"
  shows "keeps d d'"
  using assms
  by (auto simp: put_rela_def Let_def Option.bind_eq_Some_conv split: if_splits
      dest!: keeps_store grow_keeps) (auto simp: keeps_def)

lemma keeps_import:
  assumes "keeps d d'"
  shows "import_inv (lk d') = import_inv (lk d)" "import_look (lk d') = import_look (lk d)"
proof -
  have n: "next_syc (lk d') = next_syc (lk d)" "match_import (lk d') = match_import (lk d)" "import_slot (lk d') = import_slot (lk d)"
    using assms by (simp_all add: fun_eq_iff next_syc_def match_import_def import_slot_def keeps_def)
  show "import_inv (lk d') = import_inv (lk d)" "import_look (lk d') = import_look (lk d)"
    using assms by (simp_all add: import_inv_def import_look_def n fun_eq_iff) (simp_all add: keeps_def Let_def)
qed

text \<open>C14: an imported function has one PLT entry: once \<open>add_dynamic_entry\<close> has
  returned an address for a name, asking for it again with \<open>check\<close> returns the same
  address and changes nothing.\<close>

theorem import_entry_reused:
  assumes inv: "import_inv (lk d)" and nm: "nul_free nm" and zero: "import_look (lk d) nm \<noteq> Some 0"
    and add: "add_dynamic_entry nm ty True d = Some (r, d')" and r: "r \<noteq> 0"
  shows "add_dynamic_entry nm ty' True d' = Some (r, d')"
proof (cases "import_look (lk d) nm")
  case (Some p)
  then have "lookup_symbol nm 1 (lk d) = Some p" "p \<noteq> 0"
    using lookup_symbol_import [OF inv, of nm] zero by auto
  then show ?thesis using add by (auto simp: add_dynamic_entry_def)
next
  case None
  then have "lookup_symbol nm 1 (lk d) = Some 0"
    using lookup_symbol_import [OF inv, of nm] by simp
  then obtain d1 off d2 d3 i a d4 where steps: "add_pltgot_entry d = Some (r, d1)" "add_dynstr_entry nm d1 = Some (off, d2)"
      "add_dynsym_entry off 0 0 d2 = Some d3" "add_rela_plt_entry (ucast (r + 8)) i ty 0 d3 = Some (a, d4)"
      "lift_lk (alloc_dynamic_symbol_chain (unat r) nm None) d4 = Some d'"
    using add by (auto simp: add_dynamic_entry_def Option.bind_eq_Some_conv)
  have k: "keeps d d4"
    using add_pltgot_entry_keeps [OF steps(1)] add_dynstr_entry_keeps [OF steps(2)]
      add_dynsym_entry_keeps [OF steps(3)] put_rela_keeps [OF steps(4) [unfolded add_rela_plt_entry_def]]
    by (blast intro: keeps_trans)
  obtain s where s: "alloc_dynamic_symbol_chain (unat r) nm None (lk d4) = Some s" "d' = d4\<lparr>lk := s\<rparr>"
    using steps(5) by (auto simp: lift_lk_def Option.bind_eq_Some_conv)
  have "import_inv s" "import_look s nm = Some (unat r)"
    using impt.ins_law [of "lk d4" nm "unat r"] s(1) inv nm None keeps_import [OF k] by auto
  then have "lookup_symbol nm 1 (lk d') = Some (unat r)"
    using lookup_symbol_import [of s nm] s(2) by simp
  moreover have "unat r \<noteq> 0" using r by (simp add: unat_eq_0)
  ultimately show ?thesis by (simp add: add_dynamic_entry_def)
qed

subsection \<open>The System V table is never allocated\<close>

lemma need_allocate_not_dt_hash: "need_allocate t \<noteq> DT_HASH_INDEX"
  by (simp add: need_allocate_def index_defs)

lemma alloc_dynamic_foldl:
  assumes "foldl (\<lambda>r t. Option.bind r (\<lambda>d. if need_allocate t \<noteq> 0
      then add_dynamic_sc (need_allocate t) None None d else Some d)) (Some d) ts = Some d'"
  shows "D d' DT_HASH_INDEX = D d DT_HASH_INDEX \<and> use_dt_hash (conf (lk d')) = use_dt_hash (conf (lk d))"
  using assms
proof (induction ts arbitrary: d)
  case (Cons t ts)
  let ?step = "\<lambda>d. if need_allocate t \<noteq> 0 then add_dynamic_sc (need_allocate t) None None d else Some d"
  have none: "foldl (\<lambda>r t. Option.bind r (\<lambda>d. if need_allocate t \<noteq> 0
      then add_dynamic_sc (need_allocate t) None None d else Some d)) None xs = None" for xs
    by (induction xs) simp_all
  obtain d1 where d1: "?step d = Some d1"
    using Cons.prems none by (cases "?step d") auto
  then have "D d1 DT_HASH_INDEX = D d DT_HASH_INDEX \<and> use_dt_hash (conf (lk d1)) = use_dt_hash (conf (lk d))"
    using add_dynamic_sc_keeps [of "need_allocate t" None None d d1] need_allocate_not_dt_hash [of t]
    by (auto simp: keeps_def split: if_splits)
  then show ?case using Cons.IH [of d1] Cons.prems d1 by simp
qed simp

lemma init_dynamic_keeps:
  assumes "init_dynamic d = Some d'"
  shows "lk d' = lk d \<and> data_p (D d' i) = data_p (D d i)"
  using assms
  by (auto simp: init_dynamic_def set_area_def Let_def Option.bind_eq_Some_conv index_defs split: if_splits)

text \<open>C15: an output with \<open>DT_HASH\<close> cannot be produced: no tag of the table makes
  \<open>need_allocate\<close> return \<open>DT_HASH_INDEX\<close>, so the table's area stays the null
  pointer, and \<open>add_dynamic\<close> fails when it stores \<open>NBUCKET\<close> there.\<close>

theorem add_dynamic_with_dt_hash_fails:
  assumes "nodynamic (conf (lk d)) = 0" "use_dt_hash (conf (lk d)) \<noteq> 0" "data_p (D d DT_HASH_INDEX) = 0"
  shows "add_dynamic d = None"
proof (rule ccontr)
  assume "add_dynamic d \<noteq> None"
  then obtain d1 d2 d3 where 1: "init_dynamic d = Some d1"
      "add_dynamic_sc DT_DYNAMIC_INDEX (Some DT_DYNAMIC_NAME) None d1 = Some d2" "alloc_dynamic d2 = Some d3"
    and st: "use_dt_hash (conf (lk d3)) \<noteq> 0 \<longrightarrow> store (data_p (D d3 DT_HASH_INDEX)) (put32 (data_p (D d3 DT_HASH_INDEX)) NBUCKET) d3 \<noteq> None"
    using assms(1) by (auto simp: add_dynamic_def Option.bind_eq_Some_conv Let_def split: if_splits)
  have "D d3 DT_HASH_INDEX = D d1 DT_HASH_INDEX" "use_dt_hash (conf (lk d3)) = use_dt_hash (conf (lk d1))"
    using add_dynamic_sc_keeps [OF 1(2)] alloc_dynamic_foldl [OF 1(3) [unfolded alloc_dynamic_def]]
    by (simp_all add: keeps_def index_defs)
  then show False
    using st assms(2,3) init_dynamic_keeps [OF 1(1)] by (simp add: store_def)
qed

subsection \<open>The dynamic entries describe consecutive areas\<close>

text \<open>The areas whose section sizes are stored while the entries of a GNU hash
  output are written: all but \<open>.dt.hash\<close>, which is never allocated.  The bytes from
  \<open>lo\<close> to \<open>hi\<close> hold none of these sizes, and every pointer written through is set.\<close>

definition written :: "nat set" where
  "written = {DT_DYNAMIC_INDEX, INIT_ARRAY_INDEX, FINI_ARRAY_INDEX, RELA_PLT_INDEX, DYNSYM_INDEX, DYNSTR_INDEX,
     PLT_GOT_INDEX, GNU_HASH_INDEX}"

lemma dyn_sizes_written: "tag \<noteq> DT_HASH \<Longrightarrow> \<forall>w \<in> set (dyn_sizes P tag). fst w \<in> written"
  by (simp add: dyn_sizes_def written_def)

definition clear :: "dyn \<Rightarrow> nat \<Rightarrow> nat \<Rightarrow> bool" where
  "clear d lo hi \<longleftrightarrow> (\<forall>i \<in> written. size_p (D d i) \<noteq> 0 \<and> (size_p (D d i) + 4 \<le> lo \<or> hi \<le> size_p (D d i)))"

lemma clear_upd_lk [simp]: "clear (upd_lk f d) lo hi = clear d lo hi"
  by (simp add: clear_def)

lemma store_sizes_spec:
  assumes "clear d lo hi" "\<forall>w \<in> set ws. fst w \<in> written"
  shows "\<exists>f. store_sizes ws d = Some (upd_lk (upd_mem f) d) \<and>
    (\<forall>m x. lo \<le> x \<longrightarrow> x + 8 \<le> hi \<longrightarrow> get64 x (f m) = get64 x m)"
  using assms
proof (induction ws arbitrary: d)
  case Nil
  have "upd_lk (upd_mem (\<lambda>m. m)) d = d" by (simp add: upd_lk_def upd_mem_def)
  then show ?case by (intro exI [of _ "\<lambda>m. m"]) simp
next
  case (Cons w ws)
  obtain i v where w: "w = (i, v)" by (cases w)
  let ?g = "put32 (size_p (D d i)) v"
  obtain f where f: "store_sizes ws (upd_lk (upd_mem ?g) d) = Some (upd_lk (upd_mem f) (upd_lk (upd_mem ?g) d))"
      "\<And>m x. lo \<le> x \<Longrightarrow> x + 8 \<le> hi \<Longrightarrow> get64 x (f m) = get64 x m"
    using Cons.IH [of "upd_lk (upd_mem ?g) d"] Cons.prems by auto
  have "upd_lk (upd_mem f) (upd_lk (upd_mem ?g) d) = upd_lk (upd_mem (\<lambda>m. f (?g m))) d"
    by (simp add: upd_lk_def upd_mem_def)
  moreover have "size_p (D d i) \<noteq> 0" "size_p (D d i) + 4 \<le> lo \<or> hi \<le> size_p (D d i)"
    using Cons.prems by (auto simp: clear_def w)
  ultimately show ?case
    using f w by (intro exI [of _ "\<lambda>m. f (?g m)"]) (auto simp: store_def get_put_other)
qed

lemma set_dynamic_entry_spec:
  assumes clr: "clear d lo hi" and tag: "tag \<noteq> DT_HASH" and a: "a \<noteq> 0" "lo \<le> a" "a + 16 \<le> hi"
  shows "\<exists>f. set_dynamic_entry a tag off d = Some (off + dyn_advance (D d) tag, upd_lk (upd_mem f) d) \<and>
    (\<forall>m. get64 a (f m) = scast tag \<and>
      (\<forall>v. dyn_value (D d) tag off = Some v \<longrightarrow> get64 (a + 8) (f m) = v) \<and>
      (\<forall>x. lo \<le> x \<longrightarrow> x + 8 \<le> a \<longrightarrow> get64 x (f m) = get64 x m))"
proof -
  define g where "g = (\<lambda>m. case dyn_value (D d) tag off of
      None \<Rightarrow> put64 a (scast tag) m | Some v \<Rightarrow> put64 (a + 8) v (put64 a (scast tag) m))"
  obtain f where f: "store_sizes (dyn_sizes (D d) tag) (upd_lk (upd_mem g) d) = Some (upd_lk (upd_mem f) (upd_lk (upd_mem g) d))"
      "\<And>m x. lo \<le> x \<Longrightarrow> x + 8 \<le> hi \<Longrightarrow> get64 x (f m) = get64 x m"
    using store_sizes_spec [of "upd_lk (upd_mem g) d" lo hi "dyn_sizes (D d) tag"] clr dyn_sizes_written [OF tag] by auto
  have c: "upd_lk (upd_mem f) (upd_lk (upd_mem g) d) = upd_lk (upd_mem (\<lambda>m. f (g m))) d" for f g d
    by (simp add: upd_lk_def upd_mem_def)
  have "set_dynamic_entry a tag off d = Some (off + dyn_advance (D d) tag, upd_lk (upd_mem (\<lambda>m. f (g m))) d)"
    using f(1) a(1) unfolding c by (cases "dyn_value (D d) tag off") (simp_all add: set_dynamic_entry_def store_def g_def c)
  moreover have "get64 a (g m) = scast tag" "dyn_value (D d) tag off = Some v \<Longrightarrow> get64 (a + 8) (g m) = v"
    "x + 8 \<le> a \<Longrightarrow> get64 x (g m) = get64 x m" for m v x
    by (auto simp: g_def mem_simps split: option.split)
  ultimately show ?thesis
    using f(2) a by (intro exI [of _ "\<lambda>m. f (g m)"]) simp
qed

definition area_start :: "(nat \<Rightarrow> DynamicParams) \<Rightarrow> u32 list \<Rightarrow> u32 \<Rightarrow> nat \<Rightarrow> u32" where
  "area_start P ts r j = r + sum_list (map (dyn_advance P) (take j ts))"

lemma tag_entries_spec:
  assumes "clear d lo hi" "a \<noteq> 0" "lo \<le> a" "a + 16 * length is \<le> hi"
    "\<forall>i \<in> set is. i < length (DynamicEntryTag d) \<and> DynamicEntryTag d ! i \<noteq> DT_HASH"
  shows "\<exists>f. tag_entries is a r d =
      Some (area_start (D d) (map (\<lambda>i. DynamicEntryTag d ! i) is) r (length is), upd_lk (upd_mem f) d) \<and>
    (\<forall>m. (\<forall>j < length is. get64 (a + 16 * j) (f m) = scast (DynamicEntryTag d ! (is ! j)) \<and>
        (\<forall>v. dyn_value (D d) (DynamicEntryTag d ! (is ! j))
            (area_start (D d) (map (\<lambda>i. DynamicEntryTag d ! i) is) r j) = Some v \<longrightarrow>
          get64 (a + 16 * j + 8) (f m) = v)) \<and>
      (\<forall>x. lo \<le> x \<longrightarrow> x + 8 \<le> a \<longrightarrow> get64 x (f m) = get64 x m))"
  using assms
proof (induction "is" arbitrary: a r d)
  case Nil
  have "upd_lk (upd_mem (\<lambda>m. m)) d = d" by (simp add: upd_lk_def upd_mem_def)
  then show ?case by (intro exI [of _ "\<lambda>m. m"]) (simp add: area_start_def)
next
  case (Cons i "is")
  let ?t = "DynamicEntryTag d ! i"
  have hi: "a + 16 \<le> hi" "a + 16 + 16 * length is \<le> hi" using Cons.prems by simp_all
  obtain g where g: "set_dynamic_entry a ?t r d = Some (r + dyn_advance (D d) ?t, upd_lk (upd_mem g) d)"
      "\<And>m. get64 a (g m) = scast ?t" "\<And>m v. dyn_value (D d) ?t r = Some v \<Longrightarrow> get64 (a + 8) (g m) = v"
      "\<And>m x. lo \<le> x \<Longrightarrow> x + 8 \<le> a \<Longrightarrow> get64 x (g m) = get64 x m"
    using set_dynamic_entry_spec [OF Cons.prems(1) _ Cons.prems(2,3) hi(1), of ?t r] Cons.prems(5) by auto
  let ?ts = "map (\<lambda>i. DynamicEntryTag d ! i) is"
  obtain f where f: "tag_entries is (a + 16) (r + dyn_advance (D d) ?t) (upd_lk (upd_mem g) d) =
      Some (area_start (D d) ?ts (r + dyn_advance (D d) ?t) (length is), upd_lk (upd_mem f) (upd_lk (upd_mem g) d))"
      "\<And>m j. j < length is \<Longrightarrow> get64 (a + 16 + 16 * j) (f m) = scast (DynamicEntryTag d ! (is ! j))"
      "\<And>m j v. j < length is \<Longrightarrow> dyn_value (D d) (DynamicEntryTag d ! (is ! j)) (area_start (D d) ?ts (r + dyn_advance (D d) ?t) j) = Some v \<Longrightarrow>
        get64 (a + 16 + 16 * j + 8) (f m) = v"
      "\<And>m x. lo \<le> x \<Longrightarrow> x + 8 \<le> a + 16 \<Longrightarrow> get64 x (f m) = get64 x m"
    using Cons.IH [of "upd_lk (upd_mem g) d" "a + 16" "r + dyn_advance (D d) ?t"] Cons.prems hi(2) by auto
  have st: "area_start (D d) (?t # ?ts) r (Suc j) = area_start (D d) ?ts (r + dyn_advance (D d) ?t) j" for j
    by (simp add: area_start_def)
  have c: "upd_lk (upd_mem f) (upd_lk (upd_mem g) d) = upd_lk (upd_mem (\<lambda>m. f (g m))) d" for f g d
    by (simp add: upd_lk_def upd_mem_def)
  have "tag_entries (i # is) a r d = Some (area_start (D d) (?t # ?ts) r (length (i # is)), upd_lk (upd_mem (\<lambda>m. f (g m))) d)"
    using f(1) g(1) Cons.prems(5) st [of "length is"] c by simp
  moreover have "get64 (a + 16 * j) (f (g m)) = scast (DynamicEntryTag d ! ((i # is) ! j)) \<and>
      (\<forall>v. dyn_value (D d) (DynamicEntryTag d ! ((i # is) ! j)) (area_start (D d) (?t # ?ts) r j) = Some v \<longrightarrow>
        get64 (a + 16 * j + 8) (f (g m)) = v)" if "j < length (i # is)" for j m
  proof (cases j)
    case 0
    then show ?thesis using g(2,3) f(4) Cons.prems(3) by (simp add: area_start_def)
  next
    case (Suc k)
    have "a + 16 * j = a + 16 + 16 * k" using Suc by simp
    then show ?thesis using f(2,3) [of k] st [of k] that Suc by (simp add: ac_simps)
  qed
  ultimately show ?case
    using g(4) f(4) by (intro exI [of _ "\<lambda>m. f (g m)"]) simp
qed

text \<open>The state in which \<open>set_dynanmic\<close> runs for an ELF output with a dynamic section
  and no shared libraries: 13 entries, the tags of the source.\<close>

definition ready :: "dyn \<Rightarrow> nat \<Rightarrow> bool" where
  "ready d k \<longleftrightarrow> nodynamic (conf (lk d)) = 0 \<and> DynamicEntryTag d = default_tags \<and>
     dynamic_entry_num (conf (lk d)) = 13 \<and> PLT_GOT_P d = Some k \<and> data_p (D d DT_DYNAMIC_INDEX) \<noteq> 0 \<and>
     clear d (data_p (D d DT_DYNAMIC_INDEX)) (data_p (D d DT_DYNAMIC_INDEX) + 16 * 13)"

definition plt_end :: "dyn \<Rightarrow> nat \<Rightarrow> u32" where
  "plt_end d k = scon_vaddr (scons (lk d) k) + dsize (D d PLT_GOT_INDEX) * 0x10 - base_address (conf (lk d))"

lemma upt_13: "[Suc 0..<14] = [1, 2, 3, 4, 5, 6, 7, 8, 9, 10, 11, 12, 13]"
  by (simp add: upt_rec)

lemma tags_13: "map (\<lambda>i. default_tags ! i) [1, 2, 3, 4, 5, 6, 7, 8, 9, 10, 11, 12, 13] = tl default_tags"
  by (simp add: default_tags_def)

lemma default_tags_length: "length default_tags = 14"
  by (simp add: default_tags_def)

text \<open>C16: the dynamic section of an output without shared libraries is right: from the end of the PLT come
  the 13 entries, then the init array, fini array, GNU hash table, relocations,
  dynamic symbols and dynamic strings, each starting where the one before ends;
  the entries hold exactly these starts and the sizes, the two entry sizes are 24,
  the last tag is \<open>DT_NULL\<close>, and \<open>out_size\<close> is the end of the last area.  The state
  is the one \<open>add_dynamic\<close> leaves (lemma \<open>add_dynamic_ready\<close>).\<close>

theorem dynamic_section_layout:
  assumes ready: "ready d k" and needed: "dsize (D d DT_DYNAMIC_INDEX) = 0"
  defines "a \<equiv> data_p (D d DT_DYNAMIC_INDEX)"
    and "init \<equiv> plt_end d k + 13 * 16"
  defines "fini \<equiv> init + dsize (D d INIT_ARRAY_INDEX)"
  defines "hash \<equiv> fini + dsize (D d FINI_ARRAY_INDEX)"
  defines "rela \<equiv> hash + dsize (D d GNU_HASH_INDEX)"
  defines "dsyms \<equiv> rela + dsize (D d RELA_PLT_INDEX)"
  defines "dstrs \<equiv> dsyms + (1 + dsize (D d DYNSYM_INDEX)) * 24"
  shows "\<exists>d'. set_dynanmic d = Some d' \<and>
    out_size (conf (lk d')) = dstrs + dsize (D d DYNSTR_INDEX) \<and>
    (let e = (\<lambda>j. rd_dyn (a + 16 * j) (lmem (lk d'))) in
     e 0 = \<lparr>d_tag = scast DT_INIT_ARRAY, d_val = ucast init\<rparr> \<and>
     e 1 = \<lparr>d_tag = scast DT_INIT_ARRAYSZ, d_val = ucast (dsize (D d INIT_ARRAY_INDEX))\<rparr> \<and>
     e 2 = \<lparr>d_tag = scast DT_FINI_ARRAY, d_val = ucast fini\<rparr> \<and>
     e 3 = \<lparr>d_tag = scast DT_FINI_ARRAYSZ, d_val = ucast (dsize (D d FINI_ARRAY_INDEX))\<rparr> \<and>
     e 4 = \<lparr>d_tag = scast DT_GNU_HASH, d_val = ucast hash\<rparr> \<and>
     e 5 = \<lparr>d_tag = scast DT_RELA, d_val = ucast rela\<rparr> \<and>
     e 6 = \<lparr>d_tag = scast DT_RELASZ, d_val = ucast (dsize (D d RELA_PLT_INDEX))\<rparr> \<and>
     e 7 = \<lparr>d_tag = scast DT_RELAENT, d_val = 24\<rparr> \<and>
     e 8 = \<lparr>d_tag = scast DT_SYMTAB, d_val = ucast dsyms\<rparr> \<and>
     e 9 = \<lparr>d_tag = scast DT_SYMENT, d_val = 24\<rparr> \<and>
     e 10 = \<lparr>d_tag = scast DT_STRTAB, d_val = ucast dstrs\<rparr> \<and>
     e 11 = \<lparr>d_tag = scast DT_STRSZ, d_val = ucast (dsize (D d DYNSTR_INDEX))\<rparr> \<and>
     d_tag (e 12) = scast DT_NULL)"
proof -
  let ?is = "[Suc 0..<14]"
  let ?d = "upd_lk (upd_mem (put32 (size_p (D d 0)) (13 * 16))) d"
  note rd = ready [unfolded ready_def]
  have clr: "clear d a (a + 16 * 13)" and a0: "a \<noteq> 0" using rd by (simp_all add: a_def)
  have "DT_HASH \<notin> set default_tags" by (simp add: default_tags_def DT_defs)
  then have "default_tags ! i \<noteq> DT_HASH" if "i < 14" for i
    using that by (metis nth_mem default_tags_length)
  then have len: "length ?is = 13"
    and ok: "\<forall>i \<in> set ?is. i < length (DynamicEntryTag ?d) \<and> DynamicEntryTag ?d ! i \<noteq> DT_HASH"
    using rd by (simp_all add: default_tags_length)
  have ts: "map (\<lambda>i. DynamicEntryTag ?d ! i) ?is = tl default_tags"
    using rd tags_13 by (simp add: upt_13)
  have nth: "DynamicEntryTag ?d ! (?is ! j) = tl default_tags ! j" if "j < 13" for j
    using nth_map [of j ?is "\<lambda>i. DynamicEntryTag ?d ! i"] that unfolding ts len by simp
  have "clear ?d a (a + 16 * 13)" "a \<le> a" "a + 16 * length ?is \<le> a + 16 * 13" using clr len by simp_all
  from tag_entries_spec [OF this(1) a0 this(2,3) ok, of init, unfolded ts len]
  obtain f where f: "tag_entries ?is a init ?d = Some (area_start (D d) (tl default_tags) init 13, upd_lk (upd_mem f) ?d)"
      "\<And>m j. j < 13 \<Longrightarrow> get64 (a + 16 * j) (f m) = scast (tl default_tags ! j)"
      "\<And>m j v. j < 13 \<Longrightarrow> dyn_value (D d) (tl default_tags ! j) (area_start (D d) (tl default_tags) init j) = Some v \<Longrightarrow>
        get64 (a + 16 * j + 8) (f m) = v"
    using nth by auto
  let ?m = "f (lmem (lk ?d))"
  have seq: "[1..<Suc (nat (sint (13 :: u32)))] = ?is" by simp
  have "store (size_p (D d 0)) (put32 (size_p (D d 0)) (13 * 16)) d = Some ?d"
    using clr by (simp add: store_def clear_def written_def index_defs)
  then have set: "set_dynanmic d = Some (upd_lk (upd_conf (\<lambda>c. c\<lparr>out_size := area_start (D d) (tl default_tags) init 13\<rparr>)) (upd_lk (upd_mem f) ?d))"
    using rd needed f(1) seq
    by (simp add: set_dynanmic_def Let_def a_def [symmetric] init_def plt_end_def del: upt_Suc upt_conv_Cons)
  have e: "rd_dyn (a + 16 * j) ?m = \<lparr>d_tag = scast t, d_val = v\<rparr>"
    if "j < 13" "tl default_tags ! j = t" "dyn_value (D d) t (area_start (D d) (tl default_tags) init j) = Some v" for j t v
    using f(2) [OF that(1)] f(3) [of j v "lmem (lk ?d)"] that by (simp add: rd_dyn_def)
  have st: "area_start (D d) (tl default_tags) init 0 = init" "area_start (D d) (tl default_tags) init 2 = fini"
    "area_start (D d) (tl default_tags) init 4 = hash" "area_start (D d) (tl default_tags) init 5 = rela"
    "area_start (D d) (tl default_tags) init 8 = dsyms" "area_start (D d) (tl default_tags) init 10 = dstrs"
    "area_start (D d) (tl default_tags) init 13 = dstrs + dsize (D d DYNSTR_INDEX)"
    by (simp_all add: area_start_def default_tags_def dyn_advance_def DT_defs fini_def hash_def rela_def dsyms_def dstrs_def)
  have tg: "tl default_tags ! 0 = DT_INIT_ARRAY" "tl default_tags ! 1 = DT_INIT_ARRAYSZ" "tl default_tags ! 2 = DT_FINI_ARRAY"
    "tl default_tags ! 3 = DT_FINI_ARRAYSZ" "tl default_tags ! 4 = DT_GNU_HASH" "tl default_tags ! 5 = DT_RELA"
    "tl default_tags ! 6 = DT_RELASZ" "tl default_tags ! 7 = DT_RELAENT" "tl default_tags ! 9 = DT_SYMENT"
    "tl default_tags ! 12 = DT_NULL" "tl default_tags ! 8 = DT_SYMTAB" "tl default_tags ! 10 = DT_STRTAB" "tl default_tags ! 11 = DT_STRSZ"
    by (simp_all add: default_tags_def)
  have m: "lmem (lk (upd_lk (upd_conf (\<lambda>c. c\<lparr>out_size := area_start (D d) (tl default_tags) init 13\<rparr>)) (upd_lk (upd_mem f) ?d))) = ?m"
    by (simp add: upd_conf_def)
  have es: "rd_dyn (a + 16 * 0) ?m = \<lparr>d_tag = scast DT_INIT_ARRAY, d_val = ucast init\<rparr>"
    "rd_dyn (a + 16 * 1) ?m = \<lparr>d_tag = scast DT_INIT_ARRAYSZ, d_val = ucast (dsize (D d INIT_ARRAY_INDEX))\<rparr>"
    "rd_dyn (a + 16 * 2) ?m = \<lparr>d_tag = scast DT_FINI_ARRAY, d_val = ucast fini\<rparr>"
    "rd_dyn (a + 16 * 3) ?m = \<lparr>d_tag = scast DT_FINI_ARRAYSZ, d_val = ucast (dsize (D d FINI_ARRAY_INDEX))\<rparr>"
    "rd_dyn (a + 16 * 4) ?m = \<lparr>d_tag = scast DT_GNU_HASH, d_val = ucast hash\<rparr>"
    "rd_dyn (a + 16 * 5) ?m = \<lparr>d_tag = scast DT_RELA, d_val = ucast rela\<rparr>"
    "rd_dyn (a + 16 * 6) ?m = \<lparr>d_tag = scast DT_RELASZ, d_val = ucast (dsize (D d RELA_PLT_INDEX))\<rparr>"
    "rd_dyn (a + 16 * 7) ?m = \<lparr>d_tag = scast DT_RELAENT, d_val = 24\<rparr>"
    "rd_dyn (a + 16 * 8) ?m = \<lparr>d_tag = scast DT_SYMTAB, d_val = ucast dsyms\<rparr>"
    "rd_dyn (a + 16 * 9) ?m = \<lparr>d_tag = scast DT_SYMENT, d_val = 24\<rparr>"
    "rd_dyn (a + 16 * 10) ?m = \<lparr>d_tag = scast DT_STRTAB, d_val = ucast dstrs\<rparr>"
    "rd_dyn (a + 16 * 11) ?m = \<lparr>d_tag = scast DT_STRSZ, d_val = ucast (dsize (D d DYNSTR_INDEX))\<rparr>"
    by (rule e, simp, rule tg, simp add: dyn_value_def st DT_defs)+
  have null: "d_tag (rd_dyn (a + 16 * 12) ?m) = scast DT_NULL"
    using f(2) [of 12] tg by (simp add: rd_dyn_def)
  show ?thesis
    by (intro exI conjI, rule set) (use es null m st(7) in \<open>simp_all add: Let_def, simp add: upd_conf_def\<close>)
qed

text \<open>What \<open>add_dynamic\<close> makes of the coming \<open>__malloc\<close> results: two for each area, its
  section header and its data.\<close>

definition areas_from :: "dyn \<Rightarrow> nat list \<Rightarrow> dyn \<Rightarrow> bool" where
  "areas_from d js d' \<longleftrightarrow> (let M = mallocs (lk d) in
     2 * length js \<le> length M \<and> mallocs (lk d') = drop (2 * length js) M \<and>
     (\<forall>k < length js. size_p (D d' (js ! k)) = M ! (2 * k) + 0x20 \<and> data_p (D d' (js ! k)) = M ! (2 * k + 1)) \<and>
     (\<forall>j. j \<notin> set js \<longrightarrow> D d' j = D d j))"

lemma new_dynamic_section_mallocs:
  assumes "new_dynamic_section sc d = Some (h, d')"
  shows "mallocs (lk d) = h # mallocs (lk d')"
  using assms
  by (auto simp: new_dynamic_section_def alloc_elf_section_def Option.bind_eq_Some_conv new_area_def upd_mem_def
      split: list.splits dest!: alloc_section_chain_keeps)

lemma add_dynamic_sc_areas:
  assumes "add_dynamic_sc i nm None d = Some d'"
  shows "areas_from d [i] d'"
proof -
  obtain sc x s h d2 a s2 d3 where
    c: "alloc_section_container 0 (case nm of None \<Rightarrow> dname (D d i) | Some n \<Rightarrow> Some n) 0 None (lk d) = Some (sc, x, s)"
    and n: "new_dynamic_section sc (upd_D i (\<lambda>p. p\<lparr>sc_p := Some sc\<rparr>) (d\<lparr>lk := s\<rparr>)) = Some (h, d2)"
    and a: "new_area (lk d2) = Some (a, s2)"
    and st: "store h (put64 (h + 0x18) (of_nat a)) (upd_D i (\<lambda>p. p\<lparr>data_p := a\<rparr>) (d2\<lparr>lk := s2\<rparr>)) = Some d3"
    and d': "d' = upd_D i (\<lambda>p. p\<lparr>size_p := h + 0x20\<rparr>) d3"
    using assms by (auto simp: add_dynamic_sc_def Option.bind_eq_Some_conv Let_def)
  have "mallocs (lk d) = h # a # mallocs s2"
    using alloc_section_container_keeps [OF c] new_dynamic_section_mallocs [OF n] a
    by (auto simp: new_area_def split: list.splits)
  moreover have "mallocs (lk d') = mallocs s2"
    using store_SomeD [OF st] by (simp add: d' upd_mem_def)
  moreover have "size_p (D d' i) = h + 0x20" "data_p (D d' i) = a"
    using store_SomeD [OF st] by (simp_all add: d')
  ultimately show ?thesis
    using add_dynamic_sc_keeps [OF assms] by (simp add: areas_from_def)
qed

lemma areas_from_append:
  assumes "areas_from d js d1" "areas_from d1 js' d'" "set js \<inter> set js' = {}"
  shows "areas_from d (js @ js') d'"
proof -
  let ?M = "mallocs (lk d)" and ?n = "length js"
  have 1: "2 * ?n \<le> length ?M" "mallocs (lk d1) = drop (2 * ?n) ?M"
    "\<And>k. k < ?n \<Longrightarrow> size_p (D d1 (js ! k)) = ?M ! (2 * k) + 0x20 \<and> data_p (D d1 (js ! k)) = ?M ! (2 * k + 1)"
    "\<And>j. j \<notin> set js \<Longrightarrow> D d1 j = D d j"
    using assms(1) by (auto simp: areas_from_def Let_def)
  have 2: "2 * length js' \<le> length ?M - 2 * ?n" "mallocs (lk d') = drop (2 * length js' + 2 * ?n) ?M"
    "\<And>k. k < length js' \<Longrightarrow> size_p (D d' (js' ! k)) = ?M ! (2 * ?n + 2 * k) + 0x20 \<and>
       data_p (D d' (js' ! k)) = ?M ! (2 * ?n + (2 * k + 1))"
    "\<And>j. j \<notin> set js' \<Longrightarrow> D d' j = D d1 j"
    using assms(2) 1(1) by (simp_all add: areas_from_def Let_def 1(2))
  have "size_p (D d' ((js @ js') ! k)) = ?M ! (2 * k) + 0x20 \<and> data_p (D d' ((js @ js') ! k)) = ?M ! (2 * k + 1)"
    if "k < length (js @ js')" for k
  proof (cases "k < ?n")
    case True
    then have "js ! k \<notin> set js'" using nth_mem [OF True] assms(3) by blast
    then show ?thesis using 1(3) [OF True] 2(4) True by (simp add: nth_append)
  next
    case False
    then obtain l where l: "k = ?n + l" by (metis le_Suc_ex not_le)
    then show ?thesis using 2(3) [of l] that by (simp add: nth_append add_mult_distrib2)
  qed
  then show ?thesis
    using 1 2 unfolding areas_from_def Let_def by (auto simp: algebra_simps)
qed

lemma foldl_bind_None: "foldl (\<lambda>r t. Option.bind r (f t)) None ts = None"
  by (induction ts) simp_all

lemma alloc_dynamic_areas:
  assumes "foldl (\<lambda>r t. Option.bind r (\<lambda>d. if need_allocate t \<noteq> 0
      then add_dynamic_sc (need_allocate t) None None d else Some d)) (Some d) ts = Some d'"
    and "distinct (filter (\<lambda>i. i \<noteq> 0) (map need_allocate ts))"
  shows "areas_from d (filter (\<lambda>i. i \<noteq> 0) (map need_allocate ts)) d' \<and> keeps d d' \<and> PLT_GOT_P d' = PLT_GOT_P d \<and>
    (\<forall>i. dsize (D d' i) = dsize (D d i) \<and> alloc_size (D d' i) = alloc_size (D d i))"
  using assms
proof (induction ts arbitrary: d)
  case Nil
  then show ?case by (simp add: areas_from_def keeps_def)
next
  case (Cons t ts)
  let ?step = "\<lambda>d. if need_allocate t \<noteq> 0 then add_dynamic_sc (need_allocate t) None None d else Some d"
  obtain d1 where d1: "?step d = Some d1"
    using Cons.prems(1) by (cases "?step d") (simp_all add: foldl_bind_None)
  note ih = Cons.IH [of d1]
  have rest: "areas_from d1 (filter (\<lambda>i. i \<noteq> 0) (map need_allocate ts)) d' \<and> keeps d1 d' \<and> PLT_GOT_P d' = PLT_GOT_P d1 \<and>
      (\<forall>i. dsize (D d' i) = dsize (D d1 i) \<and> alloc_size (D d' i) = alloc_size (D d1 i))"
    using ih Cons.prems d1 by (auto split: if_splits)
  show ?case
  proof (cases "need_allocate t = 0")
    case True
    then show ?thesis using rest d1 by simp
  next
    case False
    then have sc: "add_dynamic_sc (need_allocate t) None None d = Some d1" using d1 by simp
    have "need_allocate t \<notin> set (filter (\<lambda>i. i \<noteq> 0) (map need_allocate ts))" using Cons.prems(2) False by simp
    then have "areas_from d ([need_allocate t] @ filter (\<lambda>i. i \<noteq> 0) (map need_allocate ts)) d'"
      using rest by (intro areas_from_append [OF add_dynamic_sc_areas [OF sc]]) auto
    moreover have "dsize (D d1 i) = dsize (D d i) \<and> alloc_size (D d1 i) = alloc_size (D d i)" for i
      using add_dynamic_sc_keeps [OF sc] by (cases "i = need_allocate t") auto
    ultimately show ?thesis
      using rest False keeps_trans add_dynamic_sc_keeps [OF sc] by auto
  qed
qed

text \<open>The seven areas and the PLT: after \<open>add_dynamic\<close> the state is ready, if the
  blocks of \<open>__malloc\<close> do not overlap.\<close>

definition dynamic_areas :: "nat list" where
  "dynamic_areas = [DT_DYNAMIC_INDEX, INIT_ARRAY_INDEX, FINI_ARRAY_INDEX, GNU_HASH_INDEX, RELA_PLT_INDEX,
     DYNSYM_INDEX, DYNSTR_INDEX]"

lemma default_areas: "filter (\<lambda>i. i \<noteq> 0) (map need_allocate default_tags) = tl dynamic_areas"
  by (simp add: default_tags_def need_allocate_def DT_defs dynamic_areas_def index_defs)

lemma init_dynamic_default:
  assumes "init_dynamic d = Some d'" "use_dt_hash (conf (lk d)) = 0"
  shows "lk d' = lk d" "DynamicEntryTag d' = DynamicEntryTag d" "PLT_GOT_P d' = PLT_GOT_P d"
    "size_p (D d' i) = size_p (D d i)" "dsize (D d' DYNSYM_INDEX) = dsize (D d DYNSYM_INDEX)"
    "alloc_size (D d' DYNSYM_INDEX) = 0x3000 * 24"
  using assms by (auto simp: init_dynamic_def set_area_def Let_def index_defs DEFAULT_DYNSYM_NUM_def)

lemma add_dynamic_steps:
  assumes add: "add_dynamic d = Some d'" and conf: "nodynamic (conf (lk d)) = 0"
  obtains d1 d2 d3 e where "init_dynamic d = Some d1"
    "add_dynamic_sc DT_DYNAMIC_INDEX (Some DT_DYNAMIC_NAME) None d1 = Some d2" "alloc_dynamic d2 = Some d3"
    "keeps d3 e" "PLT_GOT_P e = PLT_GOT_P d3" "D e = D d3" "add_dynsym_entry 0 0 0 e = Some d'"
proof -
  obtain d1 d2 d3 d4 where 1: "init_dynamic d = Some d1"
      "add_dynamic_sc DT_DYNAMIC_INDEX (Some DT_DYNAMIC_NAME) None d1 = Some d2" "alloc_dynamic d2 = Some d3"
    and st: "\<exists>a f. store a f d3 = Some d4"
    and last: "add_dynsym_entry 0 0 0 (upd_lk (upd_conf (\<lambda>c. c\<lparr>dynstr_head := data_p (D d4 DYNSTR_INDEX),
        dynsym_head := data_p (D d4 DYNSYM_INDEX), gnu_hash_head := data_p (D d4 GNU_HASH_INDEX)\<rparr>)) d4) = Some d'"
    using assms by (simp add: add_dynamic_def Option.bind_eq_Some_conv Let_def split: if_splits) blast+
  let ?e = "upd_lk (upd_conf (\<lambda>c. c\<lparr>dynstr_head := data_p (D d4 DYNSTR_INDEX),
        dynsym_head := data_p (D d4 DYNSYM_INDEX), gnu_hash_head := data_p (D d4 GNU_HASH_INDEX)\<rparr>)) d4"
  have "keeps d3 d4" "D d4 = D d3" "PLT_GOT_P d4 = PLT_GOT_P d3"
    using st keeps_store store_SomeD by fastforce+
  moreover have "keeps d4 ?e" by (simp add: keeps_def upd_conf_def)
  ultimately show ?thesis using that [OF 1 _ _ _ last] keeps_trans by simp
qed

lemma add_dynamic_ready:
  assumes add: "add_dynamic d = Some d'" and conf: "nodynamic (conf (lk d)) = 0" "use_dt_hash (conf (lk d)) = 0"
      "dynamic_entry_num (conf (lk d)) = 13" "DynamicEntryTag d = default_tags" "PLT_GOT_P d = Some k"
      "dsize (D d DYNSYM_INDEX) = 0"
    and blocks: "mallocs (lk d) ! 1 \<noteq> 0"
      "\<And>k. k < 7 \<Longrightarrow> mallocs (lk d) ! (2 * k) + 64 \<le> mallocs (lk d) ! 1 \<or> mallocs (lk d) ! 1 + 0x200 \<le> mallocs (lk d) ! (2 * k)"
    and plt: "size_p (D d PLT_GOT_INDEX) \<noteq> 0"
      "size_p (D d PLT_GOT_INDEX) + 4 \<le> mallocs (lk d) ! 1 \<or> mallocs (lk d) ! 1 + 0x200 \<le> size_p (D d PLT_GOT_INDEX)"
  shows "ready d' k"
proof -
  let ?M = "mallocs (lk d)"
  obtain d1 d2 d3 d4 where 1: "init_dynamic d = Some d1"
      "add_dynamic_sc DT_DYNAMIC_INDEX (Some DT_DYNAMIC_NAME) None d1 = Some d2" "alloc_dynamic d2 = Some d3"
    and 2: "keeps d3 d4" "PLT_GOT_P d4 = PLT_GOT_P d3" "D d4 = D d3" "add_dynsym_entry 0 0 0 d4 = Some d'"
    by (rule add_dynamic_steps [OF add conf(1)]) blast
  note i = init_dynamic_default [OF 1(1) conf(2)]
  have tags: "DynamicEntryTag d2 = default_tags"
    using add_dynamic_sc_keeps [OF 1(2)] i(2) conf(4) by (simp add: keeps_def)
  have "distinct (tl dynamic_areas)" by (simp add: dynamic_areas_def index_defs)
  then have 3: "areas_from d2 (tl dynamic_areas) d3" "keeps d2 d3" "PLT_GOT_P d3 = PLT_GOT_P d2"
      "\<And>i. dsize (D d3 i) = dsize (D d2 i) \<and> alloc_size (D d3 i) = alloc_size (D d2 i)"
    using alloc_dynamic_areas [OF 1(3) [unfolded alloc_dynamic_def], unfolded tags default_areas] by blast+
  have "areas_from d1 ([DT_DYNAMIC_INDEX] @ tl dynamic_areas) d3"
    by (rule areas_from_append [OF add_dynamic_sc_areas [OF 1(2)] 3(1)]) (simp add: dynamic_areas_def index_defs)
  then have areas: "areas_from d1 dynamic_areas d3" by (simp add: dynamic_areas_def)
  have len: "length dynamic_areas = 7" by (simp add: dynamic_areas_def)
  have at: "size_p (D d3 (dynamic_areas ! k)) = ?M ! (2 * k) + 0x20"
      "data_p (D d3 (dynamic_areas ! k)) = ?M ! (2 * k + 1)" if "k < 7" for k
    using areas that i(1) by (simp_all add: areas_from_def Let_def len)
  have off: "D d3 PLT_GOT_INDEX = D d1 PLT_GOT_INDEX"
    using areas by (simp add: areas_from_def Let_def dynamic_areas_def index_defs)
  have "dsize (D d4 DYNSYM_INDEX) = 0" "alloc_size (D d4 DYNSYM_INDEX) = 0x3000 * 24"
    using 2(3) 3(4) [of DYNSYM_INDEX] add_dynamic_sc_keeps [OF 1(2)] i(5,6) conf(6) by (simp_all add: index_defs)
  then have last: "size_p (D d' i) = size_p (D d3 i)" "i \<noteq> DYNSYM_INDEX \<Longrightarrow> data_p (D d' i) = data_p (D d3 i)" "PLT_GOT_P d' = PLT_GOT_P d4" for i
    using 2(3,4) by (auto simp: add_dynsym_entry_def Let_def Option.bind_eq_Some_conv split: if_splits dest!: store_SomeD)
  have data: "data_p (D d' DT_DYNAMIC_INDEX) = ?M ! 1"
    using at(2) [of 0] last(2) [of DT_DYNAMIC_INDEX] by (simp add: dynamic_areas_def index_defs)
  have kp: "keeps d d'"
    using i(1,2) add_dynamic_sc_keeps [OF 1(2)] 3(2) 2(1) add_dynsym_entry_keeps [OF 2(4)]
    by (simp add: keeps_def)
  have "written = insert PLT_GOT_INDEX (set dynamic_areas)"
    by (auto simp: written_def dynamic_areas_def)
  then have ix: "\<forall>i \<in> written. i = PLT_GOT_INDEX \<or> (\<exists>k < 7. i = dynamic_areas ! k)"
    unfolding len [symmetric] by (metis in_set_conv_nth insert_iff)
  have "size_p (D d' i) \<noteq> 0 \<and> (size_p (D d' i) + 4 \<le> ?M ! 1 \<or> ?M ! 1 + 16 * 13 \<le> size_p (D d' i))" if "i \<in> written" for i
    using ix [THEN bspec, OF that]
  proof (elim disjE exE conjE)
    assume "i = PLT_GOT_INDEX"
    then show ?thesis using plt off i(4) last(1) by auto
  next
    fix k assume "k < 7" "i = dynamic_areas ! k"
    then show ?thesis using at(1) [of k] blocks(2) [of k] last(1) by auto
  qed
  then show ?thesis
    using kp conf blocks(1) data last(3) 2(2) 3(3) add_dynamic_sc_keeps [OF 1(2)] i(3)
    unfolding ready_def clear_def data by (simp add: keeps_def)
qed

subsection \<open>Shared libraries\<close>

lemma store_sizes_frame:
  "store_sizes ws d = Some d' \<Longrightarrow> DynamicEntryTag d' = DynamicEntryTag d \<and> conf (lk d') = conf (lk d)"
proof (induction ws d rule: store_sizes.induct)
  case (2 i w r d)
  then obtain d1 where "store (size_p (D d i)) (put32 (size_p (D d i)) w) d = Some d1" "store_sizes r d1 = Some d'"
    by (auto simp: Option.bind_eq_Some_conv)
  then show ?case using "2.IH" store_SomeD by fastforce
qed simp

lemma set_dynamic_entry_frame:
  "set_dynamic_entry a t off d = Some (r, d') \<Longrightarrow> DynamicEntryTag d' = DynamicEntryTag d \<and> conf (lk d') = conf (lk d)"
  by (auto simp: set_dynamic_entry_def Option.bind_eq_Some_conv split: option.splits
      dest!: store_sizes_frame store_SomeD)

lemma needed_entries_Some:
  assumes "needed_entries n a p d = Some (a', d')"
  shows "DynamicEntryTag d' = DynamicEntryTag d \<and>
    dynamic_entry_num (conf (lk d')) = dynamic_entry_num (conf (lk d)) + of_nat n"
  using assms
proof (induction n a p d rule: needed_entries.induct)
  case (2 k a p d)
  obtain r d1 x where 1: "set_dynamic_entry a DT_NEEDED p d = Some (r, d1)"
      "str_at (lmem (lk d1)) (data_p (D d1 DYNSTR_INDEX) + unat p) = Some x"
      "needed_entries k (a + 16) (p + of_nat (length x) + 1)
         (upd_lk (upd_conf (\<lambda>c. c\<lparr>dynamic_entry_num := dynamic_entry_num c + 1\<rparr>)) d1) = Some (a', d')"
    using "2.prems" by (auto simp: Option.bind_eq_Some_conv)
  from "2.IH" [OF 1(1) _ 1(2,3)] set_dynamic_entry_frame [OF 1(1)] show ?case
    by (simp add: upd_conf_def)
qed simp

lemma tag_entries_out_of_range: "i \<in> set is \<Longrightarrow> length (DynamicEntryTag d) \<le> i \<Longrightarrow> tag_entries is a r d = None"
proof (induction "is" arbitrary: a r d)
  case (Cons j "is")
  show ?case
  proof (cases "length (DynamicEntryTag d) \<le> j \<or> set_dynamic_entry a (DynamicEntryTag d ! j) r d = None")
    case False
    then obtain r1 d1 where d1: "set_dynamic_entry a (DynamicEntryTag d ! j) r d = Some (r1, d1)" by auto
    have "i \<in> set is" using Cons.prems False by auto
    then have "tag_entries is (a + 16) r1 d1 = None"
      using Cons.IH [of d1] Cons.prems(2) set_dynamic_entry_frame [OF d1] by simp
    then show ?thesis using d1 by simp
  qed auto
qed simp

text \<open>C17: with a shared library the table of tags is read past its end: every
  \<open>DT_NEEDED\<close> entry raises \<open>dynamic_entry_num\<close>, and the second loop of
  \<open>set_dynanmic\<close> uses the raised number as its last index into the 14 tags.\<close>

theorem needed_library_overruns_tags:
  assumes "nodynamic (conf (lk d)) = 0" "DynamicEntryTag d = default_tags"
    and "dynamic_entry_num (conf (lk d)) = 13" "0 < n" "n \<le> 0x1000" "dsize (D d DT_DYNAMIC_INDEX) = of_nat n"
  shows "set_dynanmic d = None"
proof (rule ccontr)
  assume "set_dynanmic d \<noteq> None"
  moreover have n: "unat (dsize (D d DT_DYNAMIC_INDEX)) = n"
    using assms by (simp add: unat_of_nat take_bit_nat_eq_self)
  ultimately obtain a d1 d2 r x where 1: "needed_entries n (data_p (D d DT_DYNAMIC_INDEX)) 1 d = Some (a, d1)"
    and 2: "store (size_p (D d1 0)) (put32 (size_p (D d1 0)) (dynamic_entry_num (conf (lk d1)) * 16)) d1 = Some d2"
    and 3: "tag_entries [1..<Suc (nat (sint (dynamic_entry_num (conf (lk d1)))))] a r d2 = Some x"
    using assms(1) by (auto simp: set_dynanmic_def Option.bind_eq_Some_conv Let_def simp del: upt_Suc split: if_splits)
  have tags: "DynamicEntryTag d2 = default_tags" "dynamic_entry_num (conf (lk d1)) = of_nat (13 + n)"
    using needed_entries_Some [OF 1] store_SomeD [OF 2] assms(2,3) by simp_all
  have "nat (sint (of_nat (13 + n) :: u32)) = 13 + n"
    using assms(5) by (simp add: signed_of_nat signed_take_bit_int_eq_self del: of_nat_add)
  then have "tag_entries [1..<Suc (nat (sint (dynamic_entry_num (conf (lk d1)))))] a r d2 = None"
    using assms(4) unfolding tags(2)
    by (intro tag_entries_out_of_range [of 14]) (simp_all add: tags(1) default_tags_def del: of_nat_add upt_Suc)
  then show False using 3 by simp
qed

subsection \<open>Concrete states\<close>

definition zero_params :: DynamicParams where
  "zero_params = \<lparr>sc_p = None, size_p = 0, data_p = 0, dsize = 0, alloc_size = 0, remain_size = 0, dname = None\<rparr>"

definition dyn0 :: dyn where
  "dyn0 = \<lparr>lk = upd_conf (\<lambda>c. c\<lparr>dynamic_entry_num := 13, DynamicImportHashTable := zero_sht\<lparr>sht_nbucket := 10\<rparr>\<rparr>) zero_lst,
     D = (\<lambda>i. zero_params\<lparr>size_p := 0x100 + 4 * (i mod 16), data_p := 0x1000 * (i + 1), alloc_size := 0x3000\<rparr>)
           (DT_HASH_INDEX := zero_params),
     PLT_GOT_P = Some 0, DynamicEntryTag = default_tags\<rparr>"

lemmas dyn0_defs = dyn0_def zero_params_def zero_defs upd_conf_def

lemma dynamic_section_layout_witness:
  "\<exists>d'. set_dynanmic dyn0 = Some d' \<and> out_size (conf (lk d')) = 13 * 16 + 24 \<and>
     rd_dyn (0x1000 + 16 * 8) (lmem (lk d')) = \<lparr>d_tag = scast DT_SYMTAB, d_val = 13 * 16\<rparr>"
proof -
  have "ready dyn0 0" "dsize (D dyn0 DT_DYNAMIC_INDEX) = 0"
    by (simp_all add: ready_def clear_def dyn0_defs index_defs written_def)
  from dynamic_section_layout [OF this] show ?thesis
    by (auto simp: plt_end_def dyn0_defs index_defs Let_def)
qed

lemma needed_library_overruns_tags_witness:
  "set_dynanmic (upd_D DT_DYNAMIC_INDEX (\<lambda>p. p\<lparr>dsize := 1\<rparr>) dyn0) = None"
  by (rule needed_library_overruns_tags [of _ 1]) (simp_all add: dyn0_defs)

lemma add_dynamic_with_dt_hash_fails_witness:
  "add_dynamic (upd_lk (upd_conf (\<lambda>c. c\<lparr>use_dt_hash := 1\<rparr>)) dyn0) = None"
  by (rule add_dynamic_with_dt_hash_fails) (simp_all add: dyn0_defs)

text \<open>While an area has room, adding to it succeeds and touches only its own
  parameters.\<close>

lemma add_pltgot_entry_ok:
  assumes "PLT_GOT_P d = Some k" "data_p (D d PLT_GOT_INDEX) \<noteq> 0"
    "(dsize (D d PLT_GOT_INDEX) + 1) * 0x10 \<noteq> alloc_size (D d PLT_GOT_INDEX)"
  shows "\<exists>d'. add_pltgot_entry d = Some (scon_vaddr (scons (lk d) k) + dsize (D d PLT_GOT_INDEX) * 0x10, d') \<and>
    keeps d d' \<and> (\<forall>j. j \<noteq> PLT_GOT_INDEX \<longrightarrow> D d' j = D d j)"
  using assms by (simp add: add_pltgot_entry_def Let_def store_def keeps_def)

lemma add_dynstr_entry_ok:
  assumes "data_p (D d DYNSTR_INDEX) \<noteq> 0"
    "unat (dsize (D d DYNSTR_INDEX)) + z_strlen nm \<le> unat (alloc_size (D d DYNSTR_INDEX))"
  shows "\<exists>d'. add_dynstr_entry nm d = Some (dsize (D d DYNSTR_INDEX), d') \<and>
    keeps d d' \<and> (\<forall>j. j \<noteq> DYNSTR_INDEX \<longrightarrow> D d' j = D d j)"
  using assms by (simp add: add_dynstr_entry_def Let_def store_def keeps_def)

lemma add_dynsym_entry_ok:
  assumes "data_p (D d DYNSYM_INDEX) \<noteq> 0"
    "unat (dsize (D d DYNSYM_INDEX) + 1) * 24 \<noteq> unat (alloc_size (D d DYNSYM_INDEX))"
  shows "\<exists>d'. add_dynsym_entry a b c d = Some d' \<and>
    keeps d d' \<and> (\<forall>j. j \<noteq> DYNSYM_INDEX \<longrightarrow> D d' j = D d j)"
  using assms by (simp add: add_dynsym_entry_def Let_def store_def keeps_def)

lemma put_rela_ok:
  assumes "data_p (D d RELA_PLT_INDEX) \<noteq> 0"
    "dsize (D d RELA_PLT_INDEX) + 24 \<noteq> alloc_size (D d RELA_PLT_INDEX)"
  shows "\<exists>d'. put_rela a b c d = Some (data_p (D d RELA_PLT_INDEX), d') \<and>
    keeps d d' \<and> (\<forall>j. j \<noteq> RELA_PLT_INDEX \<longrightarrow> D d' j = D d j)"
  using assms by (simp add: put_rela_def Let_def store_def keeps_def)

definition has_room :: "dyn \<Rightarrow> cstr \<Rightarrow> bool" where
  "has_room d nm \<longleftrightarrow> PLT_GOT_P d \<noteq> None \<and>
     (\<forall>i \<in> {PLT_GOT_INDEX, DYNSTR_INDEX, DYNSYM_INDEX, RELA_PLT_INDEX}. data_p (D d i) \<noteq> 0) \<and>
     (dsize (D d PLT_GOT_INDEX) + 1) * 0x10 \<noteq> alloc_size (D d PLT_GOT_INDEX) \<and>
     unat (dsize (D d DYNSTR_INDEX)) + z_strlen nm \<le> unat (alloc_size (D d DYNSTR_INDEX)) \<and>
     unat (dsize (D d DYNSYM_INDEX) + 1) * 24 \<noteq> unat (alloc_size (D d DYNSYM_INDEX)) \<and>
     dsize (D d RELA_PLT_INDEX) + 24 \<noteq> alloc_size (D d RELA_PLT_INDEX)"

lemma add_dynamic_entry_ok:
  assumes inv: "import_inv (lk d)" and nm: "nul_free nm" and new: "import_look (lk d) nm = None"
    and room: "has_room d nm" and k: "PLT_GOT_P d = Some k"
  shows "\<exists>d'. add_dynamic_entry nm ty True d = Some (scon_vaddr (scons (lk d) k) + dsize (D d PLT_GOT_INDEX) * 0x10, d')"
proof -
  have ix: "PLT_GOT_INDEX \<noteq> DYNSTR_INDEX" "PLT_GOT_INDEX \<noteq> DYNSYM_INDEX" "PLT_GOT_INDEX \<noteq> RELA_PLT_INDEX"
    "DYNSTR_INDEX \<noteq> DYNSYM_INDEX" "DYNSTR_INDEX \<noteq> RELA_PLT_INDEX" "DYNSYM_INDEX \<noteq> RELA_PLT_INDEX"
    by (simp_all add: index_defs)
  let ?r = "scon_vaddr (scons (lk d) k) + dsize (D d PLT_GOT_INDEX) * 0x10"
  have look: "lookup_symbol nm 1 (lk d) = Some 0" using lookup_symbol_import [OF inv, of nm] new by simp
  obtain d1 where 1: "add_pltgot_entry d = Some (?r, d1)" "keeps d d1" "\<forall>j. j \<noteq> PLT_GOT_INDEX \<longrightarrow> D d1 j = D d j"
    using add_pltgot_entry_ok [OF k] room by (auto simp: has_room_def)
  obtain off d2 where 2: "add_dynstr_entry nm d1 = Some (off, d2)" "keeps d1 d2" "\<forall>j. j \<noteq> DYNSTR_INDEX \<longrightarrow> D d2 j = D d1 j"
    using add_dynstr_entry_ok [of d1 nm] room 1(3) ix by (auto simp: has_room_def)
  obtain d3 where 3: "add_dynsym_entry off 0 0 d2 = Some d3" "keeps d2 d3" "\<forall>j. j \<noteq> DYNSYM_INDEX \<longrightarrow> D d3 j = D d2 j"
    using add_dynsym_entry_ok [of d2 off 0 0] room 1(3) 2(3) ix by (auto simp: has_room_def)
  obtain a d4 where 4: "add_rela_plt_entry (ucast (?r + 8)) (dsize (D d3 DYNSYM_INDEX) - 1) ty 0 d3 = Some (a, d4)" "keeps d3 d4"
    unfolding add_rela_plt_entry_def
    using put_rela_ok [of d3] room 1(3) 2(3) 3(3) ix by (fastforce simp: has_room_def)
  have "keeps d d4" using 1 2 3 4 by (blast intro: keeps_trans)
  then obtain s where "alloc_dynamic_symbol_chain (unat ?r) nm None (lk d4) = Some s"
    using import_insert [of "lk d4" nm "unat ?r" None] keeps_import(1) inv nm by blast
  then show ?thesis
    using look 1(1) 2(1) 3(1) 4(1) by (simp add: add_dynamic_entry_def lift_lk_def)
qed

definition dyn1 :: dyn where
  "dyn1 = upd_lk (\<lambda>s. s\<lparr>scons := (\<lambda>_. zero_scon\<lparr>scon_vaddr := 0x1000\<rparr>)\<rparr>) dyn0"

lemma import_entry_reused_witness:
  "\<exists>d'. add_dynamic_entry [0x66] R_X86_64_JUMP_SLOT True dyn1 = Some (0x1000, d') \<and>
    add_dynamic_entry [0x66] R_X86_64_JUMP_SLOT True d' = Some (0x1000, d')"
proof -
  have inv: "import_inv (lk dyn1)" and look: "import_look (lk dyn1) [0x66] = None"
    using import_inv_empty [of "lk dyn1"] by (simp_all add: dyn1_def dyn0_defs)
  have "has_room dyn1 [0x66]" by (simp add: has_room_def dyn1_def dyn0_defs index_defs)
  moreover have "PLT_GOT_P dyn1 = Some 0" "scon_vaddr (scons (lk dyn1) 0) + dsize (D dyn1 PLT_GOT_INDEX) * 0x10 = 0x1000"
    by (simp_all add: dyn1_def dyn0_defs)
  ultimately obtain d' where e: "add_dynamic_entry [0x66] R_X86_64_JUMP_SLOT True dyn1 = Some (0x1000, d')"
    using add_dynamic_entry_ok [OF inv _ look, of 0 R_X86_64_JUMP_SLOT] by auto
  have "add_dynamic_entry [0x66] R_X86_64_JUMP_SLOT True d' = Some (0x1000, d')"
    by (rule import_entry_reused [OF inv _ _ e]) (simp_all add: look)
  with e show ?thesis by blast
qed

end
