(* ===== verification/Reloc.thy ===== *)
theory Reloc
  imports Dynamic
begin

text \<open>
  \<open>core/link/elf/reloc.c\<close>: the virtual addresses of sections and the relocation of
  the objects.  A relocation that ends in \<open>exit(1)\<close>, in an endless loop or in a
  null pointer is \<open>None\<close>.  The counters of resolved symbols, which are only printed,
  and the function \<open>resolve\<close>, which nothing calls, are left out.
\<close>

definition RELOC_SEC_RELA_TEXT :: nat where "RELOC_SEC_RELA_TEXT = 0"
definition RELOC_SEC_RELA_DATA :: nat where "RELOC_SEC_RELA_DATA = 1"
definition RELOC_SEC_INIT_ARRAY :: nat where "RELOC_SEC_INIT_ARRAY = 2"
definition RELOC_SEC_FINI_ARRAY :: nat where "RELOC_SEC_FINI_ARRAY = 3"

lemmas RELOC_SEC_defs = RELOC_SEC_RELA_TEXT_def RELOC_SEC_RELA_DATA_def RELOC_SEC_INIT_ARRAY_def RELOC_SEC_FINI_ARRAY_def

definition reloc_sec_type :: "cstr \<Rightarrow> nat option" where
  "reloc_sec_type nm =
     (if z_strcmp nm (ascii ''.rela.text'') = 0 then Some RELOC_SEC_RELA_TEXT
      else if z_strcmp nm (ascii ''.rela.data'') = 0 then Some RELOC_SEC_RELA_DATA
      else if z_strcmp nm (ascii ''.rela.init_array'') = 0 then Some RELOC_SEC_INIT_ARRAY
      else if z_strcmp nm (ascii ''.rela.fini_array'') = 0 then Some RELOC_SEC_FINI_ARRAY
      else None)"

definition alloc_reloc_chain :: "cstr \<Rightarrow> nat \<Rightarrow> lst \<Rightarrow> nat option \<times> lst" where
  "alloc_reloc_chain nm offset s =
     (case reloc_sec_type nm of
        None \<Rightarrow> (None, s)
      | Some t \<Rightarrow> (Some (n_rels s), s\<lparr>rels := (rels s)(n_rels s := \<lparr>rel_next = None, rel_p = offset, rel_sec = t\<rparr>),
                                    n_rels := Suc (n_rels s)\<rparr>))"

subsection \<open>Virtual addresses\<close>

definition count_program_header :: "lst \<Rightarrow> lst" where
  "count_program_header = upd_conf (\<lambda>c. c\<lparr>virtual_address_offset :=
     virtual_address_offset c + (program_header_num c * 56 + 64)\<rparr>)"

definition place_section :: "nat \<Rightarrow> nat \<Rightarrow> lst \<Rightarrow> lst option" where
  "place_section sc schain s =
     (let shdr = sch_p (schs s schain);
          va = virtual_address_offset (conf s) + scon_size (scons s sc) in
      if shdr = 0 then None
      else let s = upd_sch schain (\<lambda>c. c\<lparr>sch_vaddr := va\<rparr>) s;
               s = upd_mem (put64 (shdr + 0x10) (ucast va)) s
           in Some (upd_scon sc (\<lambda>c. c\<lparr>scon_size := ucast (ucast (scon_size c) + get64 (shdr + 0x20) (lmem s))\<rparr>) s))"

definition elf_set_virtual_address :: "nat \<Rightarrow> lst \<Rightarrow> lst option" where
  "elf_set_virtual_address sc s =
     (if scon_init (scons s sc) = None then Some s
      else do {
        let s = (if scon_vaddr (scons s sc) = 0
                 then upd_scon sc (\<lambda>c. c\<lparr>scon_vaddr := virtual_address_offset (conf s)\<rparr>) s else s);
        s \<leftarrow> iter this_sch (place_section sc) (scon_init (scons s sc)) s;
        Some (upd_conf (\<lambda>c. c\<lparr>virtual_address_offset :=
          virtual_address_offset c + (output_vaddr_alignment c + scon_size (scons s sc))\<rparr>) s)
      })"

subsection \<open>Filling in an address\<close>

definition fill_address :: "nat \<Rightarrow> u8 \<Rightarrow> u32 \<Rightarrow> u32 \<Rightarrow> dyn \<Rightarrow> dyn option" where
  "fill_address addr type src dst d =
     (if addr = 0 \<or> get32 addr (lmem (lk d)) \<noteq> 0 \<or> dst - src = 0 then None
      else if type = ucast R_X86_64_64 then
        Option.bind (add_rela_plt_entry (ucast src) 0 R_X86_64_RELATIVE (ucast dst) d) (\<lambda>r. Some (snd r))
      else if type \<in> {ucast R_X86_64_REX_GOTPCRELX, ucast R_X86_64_PC32, ucast R_X86_64_PLT32, ucast R_X86_64_32S} then
        Some (upd_lk (upd_mem (put32 addr (dst - src))) d)
      else None)"

text \<open>The case \<open>R_X86_64_32\<close> is not in the list: its test
  \<open>if (Confp->outfile_type = ET_DYN)\<close> is an assignment, so it always exits.\<close>

datatype resolve_type = RESOLVE_TYPE_DYNAMIC_FUNC | RESOLVE_TYPE_INTERNAL_FUNC | RESOLVE_TYPE_INTERNAL_SECTION

text \<open>The first part of \<open>resolve_new\<close>: the kind of the symbol and its address, or
  the state in which the function has already returned.\<close>

definition resolve_target :: "ObjectChain \<Rightarrow> Elf64_Sym \<Rightarrow> nat \<Rightarrow> dyn \<Rightarrow> (dyn + resolve_type \<times> u32) option" where
  "resolve_target oc sy reloc_section d =
     (let ty = ELF64_ST_TYPE (st_info sy) in
      if ty = STT_NOTYPE \<or> ty = STT_OBJECT \<or> ty = STT_FUNC then do {
        nm \<leftarrow> str_at (lmem (lk d)) (str_table_p oc + unat (st_name sy));
        i \<leftarrow> find_sym2 nm (lk d);
        let dst = (ucast (st_value (rd_sym (dynsym_head (conf (lk d)) + 24 * unat i) (lmem (lk d)))) :: u32);
        if dst = 0 then Some (Inr (RESOLVE_TYPE_DYNAMIC_FUNC, dst))
        else if reloc_section = RELOC_SEC_INIT_ARRAY then
          Option.bind (add_init_array (ucast dst) d) (\<lambda>d. Some (Inl d))
        else if reloc_section = RELOC_SEC_FINI_ARRAY then
          Option.bind (add_fini_array (ucast dst) d) (\<lambda>d. Some (Inl d))
        else Some (Inr (RESOLVE_TYPE_INTERNAL_FUNC, dst))
      }
      else if ty = STT_SECTION then
        Some (Inr (RESOLVE_TYPE_INTERNAL_SECTION,
          ucast (sh_addr (rd_shdr (section_head oc + 64 * unat (st_shndx sy)) (lmem (lk d))))))
      else Some (Inl d))"

definition resolve_new :: "ObjectChain \<Rightarrow> Elf64_Rela \<Rightarrow> Elf64_Shdr \<Rightarrow> nat \<Rightarrow> dyn \<Rightarrow> dyn option" where
  "resolve_new oc rela sub_shdr reloc_section d = do {
     let addr = unat (sh_offset sub_shdr + r_offset rela);
     let sy = rd_sym (symbol_table_p oc + 24 * unat (ELF64_R_SYM (r_info rela))) (lmem (lk d));
     let rel_type = (ucast (ELF64_R_TYPE (r_info rela)) :: u32);
     let src = (ucast (sh_addr sub_shdr + r_offset rela) :: u32);
     let addend = 0 - r_addend rela;
     let src' = (ucast (ucast src + addend) :: u32);
     t \<leftarrow> resolve_target oc sy reloc_section d;
     case t of
       Inl d \<Rightarrow> Some d
     | Inr (rt, dst) \<Rightarrow> do {
         nm \<leftarrow> str_at (lmem (lk d)) (str_table_p oc + unat (st_name sy));
         if rel_type = R_X86_64_64 then
           if rt = RESOLVE_TYPE_DYNAMIC_FUNC then
             Option.bind (add_dynamic_entry2 (ucast src) nm d) (\<lambda>r. Some (snd r))
           else Option.bind (add_rela_plt_entry (ucast src) 0 R_X86_64_RELATIVE (ucast dst) d) (\<lambda>r. Some (snd r))
         else if rel_type \<in> {R_X86_64_PC32, R_X86_64_PLT32, R_X86_64_32S} then do {
           (dst, d) \<leftarrow> (if rt = RESOLVE_TYPE_DYNAMIC_FUNC then add_dynamic_entry nm R_X86_64_JUMP_SLOT True d
                       else Some (dst, d));
           fill_address addr (ucast rel_type) src' dst d
         }
         else if rel_type = R_X86_64_REX_GOTPCRELX then
           if rt = RESOLVE_TYPE_INTERNAL_SECTION then None
           else do {
             (dst, d) \<leftarrow> add_dynamic_entry nm R_X86_64_GLOB_DAT False d;
             fill_address addr (ucast rel_type) src' (dst + 8) d
           }
         else None
       }
   }"

text \<open>\<open>__z__link__elf_do_reloc\<close>: for every relocation section of the object, the entries
  from its offset up to its size.\<close>

fun reloc_entries :: "nat \<Rightarrow> nat \<Rightarrow> ObjectChain \<Rightarrow> nat \<Rightarrow> nat \<Rightarrow> dyn \<Rightarrow> dyn option" where
  "reloc_entries 0 a oc sub sec d = Some d"
| "reloc_entries (Suc n) a oc sub sec d =
     Option.bind (resolve_new oc (rd_rela a (lmem (lk d))) (rd_shdr sub (lmem (lk d))) sec d)
       (reloc_entries n (a + 24) oc sub sec)"

definition reloc_section :: "nat \<Rightarrow> nat \<Rightarrow> dyn \<Rightarrow> dyn option" where
  "reloc_section k r d =
     (let rel = rels (lk d) r; oc = objs (lk d) k;
          sh = rd_shdr (rel_p rel) (lmem (lk d))
      in if rel_p rel = 0 then None
         else reloc_entries ((unat (sh_size sh) + 23) div 24) (unat (sh_offset sh)) oc
           (section_head oc + 64 * unat (sh_info sh)) (rel_sec rel) d)"

definition elf_do_reloc :: "nat \<Rightarrow> dyn \<Rightarrow> dyn option" where
  "elf_do_reloc k d = iter (\<lambda>d r. rel_next (rels (lk d) r)) (reloc_section k)
     (reloc_section_head (objs (lk d) k)) d"

subsection \<open>Sections are placed one after the other\<close>

definition hdr_size :: "lst \<Rightarrow> nat \<Rightarrow> u32" where
  "hdr_size s x = ucast (get64 (sch_p (schs s x) + 0x20) (lmem s))"

text \<open>The headers of the sections \<open>xs\<close> are set and do not overlap.\<close>

definition headers_apart :: "lst \<Rightarrow> nat list \<Rightarrow> bool" where
  "headers_apart s xs \<longleftrightarrow> (\<forall>x \<in> set xs. sch_p (schs s x) \<noteq> 0) \<and>
     (\<forall>x \<in> set xs. \<forall>y \<in> set xs. x \<noteq> y \<longrightarrow>
        sch_p (schs s x) + 64 \<le> sch_p (schs s y) \<or> sch_p (schs s y) + 64 \<le> sch_p (schs s x))"

lemma place_section_fields:
  assumes "sch_p (schs s x) \<noteq> 0"
  defines "va k \<equiv> virtual_address_offset (conf s) + scon_size (scons s k)"
  shows "\<exists>s'. place_section k x s = Some s' \<and> conf s' = conf s \<and> this_sch s' = this_sch s \<and>
    (\<forall>y. sch_p (schs s' y) = sch_p (schs s y) \<and> (y \<noteq> x \<longrightarrow> sch_vaddr (schs s' y) = sch_vaddr (schs s y))) \<and>
    sch_vaddr (schs s' x) = va k \<and> lmem s' = put64 (sch_p (schs s x) + 0x10) (ucast (va k)) (lmem s) \<and>
    scon_size (scons s' k) = scon_size (scons s k) + hdr_size s x \<and> scon_vaddr (scons s' k) = scon_vaddr (scons s k)"
  using assms
  by (simp add: place_section_def upd_defs Let_def this_sch_def fun_eq_iff hdr_size_def mem_simps ucast_add_64_32)

lemma place_sections:
  assumes "path (this_sch s) c xs" "headers_apart s xs"
  shows "\<exists>s'. iter_from this_sch (place_section k) c s = Some s' \<and> conf s' = conf s \<and>
    scon_size (scons s' k) = scon_size (scons s k) + sum_list (map (hdr_size s) xs) \<and>
    scon_vaddr (scons s' k) = scon_vaddr (scons s k) \<and>
    (\<forall>y. sch_p (schs s' y) = sch_p (schs s y)) \<and>
    (\<forall>y. y \<notin> set xs \<longrightarrow> sch_vaddr (schs s' y) = sch_vaddr (schs s y)) \<and>
    (\<forall>a. (\<forall>x \<in> set xs. a + 8 \<le> sch_p (schs s x) + 0x10 \<or> sch_p (schs s x) + 0x18 \<le> a) \<longrightarrow>
       get64 a (lmem s') = get64 a (lmem s)) \<and>
    (\<forall>j < length xs. sch_vaddr (schs s' (xs ! j)) =
       virtual_address_offset (conf s) + scon_size (scons s k) + sum_list (map (hdr_size s) (take j xs)) \<and>
       get64 (sch_p (schs s (xs ! j)) + 0x10) (lmem s') = ucast (sch_vaddr (schs s' (xs ! j))))"
  using assms
proof (induction xs arbitrary: c s)
  case (Cons x xs)
  have c: "c = x" and x: "x \<notin> set xs" using Cons.prems(1) path_distinct [OF Cons.prems(1)] by (auto simp: path_Cons)
  have px: "sch_p (schs s x) \<noteq> 0" using Cons.prems(2) by (simp add: headers_apart_def)
  from place_section_fields [OF px]
  obtain s1 where s1: "place_section k x s = Some s1" "conf s1 = conf s" "this_sch s1 = this_sch s"
    "\<And>y. sch_p (schs s1 y) = sch_p (schs s y)" "\<And>y. y \<noteq> x \<Longrightarrow> sch_vaddr (schs s1 y) = sch_vaddr (schs s y)"
    "sch_vaddr (schs s1 x) = virtual_address_offset (conf s) + scon_size (scons s k)"
    "lmem s1 = put64 (sch_p (schs s x) + 0x10) (ucast (virtual_address_offset (conf s) + scon_size (scons s k))) (lmem s)"
    "scon_size (scons s1 k) = scon_size (scons s k) + hdr_size s x" "scon_vaddr (scons s1 k) = scon_vaddr (scons s k)"
    by blast
  have apart: "sch_p (schs s x) + 64 \<le> sch_p (schs s y) \<or> sch_p (schs s y) + 64 \<le> sch_p (schs s x)" if "y \<in> set xs" for y
    using Cons.prems(2) that x by (auto simp: headers_apart_def)
  have h1: "hdr_size s1 y = hdr_size s y" if "y \<in> set xs" for y
    using apart [OF that] by (auto simp: hdr_size_def s1(4,7) get_put_other)
  have sz: "sum_list (map (hdr_size s1) ys) = sum_list (map (hdr_size s) ys)" if "set ys \<subseteq> set xs" for ys
    using h1 that by (intro arg_cong [where f = sum_list] map_cong) auto
  show ?case
  proof (cases "this_sch s x")
    case None
    then have "xs = []" using Cons.prems(1) by (simp add: path_Cons)
    then show ?thesis
      using None s1 c by (subst iter_from.simps) (auto simp: get_put_other get_put_same)
  next
    case (Some q)
    then have "path (this_sch s1) q xs" using Cons.prems(1) s1(3) by (simp add: path_Cons)
    moreover have "headers_apart s1 xs" using Cons.prems(2) by (simp add: headers_apart_def s1(4))
    ultimately obtain s' where s': "iter_from this_sch (place_section k) q s1 = Some s'" "conf s' = conf s1"
      "scon_size (scons s' k) = scon_size (scons s1 k) + sum_list (map (hdr_size s1) xs)"
      "scon_vaddr (scons s' k) = scon_vaddr (scons s1 k)" "\<And>y. sch_p (schs s' y) = sch_p (schs s1 y)"
      "\<And>y. y \<notin> set xs \<Longrightarrow> sch_vaddr (schs s' y) = sch_vaddr (schs s1 y)"
      "\<And>a. (\<And>x. x \<in> set xs \<Longrightarrow> a + 8 \<le> sch_p (schs s1 x) + 0x10 \<or> sch_p (schs s1 x) + 0x18 \<le> a) \<Longrightarrow>
         get64 a (lmem s') = get64 a (lmem s1)"
      "\<And>j. j < length xs \<Longrightarrow> sch_vaddr (schs s' (xs ! j)) =
         virtual_address_offset (conf s1) + scon_size (scons s1 k) + sum_list (map (hdr_size s1) (take j xs)) \<and>
         get64 (sch_p (schs s1 (xs ! j)) + 0x10) (lmem s') = ucast (sch_vaddr (schs s' (xs ! j)))"
      using Cons.IH [of s1 q] by blast
    have run: "iter_from this_sch (place_section k) c s = Some s'"
      using s1(1,3) s'(1) c Some by (subst iter_from.simps) simp
    have mx: "get64 (sch_p (schs s x) + 0x10) (lmem s') = get64 (sch_p (schs s x) + 0x10) (lmem s1)"
      by (rule s'(7)) (use apart s1(4) in fastforce)
    have nth: "sch_vaddr (schs s' ((x # xs) ! j)) =
         virtual_address_offset (conf s) + scon_size (scons s k) + sum_list (map (hdr_size s) (take j (x # xs))) \<and>
         get64 (sch_p (schs s ((x # xs) ! j)) + 0x10) (lmem s') = ucast (sch_vaddr (schs s' ((x # xs) ! j)))"
      if "j < length (x # xs)" for j
    proof (cases j)
      case 0
      then show ?thesis using mx s1 s'(6) x by (simp add: get_put_same)
    next
      case (Suc i)
      then show ?thesis
        using s'(8) [of i] that sz [of "take i xs"] s1 by (simp add: set_take_subset add.assoc)
    qed
    have mem: "get64 a (lmem s') = get64 a (lmem s)"
      if "\<forall>y \<in> set (x # xs). a + 8 \<le> sch_p (schs s y) + 0x10 \<or> sch_p (schs s y) + 0x18 \<le> a" for a
      using that s'(7) [of a] s1(4,7) by (auto simp: get_put_other)
    show ?thesis
      using run s' s1 nth mem sz [of xs] x by (intro exI [of _ s'] conjI allI impI) (auto simp: add.assoc)
  qed
qed auto

text \<open>C18: \<open>elf_set_virtual_address\<close> places the sections of a container without gap
  or overlap: each gets the address where the one before ends, starting at
  \<open>virtual_address_offset\<close> plus the container's size so far; the address is also
  written to the header, the container records the total size, and
  \<open>virtual_address_offset\<close> moves behind it.\<close>

theorem sections_placed_consecutively:
  assumes xs: "opath (this_sch s) (scon_init (scons s k)) xs" "xs \<noteq> []" and apart: "headers_apart s xs"
  defines "start \<equiv> virtual_address_offset (conf s) + scon_size (scons s k)"
  shows "\<exists>s'. elf_set_virtual_address k s = Some s' \<and>
    (\<forall>j < length xs. sch_vaddr (schs s' (xs ! j)) = start + sum_list (map (hdr_size s) (take j xs)) \<and>
       sh_addr (rd_shdr (sch_p (schs s (xs ! j))) (lmem s')) = ucast (sch_vaddr (schs s' (xs ! j)))) \<and>
    scon_size (scons s' k) = scon_size (scons s k) + sum_list (map (hdr_size s) xs) \<and>
    scon_vaddr (scons s' k) = (if scon_vaddr (scons s k) = 0 then virtual_address_offset (conf s) else scon_vaddr (scons s k)) \<and>
    virtual_address_offset (conf s') = virtual_address_offset (conf s) + output_vaddr_alignment (conf s) + scon_size (scons s' k)"
proof -
  define s0 where "s0 = (if scon_vaddr (scons s k) = 0
      then upd_scon k (\<lambda>c. c\<lparr>scon_vaddr := virtual_address_offset (conf s)\<rparr>) s else s)"
  have s0: "conf s0 = conf s" "schs s0 = schs s" "lmem s0 = lmem s" "scon_size (scons s0 k) = scon_size (scons s k)"
    "scon_init (scons s0 k) = scon_init (scons s k)" "hdr_size s0 = hdr_size s"
    "scon_vaddr (scons s0 k) = (if scon_vaddr (scons s k) = 0 then virtual_address_offset (conf s) else scon_vaddr (scons s k))"
    by (simp_all add: s0_def upd_scon_def hdr_size_def fun_eq_iff)
  have t: "this_sch s0 = this_sch s" by (simp add: this_sch_def fun_eq_iff s0)
  obtain c where c: "scon_init (scons s k) = Some c" "path (this_sch s0) c xs"
    using xs t by (auto simp: opath_def split: option.splits)
  have "headers_apart s0 xs" using apart by (simp add: headers_apart_def s0)
  from place_sections [OF c(2) this, of k] show ?thesis
    using c(1) s0
    by (auto simp: elf_set_virtual_address_def s0_def [symmetric] iter_def upd_conf_def start_def rd_shdr_def algebra_simps)
qed

subsection \<open>The value of a relocation\<close>

text \<open>The address of a symbol.  For a section it is \<open>sh_addr\<close> of the header the symbol
  names by its number, in the section table of its object.  For a function, an object or a
  symbol without type it is the value the dynamic symbol table holds for its name, where
  the linker has entered the names \<open>ns\<close> it exports as the symbols 1, 2, ... and in the
  GNU hash table.\<close>

definition exported_at :: "dyn \<Rightarrow> cstr \<Rightarrow> u32 \<Rightarrow> bool" where
  "exported_at d nm S \<longleftrightarrow> (let cf = conf (lk d); m = lmem (lk d) in
     \<exists>ns i. gnu_table (gnu_hash_head cf) ns m \<and> length ns \<le> CHAIN_ROOM \<and> distinct ns \<and>
       (\<forall>k < length ns. nul_free (ns ! k) \<and> sym_name m (dynsym_head cf) (dynstr_head cf) (Suc k) = Some (ns ! k)) \<and>
       i < length ns \<and> ns ! i = nm \<and> S = ucast (st_value (rd_sym (dynsym_head cf + 24 * Suc i) m)))"

definition symbol_address :: "dyn \<Rightarrow> ObjectChain \<Rightarrow> Elf64_Sym \<Rightarrow> cstr \<Rightarrow> u32 \<Rightarrow> bool" where
  "symbol_address d oc sy nm S \<longleftrightarrow>
     (if ELF64_ST_TYPE (st_info sy) = STT_SECTION
      then S = ucast (sh_addr (rd_shdr (section_head oc + 64 * unat (st_shndx sy)) (lmem (lk d))))
      else ELF64_ST_TYPE (st_info sy) \<in> {STT_NOTYPE, STT_OBJECT, STT_FUNC} \<and> S \<noteq> 0 \<and> exported_at d nm S)"

lemma exported_find:
  assumes "exported_at d nm S"
  obtains i where "find_sym2 nm (lk d) = Some i"
    "ucast (st_value (rd_sym (dynsym_head (conf (lk d)) + 24 * unat i) (lmem (lk d)))) = S"
proof -
  let ?cf = "conf (lk d)" and ?m = "lmem (lk d)"
  obtain ns i where ns: "gnu_table (gnu_hash_head ?cf) ns ?m" "length ns \<le> CHAIN_ROOM" "distinct ns"
    "\<And>k. k < length ns \<Longrightarrow> nul_free (ns ! k) \<and> sym_name ?m (dynsym_head ?cf) (dynstr_head ?cf) (Suc k) = Some (ns ! k)"
    and i: "i < length ns" "ns ! i = nm" "S = ucast (st_value (rd_sym (dynsym_head ?cf + 24 * Suc i) ?m))"
    using assms unfolding exported_at_def Let_def by blast
  have nm: "nm \<in> set ns" "nul_free nm" using i(1,2) ns(4) nth_mem by blast+
  obtain j where j: "j < length ns" "ns ! j = nm" "find_sym2 nm (lk d) = Some (of_nat (Suc j))"
    using gnu_look_hit [OF ns(1,2) nm, of "sym_name ?m (dynsym_head ?cf) (dynstr_head ?cf)"] ns(4)
    by (auto simp: find_sym2_def)
  have "j = i" using j(1,2) i(1,2) ns(3) by (metis nth_eq_iff_index_eq)
  moreover have "unat (of_nat (Suc i) :: u32) = Suc i" using unat_Suc_room i(1) ns(2) by simp
  ultimately show ?thesis using that [OF j(3)] i(3) by simp
qed

lemma target_of_symbol:
  assumes "symbol_address d oc sy nm S" "str_at (lmem (lk d)) (str_table_p oc + unat (st_name sy)) = Some nm"
    "sec \<notin> {RELOC_SEC_INIT_ARRAY, RELOC_SEC_FINI_ARRAY}"
  shows "\<exists>rt. rt \<noteq> RESOLVE_TYPE_DYNAMIC_FUNC \<and> resolve_target oc sy sec d = Some (Inr (rt, S))"
proof (cases "ELF64_ST_TYPE (st_info sy) = STT_SECTION")
  case True
  then have "S = ucast (sh_addr (rd_shdr (section_head oc + 64 * unat (st_shndx sy)) (lmem (lk d))))"
    using assms(1) by (simp add: symbol_address_def)
  then show ?thesis
    using True by (simp add: resolve_target_def Let_def STT_SECTION_def STT_NOTYPE_def STT_OBJECT_def STT_FUNC_def)
next
  case False
  then have ty: "ELF64_ST_TYPE (st_info sy) \<in> {STT_NOTYPE, STT_OBJECT, STT_FUNC}" "S \<noteq> 0" "exported_at d nm S"
    using assms(1) by (simp_all add: symbol_address_def)
  obtain i where "find_sym2 nm (lk d) = Some i"
    "ucast (st_value (rd_sym (dynsym_head (conf (lk d)) + 24 * unat i) (lmem (lk d)))) = S"
    by (rule exported_find [OF ty(3)])
  then show ?thesis using ty(1,2) assms(2,3) by (auto simp: resolve_target_def Let_def)
qed

text \<open>What is stored for the three types the code treats alike.\<close>

lemma fill_difference:
  fixes sub :: Elf64_Shdr and rela :: Elf64_Rela
  assumes type: "(ucast (ELF64_R_TYPE (r_info rela)) :: u32) \<in> {R_X86_64_PC32, R_X86_64_PLT32, R_X86_64_32S}"
    and target: "resolve_target oc (rd_sym (symbol_table_p oc + 24 * unat (ELF64_R_SYM (r_info rela))) (lmem (lk d))) sec d
      = Some (Inr (rt, S))" and defined: "rt \<noteq> RESOLVE_TYPE_DYNAMIC_FUNC"
    and name: "str_at (lmem (lk d)) (str_table_p oc + unat (st_name (rd_sym (symbol_table_p oc +
      24 * unat (ELF64_R_SYM (r_info rela))) (lmem (lk d))))) = Some nm"
  defines "a \<equiv> unat (sh_offset sub + r_offset rela)"
    and "P \<equiv> ucast (sh_addr sub + r_offset rela)"
    and "A \<equiv> ucast (r_addend rela)"
  assumes place: "a \<noteq> 0" "get32 a (lmem (lk d)) = 0" and nonzero: "S + A - P \<noteq> 0"
  shows "resolve_new oc rela sub sec d = Some (upd_lk (upd_mem (put32 a (S + A - P))) d)"
proof -
  let ?ty = "ucast (ELF64_R_TYPE (r_info rela)) :: u32"
  have src: "(ucast (ucast P + (0 - r_addend rela)) :: u32) = P - A"
    unfolding ucast_add_64_32 ucast_minus_64_32 A_def by simp
  have val: "S - (P - A) = S + A - P" by simp
  have t8: "(ucast ?ty :: u8) \<noteq> ucast R_X86_64_64"
    "(ucast ?ty :: u8) \<in> {ucast R_X86_64_REX_GOTPCRELX, ucast R_X86_64_PC32, ucast R_X86_64_PLT32, ucast R_X86_64_32S}"
    "?ty \<noteq> R_X86_64_64"
    using type by (auto simp: R_X86_64_64_def R_X86_64_PC32_def R_X86_64_PLT32_def R_X86_64_32S_def)
  have "fill_address a (ucast ?ty) (P - A) S d = Some (upd_lk (upd_mem (put32 a (S + A - P))) d)"
    using place nonzero t8 by (simp add: fill_address_def val del: ucast_id)
  then show ?thesis
    using target name defined type t8(3) src
    by (simp add: resolve_new_def Let_def a_def [symmetric] P_def [symmetric])
qed

lemma fill_defined:
  fixes sub :: Elf64_Shdr and rela :: Elf64_Rela and oc :: ObjectChain and d :: dyn
  assumes type: "(ucast (ELF64_R_TYPE (r_info rela)) :: u32) \<in> {R_X86_64_PC32, R_X86_64_PLT32, R_X86_64_32S}"
    and sec: "sec \<notin> {RELOC_SEC_INIT_ARRAY, RELOC_SEC_FINI_ARRAY}"
  defines "sy \<equiv> rd_sym (symbol_table_p oc + 24 * unat (ELF64_R_SYM (r_info rela))) (lmem (lk d))"
    and "a \<equiv> unat (sh_offset sub + r_offset rela)"
    and "P \<equiv> ucast (sh_addr sub + r_offset rela)"
    and "A \<equiv> ucast (r_addend rela)"
  assumes name: "str_at (lmem (lk d)) (str_table_p oc + unat (st_name sy)) = Some nm"
    and address: "symbol_address d oc sy nm S"
    and place: "a \<noteq> 0" "get32 a (lmem (lk d)) = 0" and nonzero: "S + A - P \<noteq> 0"
  shows "resolve_new oc rela sub sec d = Some (upd_lk (upd_mem (put32 a (S + A - P))) d)"
proof -
  obtain rt where "rt \<noteq> RESOLVE_TYPE_DYNAMIC_FUNC" "resolve_target oc sy sec d = Some (Inr (rt, S))"
    using target_of_symbol [OF address name sec] by blast
  then show ?thesis
    using fill_difference [of rela oc d sec rt S nm sub] type name place nonzero
    unfolding sy_def a_def P_def A_def by blast
qed

text \<open>C19: a PC-relative relocation (\<open>R_X86_64_PC32\<close>, \<open>R_X86_64_PLT32\<close>) against a
  symbol that is defined in the output stores \<open>S + A - P\<close>, as the ABI
  demands: \<open>S\<close> the address of the section the symbol stands for, or the address under which
  the linker has exported its name, \<open>A\<close> the addend, \<open>P\<close> the
  address of the place; nothing else in memory changes.  The place must hold 0
  and the result must not be 0.\<close>

theorem pc_relative_relocation:
  fixes sub :: Elf64_Shdr and rela :: Elf64_Rela and oc :: ObjectChain and d :: dyn
  assumes type: "(ucast (ELF64_R_TYPE (r_info rela)) :: u32) \<in> {R_X86_64_PC32, R_X86_64_PLT32}"
    and sec: "sec \<notin> {RELOC_SEC_INIT_ARRAY, RELOC_SEC_FINI_ARRAY}"
  defines "sy \<equiv> rd_sym (symbol_table_p oc + 24 * unat (ELF64_R_SYM (r_info rela))) (lmem (lk d))"
    and "a \<equiv> unat (sh_offset sub + r_offset rela)"
    and "P \<equiv> ucast (sh_addr sub + r_offset rela)"
    and "A \<equiv> ucast (r_addend rela)"
  assumes name: "str_at (lmem (lk d)) (str_table_p oc + unat (st_name sy)) = Some nm"
    and address: "symbol_address d oc sy nm S"
    and place: "a \<noteq> 0" "get32 a (lmem (lk d)) = 0" and nonzero: "S + A - P \<noteq> 0"
  shows "resolve_new oc rela sub sec d = Some (upd_lk (upd_mem (put32 a (S + A - P))) d)"
  unfolding a_def P_def A_def
  by (rule fill_defined [OF _ sec name [unfolded sy_def] address [unfolded sy_def] place [unfolded a_def]
        nonzero [unfolded A_def P_def]]) (use type in auto)

text \<open>\<open>R_X86_64_32S\<close>, for which the ABI demands \<open>S + A\<close>, is filled in the same way.\<close>

lemma signed_32_is_pc_relative:
  fixes sub :: Elf64_Shdr and rela :: Elf64_Rela and oc :: ObjectChain and d :: dyn
  assumes type: "(ucast (ELF64_R_TYPE (r_info rela)) :: u32) = R_X86_64_32S"
    and sec: "sec \<notin> {RELOC_SEC_INIT_ARRAY, RELOC_SEC_FINI_ARRAY}"
  defines "sy \<equiv> rd_sym (symbol_table_p oc + 24 * unat (ELF64_R_SYM (r_info rela))) (lmem (lk d))"
    and "a \<equiv> unat (sh_offset sub + r_offset rela)"
    and "P \<equiv> ucast (sh_addr sub + r_offset rela)"
    and "A \<equiv> ucast (r_addend rela)"
  assumes name: "str_at (lmem (lk d)) (str_table_p oc + unat (st_name sy)) = Some nm"
    and address: "symbol_address d oc sy nm S"
    and place: "a \<noteq> 0" "get32 a (lmem (lk d)) = 0" and nonzero: "S + A - P \<noteq> 0"
  shows "resolve_new oc rela sub sec d = Some (upd_lk (upd_mem (put32 a (S + A - P))) d)"
  unfolding a_def P_def A_def
  by (rule fill_defined [OF _ sec name [unfolded sy_def] address [unfolded sy_def] place [unfolded a_def]
        nonzero [unfolded A_def P_def]]) (use type in auto)

text \<open>A symbol of type section at 0x3000, its section header at 0x2000 with address
  0x900, a place at 0x6010 whose address is 0x710.\<close>

definition reloc_dyn :: dyn where
  "reloc_dyn = upd_lk (upd_mem (\<lambda>_. put_bytes 0x3004 [STT_SECTION] (put64 0x2010 0x900 (\<lambda>_. 0)))) dyn0"

definition reloc_obj :: ObjectChain where
  "reloc_obj = zero_obj\<lparr>section_head := 0x2000, symbol_table_p := 0x3000, str_table_p := 0x4000\<rparr>"

definition reloc_sub :: Elf64_Shdr where
  "reloc_sub = \<lparr>sh_name = 0, sh_type = 0, sh_flags = 0, sh_addr = 0x700, sh_offset = 0x6000, sh_size = 0x40,
     sh_link = 0, sh_info = 0, sh_addralign = 0, sh_entsize = 0\<rparr>"

lemma pc_relative_relocation_witness:
  "resolve_new reloc_obj \<lparr>r_offset = 0x10, r_info = 2, r_addend = 4\<rparr> reloc_sub 0 reloc_dyn =
    Some (upd_lk (upd_mem (put32 0x6010 (0x900 + 4 - 0x710))) reloc_dyn)"
proof -
  have m: "lmem (lk reloc_dyn) = put_bytes 0x3004 [STT_SECTION] (put64 0x2010 0x900 (\<lambda>_. 0))"
    by (simp add: reloc_dyn_def del: put_bytes.simps)
  have z: "get16 a (\<lambda>_. 0) = 0" "get64 a (\<lambda>_. 0) = 0" for a
    by (simp_all add: get16_def get64_def get_bytes_def of_le16_def of_le64_def of_le32_def)
  have sy: "rd_sym 0x3000 (lmem (lk reloc_dyn)) =
      \<lparr>st_name = 0, st_info = STT_SECTION, st_other = 0, st_shndx = 0, st_value = 0, st_size = 0\<rparr>"
    unfolding m by (simp add: rd_sym_def mem_simps z del: put_bytes.simps)
  have t: "symbol_address reloc_dyn reloc_obj (rd_sym 0x3000 (lmem (lk reloc_dyn))) [] 0x900"
    unfolding sy
    by (simp add: symbol_address_def reloc_obj_def zero_obj_def ELF64_ST_TYPE_def STT_SECTION_def
        m rd_shdr_def mem_simps del: put_bytes.simps)
  have nm: "str_at (lmem (lk reloc_dyn)) 0x4000 = Some []"
    unfolding m by (subst str_at.simps) (simp add: put_bytes_apply put_apply_other)
  have p: "get32 0x6010 (lmem (lk reloc_dyn)) = 0"
    unfolding m by (simp add: mem_simps del: put_bytes.simps)
  show ?thesis
    using pc_relative_relocation [where oc = reloc_obj and rela = "\<lparr>r_offset = 0x10, r_info = 2, r_addend = 4\<rparr>"
        and sub = reloc_sub and d = reloc_dyn and sec = 0 and S = "0x900" and nm = "[]"] t nm
    by (simp add: reloc_obj_def zero_obj_def reloc_sub_def ELF64_R_TYPE_def ELF64_R_SYM_def R_X86_64_PC32_def sy p
        RELOC_SEC_defs)
qed

definition placed0 :: lst where
  "placed0 = two_sections\<lparr>lmem := put64 196 0x30 (put64 132 0x20 (\<lambda>_. 0)),
     conf := zero_conf\<lparr>virtual_address_offset := 0x1000\<rparr>\<rparr>"

lemma sections_placed_consecutively_witness:
  "\<exists>s'. elf_set_virtual_address 1 placed0 = Some s' \<and> sch_vaddr (schs s' 1) = 0x1020 \<and>
    virtual_address_offset (conf s') = 0x1050"
proof -
  have "hdr_size placed0 0 = 0x20" "hdr_size placed0 1 = 0x30"
    by (simp_all add: hdr_size_def placed0_def two_sections_def zero_defs mem_simps)
  moreover have "opath (this_sch placed0) (scon_init (scons placed0 1)) [0, 1]" "headers_apart placed0 [0, 1]"
    by (simp_all add: opath_def headers_apart_def this_sch_def placed0_def two_sections_def zero_defs)
  ultimately show ?thesis
    using sections_placed_consecutively [of placed0 1 "[0, 1]"]
    by (auto simp: less_Suc_eq placed0_def two_sections_def zero_defs)
qed

end
