(* ===== verification/ElfCallback.thy ===== *)
theory ElfCallback
  imports Reloc
begin

text \<open>
  The two callbacks of \<open>core/link/elf/callback.c\<close>, which the ELF reader calls for
  every section header and for every symbol of an input object: they build the
  object, section, relocation and symbol chains of the linker.  A file format
  other than 1 (ELF32) and 2 (ELF64) ends in an endless loop: \<open>None\<close>.
\<close>

subsection \<open>Section headers\<close>

text \<open>The first call of an object gets the null header and makes the object.\<close>

definition start_object :: "nat \<Rightarrow> nat \<Rightarrow> nat \<Rightarrow> lst \<Rightarrow> (nat \<times> lst) option" where
  "start_object p strtable shdr s = do {
     (oc, s) \<leftarrow> z_alloc_obj_chain 0 0 0 s;
     Some (oc, upd_obj oc (\<lambda>c. c\<lparr>section_head := shdr, sh_str_table_p := strtable, map_base := p\<rparr>) s)
   }"

definition set_symtab :: "nat \<Rightarrow> nat \<Rightarrow> nat \<Rightarrow> u32 \<Rightarrow> lst \<Rightarrow> lst" where
  "set_symtab oc p shdr sz s =
     (let m = lmem s; o1 = objs s oc in
      if file_format (conf s) = 1 then
        (let h = rd_shdr32 shdr m;
             l = rd_shdr32 (section_head o1 + 40 * unat (sh32_link h)) m
         in upd_obj oc (\<lambda>c. c\<lparr>symbol_num := sz div 16, symbol_table_p := unat (sh32_offset h) + map_base o1,
              str_table_p := p + unat (sh32_offset l)\<rparr>) s)
      else
        (let h = rd_shdr shdr m;
             l = rd_shdr (section_head o1 + 64 * unat (sh_link h)) m
         in upd_obj oc (\<lambda>c. c\<lparr>symbol_num := sz div 24, symbol_table_p := unat (sh_offset h),
              str_table_p := unat (of_nat p + sh_offset l)\<rparr>) s))"

definition add_reloc_section :: "nat \<Rightarrow> cstr \<Rightarrow> nat \<Rightarrow> lst \<Rightarrow> lst" where
  "add_reloc_section oc nm shdr s =
     (case alloc_reloc_chain nm shdr s of
        (None, s) \<Rightarrow> s
      | (Some r, s) \<Rightarrow>
          (let s = (case reloc_section_head (objs s oc) of
                Some rel \<Rightarrow> upd_rel rel (\<lambda>c. c\<lparr>rel_next := Some r\<rparr>) s
              | None \<Rightarrow> upd_obj oc (\<lambda>c. c\<lparr>reloc_section_head := Some r\<rparr>) s)
           in upd_obj oc (\<lambda>c. c\<lparr>reloc_section_tail := Some r\<rparr>) s))"

definition insert_section :: "cstr \<Rightarrow> nat \<Rightarrow> lst \<Rightarrow> lst option" where
  "insert_section nm shdr s = do {
     r \<leftarrow> match_section nm s;
     (sc, s) \<leftarrow> (case r of
         Some sc \<Rightarrow> Some (sc, s)
       | None \<Rightarrow> do {
           (sc, _, s) \<leftarrow> alloc_section_container 0 (Some nm) 0 None s;
           Some (sc, s)
         });
     (_, s) \<leftarrow> alloc_section_chain shdr 0 sc None s;
     Some s
   }"

definition count_gnu_property :: "cstr \<Rightarrow> lst \<Rightarrow> lst" where
  "count_gnu_property nm s =
     (if z_strcmp nm (ascii ''.note.gnu.property'') = 0 \<and> has_gnu_property (conf s) = 0 then
        upd_conf (\<lambda>c. c\<lparr>has_gnu_property := 1, program_header_num := program_header_num c + 1,
          program_header_tail := program_header_tail c + 56 + (if file_format c = 1 then 32 else 56)\<rparr>) s
      else s)"

definition on_section_callback :: "nat \<Rightarrow> nat \<Rightarrow> nat \<Rightarrow> nat option \<Rightarrow> lst \<Rightarrow> (nat option \<times> lst) option" where
  "on_section_callback p strtable shdr ret s =
     (case ret of
        None \<Rightarrow> Option.bind (start_object p strtable shdr s) (\<lambda>(oc, s). Some (Some oc, s))
      | Some oc \<Rightarrow>
          if file_format (conf s) \<noteq> 1 \<and> file_format (conf s) \<noteq> 2 then None
          else do {
            nm \<leftarrow> str_at (lmem s) (strtable + unat (get32 shdr (lmem s)));
            let ty = get32 (shdr + 4) (lmem s);
            let s = (if file_format (conf s) = 2
                     then upd_mem (\<lambda>m. put64 (shdr + 0x18) (get64 (shdr + 0x18) m + of_nat p) m) s else s);
            let sz = (if file_format (conf s) = 1 then sh32_size (rd_shdr32 shdr (lmem s))
                      else ucast (sh_size (rd_shdr shdr (lmem s))));
            s \<leftarrow> (if ty = SHT_PROGBITS then insert_section nm shdr s
                 else if ty = SHT_SYMTAB then insert_section nm shdr (set_symtab oc p shdr sz s)
                 else if ty = SHT_RELA then Some (add_reloc_section oc nm shdr s)
                 else if ty = SHT_NOBITS then do {
                   (a, s) \<leftarrow> new_area s;
                   insert_section nm shdr (upd_mem (\<lambda>m. if file_format (conf s) = 1
                     then put32 (shdr + 16) (of_nat a) m else put64 (shdr + 0x18) (of_nat a) m) s)
                 }
                 else if ty = SHT_NOTE then
                   (if has_gnu_property (conf s) \<noteq> 0 then Some s
                    else insert_section nm shdr (count_gnu_property nm s))
                 else Some s);
            Some (Some oc, s)
          })"

subsection \<open>Symbols\<close>

text \<open>The fields of a symbol, read in the format of the file.\<close>

record sym_view =
  v_info :: u8
  v_other :: u8
  v_name :: u32
  v_shndx :: u16

definition view_sym :: "u8 \<Rightarrow> nat \<Rightarrow> mem \<Rightarrow> sym_view" where
  "view_sym fmt a m =
     (if fmt = 1 then (let y = rd_sym32 a m in
        \<lparr>v_info = st32_info y, v_other = st32_other y, v_name = st32_name y, v_shndx = st32_shndx y\<rparr>)
      else (let y = rd_sym a m in
        \<lparr>v_info = st_info y, v_other = st_other y, v_name = st_name y, v_shndx = st_shndx y\<rparr>))"

text \<open>The test \<open>st_shndx & 0xff00 == 0xff\<close> is \<open>st_shndx & (0xff00 == 0xff)\<close>, which is
  0, and has no place here.\<close>

definition skipped :: "sym_view \<Rightarrow> bool" where
  "skipped v \<longleftrightarrow> ELF64_ST_VISIBILITY (v_other v) \<noteq> STV_DEFAULT \<or> v_shndx v = SHN_UNDEF \<or> v_shndx v = SHN_ABS \<or>
     v_shndx v = SHN_COMMON \<or> ELF64_ST_TYPE (v_info v) = STT_SECTION"

definition on_elf_symtab_callback :: "nat \<Rightarrow> nat \<Rightarrow> lst \<Rightarrow> lst option" where
  "on_elf_symtab_callback a oc s =
     (if file_format (conf s) \<noteq> 1 \<and> file_format (conf s) \<noteq> 2 then None
      else let v = view_sym (file_format (conf s)) a (lmem s); o1 = objs s oc in
      if skipped v then Some s
      else do {
        sym_name \<leftarrow> str_at (lmem s) (str_table_p o1 + unat (v_name v));
        s \<leftarrow> alloc_export_symbol_chain a sym_name (unat (v_shndx v)) s;
        let shdr = section_head o1 + 64 * unat (v_shndx v);
        sec_name \<leftarrow> str_at (lmem s) (sh_str_table_p o1 + unat (get32 shdr (lmem s)));
        index \<leftarrow> get_section_index_by_name sec_name shdr s;
        if file_format (conf s) = 1 then Some (upd_mem (put16 (a + 14) index) s)
        else if index = 0 then None
        else Some (upd_mem (put16 (a + 6) index) s)
      })"

subsection \<open>Relocation sections get lost\<close>

interpretation relchain: linked "\<lambda>s r. rel_next (rels s r)" "\<lambda>p q. upd_rel p (\<lambda>c. c\<lparr>rel_next := Some q\<rparr>)"
  by unfold_locales (simp add: upd_rel_def)

definition reloc_list :: "lst \<Rightarrow> nat \<Rightarrow> nat list \<Rightarrow> bool" where
  "reloc_list s oc rs \<longleftrightarrow> opath (\<lambda>r. rel_next (rels s r)) (reloc_section_head (objs s oc)) rs \<and>
     (\<forall>r \<in> set rs. r < n_rels s)"

text \<open>An object keeps at most two relocation sections: a new one is linked
  behind the head of the chain, not behind its tail, so the third cuts off the
  second and its relocations are never applied.\<close>

theorem third_reloc_section_cuts_second:
  assumes "reloc_list s oc (h # rs)" "reloc_sec_type nm = Some t"
  shows "reloc_list (add_reloc_section oc nm shdr s) oc [h, n_rels s]"
proof -
  define s1 where "s1 = s\<lparr>rels := (rels s)(n_rels s := \<lparr>rel_next = None, rel_p = shdr, rel_sec = t\<rparr>), n_rels := Suc (n_rels s)\<rparr>"
  have hd: "reloc_section_head (objs s oc) = Some h" and p: "path (\<lambda>r. rel_next (rels s r)) h (h # rs)"
    and lt: "\<And>r. r \<in> set (h # rs) \<Longrightarrow> r < n_rels s"
    using assms(1) by (auto simp: reloc_list_def opath_def path_Cons split: option.splits)
  have "path (\<lambda>r. rel_next (rels s1 r)) h ([] @ h # rs)"
    using path_cong [OF p, of "\<lambda>r. rel_next (rels s1 r)"] lt by (force simp: s1_def)
  from relchain.path_link_cut [OF this, of "n_rels s"]
  have "path (\<lambda>r. rel_next (rels (upd_rel h (\<lambda>c. c\<lparr>rel_next := Some (n_rels s)\<rparr>) s1) r)) h [h, n_rels s]"
    using lt [of h] by (simp add: s1_def)
  moreover have "add_reloc_section oc nm shdr s = upd_obj oc (\<lambda>c. c\<lparr>reloc_section_tail := Some (n_rels s)\<rparr>)
      (upd_rel h (\<lambda>c. c\<lparr>rel_next := Some (n_rels s)\<rparr>) s1)"
    using hd assms(2) by (simp add: add_reloc_section_def alloc_reloc_chain_def s1_def)
  ultimately show ?thesis
    using hd lt [of h] by (simp add: reloc_list_def opath_def upd_obj_def upd_rel_def s1_def)
qed

lemma third_reloc_section_cuts_second_witness:
  "\<exists>s1 s2. reloc_list s2 0 [0, 1] \<and> s2 = add_reloc_section 0 (ascii ''.rela.data'') 200 s1 \<and>
    reloc_list (add_reloc_section 0 (ascii ''.rela.data'') 300 s2) 0 [0, 2]"
proof -
  let ?nm = "ascii ''.rela.data''"
  have t: "reloc_sec_type ?nm = Some RELOC_SEC_RELA_DATA"
    by (simp add: reloc_sec_type_def ascii_def)
  let ?s1 = "add_reloc_section 0 ?nm 100 zero_lst"
  have s1: "reloc_list ?s1 0 [0]" "n_rels ?s1 = 1"
    using t by (simp_all add: add_reloc_section_def alloc_reloc_chain_def reloc_list_def opath_def upd_obj_def zero_defs)
  let ?s2 = "add_reloc_section 0 ?nm 200 ?s1"
  have s2: "reloc_list ?s2 0 [0, 1]"
    using third_reloc_section_cuts_second [OF s1(1) t, of 200] s1(2) by simp
  have "n_rels ?s2 = 2"
    using t s1(2) by (simp add: add_reloc_section_def [of _ _ 200] alloc_reloc_chain_def upd_obj_def upd_rel_def split: option.split)
  then show ?thesis
    using third_reloc_section_cuts_second [OF s2 t, of 300] s2 by fastforce
qed

subsection \<open>Exported symbols know their section\<close>

lemma alloc_export_symbol_chain_frame:
  assumes "alloc_export_symbol_chain p nm shndx s = Some s'"
  shows "conf s' = conf s \<and> scons s' = scons s \<and> schs s' = schs s \<and> lmem s' = lmem s"
proof -
  have "conf (osym_append c k s) = conf s \<and> scons (osym_append c k s) = scons s \<and> schs (osym_append c k s) = schs s \<and>
      lmem (osym_append c k s) = lmem s" for c k s
    by (simp add: osym_append_def upd_defs Let_def split: option.split)
  then show ?thesis
    using assms
    by (auto simp: alloc_export_symbol_chain_def alloc_symbol_chain_def upd_obj_def Option.bind_eq_Some_conv Let_def split: if_splits)
qed

lemma index_not_0:
  assumes "0 < i" "i < 256"
  shows "push_bit 8 (ucast (of_nat i :: u8)) OR ucast (of_nat j :: u8) \<noteq> (0 :: u16)"
proof
  assume "push_bit 8 (ucast (of_nat i :: u8)) OR ucast (of_nat j :: u8) = (0 :: u16)"
  then have "(of_nat i :: u8) = 0" using index_bytes(1) [of "of_nat i" "of_nat j"] by simp
  then show False using assms of_nat_u8_eq [of i 0] by simp
qed

lemma get_section_index_cong:
  assumes "conf s' = conf s" "scons s' = scons s" "schs s' = schs s"
  shows "get_section_index_by_name nm q s' = get_section_index_by_name nm q s"
    "get_section_chain_by_index w s' = get_section_chain_by_index w s"
proof -
  have n: "next_scon s' = next_scon s" "this_sch s' = this_sch s" "name_is s' = name_is s"
    using assms by (simp_all add: next_scon_def this_sch_def name_is_def fun_eq_iff)
  show "get_section_index_by_name nm q s' = get_section_index_by_name nm q s"
    "get_section_chain_by_index w s' = get_section_chain_by_index w s"
    unfolding get_section_index_by_name_def get_section_chain_by_index_def n assms by (rule refl)+
qed

text \<open>What the callback does with a symbol it does not skip, whatever its binding.\<close>

lemma symtab_callback_any_binding:
  fixes a oc cur :: nat and s :: lst
  defines "v \<equiv> view_sym 2 a (lmem s)"
  defines "shdr \<equiv> section_head (objs s oc) + 64 * unat (v_shndx v)"
  assumes fmt: "file_format (conf s) = 2" and "\<not> skipped v"
    and cur: "current_object (conf s) = Some cur" "export_list s cur xs"
    and names: "str_at (lmem s) (str_table_p (objs s oc) + unat (v_name v)) = Some nm"
      "str_at (lmem s) (sh_str_table_p (objs s oc) + unat (get32 shdr (lmem s))) = Some sec"
    and tab: "section_table s (k0 # ks) cs" "\<not> name_is s sec k0"
    and found: "k \<in> set (k0 # ks)" "name_is s sec k" "c \<in> set (cs k)" "sch_p (schs s c) = shdr"
  shows "\<exists>s' index c'. on_elf_symtab_callback a oc s = Some s' \<and> export_list s' cur (xs @ [n_syms s]) \<and>
    st_shndx (rd_sym a (lmem s')) = index \<and>
    get_section_chain_by_index index s' = Some (Some c') \<and> sch_p (schs s' c') = shdr"
proof -
  have nz: "unat (v_shndx v) \<noteq> 0" using assms(4) by (simp add: skipped_def SHN_UNDEF_def unat_eq_0)
  obtain s1 where s1: "alloc_export_symbol_chain a nm (unat (v_shndx v)) s = Some s1" "export_list s1 cur (xs @ [n_syms s])"
    using alloc_export_symbol_chain_total [OF cur nz, of a nm] by blast
  note fr = alloc_export_symbol_chain_frame [OF s1(1)]
  obtain i j where ij: "get_section_index_by_name sec shdr s = Some (push_bit 8 (ucast (of_nat i :: u8)) OR ucast (of_nat j :: u8))"
      "i < length (k0 # ks)" "name_is s sec ((k0 # ks) ! i)" "j < length (cs ((k0 # ks) ! i))"
      "sch_p (schs s (cs ((k0 # ks) ! i) ! j)) = shdr"
    using get_section_index_found [where c = c, OF tab(1) found] by blast
  let ?index = "push_bit 8 (ucast (of_nat i :: u8)) OR ucast (of_nat j :: u8) :: u16"
  have "i \<noteq> 0" using ij(3) tab(2) by (cases i) auto
  then have ne: "?index \<noteq> 0" using index_not_0 [of i j] ij(2) tab(1) by (auto simp: section_table_def)
  let ?s' = "upd_mem (put16 (a + 6) ?index) s1"
  have run: "on_elf_symtab_callback a oc s = Some ?s'"
    using assms(4) fmt names s1(1) fr ij(1) ne get_section_index_cong [of s1 s]
    by (simp add: on_elf_symtab_callback_def Let_def v_def [symmetric] shdr_def [symmetric])
  have cong: "conf ?s' = conf s" "scons ?s' = scons s" "schs ?s' = schs s" using fr by (simp_all add: upd_mem_def)
  have "get_section_chain_by_index ?index ?s' = Some (Some (cs ((k0 # ks) ! i) ! j))"
    using get_section_chain_by_index_nth [OF tab(1) ij(2,4)] get_section_index_cong [OF cong] by simp
  moreover have "export_list ?s' cur (xs @ [n_syms s])"
  proof -
    have "next_syc ?s' = next_syc s1" by (simp add: next_syc_def fun_eq_iff)
    then show ?thesis using s1(2) by (simp add: export_list_def osym.repr_def upd_mem_def)
  qed
  moreover have "st_shndx (rd_sym a (lmem ?s')) = ?index"
    by (simp add: rd_sym_def get_put_same)
  ultimately show ?thesis using run ij(5) cong by fastforce
qed

text \<open>C21: a global 64-bit symbol that is not skipped is exported: it is appended to the
  symbols of the current object
  and its \<open>st_shndx\<close> is rewritten to a number that leads back to the section header
  the symbol was defined in.  The section must have been inserted in a container
  other than the first.  (The comment in the code promises this for global symbols
  only; the binding is never looked at, so that lemma \<open>symtab_callback_any_binding\<close>
  holds for local symbols as well.)\<close>

theorem symtab_callback_exports:
  fixes a oc cur :: nat and s :: lst
  defines "v \<equiv> view_sym 2 a (lmem s)"
  defines "shdr \<equiv> section_head (objs s oc) + 64 * unat (v_shndx v)"
  assumes fmt: "file_format (conf s) = 2" and bind: "ELF64_ST_BIND (v_info v) = STB_GLOBAL" and "\<not> skipped v"
    and cur: "current_object (conf s) = Some cur" "export_list s cur xs"
    and names: "str_at (lmem s) (str_table_p (objs s oc) + unat (v_name v)) = Some nm"
      "str_at (lmem s) (sh_str_table_p (objs s oc) + unat (get32 shdr (lmem s))) = Some sec"
    and tab: "section_table s (k0 # ks) cs" "\<not> name_is s sec k0"
    and found: "k \<in> set (k0 # ks)" "name_is s sec k" "c \<in> set (cs k)" "sch_p (schs s c) = shdr"
  shows "\<exists>s' index c'. on_elf_symtab_callback a oc s = Some s' \<and> export_list s' cur (xs @ [n_syms s]) \<and>
    st_shndx (rd_sym a (lmem s')) = index \<and>
    get_section_chain_by_index index s' = Some (Some c') \<and> sch_p (schs s' c') = shdr"
  using symtab_callback_any_binding [OF fmt _ cur _ _ tab found(1,2,3)] assms by simp

definition symtab0 :: lst where
  "symtab0 = two_sections\<lparr>lmem := put_bytes 0x5000 [0x2e, 0x74] (put_bytes 0x3004 [0x10] (put16 0x3006 1 (\<lambda>_. 0))),
     objs := (\<lambda>_. zero_obj\<lparr>section_head := 36, str_table_p := 0x4000, sh_str_table_p := 0x5000\<rparr>)\<rparr>"

lemma symtab_callback_exports_witness:
  "\<exists>s' index c'. on_elf_symtab_callback 0x3000 0 symtab0 = Some s' \<and> export_list s' 0 [0] \<and>
    st_shndx (rd_sym 0x3000 (lmem s')) = index \<and>
    get_section_chain_by_index index s' = Some (Some c') \<and> sch_p (schs s' c') = 100"
proof -
  have m: "lmem symtab0 = put_bytes 0x5000 [0x2e, 0x74] (put_bytes 0x3004 [0x10] (put16 0x3006 1 (\<lambda>_. 0)))"
    by (simp add: symtab0_def)
  have v: "view_sym 2 0x3000 (lmem symtab0) = \<lparr>v_info = 0x10, v_other = 0, v_name = 0, v_shndx = 1\<rparr>"
    unfolding m by (simp add: view_sym_def rd_sym_def Let_def mem_simps put_bytes_apply del: put_bytes.simps)
  have o1: "section_head (objs symtab0 0) = 36" "str_table_p (objs symtab0 0) = 0x4000" "sh_str_table_p (objs symtab0 0) = 0x5000"
    by (simp_all add: symtab0_def zero_obj_def)
  have names: "str_at (lmem symtab0) 0x4000 = Some []" "get32 100 (lmem symtab0) = 0"
    unfolding m by (subst str_at.simps) (simp_all add: put_apply_other put_bytes_apply mem_simps del: put_bytes.simps)
  have sec: "str_at (lmem symtab0) 0x5000 = Some [0x2e, 0x74]"
    unfolding m by (subst str_at.simps, simp add: put_apply_other)+
  have tab: "section_table symtab0 [0, 1] (\<lambda>k. if k = 1 then [0, 1] else [])"
    by (simp add: section_table_def opath_def next_scon_def this_sch_def symtab0_def two_sections_def zero_defs)
  have st: "file_format (conf symtab0) = 2" "current_object (conf symtab0) = Some 0" "n_syms symtab0 = 0"
    "export_list symtab0 0 []" "\<not> name_is symtab0 [0x2e, 0x74] 0" "name_is symtab0 [0x2e, 0x74] 1" "sch_p (schs symtab0 0) = 100"
    by (simp_all add: export_list_def osym.repr_def opath_def name_is_def symtab0_def two_sections_def zero_defs)
  have b: "ELF64_ST_BIND (v_info (view_sym 2 0x3000 (lmem symtab0))) = STB_GLOBAL"
    unfolding v by (simp add: ELF64_ST_BIND_def STB_GLOBAL_def)
  have "\<not> skipped (view_sym 2 0x3000 (lmem symtab0))"
    unfolding v by (simp add: skipped_def ELF64_ST_VISIBILITY_def STV_DEFAULT_def SHN_UNDEF_def SHN_ABS_def SHN_COMMON_def
        ELF64_ST_TYPE_def STT_SECTION_def)
  from symtab_callback_exports [where oc = 0 and k = 1 and c = 0, OF st(1) b this st(2,4) _ _ tab st(5)] show ?thesis
    using v o1 names sec st by simp
qed

end
