(* ===== verification/ElfEmit.thy ===== *)
theory ElfEmit
  imports ElfCallback
begin

text \<open>
  \<open>core/link/elf/emit.c\<close>: writing the output file.  The file is a byte memory
  with a position; what was never written reads as 0.  A \<open>write\<close> puts out all of
  its bytes.  \<open>DynamicOffset\<close> and \<open>GnuPropertyOffset\<close> are the static variables
  of that name; \<open>SectionHeaderOffset\<close>, which nothing assigns, is 0.  The older
  functions of the file that nothing calls (\<open>alloc_phdr\<close>,
  \<open>write_program_header\<close>, \<open>merge_section_chain\<close>, \<open>__write_raw_data\<close>) are left out.
  What \<open>write_raw_data\<close> logs is left out, but not the buffer of 100 bytes in which
  it builds the log line: a line that does not fit is written over the stack, and
  the result is None.
\<close>

record emit =
  elk :: lst
  ofile :: mem
  opos :: nat
  DynamicOffset :: u64
  GnuPropertyOffset :: u64

definition EV_CURRENT :: u32 where "EV_CURRENT = 1"
definition R_IA64_PLTOFF64MSB :: u16 where "R_IA64_PLTOFF64MSB = 0x3e"

definition fwrite :: "u8 list \<Rightarrow> emit \<Rightarrow> emit" where
  "fwrite bs e = e\<lparr>ofile := put_bytes (opos e) bs (ofile e), opos := opos e + length bs\<rparr>"

text \<open>\<open>lseek(fd, off, SEEK_SET)\<close> and the position as an \<open>int\<close>.\<close>

definition seek_to :: "u32 \<Rightarrow> emit \<Rightarrow> emit" where
  "seek_to off e = (if sint off < 0 then e else e\<lparr>opos := unat off\<rparr>)"

definition tell :: "emit \<Rightarrow> u32" where
  "tell e = word_of_nat (opos e)"

definition elf_header :: "emit \<Rightarrow> Elf64_Ehdr" where
  "elf_header e = \<lparr>e_ident = [0x7f, 0x45, 0x4c, 0x46, 2, 1, 1, 0, 0, 0, 0, 0, 0, 0, 0, 0],
     e_type = ucast (outfile_type (conf (elk e))), e_machine = R_IA64_PLTOFF64MSB, e_version = EV_CURRENT,
     e_entry = entry_address (conf (elk e)), e_phoff = 64, e_shoff = 0, e_flags = 0, e_ehsize = 64,
     e_phentsize = 56, e_phnum = ucast (program_header_num (conf (elk e))), e_shentsize = 64,
     e_shnum = 0, e_shstrndx = 0\<rparr>"

definition write_elf_header :: "emit \<Rightarrow> emit" where
  "write_elf_header e = fwrite (enc_ehdr (elf_header e)) e"

definition convert_sh_to_ph_flags :: "u32 \<Rightarrow> u32" where
  "convert_sh_to_ph_flags fl =
     (let ph_flags = 0;
          ph_flags = (if fl AND SHF_WRITE \<noteq> 0 then ph_flags OR PF_W else ph_flags);
          ph_flags = (if fl AND SHF_ALLOC \<noteq> 0 then ph_flags OR PF_R else ph_flags)
      in if fl AND SHF_EXECINSTR \<noteq> 0 then ph_flags OR PF_X else ph_flags)"

definition convert_sh_to_ph_type :: "Elf64_Shdr \<Rightarrow> u32" where
  "convert_sh_to_ph_type shdr = (if sh_type shdr = SHT_DYNAMIC then PT_LOAD else sh_type shdr)"

definition phdr_size :: "Config \<Rightarrow> u64" where
  "phdr_size c = scast (program_header_num c) * 56"

definition PHDR_header :: "Config \<Rightarrow> Elf64_Phdr" where
  "PHDR_header c = \<lparr>p_type = PT_PHDR, p_flags = PF_R OR PF_W, p_offset = 64,
     p_vaddr = scast (base_address c + 64), p_paddr = scast (base_address c + 64),
     p_filesz = phdr_size c, p_memsz = phdr_size c, p_align = 8\<rparr>"

definition interp_offset :: "Config \<Rightarrow> u32" where
  "interp_offset c = ucast (64 + phdr_size c)"

definition INTERP_header :: "Config \<Rightarrow> Elf64_Phdr" where
  "INTERP_header c = \<lparr>p_type = PT_INTERP, p_flags = PF_R OR PF_W, p_offset = scast (interp_offset c),
     p_vaddr = scast (base_address c + interp_offset c), p_paddr = scast (base_address c + interp_offset c),
     p_filesz = 0x1c, p_memsz = 0x1c, p_align = 1\<rparr>"

definition LOAD_header :: "Config \<Rightarrow> Elf64_Phdr" where
  "LOAD_header c = \<lparr>p_type = PT_LOAD, p_flags = PF_R OR PF_W OR PF_X, p_offset = 0,
     p_vaddr = scast (base_address c), p_paddr = scast (base_address c),
     p_filesz = scast (out_size c), p_memsz = scast (out_size c + bss_size c), p_align = 0x200000\<rparr>"

text \<open>\<open>PT_DYNAMIC\<close> and \<open>PT_GNU_PROPERTY\<close> get the same size, that of the dynamic
  table.\<close>

definition offset_header :: "u32 \<Rightarrow> u64 \<Rightarrow> Config \<Rightarrow> Elf64_Phdr" where
  "offset_header t off c = \<lparr>p_type = t, p_flags = PF_R OR PF_W, p_offset = off,
     p_vaddr = scast (base_address c) + off, p_paddr = scast (base_address c) + off,
     p_filesz = scast (dynamic_entry_num c) * 16, p_memsz = scast (dynamic_entry_num c) * 16, p_align = 8\<rparr>"

text \<open>With \<open>pack\<close> the function ends in an endless loop.\<close>

definition write_fixed_program_header :: "emit \<Rightarrow> emit option" where
  "write_fixed_program_header e =
     (let c = conf (elk e);
          e = fwrite (enc_phdr (PHDR_header c)) e;
          e = (if no_interp c \<noteq> 0 then e else fwrite (enc_phdr (INTERP_header c)) e);
          e = fwrite (enc_phdr (LOAD_header c)) e
      in if pack c \<noteq> 0 then None
         else let e = fwrite (enc_phdr (offset_header PT_DYNAMIC (DynamicOffset e) c)) e;
                  e = (if GnuPropertyOffset e \<noteq> 0
                       then fwrite (enc_phdr (offset_header PT_GNU_PROPERTY (GnuPropertyOffset e) c)) e else e)
              in Some (if no_interp c \<noteq> 0 then e else fwrite (interp_name c @ [0]) e))"

text \<open>The length of the line that \<open>write_raw_data\<close> formats for a section with
  \<open>"[link/elf/emit.c]\t write raw data:%s,size:%p(%p),vaddr:%p,offset:%p\n"\<close>: 58
  characters, the name, and four pointers, which \<open>%p\<close> of the C library writes as
  \<open>(nil)\<close> or with \<open>0x\<close> in hexadecimal.\<close>

fun hex_len :: "nat \<Rightarrow> nat" where
  "hex_len n = (if n < 16 then 1 else Suc (hex_len (n div 16)))"

declare hex_len.simps [simp del]

definition ptr_len :: "nat \<Rightarrow> nat" where
  "ptr_len n = (if n = 0 then 5 else 2 + hex_len n)"

definition log_len :: "cstr \<Rightarrow> nat \<Rightarrow> nat \<Rightarrow> nat \<Rightarrow> nat \<Rightarrow> nat" where
  "log_len nm sz p va cp = 58 + length nm + ptr_len sz + ptr_len p + ptr_len va + ptr_len cp"

definition MAX_NAME :: nat where "MAX_NAME = 100"

text \<open>The body of the loop over the sections of a container.\<close>

definition upd_elk :: "(lst \<Rightarrow> lst) \<Rightarrow> emit \<Rightarrow> emit" where
  "upd_elk f e = e\<lparr>elk := f (elk e)\<rparr>"

definition write_section :: "cstr \<Rightarrow> u32 \<Rightarrow> nat \<Rightarrow> emit \<Rightarrow> emit option" where
  "write_section nm va sec2 e =
     (let shdr = sch_p (schs (elk e) sec2);
          cp = tell e;
          off = get64 (shdr + 0x18) (lmem (elk e));
          size = get64 (shdr + 0x20) (lmem (elk e))
      in if shdr = 0 \<or> MAX_NAME \<le> log_len nm (unat size) (shdr + 0x20) (unat va) (unat cp) then None
         else let e = (if size \<noteq> 0 then fwrite (get_bytes (unat off) (unat size) (lmem (elk e))) e else e)
              in Some (upd_elk (upd_mem (put64 (shdr + 0x18) (scast cp))) e))"

definition count_shdr :: "emit \<Rightarrow> emit" where
  "count_shdr = upd_elk (upd_conf (\<lambda>c. c\<lparr>shdr_num := shdr_num c + 1\<rparr>))"

definition write_raw_data :: "nat \<Rightarrow> emit \<Rightarrow> emit option" where
  "write_raw_data sc e =
     (if scon_init (scons (elk e) sc) = None then Some (count_shdr e)
      else do {
        nm \<leftarrow> scon_name (scons (elk e) sc);
        let cp = scast (tell e);
        let e = (if z_strcmp nm (ascii ''.dynamic'') = 0 then e\<lparr>DynamicOffset := cp\<rparr> else e);
        let e = (if z_strcmp nm (ascii ''.note.gnu.property'') = 0 then e\<lparr>GnuPropertyOffset := cp\<rparr> else e);
        e \<leftarrow> iter (\<lambda>e. this_sch (elk e)) (write_section nm (scon_vaddr (scons (elk e) sc))) (scon_init (scons (elk e) sc)) e;
        Some (count_shdr e)
      })"

definition gen_elf :: "emit \<Rightarrow> emit option" where
  "gen_elf e =
     (let e = e\<lparr>ofile := \<lambda>_. 0, opos := 0\<rparr>;
          e = seek_to (program_header_tail (conf (elk e))) e
      in do {
        e \<leftarrow> iter (\<lambda>e. next_scon (elk e)) write_raw_data (initial_section (conf (elk e))) e;
        let e = seek_to 0 e;
        let e = write_elf_header e;
        write_fixed_program_header e
      })"

subsection \<open>The headers\<close>

lemma fwrite_fields [simp]:
  "elk (fwrite bs e) = elk e" "opos (fwrite bs e) = opos e + length bs"
  "DynamicOffset (fwrite bs e) = DynamicOffset e" "GnuPropertyOffset (fwrite bs e) = GnuPropertyOffset e"
  "ofile (fwrite bs e) = put_bytes (opos e) bs (ofile e)"
  by (simp_all add: fwrite_def)

lemma upd_elk_fields [simp]:
  "elk (upd_elk f e) = f (elk e)" "opos (upd_elk f e) = opos e" "ofile (upd_elk f e) = ofile e"
  "DynamicOffset (upd_elk f e) = DynamicOffset e" "GnuPropertyOffset (upd_elk f e) = GnuPropertyOffset e"
  by (simp_all add: upd_elk_def)

text \<open>The program headers in the order they are written.  This is the list for
  \<open>pack = 0\<close>: with \<open>pack\<close> there are two more \<open>PT_LOAD\<close> headers behind the first, but
  \<open>write_fixed_program_header\<close> then never returns, and no statement about a finished
  run speaks of that case.\<close>

definition program_headers :: "emit \<Rightarrow> Elf64_Phdr list" where
  "program_headers e = (let c = conf (elk e) in
     [PHDR_header c] @ (if no_interp c \<noteq> 0 then [] else [INTERP_header c]) @ [LOAD_header c]
     @ [offset_header PT_DYNAMIC (DynamicOffset e) c]
     @ (if GnuPropertyOffset e = 0 then [] else [offset_header PT_GNU_PROPERTY (GnuPropertyOffset e) c]))"

definition interp_bytes :: "emit \<Rightarrow> u8 list" where
  "interp_bytes e = (if no_interp (conf (elk e)) \<noteq> 0 then [] else interp_name (conf (elk e)) @ [0])"

lemma fwrite_append: "fwrite (xs @ ys) e = fwrite ys (fwrite xs e)"
  by (simp add: fwrite_def put_bytes_append)

lemma write_fixed_program_header_bytes:
  assumes "pack (conf (elk e)) = 0"
  shows "write_fixed_program_header e = Some (fwrite (concat (map enc_phdr (program_headers e)) @ interp_bytes e) e)"
  using assms by (simp add: write_fixed_program_header_def program_headers_def interp_bytes_def Let_def fwrite_append)

lemma length_enc_elf_header: "length (enc_ehdr (elf_header e)) = 64"
  by (simp add: enc_lengths elf_header_def)

lemma length_concat_phdrs: "length (concat (map enc_phdr hs)) = 56 * length hs"
  by (induction hs) (simp_all add: enc_lengths)

lemma phdr_at:
  "i < length hs \<Longrightarrow> take 56 (drop (56 * i) (concat (map enc_phdr hs) @ r)) = enc_phdr (hs ! i)"
proof (induction hs arbitrary: i)
  case (Cons h hs)
  then show ?case by (cases i) (simp_all add: enc_lengths)
qed simp

lemma get_bytes_sub:
  assumes "get_bytes a N m = get_bytes b N m'" "i + n \<le> N"
  shows "get_bytes (a + i) n m = get_bytes (b + i) n m'"
proof -
  have "take n (drop i (get_bytes a N m)) = take n (drop i (get_bytes b N m'))" using assms(1) by simp
  then show ?thesis using assms(2) by (simp add: get_bytes_def take_map drop_map add.assoc del: upt_Suc)
qed

lemma rd_phdr_cong: "get_bytes a 56 m = get_bytes b 56 m' \<Longrightarrow> rd_phdr a m = rd_phdr b m'"
  using get_bytes_sub [of a 56 m b m' 0 4]
  by (simp add: rd_phdr_def get32_def get64_def get_bytes_sub [of a 56 m b m'])

lemma rd_ehdr_cong: "get_bytes a 64 m = get_bytes b 64 m' \<Longrightarrow> rd_ehdr a m = rd_ehdr b m'"
  using get_bytes_sub [of a 64 m b m' 0 16]
  by (simp add: rd_ehdr_def get16_def get32_def get64_def get_bytes_sub [of a 64 m b m'])

lemma rd_phdr_written:
  assumes "i < length hs"
  shows "rd_phdr (a + 56 * i) (put_bytes a (concat (map enc_phdr hs) @ r) m) = hs ! i"
proof -
  have "get_bytes (a + 56 * i) 56 (put_bytes a (concat (map enc_phdr hs) @ r) m) = enc_phdr (hs ! i)"
    using assms phdr_at [OF assms] by (subst get_bytes_put_bytes_in) (auto simp: length_concat_phdrs)
  also have "\<dots> = get_bytes 0 56 (put_bytes 0 (enc_phdr (hs ! i)) m)"
    using get_put_bytes [of 0 "enc_phdr (hs ! i)" m] by (simp add: enc_lengths)
  finally show ?thesis using rd_phdr_cong rd_enc_phdr by metis
qed

text \<open>\<open>gen_elf\<close> changes the configuration only in the count of the sections, and the
  headers are the last it writes.\<close>

lemma write_section_keeps_conf: "write_section nm va x e = Some e' \<Longrightarrow> conf (elk e') = conf (elk e)"
  by (auto simp: write_section_def Let_def upd_mem_def split: if_splits)

lemma count_shdr_conf: "conf (elk (count_shdr e)) = (conf (elk e))\<lparr>shdr_num := shdr_num (conf (elk e)) + 1\<rparr>"
  by (simp add: count_shdr_def upd_conf_def)

lemma write_raw_data_keeps_conf:
  assumes "write_raw_data k e = Some e'"
  shows "\<exists>n. conf (elk e') = (conf (elk e))\<lparr>shdr_num := n\<rparr>"
proof (cases "scon_init (scons (elk e) k) = None")
  case True
  then show ?thesis using assms by (auto simp: write_raw_data_def count_shdr_conf)
next
  case False
  then obtain nm where nm: "scon_name (scons (elk e) k) = Some nm"
    using assms by (auto simp: write_raw_data_def bind_eq_Some_conv)
  define e1 where "e1 = (let e = (if z_strcmp nm (ascii ''.dynamic'') = 0 then e\<lparr>DynamicOffset := scast (tell e)\<rparr> else e)
     in if z_strcmp nm (ascii ''.note.gnu.property'') = 0 then e\<lparr>GnuPropertyOffset := scast (tell e)\<rparr> else e)"
  have e1: "elk e1 = elk e" by (simp add: e1_def Let_def)
  have o: "opos (if b then e\<lparr>DynamicOffset := d\<rparr> else e) = opos e" for b d by simp
  have run: "write_raw_data k e = Option.bind (iter (\<lambda>e. this_sch (elk e)) (write_section nm (scon_vaddr (scons (elk e1) k)))
      (scon_init (scons (elk e1) k)) e1) (\<lambda>e. Some (count_shdr e))"
    using False nm by (simp only: write_raw_data_def Let_def e1_def tell_def o if_False bind.bind_lunit)
  from assms [unfolded run] obtain e2 where e2: "iter (\<lambda>e. this_sch (elk e)) (write_section nm (scon_vaddr (scons (elk e1) k)))
      (scon_init (scons (elk e1) k)) e1 = Some e2" "e' = count_shdr e2"
    by (auto simp: bind_eq_Some_conv)
  have "conf (elk e2) = conf (elk e)"
    by (rule iter_keeps [OF e2(1), where P = "\<lambda>e2. conf (elk e2) = conf (elk e)"])
      (simp_all only: e1 write_section_keeps_conf)
  then show ?thesis unfolding e2(2) count_shdr_conf by auto
qed

lemma gen_elf_keeps_conf:
  assumes "gen_elf e = Some e'"
  obtains w n where "conf (elk w) = (conf (elk e))\<lparr>shdr_num := n\<rparr>" "opos w = 64"
    "write_fixed_program_header w = Some e'"
proof -
  let ?e0 = "seek_to (program_header_tail (conf (elk e))) (e\<lparr>ofile := \<lambda>_. 0, opos := 0\<rparr>)"
  obtain e1 where e1: "iter (\<lambda>e. next_scon (elk e)) write_raw_data (initial_section (conf (elk e))) ?e0 = Some e1"
    "write_fixed_program_header (write_elf_header (seek_to 0 e1)) = Some e'"
    using assms by (auto simp: gen_elf_def Let_def bind_eq_Some_conv seek_to_def split: if_splits)
  have "\<exists>n. conf (elk e1) = (conf (elk e))\<lparr>shdr_num := n\<rparr>"
  proof (rule iter_keeps [OF e1(1), where P = "\<lambda>e1. \<exists>n. conf (elk e1) = (conf (elk e))\<lparr>shdr_num := n\<rparr>"])
    show "\<exists>n. conf (elk ?e0) = (conf (elk e))\<lparr>shdr_num := n\<rparr>"
      by (intro exI [of _ "shdr_num (conf (elk e))"]) (simp add: seek_to_def)
  qed (use write_raw_data_keeps_conf in fastforce)
  then obtain n where "conf (elk (write_elf_header (seek_to 0 e1))) = (conf (elk e))\<lparr>shdr_num := n\<rparr>"
    by (auto simp: write_elf_header_def seek_to_def)
  moreover have "opos (write_elf_header (seek_to 0 e1)) = 64"
    by (simp add: write_elf_header_def seek_to_def length_enc_elf_header)
  ultimately show ?thesis using e1(2) that by blast
qed

lemma headers_end:
  assumes "write_fixed_program_header w = Some e'"
  shows "elk e' = elk w" "GnuPropertyOffset e' = GnuPropertyOffset w"
    "opos e' = opos w + 56 * length (program_headers e') + length (interp_bytes e')"
proof -
  have pk: "pack (conf (elk w)) = 0"
    using assms by (auto simp: write_fixed_program_header_def Let_def split: if_splits)
  from write_fixed_program_header_bytes [OF pk] assms
  have e': "e' = fwrite (concat (map enc_phdr (program_headers w)) @ interp_bytes w) w" by simp
  show elk: "elk e' = elk w" "GnuPropertyOffset e' = GnuPropertyOffset w" by (simp_all add: e')
  have "DynamicOffset e' = DynamicOffset w" by (simp add: e')
  then have "program_headers w = program_headers e'" "interp_bytes w = interp_bytes e'"
    unfolding program_headers_def interp_bytes_def elk by simp_all
  then show "opos e' = opos w + 56 * length (program_headers e') + length (interp_bytes e')"
    unfolding e' by (simp add: length_concat_phdrs)
qed

text \<open>C23: the head of the output file reads back as what the linker decided: the
  ELF header, then the program headers one after the other, then the name of the
  interpreter; when \<open>program_header_num\<close> is the number of headers that are written,
  the name stands at the offset that \<open>PT_INTERP\<close> announces.\<close>

theorem output_headers_read_back:
  assumes gen: "gen_elf e = Some e'"
  defines "hs \<equiv> program_headers e'"
  shows "rd_ehdr 0 (ofile e') = elf_header e' \<and>
    (\<forall>i < length hs. rd_phdr (64 + 56 * i) (ofile e') = hs ! i) \<and>
    get_bytes (64 + 56 * length hs) (length (interp_bytes e')) (ofile e') = interp_bytes e' \<and>
    (no_interp (conf (elk e')) = 0 \<longrightarrow> unat (program_header_num (conf (elk e'))) = length hs \<longrightarrow>
       unat (p_offset (hs ! 1)) = 64 + 56 * length hs)"
proof -
  obtain e1 where e1: "write_fixed_program_header (write_elf_header (seek_to 0 e1)) = Some e'"
    using gen by (auto simp: gen_elf_def Let_def bind_eq_Some_conv)
  define w where "w = write_elf_header (seek_to 0 e1)"
  have pk: "pack (conf (elk w)) = 0"
    using e1 by (auto simp: w_def [symmetric] write_fixed_program_header_def Let_def split: if_splits)
  from write_fixed_program_header_bytes [OF pk] e1
  have e': "e' = fwrite (concat (map enc_phdr (program_headers w)) @ interp_bytes w) w" by (simp add: w_def)
  have elk: "elk e' = elk e1" "elk w = elk e1" "DynamicOffset e' = DynamicOffset w"
    "GnuPropertyOffset e' = GnuPropertyOffset w"
    by (simp_all add: e' w_def write_elf_header_def seek_to_def)
  have hs: "program_headers w = hs" "interp_bytes w = interp_bytes e'"
    unfolding hs_def program_headers_def interp_bytes_def elk by (rule refl)+
  have wpos: "opos w = 64"
    by (simp add: w_def write_elf_header_def seek_to_def length_enc_elf_header)
  have wfile: "ofile w = put_bytes 0 (enc_ehdr (elf_header e')) (ofile e1)"
    by (simp add: w_def write_elf_header_def seek_to_def elf_header_def elk(1))
  have out: "ofile e' = put_bytes 64 (concat (map enc_phdr hs) @ interp_bytes e') (ofile w)"
    using arg_cong [OF e', of ofile] by (simp add: hs wpos)
  have "get_bytes 0 64 (ofile e') = get_bytes 0 64 (put_bytes 0 (enc_ehdr (elf_header e')) (ofile e1))"
    by (simp add: out get_put_bytes_other wfile)
  from rd_ehdr_cong [OF this] have h: "rd_ehdr 0 (ofile e') = elf_header e'"
    by (simp add: rd_enc_ehdr elf_header_def)
  have n: "length hs \<in> {3, 4, 5}" by (simp add: hs_def program_headers_def Let_def)
  have name: "get_bytes (64 + 56 * length hs) (length (interp_bytes e')) (ofile e') = interp_bytes e'"
    using get_bytes_put_bytes_in [of "56 * length hs" "length (interp_bytes e')" "concat (map enc_phdr hs) @ interp_bytes e'" 64]
    by (simp add: out length_concat_phdrs)
  have "unat (p_offset (hs ! 1)) = 64 + 56 * length hs"
    if "no_interp (conf (elk e')) = 0" "unat (program_header_num (conf (elk e'))) = length hs"
  proof -
    have "program_header_num (conf (elk e')) = word_of_nat (length hs)"
      unfolding that(2) [symmetric] by simp
    moreover have "hs ! 1 = INTERP_header (conf (elk e'))" using that(1) by (simp add: hs_def program_headers_def Let_def)
    moreover note n
    ultimately show ?thesis by (auto simp: INTERP_header_def interp_offset_def phdr_size_def)
  qed
  moreover have "rd_phdr (64 + 56 * i) (ofile e') = hs ! i" if "i < length hs" for i
    using rd_phdr_written [OF that] by (simp add: out)
  ultimately show ?thesis using h name by blast
qed

subsection \<open>The data of the sections\<close>

text \<open>Where the header of a section says its data is, how much there is of it, and
  the data in the memory of the linker.\<close>

definition hdr_off :: "lst \<Rightarrow> nat \<Rightarrow> nat" where
  "hdr_off s x = unat (get64 (sch_p (schs s x) + 0x18) (lmem s))"

definition hdr_len :: "lst \<Rightarrow> nat \<Rightarrow> nat" where
  "hdr_len s x = unat (get64 (sch_p (schs s x) + 0x20) (lmem s))"

definition section_data :: "lst \<Rightarrow> nat \<Rightarrow> u8 list" where
  "section_data s x = get_bytes (hdr_off s x) (hdr_len s x) (lmem s)"

text \<open>The headers of the sections \<open>U\<close> lie apart from each other and from the data.\<close>

definition sections_apart :: "lst \<Rightarrow> nat list \<Rightarrow> bool" where
  "sections_apart s U \<longleftrightarrow> headers_apart s U \<and> (\<forall>x \<in> set U. \<forall>y \<in> set U.
     hdr_off s x + hdr_len s x \<le> sch_p (schs s y) \<or> sch_p (schs s y) + 64 \<le> hdr_off s x)"

text \<open>The state of the loop: the sections \<open>X\<close> of \<open>U\<close> have been written to the file,
  from \<open>base\<close> on.\<close>

definition written :: "emit \<Rightarrow> nat \<Rightarrow> nat list \<Rightarrow> nat list \<Rightarrow> emit \<Rightarrow> bool" where
  "written e0 base U X e \<longleftrightarrow>
     schs (elk e) = schs (elk e0) \<and> scons (elk e) = scons (elk e0) \<and>
     opos e = base + sum_list (map (hdr_len (elk e0)) X) \<and>
     (\<forall>a. (\<forall>x \<in> set X. a < sch_p (schs (elk e0) x) + 0x18 \<or> sch_p (schs (elk e0) x) + 0x20 \<le> a) \<longrightarrow>
        lmem (elk e) a = lmem (elk e0) a) \<and>
     (\<forall>x \<in> set X. base \<le> hdr_off (elk e) x \<and> hdr_off (elk e) x + hdr_len (elk e0) x \<le> opos e \<and>
        get_bytes (hdr_off (elk e) x) (hdr_len (elk e0) x) (ofile e) = section_data (elk e0) x)"

lemma written_frame:
  assumes w: "written e0 base U X e" and "set X \<subseteq> set U" "sections_apart (elk e0) U" "x \<in> set U"
  shows "hdr_len (elk e) x = hdr_len (elk e0) x"
    and "get_bytes (hdr_off (elk e0) x) (hdr_len (elk e0) x) (lmem (elk e)) = section_data (elk e0) x"
    and "x \<notin> set X \<Longrightarrow> hdr_off (elk e) x = hdr_off (elk e0) x"
proof -
  have out: "lmem (elk e) a = lmem (elk e0) a"
    if "\<And>y. y \<in> set X \<Longrightarrow> a < sch_p (schs (elk e0) y) + 0x18 \<or> sch_p (schs (elk e0) y) + 0x20 \<le> a" for a
    using w that by (simp add: written_def)
  have sc: "schs (elk e) = schs (elk e0)" using w by (simp add: written_def)
  have ap: "sch_p (schs (elk e0) x) + 64 \<le> sch_p (schs (elk e0) y) \<or> sch_p (schs (elk e0) y) + 64 \<le> sch_p (schs (elk e0) x)"
    if "y \<in> set X" "y \<noteq> x" for y
    using assms(2-4) that by (auto simp: sections_apart_def headers_apart_def)
  show "hdr_len (elk e) x = hdr_len (elk e0) x"
    unfolding hdr_len_def get64_def sc
    by (intro arg_cong [where f = unat] arg_cong [where f = of_le64] get_bytes_cong out) (use ap in force)
  show "get_bytes (hdr_off (elk e0) x) (hdr_len (elk e0) x) (lmem (elk e)) = section_data (elk e0) x"
    unfolding section_data_def
    by (intro get_bytes_cong out) (use assms(2-4) in \<open>force simp: sections_apart_def\<close>)
  show "hdr_off (elk e) x = hdr_off (elk e0) x" if "x \<notin> set X"
    unfolding hdr_off_def get64_def sc
    by (intro arg_cong [where f = unat] arg_cong [where f = of_le64] get_bytes_cong out) (use ap that in force)
qed

text \<open>The log line of a section fits, wherever its data goes in a file of at most
  \<open>stop\<close> bytes.\<close>

definition log_fits :: "nat \<Rightarrow> cstr \<Rightarrow> u32 \<Rightarrow> nat \<Rightarrow> nat \<Rightarrow> bool" where
  "log_fits stop nm va sz p \<longleftrightarrow> 58 + length nm + ptr_len sz + ptr_len p + ptr_len (unat va) + max 5 (ptr_len stop) < MAX_NAME"

lemma hex_len_mono: "n \<le> k \<Longrightarrow> hex_len n \<le> hex_len k"
proof (induction k arbitrary: n rule: hex_len.induct)
  case (1 k)
  show ?case
  proof (cases "n < 16")
    case True
    have "1 \<le> hex_len k" by (subst hex_len.simps) simp
    then show ?thesis using True by (subst hex_len.simps) simp
  next
    case False
    then have "hex_len (n div 16) \<le> hex_len (k div 16)" using 1 by (intro 1(1)) (simp_all add: div_le_mono)
    then show ?thesis using False 1(2) hex_len.simps [of n] hex_len.simps [of k] by simp
  qed
qed

lemma log_fits_at: "log_fits stop nm va sz p \<Longrightarrow> cp \<le> stop \<Longrightarrow> log_len nm sz p (unat va) cp < MAX_NAME"
  using hex_len_mono [of cp stop] by (auto simp: log_fits_def log_len_def ptr_len_def split: if_splits)

lemma write_section_step:
  assumes "x \<in> set U" "sections_apart (elk e0) U" "set X \<subseteq> set U" "x \<notin> set X"
    and w: "written e0 base U X e" and small: "base + sum_list (map (hdr_len (elk e0)) X) \<le> stop" "stop < 2 ^ 31"
    and lg: "log_fits stop nm va (hdr_len (elk e0) x) (sch_p (schs (elk e0) x) + 0x20)"
  shows "\<exists>e'. write_section nm va x e = Some e' \<and> written e0 base U (X @ [x]) e' \<and>
    (\<forall>y \<in> set X. hdr_off (elk e') y = hdr_off (elk e) y) \<and> hdr_off (elk e') x = opos e \<and>
    conf (elk e') = conf (elk e) \<and> DynamicOffset e' = DynamicOffset e \<and> GnuPropertyOffset e' = GnuPropertyOffset e"
proof -
  note fr = written_frame [OF w assms(3,2,1)]
  let ?p = "sch_p (schs (elk e) x)"
  have sc: "schs (elk e) = schs (elk e0)" "scons (elk e) = scons (elk e0)" using w by (simp_all add: written_def)
  have p: "?p \<noteq> 0" using assms(1,2) by (auto simp: sections_apart_def headers_apart_def sc)
  have off: "unat (get64 (?p + 0x18) (lmem (elk e))) = hdr_off (elk e0) x" using fr(3) assms(4) by (simp add: hdr_off_def)
  have len: "unat (get64 (?p + 0x20) (lmem (elk e))) = hdr_len (elk e0) x" using fr(1) by (simp add: hdr_len_def)
  define e1 where "e1 = fwrite (section_data (elk e0) x) e"
  have nil: "fwrite [] e = e" by (simp add: fwrite_def)
  have e1: "e1 = (if get64 (?p + 0x20) (lmem (elk e)) \<noteq> 0
      then fwrite (get_bytes (hdr_off (elk e0) x) (hdr_len (elk e0) x) (lmem (elk e))) e else e)"
    unfolding e1_def fr(2) using len nil by (auto simp: section_data_def get_bytes_def)
  define e' where "e' = upd_elk (upd_mem (put64 (?p + 0x18) (scast (tell e)))) e1"
  have pos: "opos e < 2 ^ 31" "opos e \<le> stop" using w small by (simp_all add: written_def)
  have cp: "unat (tell e) = opos e" using pos(1) by (simp add: tell_def unsigned_of_nat take_bit_nat_eq_self)
  have "log_len nm (hdr_len (elk e0) x) (?p + 0x20) (unat va) (unat (tell e)) < MAX_NAME"
    using log_fits_at [OF lg pos(2)] by (simp add: cp sc)
  then have run: "write_section nm va x e = Some e'"
    unfolding write_section_def Let_def off len e1 [symmetric] using p by (simp add: e'_def)
  have tell: "unat (scast (tell e) :: u64) = opos e" using pos(1) by (simp add: tell_def unat_scast_word_of_nat)
  have lm: "lmem (elk e') = put64 (?p + 0x18) (scast (tell e)) (lmem (elk e))"
    by (simp add: e'_def e1_def upd_mem_def)
  have x_off: "hdr_off (elk e') x = opos e"
    by (simp add: hdr_off_def lm get_put_same e'_def e1_def upd_mem_def tell)
  have ap: "sch_p (schs (elk e0) x) + 64 \<le> sch_p (schs (elk e0) y) \<or> sch_p (schs (elk e0) y) + 64 \<le> sch_p (schs (elk e0) x)"
    if "y \<in> set X" for y
    using assms(1-4) that by (auto simp: sections_apart_def headers_apart_def)
  have y_off: "hdr_off (elk e') y = hdr_off (elk e) y" if "y \<in> set X" for y
    using ap [OF that] by (auto simp: hdr_off_def lm get_put_other e'_def e1_def upd_mem_def sc)
  have file': "ofile e' = put_bytes (opos e) (section_data (elk e0) x) (ofile e)" "opos e' = opos e + hdr_len (elk e0) x"
    by (simp_all add: e'_def e1_def section_data_def)
  have data: "get_bytes (hdr_off (elk e') y) (hdr_len (elk e0) y) (ofile e') = section_data (elk e0) y \<and>
      base \<le> hdr_off (elk e') y \<and> hdr_off (elk e') y + hdr_len (elk e0) y \<le> opos e'" if "y \<in> set (X @ [x])" for y
  proof (cases "y \<in> set X")
    case True
    then show ?thesis using w file' by (auto simp: y_off written_def get_put_bytes_other)
  next
    case False
    then have "y = x" using that by simp
    then show ?thesis using w file' get_put_bytes [of "opos e" "section_data (elk e0) x"]
      by (simp add: x_off written_def section_data_def)
  qed
  have "written e0 base U (X @ [x]) e'"
    using w data file' sc unfolding written_def
    by (auto simp: lm put_apply_other) (simp_all add: e'_def e1_def upd_mem_def)
  then show ?thesis using run x_off y_off by (auto simp: e'_def e1_def upd_mem_def)
qed

lemma write_sections:
  assumes "set xs \<subseteq> set U" "sections_apart (elk e0) U" "set X \<subseteq> set U" "distinct (X @ xs)"
    and "written e0 base U X e" "base + sum_list (map (hdr_len (elk e0)) (X @ xs)) \<le> stop" "stop < 2 ^ 31"
    and "\<forall>x \<in> set xs. log_fits stop nm va (hdr_len (elk e0) x) (sch_p (schs (elk e0) x) + 0x20)"
  shows "\<exists>e'. fold_opt (write_section nm va) xs e = Some e' \<and> written e0 base U (X @ xs) e' \<and>
    (\<forall>y \<in> set X. hdr_off (elk e') y = hdr_off (elk e) y) \<and> (xs \<noteq> [] \<longrightarrow> hdr_off (elk e') (hd xs) = opos e) \<and>
    conf (elk e') = conf (elk e) \<and> DynamicOffset e' = DynamicOffset e \<and> GnuPropertyOffset e' = GnuPropertyOffset e"
  using assms
proof (induction xs arbitrary: X e)
  case (Cons x xs)
  have "base + sum_list (map (hdr_len (elk e0)) X) \<le> stop" using Cons.prems(6) by simp
  from write_section_step [OF _ Cons.prems(2,3) _ Cons.prems(5) this Cons.prems(7), of x nm va] Cons.prems(1,4,8)
  obtain e1 where e1: "write_section nm va x e = Some e1" "written e0 base U (X @ [x]) e1"
    "\<And>y. y \<in> set X \<Longrightarrow> hdr_off (elk e1) y = hdr_off (elk e) y" "hdr_off (elk e1) x = opos e"
    "conf (elk e1) = conf (elk e)" "DynamicOffset e1 = DynamicOffset e" "GnuPropertyOffset e1 = GnuPropertyOffset e"
    by auto
  have "set xs \<subseteq> set U" "set (X @ [x]) \<subseteq> set U" "distinct ((X @ [x]) @ xs)"
    "base + sum_list (map (hdr_len (elk e0)) ((X @ [x]) @ xs)) \<le> stop"
    "\<forall>x \<in> set xs. log_fits stop nm va (hdr_len (elk e0) x) (sch_p (schs (elk e0) x) + 0x20)"
    using Cons.prems by auto
  from Cons.IH [OF this(1) Cons.prems(2) this(2,3) e1(2) this(4) Cons.prems(7) this(5)] show ?case using e1 by auto
qed auto

definition same_lists :: "emit \<Rightarrow> emit \<Rightarrow> bool" where
  "same_lists e0 e \<longleftrightarrow> schs (elk e) = schs (elk e0) \<and> scons (elk e) = scons (elk e0)"

lemma write_section_same:
  assumes "same_lists e0 e" "write_section nm va x e = Some e'"
  shows "same_lists e0 e' \<and> this_sch (elk e') = this_sch (elk e)"
  using assms by (auto simp: write_section_def same_lists_def Let_def upd_mem_def this_sch_def fun_eq_iff split: if_splits)

lemma fold_write_section_same:
  "same_lists e0 e \<Longrightarrow> fold_opt (write_section nm va) xs e = Some e' \<Longrightarrow> same_lists e0 e'"
  by (induction xs arbitrary: e) (auto simp: bind_eq_Some_conv dest: write_section_same)

lemma count_shdr_fields [simp]:
  "schs (elk (count_shdr e)) = schs (elk e)" "scons (elk (count_shdr e)) = scons (elk e)"
  "lmem (elk (count_shdr e)) = lmem (elk e)" "ofile (count_shdr e) = ofile e" "opos (count_shdr e) = opos e"
  "DynamicOffset (count_shdr e) = DynamicOffset e" "GnuPropertyOffset (count_shdr e) = GnuPropertyOffset e"
  by (simp_all add: count_shdr_def upd_conf_def)

lemma written_cong:
  "elk e' = elk e \<Longrightarrow> ofile e' = ofile e \<Longrightarrow> opos e' = opos e \<Longrightarrow> written e0 base U X e' = written e0 base U X e"
  by (simp add: written_def)

lemma written_count_shdr [simp]: "written e0 base U X (count_shdr e) = written e0 base U X e"
  by (simp add: written_def hdr_off_def)

text \<open>A container with the sections \<open>xs\<close>: it has a name when there are any.\<close>

definition container :: "lst \<Rightarrow> nat \<Rightarrow> nat list \<Rightarrow> bool" where
  "container s k xs \<longleftrightarrow> opath (this_sch s) (scon_init (scons s k)) xs \<and>
     (xs \<noteq> [] \<longrightarrow> scon_name (scons s k) \<noteq> None) \<and> (\<forall>x \<in> set xs. sch_p (schs s x) \<noteq> 0)"

definition is_dynamic :: "lst \<Rightarrow> nat \<Rightarrow> nat list \<Rightarrow> bool" where
  "is_dynamic s k xs \<longleftrightarrow> xs \<noteq> [] \<and> name_is s (ascii ''.dynamic'') k"

lemma iter_write_section:
  assumes "container (elk e0) k xs" "same_lists e0 e"
  shows "iter (\<lambda>e. this_sch (elk e)) (write_section nm va) (scon_init (scons (elk e0) k)) e = fold_opt (write_section nm va) xs e"
proof -
  have "opath (this_sch (elk e)) (scon_init (scons (elk e0) k)) xs"
    using assms opath_cong [of "this_sch (elk e0)"] by (simp add: container_def same_lists_def this_sch_def)
  then show ?thesis
    using iter_opath_partial [where nx = "\<lambda>e. this_sch (elk e)" and P = "same_lists e0" and f = "write_section nm va" and s = e
      and xs = xs and p = "scon_init (scons (elk e0) k)"] write_section_same [of e0] assms(2) by blast
qed

text \<open>The state in which the loop over the sections of a container starts.\<close>

definition note_offsets :: "nat \<Rightarrow> nat list \<Rightarrow> emit \<Rightarrow> emit" where
  "note_offsets k xs e =
     (let e = (if is_dynamic (elk e) k xs then e\<lparr>DynamicOffset := scast (tell e)\<rparr> else e)
      in if xs \<noteq> [] \<and> name_is (elk e) (ascii ''.note.gnu.property'') k
         then e\<lparr>GnuPropertyOffset := scast (tell e)\<rparr> else e)"

lemma note_offsets_fields [simp]:
  "elk (note_offsets k xs e) = elk e" "ofile (note_offsets k xs e) = ofile e" "opos (note_offsets k xs e) = opos e"
  by (simp_all add: note_offsets_def Let_def)

text \<open>The name and the address of a container, and what they mean for the log.\<close>

definition cname :: "lst \<Rightarrow> nat \<Rightarrow> cstr" where
  "cname s k = (case scon_name (scons s k) of Some nm \<Rightarrow> nm | None \<Rightarrow> [])"

definition caddr :: "lst \<Rightarrow> nat \<Rightarrow> u32" where
  "caddr s k = scon_vaddr (scons s k)"

definition loggable :: "nat \<Rightarrow> lst \<Rightarrow> nat \<Rightarrow> nat list \<Rightarrow> bool" where
  "loggable stop s k xs \<longleftrightarrow>
     (\<forall>x \<in> set xs. log_fits stop (cname s k) (caddr s k) (hdr_len s x) (sch_p (schs s x) + 0x20))"

lemma write_raw_data_eq:
  assumes "container (elk e0) k xs" "same_lists e0 e"
  shows "write_raw_data k e =
    map_option count_shdr (fold_opt (write_section (cname (elk e0) k) (caddr (elk e0) k)) xs (note_offsets k xs e))"
proof (cases xs)
  case Nil
  then show ?thesis using assms
    by (auto simp: container_def same_lists_def write_raw_data_def note_offsets_def is_dynamic_def opath_def split: option.splits)
next
  case (Cons x ys)
  have sc: "scons (elk e) = scons (elk e0)" using assms(2) by (simp add: same_lists_def)
  obtain nm where nm: "scon_name (scons (elk e0) k) = Some nm" using assms(1) Cons by (auto simp: container_def)
  have i: "scon_init (scons (elk e0) k) \<noteq> None" using assms(1) Cons by (auto simp: container_def opath_def split: option.splits)
  have same: "same_lists e0 (note_offsets k xs e)" using assms(2) by (simp add: same_lists_def)
  have nt: "note_offsets k xs e = (let e = (if z_strcmp nm (ascii ''.dynamic'') = 0 then e\<lparr>DynamicOffset := scast (tell e)\<rparr> else e)
     in if z_strcmp nm (ascii ''.note.gnu.property'') = 0 then e\<lparr>GnuPropertyOffset := scast (tell e)\<rparr> else e)"
    by (simp add: note_offsets_def is_dynamic_def Cons name_is_def sc nm tell_def Let_def)
  let ?f = "write_section nm (scon_vaddr (scons (elk e0) k))"
  have "iter (\<lambda>e. this_sch (elk e)) ?f (scon_init (scons (elk e) k)) (note_offsets k xs e) = fold_opt ?f xs (note_offsets k xs e)"
    using iter_write_section [OF assms(1) same] sc by simp
  then show ?thesis
    using i by (cases "fold_opt ?f xs (note_offsets k xs e)")
      (simp_all add: write_raw_data_def cname_def caddr_def sc nm nt Let_def tell_def split: if_splits)
qed

lemma write_container:
  assumes c: "container (elk e0) k xs" and "set xs \<subseteq> set U" "sections_apart (elk e0) U" "set X \<subseteq> set U"
    "distinct (X @ xs)" and w: "written e0 base U X e" and "base + sum_list (map (hdr_len (elk e0)) (X @ xs)) \<le> stop" "stop < 2 ^ 31"
    and lg: "loggable stop (elk e0) k xs"
  shows "\<exists>e'. write_raw_data k e = Some e' \<and> written e0 base U (X @ xs) e' \<and>
    (\<forall>y \<in> set X. hdr_off (elk e') y = hdr_off (elk e) y) \<and>
    (if is_dynamic (elk e0) k xs then unat (DynamicOffset e') = hdr_off (elk e') (hd xs)
     else DynamicOffset e' = DynamicOffset e) \<and>
    conf (elk e') = (conf (elk e))\<lparr>shdr_num := shdr_num (conf (elk e)) + 1\<rparr>"
proof -
  define e1 where "e1 = note_offsets k xs e"
  have same: "same_lists e0 e" using w by (simp add: same_lists_def written_def)
  have w1: "written e0 base U X e1" using w written_cong [of "note_offsets k xs e" e] by (simp add: e1_def)
  let ?f = "write_section (cname (elk e0) k) (caddr (elk e0) k)"
  from write_sections [OF assms(2-5) w1 assms(7,8) lg [unfolded loggable_def]] obtain e2 where
    e2: "fold_opt ?f xs e1 = Some e2" "written e0 base U (X @ xs) e2"
      "\<And>y. y \<in> set X \<Longrightarrow> hdr_off (elk e2) y = hdr_off (elk e1) y" "xs \<noteq> [] \<Longrightarrow> hdr_off (elk e2) (hd xs) = opos e1"
      "conf (elk e2) = conf (elk e1)" "DynamicOffset e2 = DynamicOffset e1"
    by blast
  have pos: "opos e < 2 ^ 31" using w assms(7,8) by (simp add: written_def)
  have "is_dynamic (elk e) k xs = is_dynamic (elk e0) k xs"
    using same by (simp add: is_dynamic_def name_is_def same_lists_def)
  then have dyn: "DynamicOffset e1 = (if is_dynamic (elk e0) k xs then scast (tell e) else DynamicOffset e)"
    by (simp add: e1_def note_offsets_def Let_def)
  have dyn2: "if is_dynamic (elk e0) k xs then unat (DynamicOffset e2) = hdr_off (elk e2) (hd xs)
     else DynamicOffset e2 = DynamicOffset e"
    using e2(4,6) dyn pos by (auto simp: e1_def tell_def unat_scast_word_of_nat is_dynamic_def)
  have "write_raw_data k e = Some (count_shdr e2)"
    using write_raw_data_eq [OF c same] e2(1) by (simp add: e1_def)
  moreover have "conf (elk (count_shdr e2)) = (conf (elk e))\<lparr>shdr_num := shdr_num (conf (elk e)) + 1\<rparr>"
    using e2(5) by (simp add: count_shdr_def upd_conf_def e1_def)
  moreover have "hdr_off (elk (count_shdr e2)) y = hdr_off (elk e2) y" for y by (simp add: hdr_off_def)
  moreover have "hdr_off (elk e1) y = hdr_off (elk e) y" for y by (simp add: hdr_off_def e1_def)
  moreover have "if is_dynamic (elk e0) k xs then unat (DynamicOffset (count_shdr e2)) = hdr_off (elk e2) (hd xs)
     else DynamicOffset (count_shdr e2) = DynamicOffset e" using dyn2 by simp
  moreover have "written e0 base U (X @ xs) (count_shdr e2)" using e2(2) by simp
  ultimately show ?thesis using e2(3) by (intro exI [of _ "count_shdr e2"] conjI) (simp_all only:, simp)
qed

lemma write_containers:
  fixes ss
  assumes "\<forall>k \<in> set ks. container (elk e0) k (ss k) \<and> set (ss k) \<subseteq> set U \<and> loggable stop (elk e0) k (ss k)" "sections_apart (elk e0) U" "set X \<subseteq> set U"
    "distinct (X @ concat (map ss ks))" "written e0 base U X e"
    "base + sum_list (map (hdr_len (elk e0)) (X @ concat (map ss ks))) \<le> stop" "stop < 2 ^ 31"
  shows "\<exists>e'. fold_opt write_raw_data ks e = Some e' \<and> written e0 base U (X @ concat (map ss ks)) e' \<and>
    (\<forall>y \<in> set X. hdr_off (elk e') y = hdr_off (elk e) y) \<and>
    (\<forall>k \<in> set ks. is_dynamic (elk e0) k (ss k) \<longrightarrow> (\<forall>j \<in> set ks. is_dynamic (elk e0) j (ss j) \<longrightarrow> j = k) \<longrightarrow> distinct ks \<longrightarrow>
       unat (DynamicOffset e') = hdr_off (elk e') (hd (ss k))) \<and>
    ((\<forall>k \<in> set ks. \<not> is_dynamic (elk e0) k (ss k)) \<longrightarrow> DynamicOffset e' = DynamicOffset e) \<and>
    (\<exists>n. conf (elk e') = (conf (elk e))\<lparr>shdr_num := n\<rparr>)"
  using assms
proof (induction ks arbitrary: X e)
  case Nil
  show ?case using Nil.prems(5) by (auto intro: exI [of _ "shdr_num (conf (elk e))"])
next
  case (Cons k ks)
  have "container (elk e0) k (ss k)" "set (ss k) \<subseteq> set U" "distinct (X @ ss k)"
    "base + sum_list (map (hdr_len (elk e0)) (X @ ss k)) \<le> stop" "loggable stop (elk e0) k (ss k)"
    using Cons.prems by auto
  from write_container [OF this(1,2) Cons.prems(2,3) this(3) Cons.prems(5) this(4) Cons.prems(7) this(5)]
  obtain e1 where e1: "write_raw_data k e = Some e1" "written e0 base U (X @ ss k) e1"
    "\<And>y. y \<in> set X \<Longrightarrow> hdr_off (elk e1) y = hdr_off (elk e) y"
    "if is_dynamic (elk e0) k (ss k) then unat (DynamicOffset e1) = hdr_off (elk e1) (hd (ss k))
     else DynamicOffset e1 = DynamicOffset e"
    "conf (elk e1) = (conf (elk e))\<lparr>shdr_num := shdr_num (conf (elk e)) + 1\<rparr>"
    by blast
  have "\<forall>k \<in> set ks. container (elk e0) k (ss k) \<and> set (ss k) \<subseteq> set U \<and> loggable stop (elk e0) k (ss k)"
    "set (X @ ss k) \<subseteq> set U" "distinct ((X @ ss k) @ concat (map ss ks))"
    "base + sum_list (map (hdr_len (elk e0)) ((X @ ss k) @ concat (map ss ks))) \<le> stop"
    using Cons.prems by auto
  from Cons.IH [OF this(1) Cons.prems(2) this(2,3) e1(2) this(4) Cons.prems(7)] obtain e2 where
    e2: "fold_opt write_raw_data ks e1 = Some e2" "written e0 base U ((X @ ss k) @ concat (map ss ks)) e2"
    "\<And>y. y \<in> set (X @ ss k) \<Longrightarrow> hdr_off (elk e2) y = hdr_off (elk e1) y"
    "\<And>k. k \<in> set ks \<Longrightarrow> is_dynamic (elk e0) k (ss k) \<Longrightarrow> (\<forall>j \<in> set ks. is_dynamic (elk e0) j (ss j) \<longrightarrow> j = k) \<Longrightarrow>
       distinct ks \<Longrightarrow> unat (DynamicOffset e2) = hdr_off (elk e2) (hd (ss k))"
    "(\<forall>k \<in> set ks. \<not> is_dynamic (elk e0) k (ss k)) \<Longrightarrow> DynamicOffset e2 = DynamicOffset e1"
    "\<exists>n. conf (elk e2) = (conf (elk e1))\<lparr>shdr_num := n\<rparr>"
    by blast
  have off: "hdr_off (elk e2) y = hdr_off (elk e) y" if "y \<in> set X" for y using that e1(3) e2(3) by simp
  have dyn: "unat (DynamicOffset e2) = hdr_off (elk e2) (hd (ss j))"
    if j: "j \<in> set (k # ks)" "is_dynamic (elk e0) j (ss j)"
      "\<forall>i \<in> set (k # ks). is_dynamic (elk e0) i (ss i) \<longrightarrow> i = j" "distinct (k # ks)" for j
  proof (cases "j = k")
    case True
    then have "DynamicOffset e2 = DynamicOffset e1" using j by (intro e2(5)) auto
    moreover have "ss k \<noteq> []" using j(2) True by (simp add: is_dynamic_def)
    ultimately show ?thesis using True e1(4) j(2) e2(3) [of "hd (ss k)"] by simp
  next
    case False
    then have "j \<in> set ks" "distinct ks" using j(1,4) by simp_all
    moreover have "\<forall>i \<in> set ks. is_dynamic (elk e0) i (ss i) \<longrightarrow> i = j" using j(3) by (meson list.set_intros(2))
    ultimately show ?thesis using e2(4) j(2) by blast
  qed
  have nodyn: "DynamicOffset e2 = DynamicOffset e" if "\<forall>k \<in> set (k # ks). \<not> is_dynamic (elk e0) k (ss k)"
    using that e1(4) e2(5) by simp
  show ?case
  proof (intro exI conjI)
    show "fold_opt write_raw_data (k # ks) e = Some e2" using e1(1) e2(1) by simp
    show "written e0 base U (X @ concat (map ss (k # ks))) e2" using e2(2) by simp
    show "conf (elk e2) = (conf (elk e))\<lparr>shdr_num := shdr_num (conf (elk e2))\<rparr>" using e1(5) e2(6) by auto
  qed (use off dyn nodyn in blast)+
qed

text \<open>C22: the output file holds the data of every section where the header of the
  section says it is: when the sections lie apart in the memory of the linker, the
  log line of every section fits in its buffer and the file headers end before \<open>program_header_tail\<close>, \<open>gen_elf\<close> succeeds, and for
  every section of every container the bytes at its new \<open>sh_offset\<close> are the bytes
  that were to be written; \<open>PT_DYNAMIC\<close> points to the first section of
  \<open>.dynamic\<close>.\<close>

theorem output_file_holds_sections:
  fixes e ks ss
  defines "s \<equiv> elk e" and "U \<equiv> concat (map ss ks)"
  assumes ks: "opath (next_scon s) (initial_section (conf s)) ks" "\<forall>k \<in> set ks. container s k (ss k)"
    and apart: "sections_apart s U" "distinct U" and nopack: "pack (conf s) = 0"
    and room: "unat (program_header_tail (conf s)) + sum_list (map (hdr_len s) U) < 2 ^ 31"
    and log: "\<forall>k \<in> set ks. loggable (unat (program_header_tail (conf s)) + sum_list (map (hdr_len s) U)) s k (ss k)"
  shows "\<exists>e'. gen_elf e = Some e' \<and>
    (64 + 56 * length (program_headers e') + length (interp_bytes e') \<le> unat (program_header_tail (conf s)) \<longrightarrow>
      (\<forall>x \<in> set U. get_bytes (hdr_off (elk e') x) (hdr_len s x) (ofile e') = section_data s x)) \<and>
    (\<forall>k \<in> set ks. is_dynamic s k (ss k) \<longrightarrow> (\<forall>j \<in> set ks. is_dynamic s j (ss j) \<longrightarrow> j = k) \<longrightarrow>
      unat (DynamicOffset e') = hdr_off (elk e') (hd (ss k)))"
proof -
  define t where "t = unat (program_header_tail (conf s))"
  define e0 where "e0 = seek_to (program_header_tail (conf s)) (e\<lparr>ofile := \<lambda>_. 0, opos := 0\<rparr>)"
  have "t < 2 ^ 31" using room by (simp add: t_def)
  then have "sint (word_of_nat t :: u32) = int t" by (rule sint_word_of_nat_small)
  then have "sint (program_header_tail (conf s)) = int t" by (simp add: t_def)
  then have e0: "elk e0 = s" "opos e0 = t" by (simp_all add: e0_def seek_to_def s_def t_def)
  have step: "same_lists e0 e2 \<and> next_scon (elk e2) = next_scon (elk e1)"
    if "k \<in> set ks" "same_lists e0 e1" "write_raw_data k e1 = Some e2" for k e1 e2
  proof -
    have c: "container (elk e0) k (ss k)" using ks(2) that(1) e0 by simp
    have "same_lists e0 (note_offsets k (ss k) e1)" using that(2) by (simp add: same_lists_def)
    note n = this and s1 = that(2) and w2 = that(3)
    obtain e3 where e3: "e2 = count_shdr e3"
      "fold_opt (write_section (cname (elk e0) k) (caddr (elk e0) k)) (ss k) (note_offsets k (ss k) e1) = Some e3"
      using w2 by (auto simp: write_raw_data_eq [OF c s1])
    have "same_lists e0 e3" using fold_write_section_same [OF n e3(2)] .
    then have "same_lists e0 e2" by (simp add: e3(1) same_lists_def)
    then show ?thesis using that(2) by (simp add: same_lists_def next_scon_def fun_eq_iff)
  qed
  have w0: "written e0 t U [] e0" by (simp add: written_def e0)
  have "same_lists e0 e0" by (simp add: same_lists_def)
  with iter_opath_partial [where nx = "\<lambda>e. next_scon (elk e)" and P = "same_lists e0" and f = write_raw_data and s = e0
      and xs = ks and p = "initial_section (conf s)"] ks(1) step e0
  have loop: "iter (\<lambda>e. next_scon (elk e)) write_raw_data (initial_section (conf s)) e0 = fold_opt write_raw_data ks e0"
    by simp
  define stop where "stop = t + sum_list (map (hdr_len s) U)"
  have c: "\<forall>k \<in> set ks. container (elk e0) k (ss k) \<and> set (ss k) \<subseteq> set U \<and> loggable stop (elk e0) k (ss k)"
    using ks(2) e0 log by (auto simp: U_def stop_def t_def)
  have d: "distinct ([] @ concat (map ss ks))" using apart(2) by (simp add: U_def)
  have r: "t + sum_list (map (hdr_len (elk e0)) ([] @ concat (map ss ks))) \<le> stop" "stop < 2 ^ 31"
    using room e0 by (simp_all add: U_def t_def stop_def)
  have z: "set [] \<subseteq> set U" by simp
  have ap: "sections_apart (elk e0) U" using apart(1) e0 by simp
  obtain e1 where e1: "fold_opt write_raw_data ks e0 = Some e1" "written e0 t U U e1"
    "\<forall>k \<in> set ks. is_dynamic (elk e0) k (ss k) \<longrightarrow> (\<forall>j \<in> set ks. is_dynamic (elk e0) j (ss j) \<longrightarrow> j = k) \<longrightarrow>
       distinct ks \<longrightarrow> unat (DynamicOffset e1) = hdr_off (elk e1) (hd (ss k))"
    "\<exists>n. conf (elk e1) = (conf (elk e0))\<lparr>shdr_num := n\<rparr>"
    using write_containers [OF c ap z d w0 r] unfolding U_def append_Nil by blast
  define w where "w = write_elf_header (seek_to 0 e1)"
  have w: "elk w = elk e1" "opos w = 64" "ofile w = put_bytes 0 (enc_ehdr (elf_header (seek_to 0 e1))) (ofile e1)"
    "DynamicOffset w = DynamicOffset e1"
    by (simp_all add: w_def write_elf_header_def seek_to_def length_enc_elf_header)
  have "pack (conf (elk w)) = 0" using nopack e1(4) w e0 by auto
  note wr = write_fixed_program_header_bytes [OF this]
  define e' where "e' = fwrite (concat (map enc_phdr (program_headers w)) @ interp_bytes w) w"
  have run: "gen_elf e = Some e'"
    using loop e1(1) wr by (simp add: gen_elf_def Let_def s_def [symmetric] e0_def [symmetric] e0 w_def e'_def)
  have hs: "program_headers w = program_headers e'" "interp_bytes w = interp_bytes e'"
    unfolding program_headers_def interp_bytes_def e'_def fwrite_fields by (rule refl)+
  have elk: "elk e' = elk e1" "DynamicOffset e' = DynamicOffset e1" by (simp_all add: e'_def w)
  have "ofile e' = put_bytes 64 (concat (map enc_phdr (program_headers e')) @ interp_bytes e') (ofile w)"
    unfolding hs [symmetric] by (simp add: e'_def w(2))
  then have above: "get_bytes a n (ofile e') = get_bytes a n (ofile e1)"
    if "64 + 56 * length (program_headers e') + length (interp_bytes e') \<le> a" for a n
    using that by (simp add: w(3) length_concat_phdrs length_enc_elf_header get_put_bytes_other)
  have "get_bytes (hdr_off (elk e') x) (hdr_len s x) (ofile e') = section_data s x"
    if "64 + 56 * length (program_headers e') + length (interp_bytes e') \<le> t" "x \<in> set U" for x
  proof -
    have "t \<le> hdr_off (elk e') x" "get_bytes (hdr_off (elk e') x) (hdr_len s x) (ofile e1) = section_data s x"
      using that(2) e1(2) by (simp_all add: written_def elk(1) e0(1))
    then show ?thesis using above [of "hdr_off (elk e') x"] that(1) by simp
  qed
  note data = this
  have "distinct ks" using ks(1) path_distinct by (auto simp: opath_def split: option.splits)
  note dyn = e1(3) [unfolded e0(1), rule_format, OF _ _ _ this, folded elk(1)]
  show ?thesis
  proof (intro exI conjI impI ballI)
    show "gen_elf e = Some e'" by (rule run)
  next
    fix x assume "64 + 56 * length (program_headers e') + length (interp_bytes e') \<le> unat (program_header_tail (conf s))" "x \<in> set U"
    then show "get_bytes (hdr_off (elk e') x) (hdr_len s x) (ofile e') = section_data s x"
      by (intro data) (simp_all add: t_def)
  next
    fix k assume k: "k \<in> set ks" "is_dynamic s k (ss k)" "\<forall>j \<in> set ks. is_dynamic s j (ss j) \<longrightarrow> j = k"
    then show "unat (DynamicOffset e') = hdr_off (elk e') (hd (ss k))" unfolding elk(2) by (intro dyn) blast+
  qed
qed


text \<open>Two containers: the null one and \<open>.dynamic\<close> with one section of two bytes.\<close>

definition emit0 :: emit where
  "emit0 = \<lparr>elk = zero_lst\<lparr>conf := zero_conf\<lparr>program_header_num := 3, program_header_tail := 0x200, no_interp := 1\<rparr>,
       scons := (\<lambda>k. zero_scon\<lparr>scon_next := (if k = 0 then Some 1 else None), scon_init := (if k = 1 then Some 0 else None),
         scon_name := Some (ascii ''.dynamic'')\<rparr>),
       schs := (\<lambda>_. zero_sch\<lparr>sch_p := 0x1000\<rparr>),
       lmem := put_bytes 0x2000 [7, 8] (put64 (0x1000 + 0x20) 2 (put64 (0x1000 + 0x18) 0x2000 (\<lambda>_. 0)))\<rparr>,
     ofile = (\<lambda>_. 0), opos = 0, DynamicOffset = 0, GnuPropertyOffset = 0\<rparr>"

lemma emit0_sections:
  "opath (next_scon (elk emit0)) (initial_section (conf (elk emit0))) [0, 1]"
  "container (elk emit0) 0 []" "container (elk emit0) 1 [0]" "is_dynamic (elk emit0) 1 [0]"
  "hdr_off (elk emit0) 0 = 0x2000" "hdr_len (elk emit0) 0 = 2" "section_data (elk emit0) 0 = [7, 8]"
proof -
  show o: "hdr_off (elk emit0) 0 = 0x2000" and l: "hdr_len (elk emit0) 0 = 2"
    unfolding hdr_off_def hdr_len_def by (simp_all add: emit0_def mem_simps del: put_bytes.simps)
  show "section_data (elk emit0) 0 = [7, 8]"
    using get_put_bytes [where a = "0x2000" and bs = "[7, 8]"]
    unfolding section_data_def o l by (simp add: emit0_def numeral_2_eq_2 del: put_bytes.simps)
qed (simp_all add: container_def opath_def is_dynamic_def name_is_def next_scon_def this_sch_def emit0_def zero_defs ascii_def)

lemma output_file_holds_sections_witness:
  "\<exists>e'. gen_elf emit0 = Some e' \<and> unat (DynamicOffset e') = hdr_off (elk e') 0"
proof -
  have h: "hex_len 0x1020 = 4" "hex_len 0x202 = 3" "hex_len 2 = 1" by (simp_all add: hex_len.simps)
  have "loggable 0x202 (elk emit0) 1 [0]"
    by (simp add: loggable_def emit0_sections log_fits_def ptr_len_def)
      (simp add: emit0_def cname_def caddr_def zero_defs ascii_def MAX_NAME_def h)
  moreover have "sections_apart (elk emit0) [0]"
    by (simp add: sections_apart_def headers_apart_def emit0_sections) (simp add: emit0_def)
  moreover have "loggable n (elk emit0) 0 []" for n by (simp add: loggable_def)
  moreover have "unat (program_header_tail (conf (elk emit0))) = 0x200" by (simp add: emit0_def)
  ultimately show ?thesis
    using output_file_holds_sections [of emit0 "[0, 1]" "\<lambda>k. if k = 1 then [0] else []"] emit0_sections
    by (auto simp: emit0_def zero_defs is_dynamic_def)
qed

lemma output_headers_read_back_witness:
  "\<exists>e'. gen_elf (upd_elk (upd_conf (\<lambda>c. c\<lparr>initial_section := None\<rparr>)) emit0) = Some e' \<and>
     e_phnum (rd_ehdr 0 (ofile e')) = 3 \<and> p_type (rd_phdr (64 + 56 * 1) (ofile e')) = PT_LOAD"
proof -
  let ?e = "upd_elk (upd_conf (\<lambda>c. c\<lparr>initial_section := None\<rparr>)) emit0"
  let ?w = "write_elf_header (seek_to 0 (seek_to 0x200 (?e\<lparr>ofile := \<lambda>_. 0, opos := 0\<rparr>)))"
  have "pack (conf (elk ?w)) = 0" by (simp add: write_elf_header_def seek_to_def upd_conf_def emit0_def zero_defs)
  note w = write_fixed_program_header_bytes [OF this]
  define e' where "e' = fwrite (concat (map enc_phdr (program_headers ?w)) @ interp_bytes ?w) ?w"
  have "iter (\<lambda>e. next_scon (elk e)) write_raw_data (initial_section (conf (elk ?e))) e1 = Some e1" for e1
    by (simp add: iter_def upd_conf_def)
  then have g: "gen_elf ?e = Some e'"
    using w by (simp add: gen_elf_def Let_def e'_def) (simp add: seek_to_def upd_conf_def emit0_def)
  have c: "conf (elk e') = conf (elk ?e)"
    by (simp add: e'_def write_elf_header_def seek_to_def)
  have "program_headers e' ! 1 = LOAD_header (conf (elk e'))" "1 < length (program_headers e')" "elf_header e' = elf_header ?e"
    by (simp_all add: program_headers_def elf_header_def c Let_def) (simp_all add: upd_conf_def emit0_def)
  with output_headers_read_back [OF g] g show ?thesis
    by (auto simp: elf_header_def LOAD_header_def upd_conf_def emit0_def)
qed

end
