(* ===== verification/Zld.thy ===== *)
theory Zld
  imports ElfEmit
begin

text \<open>
  \<open>tools/zld.c\<close>: the command line of the linker, its default configuration and the
  order in which the parts of the ELF linker run.  The static \<open>config\<close> is a
  \<open>Config\<close> and the fields of it that only this file uses; the vector of input
  files is the list \<open>obj_files\<close>.  Usage text and log output are left out, and so
  is \<open>main\<close>'s loop over the input files, whose readers are assembly code.
\<close>

definition ELF32 :: u8 where "ELF32 = 1"
definition ELF64 :: u8 where "ELF64 = 2"
definition COFF_I386 :: u8 where "COFF_I386 = 7"
definition COFF_AMD64 :: u8 where "COFF_AMD64 = 8"
definition ET_EXEC :: u8 where "ET_EXEC = 2"
definition ET_DYN :: u8 where "ET_DYN = 3"
definition PE_EXEC :: u8 where "PE_EXEC = 2"
definition PE_DLL :: u8 where "PE_DLL = 3"

record zld =
  cfg :: Config
  verbose :: u8
  nopie :: u8
  keep_gnu_property :: u8
  use_gnu_hash :: u8
  outfile_name :: "cstr option"
  interp_arg :: "cstr option"
  obj_files :: "cstr list"
  get_obj :: bool
  get_obj_done :: bool

definition upd_cfg :: "(Config \<Rightarrow> Config) \<Rightarrow> zld \<Rightarrow> zld" where
  "upd_cfg f z = z\<lparr>cfg := f (cfg z)\<rparr>"

subsection \<open>The command line\<close>

text \<open>\<open>argv[n]\<close>: null behind the last argument.\<close>

definition arg :: "cstr list \<Rightarrow> nat \<Rightarrow> cstr option" where
  "arg argv n = (if n < length argv then Some (argv ! n) else None)"

definition is_arg :: "cstr \<Rightarrow> string \<Rightarrow> bool" where
  "is_arg s t = (z_strcmp s (ascii t) = 0)"

text \<open>\<open>-o\<close>: the type of the output from what follows the first dot of its name; the
  loop that looks for the dot has no other end, so a name without one is read
  past its end (\<open>None\<close>).\<close>

definition suffix_type :: "cstr \<Rightarrow> u8 option" where
  "suffix_type nm = (let s = dropWhile (\<lambda>c. c \<noteq> 0x2e) nm in
     if s = [] then None
     else if is_arg s ''.so'' then Some ET_DYN
     else if is_arg s ''.o'' then Some ET_DYN
     else if is_arg s ''.dll'' then Some PE_DLL
     else if is_arg s ''.exe'' then Some PE_EXEC
     else Some ET_DYN)"

definition format_of :: "cstr \<Rightarrow> Config \<Rightarrow> Config" where
  "format_of s c =
     (if is_arg s ''win32'' then c\<lparr>file_format := COFF_I386\<rparr>
      else if is_arg s ''win64'' then c\<lparr>file_format := COFF_AMD64\<rparr>
      else if is_arg s ''elf32'' then c\<lparr>file_format := ELF32\<rparr>
      else if is_arg s ''elf64'' then c\<lparr>file_format := ELF64\<rparr>
      else c)"

text \<open>One turn of the loop: the new \<open>i\<close> (before the \<open>i++\<close> of the loop) and state.\<close>

definition read_arg :: "cstr list \<Rightarrow> u8 \<Rightarrow> zld \<Rightarrow> (u8 \<times> zld) option" where
  "read_arg argv i z = do {
     a \<leftarrow> arg argv (unat i);
     let b = arg argv (unat i + 1);
     let opt = (\<lambda>(i, z). Some (i, if get_obj z then z\<lparr>get_obj_done := True\<rparr> else z));
     if is_arg a ''-v'' then opt (i, z\<lparr>verbose := 1\<rparr>)
     else if is_arg a ''-o'' then do {
       nm \<leftarrow> b;
       t \<leftarrow> suffix_type nm;
       opt (i + 1, upd_cfg (\<lambda>c. c\<lparr>outfile_type := t\<rparr>) (z\<lparr>outfile_name := Some nm\<rparr>))
     }
     else if is_arg a ''-p'' then opt (i, upd_cfg (\<lambda>c. c\<lparr>pack := 1\<rparr>) z)
     else if is_arg a ''-nodynamic'' then opt (i, upd_cfg (\<lambda>c. c\<lparr>nodynamic := 1\<rparr>) z)
     else if is_arg a ''-l'' then opt (i + 1, upd_cfg (\<lambda>c. c\<lparr>dynlib := Some (drop (unat i + 1) argv)\<rparr>) z)
     else if is_arg a ''-use-dt-hash'' then opt (i, upd_cfg (\<lambda>c. c\<lparr>use_dt_hash := 1\<rparr>) z)
     else if is_arg a ''-no-pie'' then opt (i, z\<lparr>nopie := 1\<rparr>)
     else if is_arg a ''-f'' then do {
       f \<leftarrow> b;
       opt (i + 1, upd_cfg (format_of f) z)
     }
     else if is_arg a ''-ib'' then opt (i + 1, z)
     else if is_arg a ''-nointerp'' then opt (i, upd_cfg (\<lambda>c. c\<lparr>no_interp := 1\<rparr>) z)
     else if is_arg a ''-interp-name'' then opt (i + 1, z\<lparr>interp_arg := b\<rparr>)
     else if is_arg a ''-ef'' then opt (i + 1, upd_cfg (\<lambda>c. c\<lparr>entry_function_name := b\<rparr>) z)
     else if is_arg a ''-keep-gnu-property'' then opt (i + 1, z\<lparr>keep_gnu_property := 1\<rparr>)
     else if \<not> get_obj_done z then Some (i, z\<lparr>get_obj := True, obj_files := obj_files z @ [a]\<rparr>)
     else opt (i, z)
   }"

text \<open>The loop counts in a \<open>uint8_t\<close>: with more than 255 arguments it does not end.\<close>

partial_function (option) read_args :: "cstr list \<Rightarrow> u8 \<Rightarrow> zld \<Rightarrow> zld option" where
  [code]: "read_args argv i z =
     (if unat i < length argv
      then Option.bind (read_arg argv i z) (\<lambda>r. read_args argv (fst r + 1) (snd r))
      else Some z)"

text \<open>The inner option is the null pointer that is returned without arguments.\<close>

definition read_cmdline :: "cstr list \<Rightarrow> zld \<Rightarrow> (cstr list option \<times> zld) option" where
  "read_cmdline argv z =
     (if length argv = 1 then Some (None, z)
      else do {
        z \<leftarrow> read_args argv 1 (z\<lparr>obj_files := [], get_obj := False, get_obj_done := False\<rparr>);
        Some (Some (obj_files z),
              if file_format (cfg z) = 0 then upd_cfg (\<lambda>c. c\<lparr>file_format := ELF64\<rparr>) z else z)
      })"

subsection \<open>Default configuration\<close>

definition hash_defaults :: "Config \<Rightarrow> Config" where
  "hash_defaults c = c\<lparr>hash_table_param := \<lparr>htp_nbucket = 1, htp_bloom_size = 2, htp_bloom_shift = 5\<rparr>\<rparr>"

definition set_coff_default_config :: "zld \<Rightarrow> zld" where
  "set_coff_default_config z =
     (let z = (if outfile_type (cfg z) = 0 then upd_cfg (\<lambda>c. c\<lparr>outfile_type := PE_EXEC\<rparr>) z else z);
          z = (if outfile_name z = None then z\<lparr>outfile_name := Some (ascii ''a.exe'')\<rparr> else z);
          z = upd_cfg (\<lambda>c. c\<lparr>base_address := (if outfile_type c = PE_DLL then 0 else 0x40000)\<rparr>) z;
          z = upd_cfg hash_defaults z;
          z = (if use_dt_hash (cfg z) = 0 then z\<lparr>use_gnu_hash := 1\<rparr> else z)
      in upd_cfg (\<lambda>c. c\<lparr>virtual_address_offset := 0x1000, shdr_num := 1,
           entry_address := (if entry_address c = 0 then 0x1000 else entry_address c), use_dt_hash := 1\<rparr>) z)"

definition default_ld_name :: cstr where
  "default_ld_name = ascii ''/lib64/ld-linux-x86-64.so.3''"

definition set_elf_default_config :: "zld \<Rightarrow> zld" where
  "set_elf_default_config z =
     (let z = (if outfile_type (cfg z) = 0 then upd_cfg (\<lambda>c. c\<lparr>outfile_type := ET_EXEC\<rparr>) z else z);
          z = (if outfile_name z = None then z\<lparr>outfile_name := Some (ascii ''a.out'')\<rparr> else z);
          z = (if outfile_type (cfg z) = ET_DYN then upd_cfg (\<lambda>c. c\<lparr>base_address := 0\<rparr>) z
               else if base_address (cfg z) = 0 then upd_cfg (\<lambda>c. c\<lparr>base_address := 0\<rparr>) z else z);
          z = upd_cfg (\<lambda>c. c\<lparr>program_header_num := 3, program_header_tail := 64 + 3 * 56\<rparr>) z;
          z = (if no_interp (cfg z) \<noteq> 0 then z
               else let z = upd_cfg (\<lambda>c. c\<lparr>program_header_num := program_header_num c + 1,
                           program_header_tail := program_header_tail c + 56\<rparr>) z;
                        z = (if interp_arg z = None then z\<lparr>interp_arg := Some default_ld_name\<rparr> else z);
                        nm = the (interp_arg z)
                    in upd_cfg (\<lambda>c. c\<lparr>interp_name := nm,
                         program_header_tail := program_header_tail c + of_nat (z_strlen nm + 1)\<rparr>) z);
          z = upd_cfg (\<lambda>c. c\<lparr>dynamic_entry_num := (if nodynamic c \<noteq> 0 then 1 else 13),
                output_vaddr_alignment := 0, shdr_num := 0\<rparr>) z;
          z = upd_cfg hash_defaults z
      in if use_dt_hash (cfg z) = 0 then z\<lparr>use_gnu_hash := 1\<rparr> else z)"

subsection \<open>The ELF linker\<close>

definition do_elf_task :: "dyn \<Rightarrow> emit option" where
  "do_elf_task d = do {
     let d = upd_lk (upd_conf (\<lambda>c. c\<lparr>virtual_address_offset := base_address c + program_header_tail c\<rparr>)) d;
     let d = upd_lk (upd_conf (\<lambda>c. c\<lparr>entry_address :=
               (if entry_address c = 0 then scast (virtual_address_offset c) else entry_address c)\<rparr>)) d;
     d \<leftarrow> add_pltgot_sc 7 (ascii ''.plt.got'') d;
     d \<leftarrow> lift_lk (iterate_section_container elf_set_virtual_address) d;
     d \<leftarrow> add_dynamic d;
     d \<leftarrow> add_dt_needed d;
     d \<leftarrow> iter (\<lambda>d. next_obj (lk d)) add_export_symbol (initial_object (conf (lk d))) d;
     d \<leftarrow> iter (\<lambda>d. next_obj (lk d)) elf_do_reloc (initial_object (conf (lk d))) d;
     d \<leftarrow> set_dynanmic d;
     gen_elf \<lparr>elk = lk d, ofile = (\<lambda>_. 0), opos = 0, DynamicOffset = 0, GnuPropertyOffset = 0\<rparr>
   }"

text \<open>\<open>strstr\<close> of this file compares up to the end of both strings, so it finds
  only a suffix, and it returns the end of the match.\<close>

fun same_rest :: "cstr \<Rightarrow> cstr \<Rightarrow> bool" where
  "same_rest (a # s) (b # t) = (a = b \<and> same_rest s t)"
| "same_rest [] [] = True"
| "same_rest s t = False"

fun strstr :: "cstr \<Rightarrow> cstr \<Rightarrow> nat option" where
  "strstr [] t = None"
| "strstr (c # s) t = (if c = hdz t \<and> same_rest (c # s) t then Some (length (c # s))
     else map_option Suc (strstr s t))"

subsection \<open>The default configuration leaves room for the headers\<close>

lemma z_strlen_length: "nul_free s \<Longrightarrow> z_strlen s = length s"
  by (induction s) simp_all

lemma upd_cfg_fields [simp]:
  "cfg (upd_cfg f z) = f (cfg z)" "outfile_name (upd_cfg f z) = outfile_name z" "interp_arg (upd_cfg f z) = interp_arg z"
  "obj_files (upd_cfg f z) = obj_files z" "get_obj (upd_cfg f z) = get_obj z" "get_obj_done (upd_cfg f z) = get_obj_done z"
  "use_gnu_hash (upd_cfg f z) = use_gnu_hash z" "verbose (upd_cfg f z) = verbose z" "nopie (upd_cfg f z) = nopie z"
  by (simp_all add: upd_cfg_def)

lemma set_elf_default_config_fields:
  defines "c z \<equiv> cfg (set_elf_default_config z)"
  shows "no_interp (c z) = no_interp (cfg z)" "has_gnu_property (c z) = has_gnu_property (cfg z)" "file_format (c z) = file_format (cfg z)"
    "program_header_num (c z) = (if no_interp (cfg z) \<noteq> 0 then 3 else 4)"
    "interp_name (c z) = (if no_interp (cfg z) \<noteq> 0 then interp_name (cfg z) else case interp_arg z of Some n \<Rightarrow> n | None \<Rightarrow> default_ld_name)"
    "program_header_tail (c z) = (if no_interp (cfg z) \<noteq> 0 then 64 + 3 * 56 else 64 + 4 * 56 + of_nat (z_strlen (interp_name (c z)) + 1))"
  unfolding c_def
  by (simp_all add: set_elf_default_config_def Let_def upd_cfg_def hash_defaults_def split: option.splits)

text \<open>What the linker decided about the headers; linking changes other fields of the
  configuration, \<open>count_gnu_property\<close> these.\<close>

definition header_layout :: "Config \<Rightarrow> u8 \<times> cstr \<times> u32 \<times> u32 \<times> u8 \<times> u8" where
  "header_layout c = (no_interp c, interp_name c, program_header_num c, program_header_tail c, has_gnu_property c, file_format c)"

text \<open>C24: the default configuration reserves the room that the file headers take.
  When \<open>gen_elf\<close> has written the headers of a link in which the layout of the
  headers was set by \<open>set_elf_default_config\<close> and, with a \<open>.note.gnu.property\<close> section
  in a 64-bit input (\<open>g\<close>), by \<open>count_gnu_property\<close>, then \<open>program_header_num\<close> is the
  number of program headers it wrote, and the position in the file, behind the
  headers and the name of the interpreter, is \<open>program_header_tail\<close>, where the data
  of the sections begins; with the note it is 56 bytes before.  The linker hangs
  when \<open>pack\<close> is set, so \<open>gen_elf\<close> does not return then.\<close>

theorem default_config_fits_headers:
  fixes z s e e' g
  defines "c \<equiv> cfg (set_elf_default_config z)"
    and "note_seen \<equiv> (\<lambda>s. if g then count_gnu_property (ascii ''.note.gnu.property'') s else s)"
  assumes init: "has_gnu_property (cfg z) = 0" "file_format (cfg z) = 2"
    and name: "nul_free (interp_name c)" "length (interp_name c) < 2 ^ 30"
    and start: "header_layout (conf s) = header_layout c"
    and seen: "header_layout (conf (elk e)) = header_layout (conf (note_seen s))"
    and run: "gen_elf e = Some e'" and gnu: "GnuPropertyOffset e' \<noteq> 0 \<longleftrightarrow> g"
  shows "opos e' = 64 + 56 * unat (program_header_num (conf (elk e'))) + length (interp_bytes e') \<and>
    opos e' + (if g then 56 else 0) = unat (program_header_tail (conf (elk e)))"
proof -
  note f = set_elf_default_config_fields [of z, folded c_def]
  obtain w n where w: "conf (elk w) = (conf (elk e))\<lparr>shdr_num := n\<rparr>" "opos w = 64" "write_fixed_program_header w = Some e'"
    by (rule gen_elf_keeps_conf [OF run])
  note h = headers_end [OF w(3), unfolded w(1,2)]
  have kept: "program_header_num (conf (elk e')) = program_header_num (conf (elk e))" "no_interp (conf (elk e')) = no_interp (conf (elk e))"
    "interp_name (conf (elk e')) = interp_name (conf (elk e))" by (simp_all add: h(1) w(1))
  have r: "z_strcmp (ascii ''.note.gnu.property'') (ascii ''.note.gnu.property'') = 0"
    by (rule z_strcmp_refl) (simp add: ascii_def)
  have seen': "no_interp (conf (elk e)) = no_interp c" "interp_name (conf (elk e)) = interp_name c"
    "program_header_num (conf (elk e)) = program_header_num c + (if g then 1 else 0)"
    "program_header_tail (conf (elk e)) = program_header_tail c + (if g then 112 else 0)"
    using seen start r init f(2,3) by (cases g; simp add: note_seen_def header_layout_def count_gnu_property_def upd_conf_def)+
  have len: "length (interp_bytes e') = (if no_interp c \<noteq> 0 then 0 else length (interp_name c) + 1)"
    by (simp add: interp_bytes_def kept seen')
  define N where "N = length (interp_bytes e') + (64 + 56 * unat (program_header_num c) + (if g then 112 else 0))"
  have "program_header_tail (conf (elk e)) = of_nat N"
    using name(1) by (cases g; cases "no_interp (cfg z) = 0") (simp_all add: N_def len seen'(4) f(1,4,6) z_strlen_length)
  moreover have "N < 2 ^ 32" using name(2) by (simp add: N_def f(4) len)
  ultimately have tail: "unat (program_header_tail (conf (elk e))) = N" by (simp add: unsigned_of_nat take_bit_nat_eq_self)
  have num: "unat (program_header_num (conf (elk e'))) = unat (program_header_num c) + (if g then 1 else 0)"
    by (simp add: kept seen'(3) f(4))
  have "length (program_headers e') = unat (program_header_num (conf (elk e')))"
    unfolding num using gnu f(1,4) by (cases g) (simp_all add: program_headers_def Let_def kept seen')
  then have "opos e' = 64 + 56 * unat (program_header_num (conf (elk e'))) + length (interp_bytes e')" using h(3) by simp
  then show ?thesis unfolding tail N_def num by (cases g) simp_all
qed

definition zld0 :: zld where
  "zld0 = \<lparr>cfg = zero_conf, verbose = 0, nopie = 0, keep_gnu_property = 0, use_gnu_hash = 0,
    outfile_name = None, interp_arg = None, obj_files = [], get_obj = False, get_obj_done = False\<rparr>"

text \<open>A link of nothing, and one of an input with a note of no bytes.\<close>

definition no_input :: lst where
  "no_input = zero_lst\<lparr>conf := (cfg (set_elf_default_config zld0))\<lparr>initial_section := None\<rparr>\<rparr>"

definition note_input :: lst where
  "note_input = count_gnu_property (ascii ''.note.gnu.property'')
     (zero_lst\<lparr>conf := cfg (set_elf_default_config zld0),
        scons := (\<lambda>_. zero_scon\<lparr>scon_init := Some 0, scon_name := Some (ascii ''.note.gnu.property'')\<rparr>),
        schs := (\<lambda>_. zero_sch\<lparr>sch_p := 0x10\<rparr>), lmem := (\<lambda>_. 0)\<rparr>)"

lemma zld0_config:
  defines "c \<equiv> cfg (set_elf_default_config zld0)"
  shows "has_gnu_property c = 0" "file_format c = 2" "interp_name c = default_ld_name" "no_interp c = 0" "pack c = 0"
    "program_header_tail c = 0x13c" "initial_section c = Some 0"
proof -
  note f = set_elf_default_config_fields [of zld0, folded c_def]
  have z: "has_gnu_property (cfg zld0) = 0" "file_format (cfg zld0) = 2" "no_interp (cfg zld0) = 0" "interp_arg zld0 = None"
    by (simp_all add: zld0_def zero_defs)
  show c: "has_gnu_property c = 0" "file_format c = 2" "interp_name c = default_ld_name" "no_interp c = 0"
    using f z by simp_all
  have "nul_free default_ld_name" "length default_ld_name = 27" by (simp_all add: default_ld_name_def ascii_def)
  then show "program_header_tail c = 0x13c" using f(6) z c(3) by (simp add: z_strlen_length)
  show "pack c = 0" "initial_section c = Some 0"
    unfolding c_def by (simp_all add: set_elf_default_config_def Let_def upd_cfg_def hash_defaults_def zld0_def zero_defs)
qed

lemma gen_elf_returns:
  assumes "iter (\<lambda>e. next_scon (elk e)) write_raw_data (initial_section (conf (elk e)))
      (seek_to (program_header_tail (conf (elk e))) (e\<lparr>ofile := \<lambda>_. 0, opos := 0\<rparr>)) = Some e1" "pack (conf (elk e1)) = 0"
  shows "\<exists>e'. gen_elf e = Some e' \<and> GnuPropertyOffset e' = GnuPropertyOffset e1"
proof -
  let ?w = "write_elf_header (seek_to 0 e1)"
  have w: "pack (conf (elk ?w)) = 0" "GnuPropertyOffset ?w = GnuPropertyOffset e1"
    using assms(2) by (simp_all add: write_elf_header_def seek_to_def)
  obtain e' where e': "write_fixed_program_header ?w = Some e'"
    using write_fixed_program_header_bytes [OF w(1)] by blast
  have l: "(e\<lparr>ofile := f, opos := n\<rparr>)\<lparr>elk := x\<rparr> = e\<lparr>ofile := f, opos := n, elk := x\<rparr>" for f n x by simp
  have "elk (e\<lparr>ofile := \<lambda>_. 0, opos := 0\<rparr>) = elk e" "elk (seek_to t (e\<lparr>ofile := \<lambda>_. 0, opos := 0\<rparr>)) = elk e" for t
    by (simp_all add: seek_to_def)
  then have "gen_elf e = Some e'" using assms(1) e' by (simp add: gen_elf_def)
  then show ?thesis using headers_end(2) [OF e'] w(2) by auto
qed

lemma default_config_fits_headers_witness:
  "(\<exists>e'. gen_elf (emit0\<lparr>elk := no_input\<rparr>) = Some e' \<and> opos e' = 0x13c) \<and>
   (\<exists>e'. gen_elf (emit0\<lparr>elk := note_input\<rparr>) = Some e' \<and> opos e' = 0x174)"
proof
  let ?c = "cfg (set_elf_default_config zld0)"
  note c = zld0_config
  have z: "has_gnu_property (cfg zld0) = 0" "file_format (cfg zld0) = 2" by (simp_all add: zld0_def zero_defs)
  have nm: "nul_free (interp_name ?c)" "length (interp_name ?c) < 2 ^ 30"
    by (simp_all add: c default_ld_name_def ascii_def)
  note fits = default_config_fits_headers [OF z nm]
  let ?e = "emit0\<lparr>elk := no_input\<rparr>" and ?e1 = "seek_to 0x13c (emit0\<lparr>elk := no_input, ofile := \<lambda>_. 0, opos := 0\<rparr>)"
  have "iter (\<lambda>e. next_scon (elk e)) write_raw_data (initial_section (conf (elk ?e)))
      (seek_to (program_header_tail (conf (elk ?e))) (?e\<lparr>ofile := \<lambda>_. 0, opos := 0\<rparr>)) = Some ?e1"
    by (simp add: iter_def no_input_def c)
  from gen_elf_returns [OF this] obtain e' where e': "gen_elf ?e = Some e'" "GnuPropertyOffset e' = 0"
    by (auto simp: seek_to_def no_input_def c emit0_def)
  have "opos e' = 0x13c"
    using fits [of "zero_lst\<lparr>conf := ?c\<rparr>" ?e False e'] e' by (simp add: header_layout_def no_input_def c)
  with e' show "\<exists>e'. gen_elf ?e = Some e' \<and> opos e' = 0x13c" by blast
next
  let ?c = "cfg (set_elf_default_config zld0)"
  note c = zld0_config
  have z: "has_gnu_property (cfg zld0) = 0" "file_format (cfg zld0) = 2" by (simp_all add: zld0_def zero_defs)
  have nm: "nul_free (interp_name ?c)" "length (interp_name ?c) < 2 ^ 30"
    by (simp_all add: c default_ld_name_def ascii_def)
  note fits = default_config_fits_headers [OF z nm]
  have r: "z_strcmp (ascii ''.note.gnu.property'') (ascii ''.note.gnu.property'') = 0"
    by (rule z_strcmp_refl) (simp add: ascii_def)
  let ?e = "emit0\<lparr>elk := note_input\<rparr>"
  define e0 where "e0 = ?e\<lparr>ofile := \<lambda>_. 0, opos := 0x1ac\<rparr>"
  have conf: "conf note_input = ?c\<lparr>has_gnu_property := 1, program_header_num := program_header_num ?c + 1, program_header_tail := 0x1ac\<rparr>"
    using r by (simp add: note_input_def count_gnu_property_def upd_conf_def c)
  have st: "scons note_input = (\<lambda>_. zero_scon\<lparr>scon_init := Some 0, scon_name := Some (ascii ''.note.gnu.property'')\<rparr>)"
    "schs note_input = (\<lambda>_. zero_sch\<lparr>sch_p := 0x10\<rparr>)" "lmem note_input = (\<lambda>_. 0)"
    using r by (simp_all add: note_input_def count_gnu_property_def upd_conf_def c)
  have k: "container (elk e0) 0 [0]" by (simp add: container_def opath_def this_sch_def e0_def st zero_defs)
  have n: "note_offsets 0 [0] e0 = e0\<lparr>GnuPropertyOffset := 0x1ac\<rparr>"
    using r by (simp add: note_offsets_def is_dynamic_def name_is_def e0_def st tell_def zero_defs ascii_def)
  have h: "hex_len 0x30 = 2" "hex_len 0x1ac = 3" by (simp_all add: hex_len.simps)
  have get0: "get64 a (\<lambda>_. 0) = 0" for a by (simp add: get64_def get_bytes_def map_replicate_const of_le64_def of_le32_def numeral_eq_Suc)
  have "\<exists>e1. write_section (cname (elk e0) 0) (caddr (elk e0) 0) 0 (e0\<lparr>GnuPropertyOffset := 0x1ac\<rparr>) = Some e1 \<and>
      GnuPropertyOffset e1 = 0x1ac \<and> conf (elk e1) = conf note_input \<and> scons (elk e1) = scons note_input"
    by (simp add: write_section_def e0_def st zero_defs cname_def caddr_def log_len_def ptr_len_def MAX_NAME_def tell_def
        ascii_def h get0 upd_mem_def)
  then obtain e1 where e1: "write_section (cname (elk e0) 0) (caddr (elk e0) 0) 0 (e0\<lparr>GnuPropertyOffset := 0x1ac\<rparr>) = Some e1"
    "GnuPropertyOffset e1 = 0x1ac" "conf (elk e1) = conf note_input" "scons (elk e1) = scons note_input" by blast
  have "write_raw_data 0 e0 = Some (count_shdr e1)"
    using write_raw_data_eq [OF k] e1(1) n by (simp add: same_lists_def)
  moreover have "seek_to 0x1ac (?e\<lparr>ofile := \<lambda>_. 0, opos := 0\<rparr>) = e0" by (simp add: seek_to_def e0_def)
  ultimately have "iter (\<lambda>e. next_scon (elk e)) write_raw_data (initial_section (conf (elk ?e)))
      (seek_to (program_header_tail (conf (elk ?e))) (?e\<lparr>ofile := \<lambda>_. 0, opos := 0\<rparr>)) = Some (count_shdr e1)"
    using e1(4) by (simp add: iter_def conf c) (subst iter_from.simps, simp add: next_scon_def st zero_defs)
  from gen_elf_returns [OF this] obtain e' where e': "gen_elf ?e = Some e'" "GnuPropertyOffset e' = 0x1ac"
    using e1(2,3) by (auto simp: count_shdr_conf conf c)
  have "opos e' = 0x174"
    using fits [of "zero_lst\<lparr>conf := ?c\<rparr>" ?e True e'] e' r
    by (simp add: header_layout_def conf c count_gnu_property_def upd_conf_def)
  with e'(1) show "\<exists>e'. gen_elf ?e = Some e' \<and> opos e' = 0x174" by blast
qed

subsection \<open>Input files on the command line\<close>

definition plain :: "cstr \<Rightarrow> bool" where
  "plain a \<longleftrightarrow> (\<forall>t \<in> set [''-v'', ''-o'', ''-p'', ''-nodynamic'', ''-l'', ''-use-dt-hash'', ''-no-pie'', ''-f'', ''-ib'',
     ''-nointerp'', ''-interp-name'', ''-ef'', ''-keep-gnu-property'']. \<not> is_arg a t)"

lemma read_arg_plain:
  assumes "unat i < length argv" "plain (argv ! unat i)" "\<not> get_obj_done z"
  shows "read_arg argv i z = Some (i, z\<lparr>get_obj := True, obj_files := obj_files z @ [argv ! unat i]\<rparr>)"
  using assms by (simp add: read_arg_def arg_def plain_def)

lemma read_args_plain:
  assumes "\<forall>a \<in> set (drop (unat i) argv). plain a" "\<not> get_obj_done z" "length argv \<le> 255" "unat i < length argv"
  shows "read_args argv i z = Some (z\<lparr>get_obj := True, obj_files := obj_files z @ drop (unat i) argv\<rparr>)"
  using assms
proof (induction "length argv - unat i" arbitrary: i z)
  case (Suc k)
  have a: "plain (argv ! unat i)" using Suc.prems(1,4) by (simp add: Cons_nth_drop_Suc [symmetric])
  have i1: "unat (i + 1) = unat i + 1" using Suc.prems(3,4) by (simp add: unat_word_ariths)
  define z1 where "z1 = z\<lparr>get_obj := True, obj_files := obj_files z @ [argv ! unat i]\<rparr>"
  have step: "read_args argv i z = read_args argv (i + 1) z1"
    using Suc.prems(4) read_arg_plain [OF Suc.prems(4) a Suc.prems(2)] by (subst read_args.simps) (simp add: z1_def)
  show ?case
  proof (cases "unat i + 1 < length argv")
    case True
    have "\<forall>a \<in> set (drop (unat i + 1) argv). plain a"
      using Suc.prems(1,4) by (simp add: Cons_nth_drop_Suc [symmetric])
    then have "read_args argv (i + 1) z1 = Some (z1\<lparr>get_obj := True, obj_files := obj_files z1 @ drop (unat (i + 1)) argv\<rparr>)"
      by (intro Suc.hyps(1)) (use Suc.prems Suc.hyps(2) True i1 in \<open>auto simp: z1_def\<close>)
    then show ?thesis using step i1 Suc.prems(4) by (simp add: z1_def Cons_nth_drop_Suc [symmetric])
  next
    case False
    then have "read_args argv (i + 1) z1 = Some z1" using i1 by (subst read_args.simps) simp
    moreover have "drop (unat i) argv = [argv ! unat i]" using False Suc.prems(4) by (simp add: Cons_nth_drop_Suc [symmetric])
    ultimately show ?thesis using step by (simp add: z1_def)
  qed
qed simp

text \<open>A command line of input files gives these files in order, and a 64-bit ELF
  output.\<close>

theorem cmdline_files:
  assumes "\<forall>a \<in> set fs. plain a" "fs \<noteq> []" "length fs < 255" "file_format (cfg z) = 0"
  shows "\<exists>z'. read_cmdline (a0 # fs) z = Some (Some fs, z') \<and> file_format (cfg z') = ELF64"
  using read_args_plain [of 1 "a0 # fs" "z\<lparr>obj_files := [], get_obj := False, get_obj_done := False\<rparr>"] assms
  by (simp add: read_cmdline_def)

lemma cmdline_files_witness:
  "\<exists>z'. read_cmdline (ascii ''zld'' # [ascii ''a.o'', ascii ''b.o'']) (upd_cfg (\<lambda>c. c\<lparr>file_format := 0\<rparr>) zld0)
     = Some (Some [ascii ''a.o'', ascii ''b.o''], z') \<and> file_format (cfg z') = ELF64"
  by (rule cmdline_files) (simp_all add: plain_def is_arg_def ascii_def)

text \<open>With more than 255 arguments the loop counter, a \<open>uint8_t\<close>, wraps before it
  reaches the end: the command line is never read to the end, whatever the
  arguments are.\<close>

theorem too_many_arguments_hang:
  assumes "255 < length argv"
  shows "read_cmdline argv z = None"
proof -
  have "\<not> 255 < length argv" if "read_args argv i z = Some y" for i y z
    using that
  proof (induction rule: read_args.raw_induct [rotated 1, consumes 1])
    case (1 f argv i z y)
    have "unat i < 256" using unsigned_less [of i] by simp
    then show ?case using 1 by (auto simp: bind_eq_Some_conv split: if_splits)
  qed
  then have "read_args argv i z = None" for i z using assms by (metis not_Some_eq)
  then show ?thesis using assms by (auto simp: read_cmdline_def)
qed

lemma too_many_arguments_hang_witness: "read_cmdline (replicate 256 []) zld0 = None"
  by (rule too_many_arguments_hang) simp

text \<open>\<open>-keep-gnu-property\<close> has no value, but skips the next argument.\<close>

lemma keep_gnu_property_skips:
  "read_cmdline [ascii ''zld'', ascii ''-keep-gnu-property'', f] z =
   Some (Some [], (if file_format (cfg z) = 0 then upd_cfg (\<lambda>c. c\<lparr>file_format := ELF64\<rparr>) else id)
     (z\<lparr>keep_gnu_property := 1, obj_files := [], get_obj := False, get_obj_done := False\<rparr>))"
proof -
  have k: "is_arg (ascii ''-keep-gnu-property'') t \<longleftrightarrow> t = ''-keep-gnu-property''"
    if "t \<in> set [''-v'', ''-o'', ''-p'', ''-nodynamic'', ''-l'', ''-use-dt-hash'', ''-no-pie'', ''-f'', ''-ib'',
     ''-nointerp'', ''-interp-name'', ''-ef'', ''-keep-gnu-property'']" for t
    using that by (auto simp: is_arg_def ascii_def)
  define z1 where "z1 = z\<lparr>obj_files := [], get_obj := False, get_obj_done := False\<rparr>"
  have "read_arg [ascii ''zld'', ascii ''-keep-gnu-property'', f] 1 z1 = Some (2, z1\<lparr>keep_gnu_property := 1\<rparr>)"
    by (simp add: read_arg_def arg_def k z1_def)
  then have "read_args [ascii ''zld'', ascii ''-keep-gnu-property'', f] 1 z1 = Some (z1\<lparr>keep_gnu_property := 1\<rparr>)"
    by (subst read_args.simps, simp) (subst read_args.simps, simp)
  then show ?thesis by (cases z) (simp add: read_cmdline_def z1_def)
qed

end
