(* ===== verification/StdHash.thy ===== *)
theory StdHash
  imports CString HashFun "HOL-Library.Monad_Syntax"
begin

text \<open>
  The chained hash table of \<open>core/std/hash_table.c\<close>, which the build tool keeps its
  variables and rules in.  A bucket is the list of its cells in chain order.  Keys
  are strings; values are of any type (the variable table holds strings, the
  rule table rules).  The table of a null hash function is the one case in which
  the code follows a null pointer: \<open>hash_set\<close> calls the function for a log line.
  \<open>None\<close> is such a crash (or a division by \<open>nbucket = 0\<close>).
\<close>

datatype hash_collision = COL_NOSTRCMP | COL_OVERRIDE | COL_ADD | COL_RAISE_ERROR

text \<open>A value of a cell; \<open>COL_OVERRIDE\<close> stores the pointer to the new cell where the
  value belongs.\<close>

datatype 'v cell_value = Val 'v | Cell cstr 'v

type_synonym 'v cells = "(cstr \<times> 'v cell_value) list"

text \<open>A hash function gets a pointer into a string: the bytes before it, nearest
  first, and those from it on; and the two parameter bytes, or null.\<close>

type_synonym strptr = "cstr \<times> cstr"
type_synonym hash_fun = "strptr \<Rightarrow> (u8 \<times> u8) option \<Rightarrow> u32"

record 'v hash_table =
  ht_nbucket :: u32
  ht_bucket :: "nat \<Rightarrow> 'v cells"
  ht_hash_f :: "hash_fun option"

record implicit_trim_len =
  trim_begin :: u8
  trim_end :: u8

definition std_sysv_hash :: hash_fun where
  "std_sysv_hash s _ = sysv_hash (snd s)"

subsection \<open>\<open>with_escape_hash\<close>\<close>

text \<open>The sum of the bytes other than \<open>%\<close>: of \<open>num\<close> of them, of all when \<open>num\<close> is 0.\<close>

fun escape_sum :: "u8 \<Rightarrow> u8 list \<Rightarrow> u64 \<Rightarrow> u64" where
  "escape_sum num [] h = h"
| "escape_sum num (c # s) h =
     (if c = 0 then h
      else let h = (if c \<noteq> 0x25 then h + ucast c else h)
           in if num > 0 then (if num - 1 = 0 then h else escape_sum (num - 1) s h)
              else escape_sum num s h)"

definition with_escape_hash :: hash_fun where
  "with_escape_hash s param =
     (let rev = (case param of None \<Rightarrow> 0 | Some p \<Rightarrow> fst p);
          num = (case param of None \<Rightarrow> 0 | Some p \<Rightarrow> snd p);
          bytes = (if rev \<noteq> 0 then (case snd s of [] \<Rightarrow> [] | c # _ \<Rightarrow> c # fst s) else snd s)
      in ucast (escape_sum num bytes 0 AND 0xfffffff))"

subsection \<open>Operations\<close>

definition bucket_index :: "'v hash_table \<Rightarrow> cstr \<Rightarrow> nat option" where
  "bucket_index ht key =
     (if ht_nbucket ht = 0 then None
      else Some (unat ((case ht_hash_f ht of None \<Rightarrow> sysv_hash key | Some f \<Rightarrow> f ([], key) None) mod ht_nbucket ht)))"

definition key_match :: "cstr \<Rightarrow> cstr \<Rightarrow> bool" where
  "key_match k key = (let r = z_strcmp k key in r = 0 \<or> r = 0x25)"

definition find_in :: "cstr \<Rightarrow> 'v cells \<Rightarrow> 'v cell_value option" where
  "find_in key cs = map_option snd (List.find (\<lambda>c. key_match (fst c) key) cs)"

definition hash_find :: "'v hash_table \<Rightarrow> cstr \<Rightarrow> 'v cell_value option option" where
  "hash_find ht key = Option.bind (bucket_index ht key) (\<lambda>i. Some (find_in key (ht_bucket ht i)))"

fun set_in :: "hash_collision \<Rightarrow> cstr \<Rightarrow> 'v \<Rightarrow> 'v cells \<Rightarrow> 'v cells" where
  "set_in mode key v [] = [(key, Val v)]"
| "set_in mode key v ((k, x) # cs) =
     (if mode = COL_OVERRIDE \<and> z_strcmp k key = 0 then (k, Cell key v) # cs
      else if mode = COL_ADD \<and> z_strcmp k key = 0 then (k, x) # cs
      else (k, x) # set_in mode key v cs)"

definition hash_set :: "hash_collision \<Rightarrow> cstr \<Rightarrow> 'v \<Rightarrow> 'v hash_table \<Rightarrow> 'v hash_table option" where
  "hash_set mode key v ht = do {
     i \<leftarrow> bucket_index ht key;
     if ht_bucket ht i = [] \<and> ht_hash_f ht = None then None
     else Some (ht\<lparr>ht_bucket := (ht_bucket ht)(i := set_in mode key v (ht_bucket ht i))\<rparr>)
   }"

definition hash_partial_find :: "'v hash_table \<Rightarrow> cstr \<Rightarrow> implicit_trim_len list \<Rightarrow> 'v cell_value option option" where
  "hash_partial_find ht key trims = do {
     t \<leftarrow> (case trims of [] \<Rightarrow> None | t # _ \<Rightarrow> Some t);
     f \<leftarrow> ht_hash_f ht;
     let b = trim_begin t;
     let e = trim_end t;
     let ss = (if b \<noteq> 0 \<and> unat b < length key then f ([], key) (Some (0, b)) else 0);
     let ss = (if e \<noteq> 0 \<and> unat e < length key
               then ss + f (tl (rev key), [last key]) (Some (1, e)) else ss);
     if ht_nbucket ht = 0 then None
     else Some (map_option snd (List.find (\<lambda>c. strncmp (fst c) key (unat b) = 0)
            (ht_bucket ht (unat (ss mod ht_nbucket ht)))))
   }"

subsection \<open>The first entry of a key wins\<close>

lemma find_in_append: "find_in key (cs @ ds) = (case find_in key cs of None \<Rightarrow> find_in key ds | Some x \<Rightarrow> Some x)"
  by (induction cs) (auto simp: find_in_def split: option.splits)

lemma find_in_Nil [simp]: "find_in key [] = None"
  by (simp add: find_in_def)

lemma find_in_Cons [simp]: "find_in key ((k, x) # cs) = (if key_match k key then Some x else find_in key cs)"
  by (simp add: find_in_def)

lemma hash_set_SomeD:
  assumes "hash_set mode key v ht = Some ht'"
  obtains i where "bucket_index ht key = Some i"
    "ht' = ht\<lparr>ht_bucket := (ht_bucket ht)(i := set_in mode key v (ht_bucket ht i))\<rparr>"
  using assms by (auto simp: hash_set_def bind_eq_Some_conv split: if_splits)

lemma bucket_index_upd [simp]: "bucket_index (ht\<lparr>ht_bucket := b\<rparr>) key = bucket_index ht key"
  by (simp add: bucket_index_def)

text \<open>The bytes that differ are what counts: two strings match when they are equal or
  when the first difference is \<open>0x25\<close>.\<close>

lemma key_match_refl: "nul_free k \<Longrightarrow> key_match k k"
  by (simp add: key_match_def)

text \<open>A key is stored when a cell of its bucket has the same string as its key.\<close>

definition has_key :: "cstr \<Rightarrow> 'v cells \<Rightarrow> bool" where
  "has_key key cs \<longleftrightarrow> list_ex (\<lambda>c. z_strcmp (fst c) key = 0) cs"

definition stored :: "cstr \<Rightarrow> 'v hash_table \<Rightarrow> bool" where
  "stored key ht = (case bucket_index ht key of None \<Rightarrow> False | Some i \<Rightarrow> has_key key (ht_bucket ht i))"

lemma set_in_appends:
  "mode = COL_NOSTRCMP \<or> mode = COL_RAISE_ERROR \<or> \<not> has_key key cs \<Longrightarrow> set_in mode key v cs = cs @ [(key, Val v)]"
  by (induction cs) (auto simp: has_key_def)

lemma set_in_stored:
  assumes "z_strcmp k key = 0" "\<not> has_key key pre"
  shows "set_in COL_OVERRIDE key v (pre @ (k, x) # post) = pre @ (k, Cell key v) # post"
    "set_in COL_ADD key v (pre @ (k, x) # post) = pre @ (k, x) # post"
  using assms by (induction pre) (auto simp: has_key_def)

text \<open>C25: the table is a list of entries in which the first that matches wins.  An
  insertion with \<open>COL_NOSTRCMP\<close> or \<open>COL_RAISE_ERROR\<close>, and one with \<open>COL_OVERRIDE\<close> or
  \<open>COL_ADD\<close> of a key that is not stored, adds an entry at the end: a key that was
  found is found with the same value, and a key that was not found is found
  exactly if the new key is in its bucket and matches it.  When the key is
  stored, \<open>COL_OVERRIDE\<close> changes the value of its first cell alone, to the pointer
  to the new cell, and \<open>COL_ADD\<close> changes nothing.\<close>

theorem first_entry_wins:
  assumes set: "hash_set mode key v ht = Some ht'"
  shows "(mode = COL_NOSTRCMP \<or> mode = COL_RAISE_ERROR \<or> \<not> stored key ht \<longrightarrow>
      hash_find ht' q = (case hash_find ht q of
        Some None \<Rightarrow> Some (if bucket_index ht q = bucket_index ht key \<and> key_match key q then Some (Val v) else None)
      | r \<Rightarrow> r)) \<and>
    (\<forall>i pre k x post. bucket_index ht key = Some i \<longrightarrow> ht_bucket ht i = pre @ (k, x) # post \<longrightarrow>
      z_strcmp k key = 0 \<longrightarrow> \<not> has_key key pre \<longrightarrow>
      (mode = COL_OVERRIDE \<longrightarrow> ht' = ht\<lparr>ht_bucket := (ht_bucket ht)(i := pre @ (k, Cell key v) # post)\<rparr>) \<and>
      (mode = COL_ADD \<longrightarrow> ht' = ht))"
proof -
  obtain i where i: "bucket_index ht key = Some i" "ht' = ht\<lparr>ht_bucket := (ht_bucket ht)(i := set_in mode key v (ht_bucket ht i))\<rparr>"
    using hash_set_SomeD [OF set] .
  have "hash_find ht' q = (case hash_find ht q of
        Some None \<Rightarrow> Some (if bucket_index ht q = bucket_index ht key \<and> key_match key q then Some (Val v) else None)
      | r \<Rightarrow> r)" if "mode = COL_NOSTRCMP \<or> mode = COL_RAISE_ERROR \<or> \<not> stored key ht"
  proof -
    have "set_in mode key v (ht_bucket ht i) = ht_bucket ht i @ [(key, Val v)]"
      using that i(1) by (intro set_in_appends) (auto simp: stored_def)
    then show ?thesis
      using i(1) unfolding i(2)
      by (cases "bucket_index ht q") (auto simp: hash_find_def find_in_append split: option.splits)
  qed
  moreover have "(mode = COL_OVERRIDE \<longrightarrow> ht' = ht\<lparr>ht_bucket := (ht_bucket ht)(i := pre @ (k, Cell key v) # post)\<rparr>) \<and>
      (mode = COL_ADD \<longrightarrow> ht' = ht)"
    if "ht_bucket ht i = pre @ (k, x) # post" "z_strcmp k key = 0" "\<not> has_key key pre" for pre k x post
    using set_in_stored [OF that(2,3)] that(1) i(2) by (auto simp: fun_upd_idem)
  ultimately show ?thesis using i(1) by auto
qed

subsection \<open>Replacing and extending a value\<close>

definition exact_keys :: "cstr \<Rightarrow> 'v cells \<Rightarrow> bool" where
  "exact_keys key cs \<longleftrightarrow> nul_free key \<and> (\<forall>(k, y) \<in> set cs. nul_free k \<and> (key_match k key \<longrightarrow> k = key))"

lemma exact_keys_Cons:
  "exact_keys key ((k, y) # cs) \<longleftrightarrow> nul_free k \<and> (key_match k key \<longrightarrow> k = key) \<and> exact_keys key cs"
  by (auto simp: exact_keys_def)

lemma exact_keys_match: "exact_keys key ((k, y) # cs) \<Longrightarrow> z_strcmp k key = 0 \<longleftrightarrow> key_match k key"
  by (auto simp: exact_keys_def key_match_def)

lemma set_in_override:
  "exact_keys key cs \<Longrightarrow> find_in key cs \<noteq> None \<Longrightarrow> find_in key (set_in COL_OVERRIDE key v cs) = Some (Cell key v)"
proof (induction cs)
  case (Cons c cs)
  obtain k x where c: "c = (k, x)" by (cases c)
  show ?case
    using Cons exact_keys_match [of key k x cs] by (auto simp: c exact_keys_Cons)
qed simp

lemma set_in_add: "exact_keys key cs \<Longrightarrow> find_in key cs \<noteq> None \<Longrightarrow> set_in COL_ADD key v cs = cs"
proof (induction cs)
  case (Cons c cs)
  obtain k x where c: "c = (k, x)" by (cases c)
  show ?case
    using Cons exact_keys_match [of key k x cs] by (auto simp: c exact_keys_Cons)
qed simp

text \<open>Giving a variable a new value does not give it that value: \<open>COL_OVERRIDE\<close>
  replaces the value of the key by the pointer to the new cell, and \<open>COL_ADD\<close>
  builds the longer string and drops it, so that the value stays.  (The keys of
  the bucket match the key only if they are equal to it.)\<close>

theorem override_stores_cell:
  assumes ht: "hash_find ht key = Some (Some x)" and keys: "\<And>i. bucket_index ht key = Some i \<Longrightarrow> exact_keys key (ht_bucket ht i)"
  shows "(\<exists>ht'. hash_set COL_OVERRIDE key v ht = Some ht' \<and> hash_find ht' key = Some (Some (Cell key v))) \<and>
    (\<exists>ht'. hash_set COL_ADD key v ht = Some ht' \<and> hash_find ht' key = Some (Some x))"
proof -
  obtain i where i: "bucket_index ht key = Some i" "find_in key (ht_bucket ht i) = Some x"
    using ht by (auto simp: hash_find_def bind_eq_Some_conv)
  then have n: "ht_bucket ht i \<noteq> []" by auto
  show ?thesis
    using i n set_in_override [OF keys [OF i(1)], of v] set_in_add [OF keys [OF i(1)], of v]
    by (simp add: hash_set_def hash_find_def)
qed

text \<open>Two keys whose first bytes differ by \<open>0x25\<close> and that are in the same bucket: the
  value of one is found under the other.\<close>

definition table0 :: "nat hash_table" where
  "table0 = \<lparr>ht_nbucket = 10, ht_bucket = (\<lambda>_. []), ht_hash_f = Some with_escape_hash\<rparr>"

lemma index0: "bucket_index table0 (ascii ''zx'') = Some 2" "bucket_index table0 (ascii ''Ua'') = Some 2"
  by (simp_all add: bucket_index_def table0_def with_escape_hash_def ascii_def)

lemma percent_match_is_wrong:
  "\<exists>t. hash_set COL_RAISE_ERROR (ascii ''zx'') 7 table0 = Some t \<and> hash_find t (ascii ''Ua'') = Some (Some (Val 7))"
proof -
  have "key_match (ascii ''zx'') (ascii ''Ua'')" by (simp add: key_match_def ascii_def)
  then show ?thesis by (simp add: hash_set_def hash_find_def index0 table0_def [THEN arg_cong [where f = ht_bucket]]
    table0_def [THEN arg_cong [where f = ht_hash_f]])
qed

lemma first_entry_wins_witness:
  "\<exists>t t'. hash_set COL_OVERRIDE (ascii ''zx'') 7 table0 = Some t \<and> hash_find t (ascii ''zx'') = Some (Some (Val 7)) \<and>
     hash_set COL_OVERRIDE (ascii ''zx'') 8 t = Some t' \<and> ht_bucket t' 2 = [(ascii ''zx'', Cell (ascii ''zx'') 8)]"
proof -
  obtain t where t: "hash_set COL_OVERRIDE (ascii ''zx'') 7 table0 = Some t"
    by (simp add: hash_set_def index0) (simp add: table0_def)
  then have tb: "t = table0\<lparr>ht_bucket := (ht_bucket table0)(2 := [(ascii ''zx'', Val 7)])\<rparr>"
    by (simp add: hash_set_def index0) (auto simp: table0_def)
  then have i: "bucket_index t (ascii ''zx'') = Some 2" "ht_bucket t 2 = [] @ (ascii ''zx'', Val 7) # []"
    by (simp_all add: index0)
  obtain t' where t': "hash_set COL_OVERRIDE (ascii ''zx'') 8 t = Some t'"
    using i by (simp add: hash_set_def)
  have k: "z_strcmp (ascii ''zx'') (ascii ''zx'') = 0" "key_match (ascii ''zx'') (ascii ''zx'')"
    "hash_find table0 (ascii ''zx'') = Some None" "\<not> stored (ascii ''zx'') table0"
    by (simp add: ascii_def) (simp add: key_match_def ascii_def, simp add: hash_find_def index0, simp add: table0_def,
        simp add: stored_def index0, simp add: has_key_def table0_def)
  have "hash_find t (ascii ''zx'') = Some (Some (Val 7))"
    using first_entry_wins [OF t, of "ascii ''zx''"] k by simp
  moreover have "t' = t\<lparr>ht_bucket := (ht_bucket t)(2 := [] @ (ascii ''zx'', Cell (ascii ''zx'') 8) # [])\<rparr>"
    using first_entry_wins [OF t', of "[]", THEN conjunct2, rule_format, OF i k(1)] by (simp add: has_key_def)
  ultimately show ?thesis using t t' by auto
qed

lemma override_stores_cell_witness:
  "\<exists>t t'. hash_set COL_RAISE_ERROR (ascii ''zx'') 7 table0 = Some t \<and>
     hash_set COL_OVERRIDE (ascii ''zx'') 8 t = Some t' \<and> hash_find t' (ascii ''zx'') = Some (Some (Cell (ascii ''zx'') 8))"
proof -
  define t where "t = table0\<lparr>ht_bucket := (ht_bucket table0)(2 := [(ascii ''zx'', Val 7)])\<rparr>"
  have s: "hash_set COL_RAISE_ERROR (ascii ''zx'') 7 table0 = Some t"
    by (simp add: hash_set_def index0 t_def) (simp add: table0_def)
  have i: "bucket_index t (ascii ''zx'') = Some 2" "ht_bucket t 2 = [(ascii ''zx'', Val 7)]"
    by (simp_all add: t_def index0)
  have n: "nul_free (ascii ''zx'')" by (simp add: ascii_def)
  have "hash_find t (ascii ''zx'') = Some (Some (Val 7))" by (simp add: hash_find_def i key_match_refl [OF n])
  from override_stores_cell [OF this, of 8] show ?thesis using s i n by (auto simp: exact_keys_def)
qed

end
