(* ===== verification/MakeParse.thy ===== *)
theory MakeParse
  imports StdHash
begin

text \<open>
  The makefile parser of the build tool: \<open>core/build/parse_makefile.c\<close> and the
  functions of \<open>core/build/variable.c\<close> it calls.  The parser is a state machine
  that looks at every byte of the file once; it works in place: names, values
  and commands are pointers into the buffer \<open>buf\<close>, ended by NULs that are
  written over the delimiters.  \<open>Confp\<close> and \<open>PARSE_DATA\<close> are one record; the
  arrays of variables and rules are functions of the index, of which only the
  part in the two blocks of 400 bytes is used: an index behind it gives \<open>None\<close>, as
  does a null pointer that is followed.  The list of commands of a rule is a list
  of pointers.  Log lines are left out.
\<close>

definition CONTEXT_NONE :: u8 where "CONTEXT_NONE = 0x0"
definition CONTEXT_RULE_CMD :: u8 where "CONTEXT_RULE_CMD = 0x1"
definition CONTEXT_RULE_DEPS :: u8 where "CONTEXT_RULE_DEPS = 0x2"
definition CONTEXT_VARIABLE :: u8 where "CONTEXT_VARIABLE = 0x4"
definition CONTEXT_READ_NOW :: u8 where "CONTEXT_READ_NOW = 0x8"
definition CONTEXT_RULE_SEP :: u8 where "CONTEXT_RULE_SEP = 0x10"
definition CONTEXT_COMMENT :: u8 where "CONTEXT_COMMENT = 0x20"

lemmas CONTEXT_defs = CONTEXT_NONE_def CONTEXT_RULE_CMD_def CONTEXT_RULE_DEPS_def CONTEXT_VARIABLE_def
  CONTEXT_READ_NOW_def CONTEXT_RULE_SEP_def CONTEXT_COMMENT_def

definition ASSIGN_IMMEDIATE :: u8 where "ASSIGN_IMMEDIATE = 1"
definition ASSIGN_RECURSIVE :: u8 where "ASSIGN_RECURSIVE = 2"
definition ASSIGN_RECURSIVE_ALLOW_NON_DEFINED :: u8 where "ASSIGN_RECURSIVE_ALLOW_NON_DEFINED = 3"
definition ASSIGN_ADD :: u8 where "ASSIGN_ADD = 4"

lemmas ASSIGN_defs = ASSIGN_IMMEDIATE_def ASSIGN_RECURSIVE_def ASSIGN_RECURSIVE_ALLOW_NON_DEFINED_def ASSIGN_ADD_def

record var =
  var_name :: nat
  var_value :: nat
  var_kind :: u8

record rule =
  r_target :: nat
  r_deps :: nat
  r_cmd :: "nat list"
  r_num_deps :: u32
  r_num_cmd :: u32
  r_resolved :: u8

record mk =
  context_now :: u8
  pstr :: nat
  buf :: mem
  vars_num :: u64
  first_var :: "nat \<Rightarrow> var"
  var_table :: "nat hash_table"
  rules_num :: u64
  first_rule :: "nat \<Rightarrow> rule"
  rule_table :: "nat hash_table"
  trims :: "implicit_trim_len list"

definition goto :: "u8 \<Rightarrow> mk \<Rightarrow> mk" where
  "goto c s = s\<lparr>context_now := c\<rparr>"

text \<open>A write through a pointer and the key at a pointer.\<close>

definition put_byte :: "nat \<Rightarrow> u8 \<Rightarrow> mk \<Rightarrow> mk" where
  "put_byte p b s = s\<lparr>buf := (buf s)(p := b)\<rparr>"

definition key_at :: "nat \<Rightarrow> mk \<Rightarrow> cstr option" where
  "key_at p s = (if p = 0 then None else str_at (buf s) p)"

text \<open>\<open>first_var\<close> and \<open>first_rule\<close> are blocks of \<open>50 * sizeof(void*)\<close> bytes
  (\<open>config.c\<close>): sixteen variables of 24 bytes, ten rules of 40.\<close>

definition MAX_VARS :: nat where "MAX_VARS = 50 * 8 div 24"
definition MAX_RULES :: nat where "MAX_RULES = 50 * 8 div 40"

definition var_at :: "nat \<Rightarrow> mk \<Rightarrow> var option" where
  "var_at k s = (if k < MAX_VARS then Some (first_var s k) else None)"

definition rule_at :: "nat \<Rightarrow> mk \<Rightarrow> rule option" where
  "rule_at k s = (if k < MAX_RULES then Some (first_rule s k) else None)"

definition upd_var :: "(var \<Rightarrow> var) \<Rightarrow> mk \<Rightarrow> mk option" where
  "upd_var f s = (let k = unat (vars_num s) in
     Option.bind (var_at k s) (\<lambda>v. Some (s\<lparr>first_var := (first_var s)(k := f v)\<rparr>)))"

text \<open>The current rule is the one before index \<open>rules.num\<close>.\<close>

definition cur_rule :: "mk \<Rightarrow> nat" where
  "cur_rule s = unat (rules_num s - 1)"

definition upd_rule :: "(rule \<Rightarrow> rule) \<Rightarrow> mk \<Rightarrow> mk option" where
  "upd_rule f s = (let k = cur_rule s in
     Option.bind (rule_at k s) (\<lambda>r. Some (s\<lparr>first_rule := (first_rule s)(k := f r)\<rparr>)))"

definition do_context_none :: "nat \<Rightarrow> mk \<Rightarrow> mk" where
  "do_context_none p s =
     (let c = buf s p in
      if c = 0x23 then goto CONTEXT_COMMENT s
      else if c = 0x3a \<or> c = 0x3b \<or> c = 0x3d then goto 0 s
      else if 0x21 \<le> c \<and> c \<le> 0x7e then goto CONTEXT_READ_NOW (s\<lparr>pstr := p\<rparr>)
      else s)"

definition do_context_comment :: "nat \<Rightarrow> mk \<Rightarrow> mk" where
  "do_context_comment p s = (if buf s p = 0x0a then goto CONTEXT_NONE s else goto CONTEXT_VARIABLE s)"

text \<open>The position of the first \<open>%\<close> between two pointers, from 1, in a \<open>uint8_t\<close>.\<close>

fun is_implicit :: "u8 list \<Rightarrow> u8 \<Rightarrow> u8" where
  "is_implicit [] i = 0"
| "is_implicit (c # s) i = (if c = 0x25 then i else is_implicit s (i + 1))"

definition eval_target :: "nat \<Rightarrow> mk \<Rightarrow> mk" where
  "eval_target p s =
     (let i = is_implicit (get_bytes (pstr s) (p - pstr s) (buf s)) 1 in
      if i = 0 then s
      else s\<lparr>trims := trims s @ [\<lparr>trim_begin = i - 1, trim_end = of_nat (p - pstr s) - i\<rparr>]\<rparr>)"

definition start_var :: "u8 \<Rightarrow> nat \<Rightarrow> nat \<Rightarrow> mk \<Rightarrow> mk option" where
  "start_var kind p str s = do {
     let s = put_byte p 0 s;
     s \<leftarrow> upd_var (\<lambda>v. v\<lparr>var_name := pstr s, var_kind := kind\<rparr>) s;
     Some (goto CONTEXT_VARIABLE (s\<lparr>pstr := str\<rparr>))
   }"

definition start_rule :: "nat \<Rightarrow> mk \<Rightarrow> mk option" where
  "start_rule p s = do {
     let s = s\<lparr>rules_num := rules_num s + 1\<rparr>;
     let s = put_byte p 0 s;
     let s = eval_target p s;
     s \<leftarrow> upd_rule (\<lambda>r. r\<lparr>r_target := pstr s\<rparr>) s;
     Some (goto CONTEXT_RULE_DEPS (s\<lparr>pstr := p + 1\<rparr>))
   }"

definition do_context_read_now :: "nat \<Rightarrow> mk \<Rightarrow> mk option" where
  "do_context_read_now p s =
     (let c = buf s p; eq = (buf s (p + 1) = 0x3d) in
      if c = 0x2b then (if eq then start_var ASSIGN_ADD p (p + 2) s else Some (goto 0 s))
      else if c = 0x3a then (if eq then start_var ASSIGN_IMMEDIATE p (p + 2) s else start_rule p s)
      else if c = 0x3d then start_var ASSIGN_RECURSIVE p (p + 1) s
      else if c = 0x3f then (if eq then start_var ASSIGN_RECURSIVE_ALLOW_NON_DEFINED p (p + 1) s else Some (goto CONTEXT_READ_NOW s))
      else Some (goto CONTEXT_READ_NOW s))"

definition do_context_sep :: "nat \<Rightarrow> mk \<Rightarrow> mk" where
  "do_context_sep p s =
     (if buf s p = 0x09 \<and> buf s (p - 1) = 0 then goto CONTEXT_RULE_CMD (s\<lparr>pstr := p + 1\<rparr>)
      else if 0x21 \<le> buf s p \<and> buf s p \<le> 0x7e then goto CONTEXT_READ_NOW (s\<lparr>pstr := p\<rparr>)
      else goto CONTEXT_RULE_SEP s)"

text \<open>\<open>resolve_vars\<close>: the test \<open>p == 0x24\<close> compares the pointer, not the byte, with
  \<open>$\<close>.  A string never lies at address \<open>0x24\<close> (that would be \<open>None\<close>), so the
  function walks to the end of the string and returns the null pointer.\<close>

partial_function (option) resolve_vars :: "mem \<Rightarrow> nat \<Rightarrow> nat option" where
  [code]: "resolve_vars m p = (if p = 0 \<or> p = 0x24 then None else if m p = 0 then Some 0 else resolve_vars m (p + 1))"

definition set_var :: "nat \<Rightarrow> mk \<Rightarrow> mk option" where
  "set_var p s = do {
     let s = put_byte p 0 s;
     v \<leftarrow> var_at (unat (vars_num s)) s;
     (value, mode, s) \<leftarrow>
       (if var_kind v = ASSIGN_IMMEDIATE then do {
          r \<leftarrow> resolve_vars (buf s) (pstr s);
          Some (if r \<noteq> 0 then r else pstr s, COL_OVERRIDE, s)
        }
        else if var_kind v = ASSIGN_ADD then Some (pstr s - 1, COL_ADD, put_byte (pstr s - 1) 0x20 s)
        else Some (pstr s, COL_OVERRIDE, s));
     s \<leftarrow> upd_var (\<lambda>v. v\<lparr>var_value := value\<rparr>) s;
     nm \<leftarrow> key_at (var_name v) s;
     t \<leftarrow> hash_set mode nm value (var_table s);
     Some (s\<lparr>var_table := t, pstr := 0\<rparr>)
   }"

definition do_context_variable :: "nat \<Rightarrow> mk \<Rightarrow> mk option" where
  "do_context_variable p s =
     (if buf s p = 0x0a then map_option (goto CONTEXT_NONE) (set_var p s)
      else if buf s p = 0x23 then map_option (goto CONTEXT_COMMENT) (set_var p s)
      else Some (goto CONTEXT_VARIABLE s))"

definition add_cmd :: "nat \<Rightarrow> mk \<Rightarrow> mk option" where
  "add_cmd p s = do {
     let s = put_byte p 0 s;
     s \<leftarrow> upd_rule (\<lambda>r. r\<lparr>r_num_cmd := r_num_cmd r + 1, r_cmd := r_cmd r @ [pstr s]\<rparr>) s;
     Some (s\<lparr>pstr := 0\<rparr>)
   }"

definition do_context_rule_cmd :: "nat \<Rightarrow> mk \<Rightarrow> mk option" where
  "do_context_rule_cmd p s =
     (if buf s p = 0x0a then map_option (goto CONTEXT_RULE_SEP) (add_cmd p s)
      else if buf s p = 0x23 then map_option (goto CONTEXT_COMMENT) (add_cmd p s)
      else Some (goto CONTEXT_RULE_CMD s))"

text \<open>The loop that skips the spaces in front of the dependencies (the one that should
  drop the spaces behind them starts at the newline and stops at once).\<close>

partial_function (option) skip_spaces :: "mem \<Rightarrow> nat \<Rightarrow> nat option" where
  [code]: "skip_spaces m q = (if m q \<noteq> 0x20 then Some q else skip_spaces m (q + 1))"

definition do_context_rule_deps :: "nat \<Rightarrow> mk \<Rightarrow> mk option" where
  "do_context_rule_deps p s =
     (if buf s p = 0x0a then do {
        q \<leftarrow> skip_spaces (buf s) (pstr s);
        s \<leftarrow> upd_rule (\<lambda>r. r\<lparr>r_deps := q\<rparr>) s;
        let s = put_byte p 0 s;
        r \<leftarrow> rule_at (cur_rule s) s;
        nm \<leftarrow> key_at (r_target r) s;
        t \<leftarrow> hash_set COL_RAISE_ERROR nm (cur_rule s) (rule_table s);
        Some (goto CONTEXT_RULE_SEP (s\<lparr>rule_table := t, pstr := 0\<rparr>))
      }
      else Some s)"

definition parse_step :: "nat \<Rightarrow> mk \<Rightarrow> mk option" where
  "parse_step p s =
     (let c = context_now s in
      if c = CONTEXT_NONE then Some (do_context_none p s)
      else if c = CONTEXT_COMMENT then Some (do_context_comment p s)
      else if c = CONTEXT_READ_NOW then do_context_read_now p s
      else if c = CONTEXT_RULE_DEPS then do_context_rule_deps p s
      else if c = CONTEXT_RULE_SEP then Some (do_context_sep p s)
      else if c = CONTEXT_RULE_CMD then do_context_rule_cmd p s
      else if c = CONTEXT_VARIABLE then do_context_variable p s
      else Some s)"

text \<open>The loop over the file: \<open>n\<close> bytes from \<open>p\<close>.\<close>

fun parse_loop :: "nat \<Rightarrow> nat \<Rightarrow> mk \<Rightarrow> mk option" where
  "parse_loop 0 p s = Some s"
| "parse_loop (Suc n) p s = Option.bind (parse_step p s) (parse_loop n (p + 1))"

text \<open>\<open>__z__build__parse_makefile\<close> does not return after the loop: it opens a file and
  loops for ever, whether that succeeds or not.\<close>

definition parse_makefile :: "nat \<Rightarrow> nat \<Rightarrow> mk \<Rightarrow> mk option" where
  "parse_makefile p e s = Option.bind (parse_loop (e - p) p s) (\<lambda>_. None)"

subsection \<open>Running over text\<close>

fun holds_text :: "mem \<Rightarrow> nat \<Rightarrow> u8 list \<Rightarrow> bool" where
  "holds_text m a [] = True"
| "holds_text m a (c # t) = (m a = c \<and> holds_text m (Suc a) t)"

lemma holds_text_append [simp]:
  "holds_text m a (t @ u) \<longleftrightarrow> holds_text m a t \<and> holds_text m (a + length t) u"
  by (induction t arbitrary: a) auto

lemma holds_text_upd: "x < a \<or> a + length t \<le> x \<Longrightarrow> holds_text (m(x := b)) a t = holds_text m a t"
  by (induction t arbitrary: a) auto

lemma str_at_text: "holds_text m a t \<Longrightarrow> nul_free t \<Longrightarrow> m (a + length t) = 0 \<Longrightarrow> str_at m a = Some t"
proof (induction t arbitrary: a)
  case Nil
  then show ?case by (subst str_at.simps) simp
next
  case (Cons c t)
  then show ?case by (subst str_at.simps) simp
qed

lemma parse_loop_add: "parse_loop (n + k) p s = Option.bind (parse_loop n p s) (parse_loop k (p + n))"
proof (induction n arbitrary: p s)
  case (Suc n)
  then show ?case by (cases "parse_step p s") simp_all
qed simp

lemma parse_loop_seq:
  "parse_loop n p s = Some s1 \<Longrightarrow> parse_loop k (p + n) s1 = Some s2 \<Longrightarrow> parse_loop (n + k) p s = Some s2"
  unfolding parse_loop_add by simp

lemma parse_loop_0 [simp]: "parse_loop 0 p = Some"
  by (rule ext) simp

lemma parse_loop_1 [simp]: "parse_loop (Suc 0) p = parse_step p"
  by (rule ext) simp

lemma parse_loop_skip:
  "holds_text (buf s) p t \<Longrightarrow> \<forall>q. buf s q \<in> set t \<longrightarrow> parse_step q s = Some s \<Longrightarrow>
   parse_loop (length t) p s = Some s"
  by (induction t arbitrary: p) simp_all

text \<open>Bytes that leave the state alone.\<close>

definition name_start :: "u8 \<Rightarrow> bool" where
  "name_start c \<longleftrightarrow> 0x21 \<le> c \<and> c \<le> 0x7e \<and> c \<notin> {0x23, 0x3a, 0x3b, 0x3d}"

definition name_rest :: "u8 \<Rightarrow> bool" where
  "name_rest c \<longleftrightarrow> c \<notin> {0, 0x2b, 0x3a, 0x3d, 0x3f}"

lemma goto_same: "context_now s = c \<Longrightarrow> goto c s = s"
  by (simp add: goto_def)

lemma step_name_start:
  "context_now s = CONTEXT_NONE \<Longrightarrow> name_start (buf s p) \<Longrightarrow>
   parse_step p s = Some (s\<lparr>pstr := p, context_now := CONTEXT_READ_NOW\<rparr>)"
  by (simp add: parse_step_def do_context_none_def name_start_def goto_def)

lemma step_sep_start:
  "context_now s = CONTEXT_RULE_SEP \<Longrightarrow> buf s p \<noteq> 9 \<Longrightarrow> name_start (buf s p) \<Longrightarrow>
   parse_step p s = Some (s\<lparr>pstr := p, context_now := CONTEXT_READ_NOW\<rparr>)"
  by (simp add: parse_step_def do_context_sep_def name_start_def goto_def CONTEXT_defs)

lemma step_read_now:
  "context_now s = CONTEXT_READ_NOW \<Longrightarrow> name_rest (buf s p) \<Longrightarrow> parse_step p s = Some s"
  by (simp add: parse_step_def do_context_read_now_def name_rest_def goto_same CONTEXT_defs)

lemma step_variable:
  "context_now s = CONTEXT_VARIABLE \<Longrightarrow> buf s p \<notin> {0x0a, 0x23} \<Longrightarrow> parse_step p s = Some s"
  by (simp add: parse_step_def do_context_variable_def goto_same CONTEXT_defs)

lemma step_deps:
  "context_now s = CONTEXT_RULE_DEPS \<Longrightarrow> buf s p \<noteq> 0x0a \<Longrightarrow> parse_step p s = Some s"
  by (simp add: parse_step_def do_context_rule_deps_def CONTEXT_defs)

lemma step_cmd:
  "context_now s = CONTEXT_RULE_CMD \<Longrightarrow> buf s p \<notin> {0x0a, 0x23} \<Longrightarrow> parse_step p s = Some s"
  by (simp add: parse_step_def do_context_rule_cmd_def goto_same CONTEXT_defs)

text \<open>A name from its first byte on.\<close>

lemma parse_name:
  assumes "context_now s = CONTEXT_NONE \<or> context_now s = CONTEXT_RULE_SEP"
    and "holds_text (buf s) a (c # ns)" "name_start c" "\<forall>x \<in> set ns. name_rest x"
  shows "parse_loop (Suc (length ns)) a s = Some (s\<lparr>pstr := a, context_now := CONTEXT_READ_NOW\<rparr>)"
proof -
  let ?s = "s\<lparr>pstr := a, context_now := CONTEXT_READ_NOW\<rparr>"
  have "c \<noteq> 9" using assms(3) by (auto simp: name_start_def)
  then have "parse_step a s = Some ?s" using assms step_name_start [of s a] step_sep_start [of s a] by auto
  moreover have "parse_loop (length ns) (Suc a) ?s = Some ?s"
    by (rule parse_loop_skip) (use assms in \<open>auto intro: step_read_now\<close>)
  ultimately show ?thesis by simp
qed

lemma name_nul_free: "name_start c \<Longrightarrow> \<forall>x \<in> set ns. name_rest x \<Longrightarrow> nul_free (c # ns)"
proof -
  assume c: "name_start c" and ns: "\<forall>x \<in> set ns. name_rest x"
  have "\<not> name_start 0" "\<not> name_rest 0" by (simp_all add: name_start_def name_rest_def)
  then have "c \<noteq> 0" "0 \<notin> set ns" using c ns by metis+
  then show ?thesis by (simp add: nul_free_def)
qed

lemma upd_var_Some: "unat (vars_num s) < MAX_VARS \<Longrightarrow>
    upd_var f s = Some (s\<lparr>first_var := (first_var s)(unat (vars_num s) := f (first_var s (unat (vars_num s))))\<rparr>)"
  by (simp add: upd_var_def var_at_def Let_def)

lemma upd_rule_Some: "cur_rule s < MAX_RULES \<Longrightarrow>
    upd_rule f s = Some (s\<lparr>first_rule := (first_rule s)(cur_rule s := f (first_rule s (cur_rule s)))\<rparr>)"
  by (simp add: upd_rule_def rule_at_def Let_def)

lemma start_var_fields:
  assumes "unat (vars_num s) < MAX_VARS"
  obtains s' where "start_var k p q s = Some s'"
    "buf s' = (buf s)(p := 0)" "pstr s' = q" "var_table s' = var_table s"
    "rules_num s' = rules_num s" "first_rule s' = first_rule s"
    "context_now s' = CONTEXT_VARIABLE" "vars_num s' = vars_num s"
    "var_name (first_var s' (unat (vars_num s))) = pstr s"
    "var_kind (first_var s' (unat (vars_num s))) = k"
proof
  let ?n = "unat (vars_num s)"
  show "start_var k p q s = Some (goto CONTEXT_VARIABLE ((put_byte p 0 s)\<lparr>
      first_var := (first_var s)(?n := (first_var s ?n)\<lparr>var_name := pstr s, var_kind := k\<rparr>), pstr := q\<rparr>))"
    using assms upd_var_Some [of "put_byte p 0 s"] by (simp add: start_var_def put_byte_def)
qed (simp_all add: goto_def put_byte_def)

lemma find_in_None_set:
  "find_in key cs = None \<Longrightarrow> set_in mode key v cs = cs @ [(key, Val v)]"
  by (induction cs) (auto simp: key_match_def split: if_splits)

lemma hash_set_new:
  assumes "hash_find t key = Some None" "ht_hash_f t \<noteq> None" "nul_free key"
  shows "\<exists>t'. hash_set mode key v t = Some t' \<and> hash_find t' key = Some (Some (Val v)) \<and> ht_hash_f t' = ht_hash_f t"
proof -
  obtain i where i: "bucket_index t key = Some i" "find_in key (ht_bucket t i) = None"
    using assms(1) by (auto simp: hash_find_def bind_eq_Some_conv)
  then show ?thesis
    using assms(2) by (simp add: hash_set_def hash_find_def find_in_None_set find_in_append key_match_refl [OF assms(3)])
qed

text \<open>C28: a line \<open>name=value\<close> defines the variable: from the start of a line the
  parser runs over it and is at the start of the next one, and the new variable
  is found under its name with the value as it is written.\<close>

theorem variable_line:
  fixes s a name val
  defines "t \<equiv> name @ [0x3d] @ val @ [0x0a]"
  assumes s: "context_now s = CONTEXT_NONE" "holds_text (buf s) a t" "a \<noteq> 0" "ht_hash_f (var_table s) \<noteq> None"
      "unat (vars_num s) < MAX_VARS"
    and name: "name = c # ns" "name_start c" "\<forall>x \<in> set ns. name_rest x"
    and val: "nul_free val" "0x0a \<notin> set val" "0x23 \<notin> set val"
    and new: "hash_find (var_table s) name = Some None"
  shows "\<exists>s' v. parse_loop (length t) a s = Some s' \<and> context_now s' = CONTEXT_NONE \<and>
    hash_find (var_table s') name = Some (Some (Val v)) \<and> str_at (buf s') v = Some val \<and>
    rules_num s' = rules_num s \<and> first_rule s' = first_rule s \<and>
    (\<forall>x. x < a \<or> a + length t \<le> x \<longrightarrow> buf s' x = buf s x)"
proof -
  define p1 where "p1 = a + length name"
  define p2 where "p2 = p1 + 1 + length val"
  have nf: "nul_free name" using name_nul_free [OF name(2,3)] name(1) by simp
  have tx: "holds_text (buf s) a name" "buf s p1 = 0x3d" "holds_text (buf s) (p1 + 1) val" "buf s p2 = 0x0a"
    using s(2) by (simp_all add: t_def p1_def p2_def)
  define s1 where "s1 = s\<lparr>pstr := a, context_now := CONTEXT_READ_NOW\<rparr>"
  have r1: "parse_loop (length name) a s = Some s1"
    using parse_name [of s a c ns] s(1) tx(1) name by (simp add: s1_def)
  have "unat (vars_num s1) < MAX_VARS" using s(5) by (simp add: s1_def)
  from start_var_fields [OF this, of ASSIGN_RECURSIVE p1 "p1 + 1"] obtain s2 where
    s2: "start_var ASSIGN_RECURSIVE p1 (p1 + 1) s1 = Some s2" and f2: "buf s2 = (buf s1)(p1 := 0)" "pstr s2 = p1 + 1"
      "var_table s2 = var_table s1" "rules_num s2 = rules_num s1" "first_rule s2 = first_rule s1"
      "context_now s2 = CONTEXT_VARIABLE" "vars_num s2 = vars_num s1"
      "var_name (first_var s2 (unat (vars_num s1))) = pstr s1" "var_kind (first_var s2 (unat (vars_num s1))) = ASSIGN_RECURSIVE"
    by metis
  have r2: "parse_loop 1 p1 s1 = Some s2"
    using tx(2) s2 by (simp add: parse_step_def do_context_read_now_def s1_def CONTEXT_defs)
  have n2: "unat (vars_num s2) < MAX_VARS" using s(5) by (simp add: f2(7) s1_def)
  have b2: "buf s2 = (buf s)(p1 := 0)" "pstr s2 = p1 + 1" "var_table s2 = var_table s" "rules_num s2 = rules_num s"
    "first_rule s2 = first_rule s" "context_now s2 = CONTEXT_VARIABLE"
    "var_name (first_var s2 (unat (vars_num s2))) = a" "var_kind (first_var s2 (unat (vars_num s2))) = ASSIGN_RECURSIVE"
    using f2 by (simp_all add: s1_def)
  have "holds_text (buf s2) (p1 + 1) val" using tx(3) by (simp add: b2 holds_text_upd)
  then have r3: "parse_loop (length val) (p1 + 1) s2 = Some s2"
    by (rule parse_loop_skip) (use val in \<open>auto intro!: step_variable simp: b2(6)\<close>)
  define b where "b = (buf s)(p1 := 0, p2 := 0)"
  have "p2 \<noteq> p1" by (simp add: p2_def)
  have key: "str_at b a = Some name"
    using tx(1) nf by (intro str_at_text) (simp_all add: b_def holds_text_upd p1_def p2_def)
  have v: "str_at b (p1 + 1) = Some val"
    using tx(3) val(1) by (intro str_at_text) (simp_all add: b_def holds_text_upd p2_def)
  obtain t' where t': "hash_set COL_OVERRIDE name (p1 + 1) (var_table s) = Some t'"
    "hash_find t' name = Some (Some (Val (p1 + 1)))"
    using hash_set_new [OF new s(4) nf] by blast
  define s3 where "s3 = s2\<lparr>buf := b, first_var := (first_var s2)(unat (vars_num s2) :=
      (first_var s2 (unat (vars_num s2)))\<lparr>var_value := p1 + 1\<rparr>), var_table := t', pstr := 0\<rparr>"
  have "set_var p2 s2 = Some s3"
    using b2 key t'(1) s(3) n2
    by (simp add: set_var_def Let_def ASSIGN_defs key_at_def put_byte_def var_at_def upd_var_Some b_def s3_def)
  then have r4: "parse_loop 1 p2 s2 = Some (goto CONTEXT_NONE s3)"
    using b2(1,6) tx(4) \<open>p2 \<noteq> p1\<close> by (simp add: parse_step_def do_context_variable_def CONTEXT_defs)
  have "parse_loop (length name + (1 + (length val + 1))) a s = Some (goto CONTEXT_NONE s3)"
    unfolding parse_loop_add using r1 r2 r3 r4 by (simp add: p1_def [symmetric] p2_def)
  then have "parse_loop (length t) a s = Some (goto CONTEXT_NONE s3)" by (simp add: t_def)
  moreover have "buf (goto CONTEXT_NONE s3) = b" "var_table (goto CONTEXT_NONE s3) = t'"
    "rules_num (goto CONTEXT_NONE s3) = rules_num s" "first_rule (goto CONTEXT_NONE s3) = first_rule s"
    using b2 by (simp_all add: goto_def s3_def)
  moreover have "b x = buf s x" if "x < a \<or> a + length t \<le> x" for x
    using that by (auto simp: b_def p1_def p2_def t_def)
  ultimately show ?thesis
    using t'(2) v by (intro exI [of _ "goto CONTEXT_NONE s3"] exI [of _ "p1 + 1"]) (simp add: goto_def)
qed

subsection \<open>Rules\<close>

lemma holds_text_cong:
  "holds_text m a t \<Longrightarrow> (\<And>x. a \<le> x \<Longrightarrow> x < a + length t \<Longrightarrow> m' x = m x) \<Longrightarrow> holds_text m' a t"
  by (induction t arbitrary: a) auto

text \<open>The string \<open>t\<close> with its NUL.\<close>

definition string_at :: "mem \<Rightarrow> nat \<Rightarrow> cstr \<Rightarrow> bool" where
  "string_at m a t \<longleftrightarrow> nul_free t \<and> holds_text m a t \<and> m (a + length t) = 0"

lemma string_at_str_at: "string_at m a t \<Longrightarrow> str_at m a = Some t"
  by (simp add: string_at_def str_at_text)

lemma string_at_cong:
  "string_at m a t \<Longrightarrow> (\<And>x. a \<le> x \<Longrightarrow> x \<le> a + length t \<Longrightarrow> m' x = m x) \<Longrightarrow> string_at m' a t"
  using holds_text_cong [of m a t m'] by (auto simp: string_at_def)

definition cmd_text :: "cstr list \<Rightarrow> u8 list" where
  "cmd_text cmds = concat (map (\<lambda>c. [9] @ c @ [0x0a]) cmds)"

definition cmd_ok :: "cstr \<Rightarrow> bool" where
  "cmd_ok c \<longleftrightarrow> nul_free c \<and> 0x0a \<notin> set c \<and> 0x23 \<notin> set c"

text \<open>The state after a command.\<close>

definition after_cmd :: "nat \<Rightarrow> mk \<Rightarrow> mk" where
  "after_cmd p s = s\<lparr>buf := (buf s)(p := 0), pstr := 0, first_rule := (first_rule s)(cur_rule s := (first_rule s (cur_rule s))\<lparr>
     r_num_cmd := r_num_cmd (first_rule s (cur_rule s)) + 1, r_cmd := r_cmd (first_rule s (cur_rule s)) @ [pstr s]\<rparr>)\<rparr>"

lemma add_cmd_Some: "cur_rule s < MAX_RULES \<Longrightarrow> add_cmd p s = Some (after_cmd p s)"
  using upd_rule_Some [of "put_byte p 0 s"] by (simp add: add_cmd_def put_byte_def after_cmd_def cur_rule_def)

text \<open>One command line after a line that has been ended by a NUL.\<close>

lemma parse_cmd:
  assumes s: "context_now s = CONTEXT_RULE_SEP" "buf s (p - 1) = 0" and t: "holds_text (buf s) p ([9] @ c @ [0x0a])"
    and c: "cmd_ok c" and r: "cur_rule s < MAX_RULES"
  shows "parse_loop (length c + 2) p s =
    Some (goto CONTEXT_RULE_SEP (after_cmd (p + 1 + length c) (s\<lparr>pstr := p + 1, context_now := CONTEXT_RULE_CMD\<rparr>)))"
proof -
  let ?s = "s\<lparr>pstr := p + 1, context_now := CONTEXT_RULE_CMD\<rparr>"
  have "parse_step p s = Some ?s"
    using s t by (simp add: parse_step_def do_context_sep_def goto_def CONTEXT_defs)
  moreover have "parse_loop (length c) (p + 1) ?s = Some ?s"
    by (rule parse_loop_skip) (use t c in \<open>auto intro!: step_cmd simp: cmd_ok_def\<close>)
  moreover have "parse_step (p + 1 + length c) ?s = Some (goto CONTEXT_RULE_SEP (after_cmd (p + 1 + length c) ?s))"
    using t r add_cmd_Some [of ?s] by (simp add: parse_step_def do_context_rule_cmd_def CONTEXT_defs cur_rule_def)
  ultimately show ?thesis
    using parse_loop_add [of 1 "length c + 1" p s] parse_loop_add [of "length c" 1 "p + 1" ?s] by simp
qed

lemma parse_cmds:
  assumes "context_now s = CONTEXT_RULE_SEP" "buf s (p - 1) = 0" "0 < p" "holds_text (buf s) p (cmd_text cmds)" "\<forall>c \<in> set cmds. cmd_ok c"
    "cur_rule s < MAX_RULES"
  defines "r \<equiv> \<lambda>s. first_rule s (cur_rule s)"
  shows "\<exists>s' ps. parse_loop (length (cmd_text cmds)) p s = Some s' \<and> context_now s' = CONTEXT_RULE_SEP \<and>
    rules_num s' = rules_num s \<and> rule_table s' = rule_table s \<and> r_cmd (r s') = r_cmd (r s) @ ps \<and>
    r_target (r s') = r_target (r s) \<and> r_deps (r s') = r_deps (r s) \<and> list_all2 (string_at (buf s')) ps cmds \<and>
    (\<forall>x < p. buf s' x = buf s x)"
  using assms(1-6)
proof (induction cmds arbitrary: p s)
  case Nil
  then show ?case by (simp add: cmd_text_def)
next
  case (Cons c cmds)
  let ?p = "p + 2 + length c"
  have ct: "cmd_text (c # cmds) = ([9] @ c @ [0x0a]) @ cmd_text cmds" by (simp add: cmd_text_def)
  have t: "holds_text (buf s) p ([9] @ c @ [0x0a])" "holds_text (buf s) ?p (cmd_text cmds)"
    using Cons.prems(4) unfolding ct holds_text_append by (simp_all add: add.assoc)
  define s1 where "s1 = goto CONTEXT_RULE_SEP (after_cmd (p + 1 + length c) (s\<lparr>pstr := p + 1, context_now := CONTEXT_RULE_CMD\<rparr>))"
  have r1: "parse_loop (length c + 2) p s = Some s1"
    unfolding s1_def by (rule parse_cmd) (use Cons.prems t in auto)
  have cr: "cur_rule s1 = cur_rule s" "cur_rule (s\<lparr>pstr := q, context_now := x\<rparr>) = cur_rule s" for q x
    by (simp_all add: s1_def cur_rule_def goto_def after_cmd_def)
  have f1: "context_now s1 = CONTEXT_RULE_SEP" "buf s1 = (buf s)(p + 1 + length c := 0)" "rules_num s1 = rules_num s"
    "rule_table s1 = rule_table s" "r_cmd (r s1) = r_cmd (r s) @ [p + 1]" "r_target (r s1) = r_target (r s)" "r_deps (r s1) = r_deps (r s)"
    unfolding r_def cr(1) by (simp_all add: s1_def goto_def after_cmd_def cr)
  have "buf s1 (?p - 1) = 0" "0 < ?p" "holds_text (buf s1) ?p (cmd_text cmds)" "\<forall>c \<in> set cmds. cmd_ok c" "cur_rule s1 < MAX_RULES"
    using t(2) Cons.prems(5,6) by (simp_all add: f1(2) holds_text_upd cr(1))
  from Cons.IH [OF f1(1) this] obtain s' ps where
    s': "parse_loop (length (cmd_text cmds)) ?p s1 = Some s'" "context_now s' = CONTEXT_RULE_SEP"
    "rules_num s' = rules_num s1" "rule_table s' = rule_table s1" "r_cmd (r s') = r_cmd (r s1) @ ps"
    "r_target (r s') = r_target (r s1)" "r_deps (r s') = r_deps (r s1)" "list_all2 (string_at (buf s')) ps cmds"
    "\<And>x. x < ?p \<Longrightarrow> buf s' x = buf s1 x"
    by blast
  have "string_at (buf s1) (p + 1) c" using t(1) Cons.prems(5) by (simp add: string_at_def f1(2) holds_text_upd cmd_ok_def)
  then have "string_at (buf s') (p + 1) c" by (rule string_at_cong) (use s'(9) in simp)
  moreover have "parse_loop (length (cmd_text (c # cmds))) p s = Some s'"
  proof -
    have len: "length (cmd_text (c # cmds)) = length c + 2 + length (cmd_text cmds)" by (simp add: ct)
    show ?thesis unfolding len by (rule parse_loop_seq [OF r1]) (use s'(1) in \<open>simp add: ac_simps\<close>)
  qed
  moreover have "buf s' x = buf s x" if "x < p" for x using s'(9) [of x] that by (simp add: f1(2))
  ultimately show ?case using s' f1 by (intro exI [of _ s'] exI [of _ "(p + 1) # ps"]) simp
qed

lemma skip_spaces_text:
  "holds_text m q (t @ [x]) \<Longrightarrow> x \<noteq> 0x20 \<Longrightarrow>
   skip_spaces m q = Some (q + length (takeWhile (\<lambda>c. c = 0x20) t))"
proof (induction t arbitrary: q)
  case Nil
  then show ?case by (subst skip_spaces.simps) simp
next
  case (Cons c t)
  then show ?case by (subst skip_spaces.simps) auto
qed

lemma eval_target_state:
  defines "e s p \<equiv> eval_target p (put_byte p 0 (s\<lparr>rules_num := rules_num s + 1\<rparr>))"
  shows "cur_rule (e s p) = unat (rules_num s)" "first_rule (e s p) = first_rule s" "pstr (e s p) = pstr s"
    "buf (e s p) = (buf s)(p := 0)" "rule_table (e s p) = rule_table s" "var_table (e s p) = var_table s"
    "rules_num (e s p) = rules_num s + 1"
  by (simp_all add: e_def eval_target_def Let_def put_byte_def cur_rule_def)

lemma start_rule_fields:
  assumes "unat (rules_num s) < MAX_RULES"
  obtains s' where "start_rule p s = Some s'"
    "buf s' = (buf s)(p := 0)" "pstr s' = p + 1" "rules_num s' = rules_num s + 1"
    "rule_table s' = rule_table s" "context_now s' = CONTEXT_RULE_DEPS"
    "cur_rule s' = unat (rules_num s)" "var_table s' = var_table s"
    "first_rule s' = (first_rule s)(unat (rules_num s) := (first_rule s (unat (rules_num s)))\<lparr>r_target := pstr s\<rparr>)"
proof
  let ?n = "unat (rules_num s)" and ?s = "eval_target p (put_byte p 0 (s\<lparr>rules_num := rules_num s + 1\<rparr>))"
  show "start_rule p s = Some (goto CONTEXT_RULE_DEPS (?s\<lparr>
      first_rule := (first_rule s)(?n := (first_rule s ?n)\<lparr>r_target := pstr s\<rparr>), pstr := p + 1\<rparr>))"
    using assms upd_rule_Some [of ?s] by (simp add: start_rule_def eval_target_state(1-3))
qed (simp_all add: goto_def eval_target_state eval_target_state(1) [unfolded cur_rule_def] cur_rule_def)

text \<open>The eleventh rule is written behind the block.\<close>

lemma rule_block_overrun:
  "rules_num s = 10 \<Longrightarrow> start_rule p s = None"
  using eval_target_state(1) [of p s]
  by (simp add: start_rule_def upd_rule_def rule_at_def MAX_RULES_def Let_def)

text \<open>C27: a rule of a makefile is read as it is written, while the block of the rules
  has room (for ten): a line \<open>target:deps\<close>
  followed by lines of commands, each behind a tab, appends one rule with this
  target, the dependencies without the leading spaces and the commands in
  order, and enters it in the table of targets.\<close>

theorem rule_lines:
  fixes s a target deps cmds
  defines "t \<equiv> target @ [0x3a] @ deps @ [0x0a] @ cmd_text cmds" and "k \<equiv> unat (rules_num s)"
  assumes s: "context_now s = CONTEXT_NONE \<or> context_now s = CONTEXT_RULE_SEP" "holds_text (buf s) a t" "a \<noteq> 0"
      "ht_hash_f (rule_table s) \<noteq> None" "r_cmd (first_rule s k) = []" "k < MAX_RULES"
    and target: "target = c # ns" "name_start c" "\<forall>x \<in> set ns. name_rest x"
    and deps: "nul_free deps" "0x0a \<notin> set deps" "hd (deps @ [0x0a]) \<noteq> 0x3d" and cmds: "\<forall>c \<in> set cmds. cmd_ok c"
    and new: "hash_find (rule_table s) target = Some None"
  shows "\<exists>s'. parse_loop (length t) a s = Some s' \<and> context_now s' = CONTEXT_RULE_SEP \<and> rules_num s' = rules_num s + 1 \<and>
    hash_find (rule_table s') target = Some (Some (Val k)) \<and>
    string_at (buf s') (r_target (first_rule s' k)) target \<and>
    string_at (buf s') (r_deps (first_rule s' k)) (dropWhile (\<lambda>c. c = 0x20) deps) \<and>
    list_all2 (string_at (buf s')) (r_cmd (first_rule s' k)) cmds"
proof -
  define p1 where "p1 = a + length target"
  define p2 where "p2 = p1 + 1 + length deps"
  define sp where "sp = takeWhile (\<lambda>c. c = 0x20) deps"
  have nf: "nul_free target" using name_nul_free [OF target(2,3)] target(1) by simp
  have tx: "holds_text (buf s) a target" "buf s p1 = 0x3a" "holds_text (buf s) (p1 + 1) (deps @ [0x0a])" "buf s p2 = 0x0a"
    "holds_text (buf s) (p2 + 1) (cmd_text cmds)"
    using s(2) by (simp_all add: t_def p1_def p2_def)
  have "buf s (p1 + 1) = hd (deps @ [0x0a])" using tx(3) by (cases deps) auto
  then have ne: "buf s (p1 + 1) \<noteq> 0x3d" using deps(3) by simp
  define s1 where "s1 = s\<lparr>pstr := a, context_now := CONTEXT_READ_NOW\<rparr>"
  have r1: "parse_loop (length target) a s = Some s1"
    using parse_name [of s a c ns] s(1) tx(1) target by (simp add: s1_def)
  have "unat (rules_num s1) < MAX_RULES" using s(6) by (simp add: s1_def k_def)
  from start_rule_fields [OF this, of p1] obtain s2 where s2: "start_rule p1 s1 = Some s2" and
    g2: "buf s2 = (buf s1)(p1 := 0)" "pstr s2 = p1 + 1" "rules_num s2 = rules_num s1 + 1" "rule_table s2 = rule_table s1"
      "context_now s2 = CONTEXT_RULE_DEPS" "cur_rule s2 = unat (rules_num s1)"
      "first_rule s2 = (first_rule s1)(unat (rules_num s1) := (first_rule s1 (unat (rules_num s1)))\<lparr>r_target := pstr s1\<rparr>)"
    by metis
  have r2: "parse_loop 1 p1 s1 = Some s2"
    using tx(2) ne s2 by (simp add: parse_step_def do_context_read_now_def s1_def CONTEXT_defs)
  have f2: "buf s2 = (buf s)(p1 := 0)" "pstr s2 = p1 + 1" "rules_num s2 = rules_num s + 1" "rule_table s2 = rule_table s"
    "context_now s2 = CONTEXT_RULE_DEPS" "cur_rule s2 = k" "first_rule s2 = (first_rule s)(k := (first_rule s k)\<lparr>r_target := a\<rparr>)"
    unfolding g2 by (simp_all add: s1_def k_def)
  have tx2: "holds_text (buf s2) (p1 + 1) (deps @ [0x0a])" using tx(3) by (simp add: f2(1) holds_text_upd)
  have r3: "parse_loop (length deps) (p1 + 1) s2 = Some s2"
    by (rule parse_loop_skip) (use tx2 deps in \<open>auto intro!: step_deps simp: f2(5)\<close>)
  have q: "skip_spaces (buf s2) (p1 + 1) = Some (p1 + 1 + length sp)"
    unfolding sp_def by (rule skip_spaces_text [OF tx2]) simp
  define b where "b = (buf s)(p1 := 0, p2 := 0)"
  have "p2 \<noteq> p1" by (simp add: p2_def)
  have tgt: "string_at b a target"
    using tx(1) nf by (simp add: string_at_def b_def holds_text_upd p1_def p2_def)
  have "deps = sp @ dropWhile (\<lambda>c. c = 0x20) deps" by (simp add: sp_def)
  then have dp: "string_at b (p1 + 1 + length sp) (dropWhile (\<lambda>c. c = 0x20) deps)"
    using tx(3) deps(1) unfolding string_at_def
    by (metis (no_types, lifting) append.assoc b_def fun_upd_same fun_upd_twist holds_text_append holds_text_upd
        length_append add.assoc le_add1 nul_free_def p2_def set_append UnCI le_refl less_add_one order_less_le_trans)
  obtain t' where t': "hash_set COL_RAISE_ERROR target k (rule_table s) = Some t'"
    "hash_find t' target = Some (Some (Val k))"
    using hash_set_new [OF new s(4) nf] by blast
  define s3 where "s3 = goto CONTEXT_RULE_SEP (s2\<lparr>buf := b,
    first_rule := (first_rule s2)(k := (first_rule s2 k)\<lparr>r_deps := p1 + 1 + length sp\<rparr>), rule_table := t', pstr := 0\<rparr>)"
  have up: "upd_rule (\<lambda>r. r\<lparr>r_deps := p1 + 1 + length sp\<rparr>) s2 =
      Some (s2\<lparr>first_rule := (first_rule s2)(k := (first_rule s2 k)\<lparr>r_deps := p1 + 1 + length sp\<rparr>)\<rparr>)"
    using upd_rule_Some [of s2] s(6) f2(6) by simp
  have f3: "buf s3 = b" "context_now s3 = CONTEXT_RULE_SEP" "rules_num s3 = rules_num s + 1" "rule_table s3 = t'" "cur_rule s3 = k"
    "first_rule s3 = (first_rule s)(k := (first_rule s k)\<lparr>r_target := a, r_deps := p1 + 1 + length sp\<rparr>)"
    using f2(6) by (simp_all add: s3_def goto_def f2 cur_rule_def)
  have "parse_step p2 s2 = Some s3"
    using tx(4) \<open>p2 \<noteq> p1\<close> q string_at_str_at [OF tgt] s(3,6) t'(1) f2(6) up
    by (simp add: parse_step_def do_context_rule_deps_def CONTEXT_defs f2 put_byte_def key_at_def s3_def
        Let_def cur_rule_def b_def goto_def rule_at_def)
  then have r4: "parse_loop 1 p2 s2 = Some s3" by simp
  have "buf s3 (p2 + 1 - 1) = 0" "0 < p2 + 1" "holds_text (buf s3) (p2 + 1) (cmd_text cmds)"
    using tx(5) by (simp_all add: f3(1) b_def holds_text_upd p2_def)
  from parse_cmds [OF f3(2) this cmds s(6) [folded f3(5)]] obtain s' ps where
    s': "parse_loop (length (cmd_text cmds)) (p2 + 1) s3 = Some s'" "context_now s' = CONTEXT_RULE_SEP"
    "rules_num s' = rules_num s3" "rule_table s' = rule_table s3"
    "r_cmd (first_rule s' (cur_rule s')) = r_cmd (first_rule s3 (cur_rule s3)) @ ps"
    "r_target (first_rule s' (cur_rule s')) = r_target (first_rule s3 (cur_rule s3))"
    "r_deps (first_rule s' (cur_rule s')) = r_deps (first_rule s3 (cur_rule s3))" "list_all2 (string_at (buf s')) ps cmds"
    "\<And>x. x < p2 + 1 \<Longrightarrow> buf s' x = b x"
    unfolding f3(1) by blast
  have cur: "cur_rule s' = k" using s'(3) f3(3,5) by (simp add: cur_rule_def)
  have "length t = length target + (1 + (length deps + (1 + length (cmd_text cmds))))" by (simp add: t_def)
  then have "parse_loop (length t) a s = Some s'"
    using parse_loop_seq [OF r1 [folded p1_def] parse_loop_seq [OF r2 [unfolded p1_def] parse_loop_seq [OF r3 [unfolded p1_def]
      parse_loop_seq [OF r4 [unfolded p2_def p1_def] s'(1) [unfolded p2_def p1_def]]]]] by simp
  moreover have "string_at (buf s') a target"
    by (rule string_at_cong [OF tgt]) (use s'(9) in \<open>simp add: p2_def p1_def\<close>)
  moreover have "string_at (buf s') (p1 + 1 + length sp) (dropWhile (\<lambda>c. c = 0x20) deps)"
  proof (rule string_at_cong [OF dp])
    have "length sp + length (dropWhile (\<lambda>c. c = 0x20) deps) = length deps"
      unfolding sp_def length_append [symmetric] by simp
    then show "buf s' x = b x" if "x \<le> p1 + 1 + length sp + length (dropWhile (\<lambda>c. c = 0x20) deps)" for x
      using that by (intro s'(9)) (simp add: p2_def)
  qed
  ultimately show ?thesis
    using s' f3 cur t'(2) s(5) by (intro exI [of _ s']) simp
qed

subsection \<open>Comments\<close>

text \<open>A makefile that starts with a comment crashes the parser: behind the first
  byte of the comment it is in the state for the value of a variable, so that the
  newline enters a variable, whose name is still the null pointer.\<close>

theorem comment_crashes:
  assumes s: "context_now s = CONTEXT_NONE" "holds_text (buf s) a ([0x23] @ (c # cs) @ [0x0a])"
    and fresh: "first_var s (unat (vars_num s)) = \<lparr>var_name = 0, var_value = 0, var_kind = 0\<rparr>"
    and cs: "c \<noteq> 0x0a" "0x0a \<notin> set cs" "0x23 \<notin> set cs"
  shows "parse_loop (length cs + 3) a s = None"
proof -
  define s1 where "s1 = goto CONTEXT_COMMENT s"
  define s2 where "s2 = goto CONTEXT_VARIABLE s"
  have "parse_step a s = Some s1" using s by (simp add: parse_step_def do_context_none_def s1_def)
  moreover have "parse_step (a + 1) s1 = Some s2"
    using s(2) cs(1) by (simp add: parse_step_def do_context_comment_def s1_def s2_def goto_def CONTEXT_defs)
  moreover have "parse_loop (length cs) (a + 2) s2 = Some s2"
    by (rule parse_loop_skip) (use s(2) cs in \<open>auto intro!: step_variable simp: s2_def goto_def\<close>)
  moreover have "parse_step (a + 2 + length cs) s2 = None"
    using s(2) fresh
    by (simp add: parse_step_def do_context_variable_def s2_def goto_def CONTEXT_defs set_var_def Let_def
        put_byte_def upd_var_def var_at_def key_at_def ASSIGN_defs)
  ultimately show ?thesis
    using parse_loop_add [of 2 "length cs + 1" a s] parse_loop_add [of "length cs" 1 "a + 2" s2]
    by (simp add: numeral_2_eq_2 eval_nat_numeral)
qed

subsection \<open>Concrete files\<close>

definition put_text :: "nat \<Rightarrow> u8 list \<Rightarrow> mem" where
  "put_text a t = put_bytes a t (\<lambda>_. 0)"

lemma holds_put_text: "holds_text (put_bytes a t m) a t"
proof -
  have "holds_text m' a t" if "\<forall>i < length t. m' (a + i) = t ! i" for m' a
    using that
  proof (induction t arbitrary: a)
    case (Cons c t)
    have "\<forall>i < length t. m' (Suc a + i) = t ! i" using Cons.prems by force
    then show ?case using Cons.IH [of "Suc a"] Cons.prems by force
  qed simp
  then show ?thesis by (simp add: put_bytes_apply)
qed

definition mk0 :: "u8 list \<Rightarrow> mk" where
  "mk0 t = \<lparr>context_now = CONTEXT_NONE, pstr = 0, buf = put_text 0x1000 t, vars_num = 0,
     first_var = (\<lambda>_. \<lparr>var_name = 0, var_value = 0, var_kind = 0\<rparr>),
     var_table = \<lparr>ht_nbucket = 100, ht_bucket = (\<lambda>_. []), ht_hash_f = Some std_sysv_hash\<rparr>, rules_num = 0,
     first_rule = (\<lambda>_. \<lparr>r_target = 0, r_deps = 0, r_cmd = [], r_num_deps = 0, r_num_cmd = 0, r_resolved = 0\<rparr>),
     rule_table = \<lparr>ht_nbucket = 100, ht_bucket = (\<lambda>_. []), ht_hash_f = Some with_escape_hash\<rparr>, trims = []\<rparr>"

lemma mk0_fields:
  "context_now (mk0 t) = CONTEXT_NONE" "holds_text (buf (mk0 t)) 0x1000 t" "ht_hash_f (var_table (mk0 t)) \<noteq> None"
  "ht_hash_f (rule_table (mk0 t)) \<noteq> None" "hash_find (var_table (mk0 t)) nm = Some None"
  "hash_find (rule_table (mk0 t)) nm = Some None" "r_cmd (first_rule (mk0 t) k) = []"
  "first_var (mk0 t) k = \<lparr>var_name = 0, var_value = 0, var_kind = 0\<rparr>" "rules_num (mk0 t) = 0"
  "vars_num (mk0 t) = 0"
  by (simp_all add: mk0_def put_text_def holds_put_text hash_find_def bucket_index_def)

lemma room: "0 < MAX_VARS" "0 < MAX_RULES"
  by (simp_all add: MAX_VARS_def MAX_RULES_def)

lemma variable_line_witness:
  "\<exists>s' v. parse_loop (length [0x43, 0x3d, 0x67, 0x63, 0x0a :: u8]) 0x1000 (mk0 [0x43, 0x3d, 0x67, 0x63, 0x0a]) = Some s' \<and>
    hash_find (var_table s') [0x43] = Some (Some (Val v)) \<and> str_at (buf s') v = Some [0x67, 0x63]"
  using room variable_line [of "mk0 [0x43, 0x3d, 0x67, 0x63, 0x0a]" "0x1000" "[0x43]" "[0x67, 0x63]" "0x43" "[]"]
    mk0_fields(1,2,3,5,10) [of "[0x43, 0x3d, 0x67, 0x63, 0x0a]"]
  by (auto simp: name_start_def)

lemma rule_lines_witness:
  "\<exists>s'. parse_loop (length [0x61, 0x3a, 0x20, 0x62, 0x0a, 9, 0x63, 0x0a :: u8]) 0x1000 (mk0 [0x61, 0x3a, 0x20, 0x62, 0x0a, 9, 0x63, 0x0a]) = Some s' \<and>
    rules_num s' = 1 \<and> string_at (buf s') (r_deps (first_rule s' 0)) [0x62]"
  using room rule_lines [of "mk0 [0x61, 0x3a, 0x20, 0x62, 0x0a, 9, 0x63, 0x0a]" "0x1000" "[0x61]" "[0x20, 0x62]" "[[0x63]]" "0x61" "[]"]
    mk0_fields [of "[0x61, 0x3a, 0x20, 0x62, 0x0a, 9, 0x63, 0x0a]"]
  by (auto simp: name_start_def cmd_text_def cmd_ok_def)

lemma comment_crashes_witness: "parse_loop (length [0x21 :: u8] + 3) 0x1000 (mk0 [0x23, 0x20, 0x21, 0x0a]) = None"
  by (rule comment_crashes [where c = "0x20"]) (use mk0_fields [of "[0x23, 0x20, 0x21, 0x0a]"] in simp_all)

end
