(* ===== verification/BuildRule.thy ===== *)
theory BuildRule
  imports MakeParse
begin

text \<open>
  The variables and rules of the build tool after parsing: \<open>__z__build__resolve\<close> of
  \<open>core/build/variable.c\<close> and what \<open>__z__build__traverse\<close> of \<open>core/build/rule.c\<close> reaches.
  The addresses \<open>__malloc\<close> returns are a list, used up from the front.  The pointer \<open>ss\<close> is
  not initialised: what it holds first is a parameter.  A value that \<open>hash_set\<close> has
  overridden points to a cell of the table, not to a string; following it is \<open>None\<close>, as
  are a null pointer and an endless loop.
\<close>

subsection \<open>References to variables\<close>

partial_function (option) close_paren :: "mem \<Rightarrow> nat \<Rightarrow> nat option" where
  [code]: "close_paren m p = (if m p = 0x29 \<or> m p = 0 then Some p else close_paren m (p + 1))"

text \<open>The next reference: the byte behind the dollar sign, or the start \<open>p1\<close> if there is
  none before the end of the line.  A closing parenthesis is overwritten.\<close>

partial_function (option) need_resolve :: "mem \<Rightarrow> nat \<Rightarrow> nat \<Rightarrow> (nat \<times> mem) option" where
  [code]: "need_resolve m p1 p =
     (if m p = 0 then Some (p1, m)
      else if m p = 0x24 then
        (if m (p + 1) = 0x28 then do { e \<leftarrow> close_paren m (p + 1); Some (p + 1, m(e := 0)) }
         else if m (p + 1) = 0x3c \<or> m (p + 1) = 0x40 \<or> m (p + 1) = 0x5e then Some (p + 1, m)
         else Some (p1, m))
      else if m p = 0x0a then Some (p1, m)
      else need_resolve m p1 (p + 1))"

text \<open>The value of the variable named at \<open>p\<close>, 0 if there is none.\<close>

definition find_var :: "nat hash_table \<Rightarrow> mem \<Rightarrow> nat \<Rightarrow> nat option" where
  "find_var t m p = do {
     nm \<leftarrow> str_at m p;
     r \<leftarrow> hash_find t nm;
     case r of None \<Rightarrow> Some 0 | Some (Val v) \<Rightarrow> Some v | Some (Cell _ _) \<Rightarrow> None }"

text \<open>What stands before the reference, until \<open>i\<close> is 2 or the string ends; a whole string,
  with its NUL.\<close>

partial_function (option) copy_before :: "mem \<Rightarrow> nat \<Rightarrow> nat \<Rightarrow> int \<Rightarrow> (mem \<times> nat \<times> nat \<times> int) option" where
  [code]: "copy_before m s d i =
     (if i = 2 then Some (m, s, d, i)
      else if m s \<noteq> 0 then copy_before (m(d := m s)) (s + 1) (d + 1) (i - 1)
      else Some (m, s, d, i))"

partial_function (option) copy_str :: "mem \<Rightarrow> nat \<Rightarrow> nat \<Rightarrow> (mem \<times> nat \<times> nat) option" where
  [code]: "copy_str m s d =
     (if m s = 0 then Some (m(d := 0), s, d) else copy_str (m(d := m s)) (s + 1) (d + 1))"

text \<open>The loop over the references; it copies if \<open>cp\<close>, and adds up the size otherwise.
  \<open>deps\<close> is \<open>r->deps\<close>, which a null \<open>r\<close> does not have.\<close>

partial_function (option) resolve_pass ::
  "nat hash_table \<Rightarrow> nat option \<Rightarrow> bool \<Rightarrow> mem \<Rightarrow> nat \<Rightarrow> nat \<Rightarrow> nat \<Rightarrow> u32 \<Rightarrow> (mem \<times> nat \<times> nat \<times> nat \<times> u32) option" where
  [code]: "resolve_pass t deps cp m s d ss sz = do {
     (s2, m) \<leftarrow> need_resolve m s s;
     if s2 = s then Some (m, s, d, ss, sz)
     else do {
       ss \<leftarrow> (if m s2 = 0x28 then find_var t m (s2 + 1) else if m s2 = 0x3c then deps else Some ss);
       if ss = 0 then resolve_pass t deps cp m (s2 + 1) d ss sz
       else if cp then do {
         (m, s, d, i) \<leftarrow> copy_before m s d (int s2 - int s);
         (m, ss, d) \<leftarrow> copy_str m ss d;
         resolve_pass t deps cp m (nat (int s + 1 + i + 1)) d ss sz }
       else do {
         v \<leftarrow> str_at m ss;
         resolve_pass t deps cp m (s2 + 1) d ss (sz + of_nat (s2 - s) + of_nat (length v)) } } }"

definition resolve :: "nat hash_table \<Rightarrow> nat option \<Rightarrow> nat \<Rightarrow> nat list \<Rightarrow> mem \<Rightarrow> nat \<Rightarrow> (nat \<times> nat list \<times> mem) option" where
  "resolve t deps ss0 al m s1 = (if s1 = 0 then None else do {
     (m, s, d, ss, sz) \<leftarrow> resolve_pass t deps False m s1 0 ss0 0;
     if sz = 0 then Some (s1, al, m)
     else do {
       _ \<leftarrow> str_at m s;
       (m1, al) \<leftarrow> (case al of [] \<Rightarrow> None | a # al \<Rightarrow> Some (a, al));
       (m, s, d, ss, sz) \<leftarrow> resolve_pass t deps True m s1 m1 ss 0;
       (m, s, d) \<leftarrow> copy_str m s d;
       Some (m1, al, m) } })"

text \<open>The targets of all rules; the counter has eight bits.\<close>

fun resolve_targets :: "nat \<Rightarrow> nat \<Rightarrow> nat \<Rightarrow> nat list \<Rightarrow> mk \<Rightarrow> (nat list \<times> mk) option" where
  "resolve_targets ss0 k 0 al s = Some (al, s)"
| "resolve_targets ss0 k (Suc n) al s = do {
     r \<leftarrow> rule_at k s;
     (q, al, m) \<leftarrow> resolve (var_table s) None ss0 al (buf s) (r_target r);
     resolve_targets ss0 (Suc k) n al
       (s\<lparr>buf := m, first_rule := (first_rule s)(k := r\<lparr>r_target := q\<rparr>)\<rparr>) }"

definition resolve_target :: "nat \<Rightarrow> nat list \<Rightarrow> mk \<Rightarrow> (nat list \<times> mk) option" where
  "resolve_target ss0 al s =
     (if 256 \<le> unat (rules_num s) then None else resolve_targets ss0 0 (unat (rules_num s)) al s)"

subsection \<open>Rules\<close>

text \<open>The rule a target belongs to, by name, then by its implicit form; \<open>None\<close> inside if
  there is none.  A rule that was overridden is a cell.\<close>

definition search_rule :: "nat \<Rightarrow> mk \<Rightarrow> nat option option" where
  "search_rule p s = do {
     nm \<leftarrow> key_at p s;
     r \<leftarrow> hash_find (rule_table s) nm;
     r \<leftarrow> (case r of Some _ \<Rightarrow> Some r | None \<Rightarrow> hash_partial_find (rule_table s) nm (trims s));
     case r of None \<Rightarrow> Some None | Some (Val k) \<Rightarrow> Some (Some k) | Some (Cell _ _) \<Rightarrow> None }"

fun resolve_cmds :: "nat hash_table \<Rightarrow> nat \<Rightarrow> nat \<Rightarrow> nat list \<Rightarrow> nat list \<Rightarrow> mem \<Rightarrow> (nat list \<times> nat list \<times> mem) option" where
  "resolve_cmds t deps ss0 [] al m = Some ([], al, m)"
| "resolve_cmds t deps ss0 (c # cs) al m = do {
     (q, al, m) \<leftarrow> resolve t (Some deps) ss0 al m c;
     (qs, al, m) \<leftarrow> resolve_cmds t deps ss0 cs al m;
     Some (q # qs, al, m) }"

text \<open>The dependencies and commands are resolved once.  The loop then goes over the
  dependencies as they were before; \<open>is_file\<close>, which it calls for the first one, never
  returns.  A pointer to an empty string ends it.\<close>

definition iterate_deps :: "nat \<Rightarrow> nat \<Rightarrow> nat list \<Rightarrow> mk \<Rightarrow> (u8 \<times> mk) option" where
  "iterate_deps ss0 k al s = do {
     r \<leftarrow> rule_at k s;
     s \<leftarrow> (if r_resolved r = 0 then do {
         (q, al, m) \<leftarrow> resolve (var_table s) (Some (r_deps r)) ss0 al (buf s) (r_deps r);
         (cs, al, m) \<leftarrow> resolve_cmds (var_table s) q ss0 (r_cmd r) al m;
         Some (s\<lparr>buf := m, first_rule := (first_rule s)(k := r\<lparr>r_deps := q, r_cmd := cs, r_resolved := 1\<rparr>)\<rparr>) }
       else Some s);
     if r_deps r \<noteq> 0 \<and> buf s (r_deps r) = 0 then Some (0, s) else None }"

definition traverse :: "nat \<Rightarrow> nat \<Rightarrow> nat list \<Rightarrow> mk \<Rightarrow> mk option" where
  "traverse ss0 p al s = do {
     r0 \<leftarrow> rule_at 0 s;
     r \<leftarrow> search_rule (if p = 0 then r_target r0 else p) s;
     case r of None \<Rightarrow> None | Some k \<Rightarrow> map_option snd (iterate_deps ss0 k al s) }"

text \<open>A rule that has dependencies is not finished.\<close>

lemma traverse_hangs:
  assumes "search_rule (if p = 0 then r_target (first_rule s 0) else p) s = Some (Some k)"
    "r_resolved (first_rule s k) \<noteq> 0" "buf s (r_deps (first_rule s k)) \<noteq> 0"
  shows "traverse ss0 p al s = None"
  using assms by (simp add: traverse_def iterate_deps_def rule_at_def MAX_RULES_def)

subsection \<open>What resolving a reference gives\<close>

definition plain_byte :: "u8 \<Rightarrow> bool" where
  "plain_byte c \<longleftrightarrow> c \<noteq> 0 \<and> c \<noteq> 0x24 \<and> c \<noteq> 0x0a"

lemma need_resolve_skip:
  "holds_text m p t \<Longrightarrow> \<forall>c \<in> set t. plain_byte c \<Longrightarrow> need_resolve m p1 p = need_resolve m p1 (p + length t)"
proof (induction t arbitrary: p)
  case (Cons c t)
  then show ?case by (subst need_resolve.simps) (simp add: plain_byte_def)
qed simp

lemma need_resolve_end: "m p = 0 \<Longrightarrow> need_resolve m p1 p = Some (p1, m)"
  by (subst need_resolve.simps) simp

lemma close_paren_skip:
  "holds_text m p t \<Longrightarrow> nul_free t \<Longrightarrow> 0x29 \<notin> set t \<Longrightarrow> close_paren m p = close_paren m (p + length t)"
proof (induction t arbitrary: p)
  case (Cons c t)
  then show ?case by (subst close_paren.simps) auto
qed simp

lemma copy_before_run:
  assumes "holds_text m s t" "nul_free t" "\<And>k. k < length t \<Longrightarrow> d + k < s \<or> s + length t \<le> d + k"
  shows "copy_before m s d (int (length t) + 2) = Some (put_bytes d t m, s + length t, d + length t, 2)"
  using assms
proof (induction t arbitrary: m s d)
  case Nil
  then show ?case by (subst copy_before.simps) simp
next
  case (Cons c t)
  have far: "d < s \<or> s + length t < d" using Cons.prems(3) [of 0] by auto
  have "copy_before (m(d := c)) (Suc s) (Suc d) (int (length t) + 2) =
      Some (put_bytes (Suc d) t (m(d := c)), Suc s + length t, Suc d + length t, 2)"
  proof (rule Cons.IH)
    show "holds_text (m(d := c)) (Suc s) t" using Cons.prems(1) far by (subst holds_text_upd) auto
    show "nul_free t" using Cons.prems(2) by simp
    show "Suc d + k < Suc s \<or> Suc s + length t \<le> Suc d + k" if "k < length t" for k
      using Cons.prems(3) [of "Suc k"] that by auto
  qed
  then show ?case using Cons.prems(1,2) by (subst copy_before.simps) (simp add: add.commute)
qed

lemma copy_str_run:
  assumes "string_at m s t" "\<And>k. k \<le> length t \<Longrightarrow> d + k < s \<or> s + length t < d + k"
  shows "copy_str m s d = Some (put_bytes d (t @ [0]) m, s + length t, d + length t)"
  using assms
proof (induction t arbitrary: m s d)
  case Nil
  then show ?case by (subst copy_str.simps) (simp add: string_at_def)
next
  case (Cons c t)
  have far: "d < s \<or> s + length t + 1 < d" using Cons.prems(2) [of 0] by auto
  have "copy_str (m(d := c)) (Suc s) (Suc d) = Some (put_bytes (Suc d) (t @ [0]) (m(d := c)), Suc s + length t, Suc d + length t)"
  proof (rule Cons.IH)
    have "string_at m (Suc s) t" using Cons.prems(1) by (simp add: string_at_def)
    then show "string_at (m(d := c)) (Suc s) t" by (rule string_at_cong) (use far in auto)
    show "Suc d + k < Suc s \<or> Suc s + length t < Suc d + k" if "k \<le> length t" for k
      using Cons.prems(2) [of "Suc k"] that by auto
  qed
  then show ?case using Cons.prems(1) by (subst copy_str.simps) (simp add: string_at_def)
qed

lemma plain_nul_free: "\<forall>c \<in> set t. plain_byte c \<Longrightarrow> nul_free t"
  by (induction t) (simp_all add: plain_byte_def)

text \<open>The reference \<open>$(name)\<close> behind \<open>pre\<close>, with or without its closing parenthesis.\<close>

definition reference_at :: "mem \<Rightarrow> nat \<Rightarrow> cstr \<Rightarrow> cstr \<Rightarrow> bool" where
  "reference_at m s pre name \<longleftrightarrow> holds_text m s (pre @ [0x24, 0x28] @ name) \<and>
     (\<forall>c \<in> set (pre @ name). plain_byte c) \<and> 0x29 \<notin> set name \<and>
     (m (s + length pre + 2 + length name) = 0x29 \<or> m (s + length pre + 2 + length name) = 0)"

lemma need_resolve_reference:
  assumes "reference_at m s pre name"
  shows "need_resolve m s s = Some (s + length pre + 1, m(s + length pre + 2 + length name := 0))"
proof -
  let ?p = "s + length pre"
  have t: "holds_text m s pre" "m ?p = 0x24" "m (?p + 1) = 0x28" "holds_text m (?p + 2) name"
    using assms by (simp_all add: reference_at_def)
  have plain: "\<forall>c \<in> set pre. plain_byte c" "nul_free name" "0x29 \<notin> set name"
    using assms plain_nul_free [of name] by (simp_all add: reference_at_def)
  have "close_paren m (?p + 1) = close_paren m (?p + 2)" using t(3) by (subst close_paren.simps) simp
  also have "\<dots> = close_paren m (?p + 2 + length name)" by (rule close_paren_skip [OF t(4) plain(2,3)])
  also have "\<dots> = Some (?p + 2 + length name)"
    using assms unfolding reference_at_def by (subst close_paren.simps) metis
  finally have "need_resolve m s ?p = Some (?p + 1, m(?p + 2 + length name := 0))"
    using t(2,3) by (subst need_resolve.simps) simp
  then show ?thesis using need_resolve_skip [OF t(1) plain(1)] by simp
qed

text \<open>After the first pass: the parenthesis is gone, the name is a string.\<close>

lemma reference_cut:
  assumes "reference_at m s pre name"
  defines "m1 \<equiv> m(s + length pre + 2 + length name := 0)"
  shows "reference_at m1 s pre name" "string_at m1 (s + length pre + 2) name" "m1(s + length pre + 2 + length name := 0) = m1"
    "holds_text m1 s pre" "m1 (s + length pre + 1) = 0x28"
proof -
  have t: "holds_text m1 s (pre @ [0x24, 0x28] @ name)"
    using assms(1) unfolding m1_def by (subst holds_text_upd) (simp_all add: reference_at_def)
  then show "reference_at m1 s pre name" using assms(1) by (simp add: reference_at_def m1_def)
  have "nul_free name" using assms(1) plain_nul_free [of name] by (simp add: reference_at_def)
  then show "string_at m1 (s + length pre + 2) name" using t by (simp add: string_at_def m1_def)
  show "m1(s + length pre + 2 + length name := 0) = m1" by (simp add: m1_def)
  show "holds_text m1 s pre" "m1 (s + length pre + 1) = 0x28" using t by simp_all
qed

text \<open>The two passes.\<close>

lemma first_pass:
  assumes "reference_at m s pre name" "hash_find t name = Some (Some (Val v))" "v \<noteq> 0"
  defines "m1 \<equiv> m(s + length pre + 2 + length name := 0)"
  assumes "string_at m1 v value"
  shows "resolve_pass t deps False m s d ss0 0 =
    Some (m1, s + length pre + 2, d, v, of_nat (length pre + 1) + of_nat (length value))"
proof -
  note cut = reference_cut [OF assms(1), folded m1_def]
  have plain: "\<forall>c \<in> set name. plain_byte c" using assms(1) by (simp add: reference_at_def)
  have var: "find_var t m1 (s + length pre + 2) = Some v"
    using string_at_str_at [OF cut(2)] assms(2) by (simp add: find_var_def)
  have "need_resolve m1 (s + length pre + 2) (s + length pre + 2) = Some (s + length pre + 2, m1)"
    using need_resolve_skip [of m1 "s + length pre + 2" name] need_resolve_end [of m1] plain cut(2)
    by (simp add: string_at_def)
  then have rest: "resolve_pass t deps False m1 (s + length pre + 2) d v z = Some (m1, s + length pre + 2, d, v, z)" for z
    by (subst resolve_pass.simps) simp
  show ?thesis
    using need_resolve_reference [OF assms(1), folded m1_def] cut(5) var string_at_str_at [OF assms(5)] assms(3) rest
    by (subst resolve_pass.simps) simp
qed

lemma second_pass:
  assumes "reference_at m s (b @ [l]) name" "m (s + length b + 3 + length name) = 0" "name \<noteq> []"
    "hash_find t name = Some (Some (Val v))" "v \<noteq> 0" "string_at m v value"
    and away: "\<And>x. d \<le> x \<Longrightarrow> x < d + length b + 1 + length value + length name \<Longrightarrow>
      (x < s \<or> s + length b + 3 + length name < x) \<and> (x < v \<or> v + length value < x)"
  shows "\<exists>ss'. resolve_pass t deps True m s d ss0 0 =
      Some (put_bytes d (b @ value @ [0]) m, s + length b + 4, d + length (b @ value), ss', 0)"
proof -
  let ?n = "s + length b + 3"
  have same: "m(?n + length name := 0) = m" using assms(2) by auto
  have ref: "need_resolve m s s = Some (s + length b + 2, m)"
    using need_resolve_reference [OF assms(1)] same by (simp add: numeral_3_eq_3)
  have cut: "string_at m ?n name" "holds_text m s b" "m (s + length b + 2) = 0x28"
    using reference_cut(2,4,5) [OF assms(1)] same by (simp_all add: numeral_3_eq_3)
  have plain: "\<forall>c \<in> set name. plain_byte c" "\<forall>c \<in> set b. plain_byte c"
    using assms(1) by (simp_all add: reference_at_def)
  have var: "find_var t m ?n = Some v" using string_at_str_at [OF cut(1)] assms(4) by (simp add: find_var_def)
  have before: "copy_before m s d (int (length b) + 2) = Some (put_bytes d b m, s + length b, d + length b, 2)"
  proof (rule copy_before_run [OF cut(2) plain_nul_free [OF plain(2)]])
    show "d + k < s \<or> s + length b \<le> d + k" if "k < length b" for k using away [of "d + k"] that by auto
  qed
  have "string_at (put_bytes d b m) v value"
  proof (rule string_at_cong [OF assms(6)])
    show "put_bytes d b m x = m x" if "v \<le> x" "x \<le> v + length value" for x
      using away [of x] that by (auto simp: put_bytes_apply)
  qed
  then have str: "copy_str (put_bytes d b m) v (d + length b) =
      Some (put_bytes d (b @ value @ [0]) m, v + length value, d + length (b @ value))"
  proof (subst copy_str_run)
    show "d + length b + k < v \<or> v + length value < d + length b + k" if "k \<le> length value" for k
      using away [of "d + length b + k"] that assms(3) by (cases name) auto
  qed (simp_all add: put_bytes_append)
  let ?m3 = "put_bytes d (b @ value @ [0]) m"
  obtain c cs where name: "name = c # cs" using assms(3) by (cases name) auto
  have m3: "?m3 x = m x" if "s \<le> x" "x \<le> ?n + length name" for x
    using away [of x] that by (auto simp: put_bytes_apply name)
  have tl_name: "holds_text ?m3 (?n + 1) cs"
  proof (rule holds_text_cong)
    show "holds_text m (?n + 1) cs" using cut(1) by (simp add: string_at_def name)
    show "?m3 x = m x" if "?n + 1 \<le> x" "x < ?n + 1 + length cs" for x
      by (rule m3) (use that in \<open>simp_all add: name\<close>)
  qed
  have z: "?m3 (?n + 1 + length cs) = 0" using m3 [of "?n + length name"] assms(2) by (simp add: name add.assoc)
  have "\<forall>c \<in> set cs. plain_byte c" using plain(1) by (simp add: name)
  then have "need_resolve ?m3 (?n + 1) (?n + 1) = Some (?n + 1, ?m3)"
    using need_resolve_skip [OF tl_name] need_resolve_end [of ?m3, OF z] by simp
  then have rest: "resolve_pass t deps True ?m3 (?n + 1) d' ss' z = Some (?m3, ?n + 1, d', ss', z)" for d' ss' z
    by (subst resolve_pass.simps) simp
  have pos: "(s + length b + 2 = s) = False" "s + length b + 2 + 1 = ?n" "int (s + length b + 2) - int s = int (length b) + 2"
    "nat (int (s + length b) + 1 + 2 + 1) = ?n + 1" "(v = 0) = False"
    using assms(5) by simp_all
  show ?thesis
    by (subst resolve_pass.simps)
       (simp only: ref bind.simps prod.case cut(3) pos var before str rest if_True if_False refl, simp add: add.assoc)
qed

lemma of_nat_nonzero: "0 < n \<Longrightarrow> n < 2 ^ 32 \<Longrightarrow> (of_nat n :: u32) \<noteq> 0"
proof
  assume "0 < n" "n < 2 ^ 32" "(of_nat n :: u32) = 0"
  moreover from \<open>n < 2 ^ 32\<close> have "unat (of_nat n :: u32) = n" by (simp add: unsigned_of_nat take_bit_nat_eq_self)
  ultimately show False by simp
qed

lemma string_at_put:
  assumes "nul_free (xs @ ys)"
  shows "string_at (put_bytes (d + length xs) (ys @ [0]) (put_bytes d (xs @ [0]) m)) d (xs @ ys)"
proof -
  let ?m' = "put_bytes (d + length xs) (ys @ [0]) (put_bytes d (xs @ [0]) m)"
  have eq: "?m' x = put_bytes d ((xs @ ys) @ [0]) m x" for x
    by (auto simp: put_bytes_apply nth_append)
  have "holds_text ?m' d ((xs @ ys) @ [0])"
    using holds_put_text [of d "(xs @ ys) @ [0]" m] by (rule holds_text_cong) (simp only: eq)
  then show ?thesis using assms by (simp add: string_at_def add.assoc)
qed

text \<open>C29: Of a line with a reference to a variable, \<open>__z__build__resolve\<close> returns, in a
  block of its own, what stands before the reference without its last character, the
  value, and the name without its first character; whatever stands behind the reference
  is gone.\<close>

theorem first_reference_only:
  assumes "reference_at m s (b @ [l]) name" "name \<noteq> []" "s \<noteq> 0" "hash_find t name = Some (Some (Val v))" "v \<noteq> 0"
    and "string_at m v value" "s + length b + 3 + length name < v \<or> v + length value < s + length b + 3 + length name"
    and away: "\<And>x. d \<le> x \<Longrightarrow> x < d + length b + 1 + length value + length name \<Longrightarrow>
      (x < s \<or> s + length b + 3 + length name < x) \<and> (x < v \<or> v + length value < x)"
    and "length b + 2 + length value < 2 ^ 32"
  shows "\<exists>m'. resolve t deps ss0 (d # al) m s = Some (d, al, m') \<and> string_at m' d (b @ value @ tl name)"
proof -
  let ?n = "s + length b + 3"
  define m1 where "m1 = m(?n + length name := 0)"
  have at: "s + length (b @ [l]) + 2 = ?n" by simp
  note cut = reference_cut [OF assms(1), unfolded at, folded m1_def]
  have v1: "string_at m1 v value"
    using assms(6) by (rule string_at_cong) (use assms(7) in \<open>auto simp: m1_def\<close>)
  have "(of_nat (length b + 2 + length value) :: u32) \<noteq> 0"
    using assms(9) by (intro of_nat_nonzero) simp_all
  then have one: "\<exists>sz. sz \<noteq> 0 \<and> resolve_pass t deps False m s 0 ss0 0 = Some (m1, ?n, 0, v, sz)"
    using first_pass [OF assms(1,4,5), unfolded at, folded m1_def, OF v1, of deps 0 ss0]
    by (intro exI [of _ "of_nat (length (b @ [l]) + 1) + of_nat (length value)"]) (simp add: add_ac)
  have "m1 (?n + length name) = 0" by (simp add: m1_def)
  from second_pass [where deps = deps and ?ss0.0 = v, OF cut(1) this assms(2,4,5) v1 away] obtain ss' where two:
    "resolve_pass t deps True m1 s d v 0 =
      Some (put_bytes d (b @ value @ [0]) m1, s + length b + 4, d + length (b @ value), ss', 0)"
    by blast
  let ?M = "put_bytes d (b @ value @ [0]) m1"
  obtain c cs where name: "name = c # cs" using assms(2) by (cases name) auto
  have "string_at m1 (s + length b + 4) cs" using cut(2) by (simp add: string_at_def name ac_simps)
  then have "string_at ?M (s + length b + 4) cs"
  proof (rule string_at_cong)
    show "?M x = m1 x" if "s + length b + 4 \<le> x" "x \<le> s + length b + 4 + length cs" for x
      using away [of x] that by (auto simp: put_bytes_apply name)
  qed
  then have three: "copy_str ?M (s + length b + 4) (d + length (b @ value)) =
      Some (put_bytes (d + length (b @ value)) (cs @ [0]) ?M, s + length b + 4 + length cs, d + length (b @ value) + length cs)"
  proof (rule copy_str_run)
    show "d + length (b @ value) + k < s + length b + 4 \<or> s + length b + 4 + length cs < d + length (b @ value) + k"
      if "k \<le> length cs" for k
      using away [of "d + length (b @ value) + k"] that by (auto simp: name)
  qed
  have free: "nul_free ((b @ value) @ cs)"
    using assms(1,6) plain_nul_free [of b] plain_nul_free [of name]
    by (simp add: reference_at_def string_at_def nul_free_def name)
  show ?thesis
    using one two three string_at_put [OF free, of d m1] string_at_str_at [OF cut(2)] assms(3) name
    by (auto simp: resolve_def)
qed

definition vars_ab :: "nat hash_table" where
  "vars_ab = \<lparr>ht_nbucket = 100, ht_bucket = (\<lambda>_. [([0x61, 0x62], Val 0x2000)]), ht_hash_f = None\<rparr>"

definition mem_ab :: mem where
  "mem_ab = put_bytes 0x1000 [0x78, 0x20, 0x24, 0x28, 0x61, 0x62, 0x29, 0x2e, 0] (put_bytes 0x2000 [0x79, 0x7a, 0] (\<lambda>_. 0))"

lemma mem_ab_texts:
  "reference_at mem_ab 0x1000 ([0x78] @ [0x20]) [0x61, 0x62]" "string_at mem_ab 0x2000 [0x79, 0x7a]"
  by (simp_all add: mem_ab_def reference_at_def plain_byte_def string_at_def)

lemma first_reference_only_witness:
  "\<exists>m'. resolve vars_ab None 0 [0x3000] mem_ab 0x1000 = Some (0x3000, [], m') \<and> string_at m' 0x3000 [0x78, 0x79, 0x7a, 0x62]"
proof -
  have find: "hash_find vars_ab [0x61, 0x62] = Some (Some (Val 0x2000))"
    by (simp add: hash_find_def vars_ab_def bucket_index_def key_match_refl)
  have "\<exists>m'. resolve vars_ab None 0 (0x3000 # []) mem_ab 0x1000 = Some (0x3000, [], m') \<and>
      string_at m' 0x3000 ([0x78] @ [0x79, 0x7a] @ tl [0x61, 0x62])"
    by (rule first_reference_only [OF mem_ab_texts(1) _ _ find _ mem_ab_texts(2)]) simp_all
  then show ?thesis by simp
qed

end
