(* ===== verification/Patch.thy ===== *)
theory Patch
  imports CString
begin

text \<open>
  The binary patch tool \<open>tools/bipatch.c\<close> and the comparison tool
  \<open>tools/bidiff.c\<close>.  A mapped file is the list of the bytes that can be read from
  it: its content and the zeros up to the end of its last page; reading or writing
  elsewhere faults, which is \<open>None\<close>.  The patch table and the data area are one page
  each, as the code maps them.
\<close>

subsection \<open>Files and mappings\<close>

text \<open>\<open>(st_size + 0x1000) & 0xfffff000\<close>: the size asked of \<open>mmap\<close>.\<close>

definition map_size :: "u64 \<Rightarrow> nat" where
  "map_size n = unat ((n + 0x1000) AND 0xfffff000)"

definition page_pad :: "nat \<Rightarrow> nat" where
  "page_pad n = (4096 - n mod 4096) mod 4096"

definition mapped :: "u8 list \<Rightarrow> u8 list" where
  "mapped t = take (map_size (of_nat (length t))) (t @ replicate (page_pad (length t)) 0)"

subsection \<open>The patch table (\<open>include/bipatch.h\<close>)\<close>

record patch_format =
  pf_cmd :: u8
  pf_addr :: u64
  pf_length :: u16
  pf_elem :: nat   \<comment> \<open>index in the data page\<close>

definition pf0 :: patch_format where
  "pf0 = \<lparr>pf_cmd = 0, pf_addr = 0, pf_length = 0, pf_elem = 0\<rparr>"

text \<open>\<open>patch_info\<close> with the pages behind it.  \<open>pi_end\<close> is the table index the \<open>end\<close>
  pointer has, if it points to an entry at all; \<open>q\<close> and \<open>data\<close> are the two local
  pointers of \<open>read_patch\<close>.\<close>

record patch_info =
  pi_table :: "patch_format list"
  pi_data :: "u8 list"
  pi_end :: "nat option"
  size_updown :: u32
  pq :: nat
  pdata :: nat

definition TABLE_ENTRIES :: nat where "TABLE_ENTRIES = 128"   \<comment> \<open>\<open>4096 / sizeof(patch_format)\<close>\<close>

definition upd_entry :: "(patch_format \<Rightarrow> patch_format) \<Rightarrow> patch_info \<Rightarrow> patch_info" where
  "upd_entry f st = st\<lparr>pi_table := (pi_table st)[pq st := f (pi_table st ! pq st)]\<rparr>"

text \<open>\<open>ascii_to_bin(p, p + n)\<close> on what is mapped from \<open>p\<close> on.\<close>

definition ascii_at :: "nat \<Rightarrow> u8 list \<Rightarrow> u64 option" where
  "ascii_at n s =
     (if s = [] then None
      else if hd s \<noteq> 0x30 then Some (- 1)
      else if tl s = [] then None
      else if hd (tl s) \<noteq> 0x78 then Some (- 1)
      else if length s < n then None
      else ascii_to_bin (take n s))"

definition skip_blanks :: "u8 list \<Rightarrow> u8 list" where
  "skip_blanks s = dropWhile (\<lambda>c. c = 0x20) s"

text \<open>The bytes of an insertion.  The result is the rest of the text, or nothing for
  \<open>return 0\<close>.\<close>

function insert_loop :: "patch_info \<Rightarrow> u8 list \<Rightarrow> (patch_info \<times> u8 list option) option" where
  "insert_loop st s =
     (if s = [] then None
      else if hd s = 0x0a then Some (st, Some s)
      else case ascii_at 4 s of
        None \<Rightarrow> None
      | Some d \<Rightarrow>
          if d = - 1 then Some (st, None)
          else if pdata st \<ge> length (pi_data st) then None
          else insert_loop
                 ((upd_entry (\<lambda>e. e\<lparr>pf_length := pf_length e + 1\<rparr>) st)
                    \<lparr>pi_data := (pi_data st)[pdata st := ucast d], pdata := Suc (pdata st)\<rparr>)
                 (skip_blanks (drop 4 s)))"
  by pat_completeness auto
termination
  by (relation "measure (\<lambda>(st, s). length s)")
     (auto simp: skip_blanks_def intro: order_le_less_trans [OF length_dropWhile_le])

declare insert_loop.simps [simp del]

text \<open>One round of \<open>read_patch\<close>, up to the \<open>p++, q++\<close> of the loop head.\<close>

definition read_entry :: "patch_info \<Rightarrow> u8 list \<Rightarrow> (patch_info \<times> u8 list option) option" where
  "read_entry st s =
     (if hd s \<noteq> 0x31 \<and> hd s \<noteq> 0x30 then Some (st, None)
      else if pq st \<ge> length (pi_table st) then None
      else let cmd = (if hd s = 0x31 then 1 else 0);
               st = upd_entry (\<lambda>e. e\<lparr>pf_cmd := cmd\<rparr>) st in
        case dropWhile (\<lambda>c. c \<noteq> 0x20) (tl s) of
          [] \<Rightarrow> None
        | _ # s \<Rightarrow>
          (case ascii_at 10 s of
             None \<Rightarrow> None
           | Some addr \<Rightarrow>
             if addr = - 1 then Some (st, None)
             else let st = upd_entry (\<lambda>e. e\<lparr>pf_addr := addr\<rparr>) st;
                      s = skip_blanks (drop 10 s) in
               if cmd = 0
               then (case ascii_at 4 s of
                       None \<Rightarrow> None
                     | Some d \<Rightarrow>
                         if d = - 1 then Some (st, None)
                         else Some ((upd_entry (\<lambda>e. e\<lparr>pf_length := ucast d, pf_elem := 0\<rparr>) st)
                                      \<lparr>size_updown := size_updown st - ucast d\<rparr>,
                                    Some (drop 4 s)))
               else (case insert_loop (upd_entry (\<lambda>e. e\<lparr>pf_elem := pdata st\<rparr>) st) s of
                       None \<Rightarrow> None
                     | Some (st, None) \<Rightarrow> Some (st, None)
                     | Some (st, Some s) \<Rightarrow>
                         Some (st\<lparr>size_updown := size_updown st +
                                 ucast (pf_length (pi_table st ! pq st))\<rparr>, Some s))))"

lemma insert_loop_shorter: "insert_loop st s = Some (st', Some s') \<Longrightarrow> length s' \<le> length s"
proof (induction st s arbitrary: st' s' rule: insert_loop.induct)
  case (1 st s)
  have "length (skip_blanks (drop 4 s)) \<le> length s"
    unfolding skip_blanks_def using length_dropWhile_le [of "\<lambda>c. c = 0x20" "drop 4 s"] by simp
  with 1 show ?case
    by (subst (asm) (2) insert_loop.simps)
       (force split: if_splits option.splits)
qed

lemma read_entry_shorter:
  assumes "read_entry st s = Some (st', Some s')" "s \<noteq> []"
  shows "length s' < length s"
proof -
  obtain c r where s: "s = c # r" using assms(2) by (cases s) auto
  have skip: "length (skip_blanks (drop n x)) \<le> length x" for n and x :: "u8 list"
    unfolding skip_blanks_def using length_dropWhile_le [of "\<lambda>c. c = 0x20" "drop n x"] by simp
  obtain b y where d: "dropWhile (\<lambda>c. c \<noteq> 0x20) r = b # y"
    using assms(1) unfolding s read_entry_def
    by (cases "dropWhile (\<lambda>c. c \<noteq> 0x20) r") (auto simp: Let_def simp del: dropWhile_eq_Nil_conv split: if_splits)
  have "length (b # y) \<le> length r" unfolding d [symmetric] by (rule length_dropWhile_le)
  then have y: "length y < length s" unfolding s by simp
  have "length s' \<le> length y"
    using assms(1) skip [of 10 y] insert_loop_shorter
    unfolding s read_entry_def Let_def
    by (auto simp: d split: if_splits option.splits prod.splits dest!: insert_loop_shorter)
  with y show ?thesis by simp
qed

text \<open>The loop of \<open>read_patch\<close> over a text of \<open>n\<close> bytes of which \<open>N\<close> are mapped:
  \<open>p != end\<close> compares what is left.\<close>

function read_loop :: "nat \<Rightarrow> nat \<Rightarrow> patch_info \<Rightarrow> u8 list \<Rightarrow> (patch_info \<times> bool) option" where
  "read_loop n N st s =
     (if length s + n = N then Some (st, True)
      else if s = [] then None
      else if hd s = 0x0a then Some (st, True)
      else case read_entry st s of
        None \<Rightarrow> None
      | Some (st, None) \<Rightarrow> Some (st, False)
      | Some (st, Some []) \<Rightarrow> None
      | Some (st, Some (_ # s)) \<Rightarrow> read_loop n N (st\<lparr>pq := Suc (pq st)\<rparr>) s)"
  by pat_completeness auto
termination
  by (relation "measure (\<lambda>(n, N, st, s). length s)") (auto dest!: read_entry_shorter)

declare read_loop.simps [simp del]

text \<open>\<open>read_patch\<close> on the content of the patch file.  \<open>garbage\<close> is the \<open>end\<close> field of
  \<open>main\<close>'s uninitialised variable.  The \<open>munmap(q, 4096)\<close> at the end is refused unless
  \<open>q\<close> is at a page boundary; with no entry at all it takes the table away.\<close>

definition read_patch :: "nat option \<Rightarrow> u8 list \<Rightarrow> (patch_info \<times> bool) option" where
  "read_patch garbage t =
     (let st = \<lparr>pi_table = replicate TABLE_ENTRIES pf0, pi_data = replicate 4096 0, pi_end = garbage,
                size_updown = 0, pq = 0, pdata = 0\<rparr> in
      case read_loop (length t) (length (mapped t)) st (mapped t) of
        None \<Rightarrow> None
      | Some (st, False) \<Rightarrow> Some (st, False)
      | Some (st, True) \<Rightarrow>
          Some (st\<lparr>pi_end := None, pi_table := (if pq st = 0 then [] else pi_table st)\<rparr>, True))"

subsection \<open>Applying the patch\<close>

text \<open>\<open>apply\<close>: \<open>inp\<close> is the mapped input of \<open>n\<close> bytes, \<open>ol\<close> the length of the output
  mapping and \<open>oa\<close> how much of it can be written; \<open>p\<close> is the offset in the input, \<open>k\<close>
  the table index of \<open>_pf\<close> and \<open>out\<close> what was written, so that \<open>q\<close> is its length.
  When \<open>end\<close> is an index of the table \<open>_pf\<close> stays there, and the loop can be endless.\<close>

partial_function (option) apply_loop ::
    "patch_info \<Rightarrow> u8 list \<Rightarrow> nat \<Rightarrow> nat \<Rightarrow> nat \<Rightarrow> nat \<Rightarrow> nat \<Rightarrow> u8 list \<Rightarrow> u8 list option" where
  [code]: "apply_loop pi inp n ol oa p k out =
     (if p = n \<or> length out = ol then Some out
      else if k \<ge> length (pi_table pi) then None
      else let pf = pi_table pi ! k; k' = (if Some k \<noteq> pi_end pi then Suc k else k) in
        if of_nat p = pf_addr pf
        then (if pf_cmd pf = 1
              then (if length out + unat (pf_length pf) > oa then None
                    else apply_loop pi inp n ol oa p k'
                           (out @ take (unat (pf_length pf)) (drop (pf_elem pf) (pi_data pi))))
              else if pf_cmd pf = 0
              then apply_loop pi inp n ol oa (p + unat (pf_length pf)) k' out
              else apply_loop pi inp n ol oa p k' out)
        else if p < length inp \<and> length out < oa
        then apply_loop pi inp n ol oa (Suc p) k (out @ [inp ! p])
        else None)"

text \<open>\<open>map_output_file\<close>: the file is emptied and one byte is written behind a seek to
  \<open>sz\<close>, which fails for a negative offset.\<close>

definition out_file_len :: "u64 \<Rightarrow> nat" where
  "out_file_len sz = (if sint sz < 0 then 1 else Suc (unat sz))"

definition out_writable :: "u64 \<Rightarrow> nat" where
  "out_writable sz = min (map_size sz) (out_file_len sz + page_pad (out_file_len sz))"

datatype patch_run =
    PExit nat                    \<comment> \<open>\<open>exit(n)\<close>\<close>
  | PSaved cstr "u8 list" bool   \<comment> \<open>output file, its content, whether the patch parsed\<close>

text \<open>\<open>apply_patch\<close>, given what the files hold.  The first \<open>out_file_len\<close> bytes of the
  output mapping are the file.  A mapping of no bytes fails and \<open>save\<close> exits.\<close>

definition output_size :: "nat \<Rightarrow> patch_info \<Rightarrow> u64" where
  "output_size n edit = (of_nat n - 1) + scast (size_updown edit)"

definition apply_patch :: "u8 list \<Rightarrow> patch_info \<Rightarrow> cstr \<Rightarrow> bool \<Rightarrow> patch_run option" where
  "apply_patch inp edit out_f parsed =
     (let sz = output_size (length inp) edit in
      case apply_loop edit (mapped inp) (length inp) (map_size sz) (out_writable sz) 0 0 [] of
        None \<Rightarrow> None
      | Some out \<Rightarrow>
          if map_size sz = 0 then Some (PExit 1)
          else Some (PSaved out_f (take (out_file_len sz) (out @ replicate (out_file_len sz) 0)) parsed))"

text \<open>\<open>main\<close>.  \<open>fs\<close> gives the content of the files that can be opened.  Too few arguments
  only print the usage; the missing names are null and cannot be opened.  An output
  file that is the input file would truncate the mapping being read, which is not
  defined.\<close>

definition bipatch_main :: "(cstr \<Rightarrow> u8 list option) \<Rightarrow> nat option \<Rightarrow> cstr list \<Rightarrow> patch_run option" where
  "bipatch_main fs garbage argv =
     (case (if 2 < length argv then fs (argv ! 2) else None) of
        None \<Rightarrow> Some (PExit 1)
      | Some t \<Rightarrow>
        (case read_patch garbage t of
           None \<Rightarrow> None
         | Some (edit, parsed) \<Rightarrow>
           (case fs (argv ! 1) of
              None \<Rightarrow> Some (PExit 0)
            | Some inp \<Rightarrow>
                if length argv \<le> 3 then Some (PExit 1)
                else if argv ! 3 = argv ! 1 then None
                else apply_patch inp edit (argv ! 3) parsed)))"

subsection \<open>\<open>bidiff.c\<close>\<close>

text \<open>\<open>diff\<close>: one line of output, offset and the two bytes, for every difference.  (Files
  below 4 GiB, which \<open>map_input_file\<close> maps whole.)\<close>

fun diff_loop :: "nat \<Rightarrow> u8 list \<Rightarrow> u8 list \<Rightarrow> (nat \<times> u8 \<times> u8) list" where
  "diff_loop i (a # p) (b # q) =
     (if a = b then diff_loop (Suc i) p q else (i, a, b) # diff_loop (Suc i) p q)"
| "diff_loop i p q = []"

datatype diff_run = DUsage | DExit nat | DDone "(nat \<times> u8 \<times> u8) list"

definition bidiff_main :: "(cstr \<Rightarrow> u8 list option) \<Rightarrow> cstr list \<Rightarrow> diff_run" where
  "bidiff_main fs argv =
     (if length argv < 3 then DUsage
      else case fs (argv ! 1) of
        None \<Rightarrow> DExit 0
      | Some a \<Rightarrow> (case fs (argv ! 2) of
          None \<Rightarrow> DExit 0
        | Some b \<Rightarrow> DDone (diff_loop 0 a b)))"

subsection \<open>Page arithmetic\<close>

lemma unat_u64: "n < 2 ^ 64 \<Longrightarrow> unat (of_nat n :: u64) = n"
  by (simp add: unsigned_of_nat take_bit_nat_eq_self)

lemma map_size_of_nat:
  assumes "n < 2 ^ 32 - 4096"
  shows "map_size (of_nat n) = (n div 4096 + 1) * 4096"
proof -
  let ?x = "of_nat n + 0x1000 :: u64"
  have u: "unat ?x = n + 4096" using assms
    by (simp add: unat_word_ariths unat_of_nat take_bit_nat_eq_self)
  have m: "(0xfffff000 :: u64) = push_bit 12 (mask 20)"
    by (simp add: mask_eq_exp_minus_1 push_bit_eq_mult)
  have a: "?x AND 0xfffff000 = push_bit 12 (take_bit 20 (drop_bit 12 ?x))"
    unfolding m by (rule bit_word_eqI) (auto simp: bit_simps)
  have d: "unat (drop_bit 12 ?x) = (n + 4096) div 4096"
  proof -
    have "take_bit LENGTH(64) (n + 4096) = n + 4096"
      using assms by (intro take_bit_nat_eq_self) simp
    then show ?thesis unfolding unsigned_drop_bit_eq u by (simp add: drop_bit_eq_div)
  qed
  have t: "unat (take_bit 20 (drop_bit 12 ?x)) = (n + 4096) div 4096"
  proof -
    have "(n + 4096) div 4096 < 2 ^ 20" using assms by simp
    then show ?thesis by (simp only: unsigned_take_bit_eq d take_bit_nat_eq_self)
  qed
  have "(n + 4096) div 4096 * 4096 < 2 ^ 64" using assms by simp
  then have "unat (push_bit 12 (take_bit 20 (drop_bit 12 ?x))) = (n + 4096) div 4096 * 4096"
    by (simp only: push_bit_eq_mult unat_word_ariths t) (simp add: mult.commute)
  moreover have "(n + 4096) div 4096 = n div 4096 + 1" by simp
  ultimately show ?thesis unfolding map_size_def a by (simp only:)
qed

lemma page_pad_bound: "n + page_pad n \<le> (n div 4096 + 1) * 4096"
proof -
  have "n + x \<le> (d + 1) * 4096" if "x \<le> 4096 - r" "r < 4096" "n = d * 4096 + r" for x d r :: nat
    using that by simp
  from this [OF mod_less_eq_dividend _ div_mult_mod_eq [symmetric]] show ?thesis
    unfolding page_pad_def by simp
qed

lemma mapped_small:
  assumes "length t < 2 ^ 32 - 4096"
  shows "mapped t = t @ replicate (page_pad (length t)) 0"
proof -
  have "length (t @ replicate (page_pad (length t)) (0 :: u8)) \<le> (length t div 4096 + 1) * 4096"
    unfolding length_append length_replicate by (rule page_pad_bound)
  then show ?thesis unfolding mapped_def map_size_of_nat [OF assms] by (rule take_all)
qed

subsection \<open>Hexadecimal numbers\<close>

definition hexdig :: "nat \<Rightarrow> u8" where
  "hexdig d = of_nat (if d < 10 then 0x30 + d else 0x57 + d)"

primrec hexle :: "nat \<Rightarrow> nat \<Rightarrow> u8 list" where
  "hexle 0 v = []"
| "hexle (Suc k) v = hexdig (v mod 16) # hexle k (v div 16)"

definition hex :: "nat \<Rightarrow> nat \<Rightarrow> u8 list" where
  "hex k v = 0x30 # 0x78 # rev (hexle k v)"

lemma hex_digit_hexdig: "d < 16 \<Longrightarrow> hex_digit (hexdig d) = Some (of_nat d)"
proof -
  have "list_all (\<lambda>d. hex_digit (hexdig d) = Some (of_nat d)) [0..<16]" by code_simp
  then show "d < 16 \<Longrightarrow> ?thesis" by (simp add: list_all_iff)
qed

lemma length_hexle [simp]: "length (hexle k v) = k"
  by (induction k arbitrary: v) auto

lemma length_hex [simp]: "length (hex k v) = k + 2"
  by (simp add: hex_def)

lemma scast_push_bit_digit:
  assumes "d * 2 ^ s < 2 ^ 31"
  shows "scast (push_bit s (of_nat d :: u32)) = (of_nat (d * 2 ^ s) :: u64)"
proof -
  have "push_bit s (of_nat d :: u32) = word_of_nat (d * 2 ^ s)"
    by (simp add: push_bit_eq_mult)
  moreover have "unat (scast (word_of_nat (d * 2 ^ s) :: u32) :: u64) = unat (of_nat (d * 2 ^ s) :: u64)"
    unfolding unat_scast_word_of_nat [OF assms] using assms by (intro unat_u64 [symmetric]) simp
  ultimately show ?thesis by (simp only: unsigned_word_eqI)
qed

lemma ascii_loop_hexle:
  "v < 16 ^ k \<Longrightarrow> v * 2 ^ s < 2 ^ 31 \<Longrightarrow> s + 4 * k \<le> 32 \<Longrightarrow>
   ascii_loop (hexle k v) r s = Some (r + of_nat (v * 2 ^ s))"
proof (induction k arbitrary: v r s)
  case 0
  then show ?case by simp
next
  case (Suc k)
  have split: "v mod 16 * 2 ^ s + v div 16 * 2 ^ (s + 4) = v * 2 ^ s"
  proof -
    have "v mod 16 * 2 ^ s + v div 16 * 2 ^ (s + 4) = (v mod 16 + 16 * (v div 16)) * 2 ^ s"
      unfolding power_add distrib_right by simp
    then show ?thesis unfolding mod_mult_div_eq .
  qed
  have "v mod 16 * 2 ^ s < 2 ^ 31" "v div 16 * 2 ^ (s + 4) < 2 ^ 31"
    using Suc.prems(2) split by linarith+
  moreover have "v div 16 < 16 ^ k" using Suc.prems(1) by (simp add: less_mult_imp_div_less)
  ultimately show ?case
    using Suc.prems(3) Suc.IH [of "v div 16" "s + 4"] split
    by (simp add: hex_digit_hexdig scast_push_bit_digit add.assoc flip: of_nat_add del: of_nat_mult)
qed

lemma ascii_at_hex:
  assumes "v < 16 ^ k" "v < 2 ^ 31" "k \<le> 8" "n = k + 2"
  shows "ascii_at n (hex k v @ r) = Some (of_nat v)"
  using ascii_loop_hexle [of v k 0 0] assms
  by (simp add: ascii_at_def ascii_to_bin_def hex_def)

lemma drop_hex: "n = k + 2 \<Longrightarrow> drop n (hex k v @ r) = r"
  by simp

lemma of_nat_not_minus_1: "n < 2 ^ 31 \<Longrightarrow> of_nat n \<noteq> (- 1 :: u64)"
proof
  assume "n < 2 ^ 31" "of_nat n = (- 1 :: u64)"
  then have "unat (of_nat n :: u64) = unat (- 1 :: u64)" by simp
  moreover have "unat (- 1 :: u64) = 2 ^ 64 - 1"
    by (simp add: unsigned_minus_1_eq_mask mask_eq_exp_minus_1)
  moreover have "unat (of_nat n :: u64) = n" using \<open>n < 2 ^ 31\<close> by (intro unat_u64) simp
  ultimately show False using \<open>n < 2 ^ 31\<close> by simp
qed

subsection \<open>Edit scripts\<close>

text \<open>What a patch means: insertions and deletions at offsets of the input.\<close>

datatype edit = Ins nat "u8 list" | Del nat nat

fun patched :: "edit list \<Rightarrow> nat \<Rightarrow> u8 list \<Rightarrow> u8 list" where
  "patched [] p inp = drop p inp"
| "patched (Ins a bs # es) p inp = take (a - p) (drop p inp) @ bs @ patched es a inp"
| "patched (Del a k # es) p inp = take (a - p) (drop p inp) @ patched es (a + k) inp"

text \<open>Scripts the tool can apply to \<open>n\<close> bytes: in order, inside the input, and not ending
  at offset 0, where the unused entries of the table would match.\<close>

fun edits_ok :: "edit list \<Rightarrow> nat \<Rightarrow> nat \<Rightarrow> bool" where
  "edits_ok [] p n \<longleftrightarrow> 0 < p"
| "edits_ok (Ins a bs # es) p n \<longleftrightarrow> p \<le> a \<and> a < n \<and> edits_ok es a n"
| "edits_ok (Del a k # es) p n \<longleftrightarrow> p \<le> a \<and> a < n \<and> a + k \<le> n \<and> edits_ok es (a + k) n"

fun inserted :: "edit \<Rightarrow> u8 list" where
  "inserted (Ins a bs) = bs"
| "inserted (Del a k) = []"

fun edit_fits :: "edit \<Rightarrow> bool" where
  "edit_fits (Ins a bs) \<longleftrightarrow> a < 2 ^ 31"
| "edit_fits (Del a k) \<longleftrightarrow> a < 2 ^ 31 \<and> k < 256"

definition all_inserted :: "edit list \<Rightarrow> u8 list" where
  "all_inserted es = concat (map inserted es)"

text \<open>Scripts that fit the two pages.\<close>

definition script_fits :: "edit list \<Rightarrow> bool" where
  "script_fits es \<longleftrightarrow> list_all edit_fits es \<and> length es < TABLE_ENTRIES
     \<and> length (all_inserted es) \<le> 4096"

text \<open>The patch text of a script.\<close>

definition print_byte :: "u8 \<Rightarrow> u8 list" where
  "print_byte b = 0x20 # hex 2 (unat b)"

fun print_edit :: "edit \<Rightarrow> u8 list" where
  "print_edit (Ins a bs) = [0x31, 0x20] @ hex 8 a @ concat (map print_byte bs) @ [0x0a]"
| "print_edit (Del a k) = [0x30, 0x20] @ hex 8 a @ [0x20] @ hex 2 k @ [0x0a]"

definition print_script :: "edit list \<Rightarrow> u8 list" where
  "print_script es = concat (map print_edit es)"

text \<open>The table and data a script is stored as.\<close>

fun entry_of :: "nat \<Rightarrow> edit \<Rightarrow> patch_format" where
  "entry_of i (Ins a bs) =
     \<lparr>pf_cmd = 1, pf_addr = of_nat a, pf_length = of_nat (length bs), pf_elem = i\<rparr>"
| "entry_of i (Del a k) = \<lparr>pf_cmd = 0, pf_addr = of_nat a, pf_length = of_nat k, pf_elem = 0\<rparr>"

fun entries_of :: "nat \<Rightarrow> edit list \<Rightarrow> patch_format list" where
  "entries_of i [] = []"
| "entries_of i (e # es) = entry_of i e # entries_of (i + length (inserted e)) es"

fun delta :: "edit \<Rightarrow> int" where
  "delta (Ins a bs) = int (length bs)"
| "delta (Del a k) = - int k"

definition total_delta :: "edit list \<Rightarrow> int" where
  "total_delta es = sum_list (map delta es)"

definition loaded :: "nat option \<Rightarrow> edit list \<Rightarrow> patch_info" where
  "loaded g es =
     \<lparr>pi_table = entries_of 0 es @ replicate (TABLE_ENTRIES - length es) pf0,
      pi_data = all_inserted es @ replicate (4096 - length (all_inserted es)) 0,
      pi_end = g, size_updown = of_int (total_delta es),
      pq = length es, pdata = length (all_inserted es)\<rparr>"

text \<open>The script a table holds.\<close>

definition edit_of :: "u8 list \<Rightarrow> patch_format \<Rightarrow> edit" where
  "edit_of dat pf = (if pf_cmd pf = 1
     then Ins (unat (pf_addr pf)) (take (unat (pf_length pf)) (drop (pf_elem pf) dat))
     else Del (unat (pf_addr pf)) (unat (pf_length pf)))"

subsection \<open>Reading a printed script\<close>

lemma all_inserted_simps [simp]:
  "all_inserted [] = []" "all_inserted (e # es) = inserted e @ all_inserted es"
  "all_inserted (es @ [e]) = all_inserted es @ inserted e"
  by (simp_all add: all_inserted_def)

lemma total_delta_snoc [simp]: "total_delta (es @ [e]) = total_delta es + delta e"
  by (simp add: total_delta_def)

lemma entries_of_snoc:
  "entries_of i (es @ [e]) = entries_of i es @ [entry_of (i + length (all_inserted es)) e]"
  by (induction es arbitrary: i) (auto simp: add.assoc)

lemma length_entries_of [simp]: "length (entries_of i es) = length es"
  by (induction es arbitrary: i) auto

text \<open>The state in the middle of an insertion line.\<close>

definition inserting :: "nat option \<Rightarrow> edit list \<Rightarrow> nat \<Rightarrow> u8 list \<Rightarrow> patch_info" where
  "inserting g es a bs = (loaded g (es @ [Ins a bs]))
     \<lparr>size_updown := of_int (total_delta es), pq := length es\<rparr>"

lemma replicate_Suc_diff: "i < n \<Longrightarrow> replicate (n - i) x = x # replicate (n - Suc i) x"
  by (metis Suc_diff_Suc replicate_Suc)

lemma skip_blanks_byte: "skip_blanks (print_byte b @ r) = hex 2 (unat b) @ r"
  by (simp add: skip_blanks_def print_byte_def hex_def)

lemma ascii_at_byte:
  fixes b :: u8
  shows "ascii_at 4 (hex 2 (unat b) @ r) = Some (ucast b)" "ucast b \<noteq> (- 1 :: u64)"
proof -
  have "unat b < 256" by (rule order_less_le_trans [OF unsigned_less]) simp
  then show "ascii_at 4 (hex 2 (unat b) @ r) = Some (ucast b)" "ucast b \<noteq> (- 1 :: u64)"
    using ascii_at_hex [of "unat b" 2 4 r] of_nat_not_minus_1 [of "unat b"] by simp_all
qed

lemma ucast_8_64_8 [simp]: "(ucast (ucast (b :: u8) :: u64) :: u8) = b"
  by (rule bit_word_eqI) (simp add: bit_simps)

lemma inserting_step:
  assumes "length es < TABLE_ENTRIES" "length (all_inserted es) + length bs < 4096"
  shows "(upd_entry (\<lambda>e. e\<lparr>pf_length := pf_length e + 1\<rparr>) (inserting g es a bs))
           \<lparr>pi_data := (pi_data (inserting g es a bs))[pdata (inserting g es a bs) := b],
            pdata := Suc (pdata (inserting g es a bs))\<rparr> = inserting g es a (bs @ [b])"
  using assms replicate_Suc_diff [OF assms(2), of "0 :: u8"]
  by (simp add: inserting_def loaded_def upd_entry_def entries_of_snoc nth_append list_update_append)

lemma insert_loop_bytes:
  assumes "length es < TABLE_ENTRIES"
  shows "length (all_inserted es) + length bs + length cs \<le> 4096 \<Longrightarrow>
    insert_loop (inserting g es a bs) (skip_blanks (concat (map print_byte cs) @ 0x0a # r)) =
      Some (inserting g es a (bs @ cs), Some (0x0a # r))"
proof (induction cs arbitrary: bs)
  case Nil
  then show ?case by (simp add: insert_loop.simps skip_blanks_def)
next
  case (Cons c cs)
  let ?r = "concat (map print_byte cs) @ 0x0a # r"
  have room: "pdata (inserting g es a bs) < length (pi_data (inserting g es a bs))"
    using Cons.prems by (simp add: inserting_def loaded_def)
  have head: "hex 2 (unat c) @ ?r \<noteq> []" "hd (hex 2 (unat c) @ ?r) \<noteq> 0x0a"
    by (simp_all add: hex_def)
  have "insert_loop (inserting g es a bs) (hex 2 (unat c) @ ?r) =
      insert_loop (inserting g es a (bs @ [c])) (skip_blanks ?r)"
    using room head Cons.prems inserting_step [OF assms, of bs g a c]
    by (subst insert_loop.simps) (simp add: ascii_at_byte not_le)
  then show ?case using Cons by (simp add: skip_blanks_byte)
qed

lemma loaded_insert_start:
  assumes "length es < TABLE_ENTRIES"
  shows "upd_entry (\<lambda>e. e\<lparr>pf_elem := pdata (loaded g es)\<rparr>)
      (upd_entry (\<lambda>e. e\<lparr>pf_addr := of_nat a\<rparr>) (upd_entry (\<lambda>e. e\<lparr>pf_cmd := 1\<rparr>) (loaded g es))) =
    inserting g es a []"
  using replicate_Suc_diff [OF assms, of pf0]
  by (simp add: inserting_def loaded_def upd_entry_def entries_of_snoc nth_append
      list_update_append pf0_def)

lemma loaded_insert_end:
  assumes "length es < TABLE_ENTRIES" "length (all_inserted es) + length bs \<le> 4096"
  shows "(inserting g es a bs)\<lparr>size_updown := size_updown (inserting g es a bs) +
        ucast (pf_length (pi_table (inserting g es a bs) ! pq (inserting g es a bs))),
      pq := Suc (pq (inserting g es a bs))\<rparr> = loaded g (es @ [Ins a bs])"
proof -
  have "(ucast (of_nat (length bs) :: u16) :: u32) = of_nat (length bs)"
    using assms(2) by (simp add: unsigned_of_nat take_bit_nat_eq_self)
  then show ?thesis
    by (simp add: inserting_def loaded_def entries_of_snoc nth_append)
qed

lemma loaded_delete:
  assumes "length es < TABLE_ENTRIES" "k < 256"
  shows "(upd_entry (\<lambda>e. e\<lparr>pf_length := of_nat k, pf_elem := 0\<rparr>)
      (upd_entry (\<lambda>e. e\<lparr>pf_addr := of_nat a\<rparr>) (upd_entry (\<lambda>e. e\<lparr>pf_cmd := 0\<rparr>) (loaded g es))))
      \<lparr>size_updown := size_updown (loaded g es) - of_nat k, pq := Suc (pq (loaded g es))\<rparr> =
    loaded g (es @ [Del a k])"
  using replicate_Suc_diff [OF assms(1), of pf0]
  by (simp add: loaded_def upd_entry_def entries_of_snoc nth_append list_update_append pf0_def)

lemma upd_entry_fields [simp]:
  "pq (upd_entry f st) = pq st" "pdata (upd_entry f st) = pdata st"
  "size_updown (upd_entry f st) = size_updown st"
  "length (pi_table (upd_entry f st)) = length (pi_table st)"
  by (simp_all add: upd_entry_def)

lemma read_entry_insert:
  assumes "length es < TABLE_ENTRIES" "length (all_inserted es) + length bs \<le> 4096" "a < 2 ^ 31"
  shows "\<exists>st. read_entry (loaded g es) (print_edit (Ins a bs) @ r) = Some (st, Some (0x0a # r)) \<and>
    st\<lparr>pq := Suc (pq st)\<rparr> = loaded g (es @ [Ins a bs])"
proof -
  have h: "ascii_at 10 (hex 8 a @ x) = Some (of_nat a)" "of_nat a \<noteq> (- 1 :: u64)" for x
    using assms(3) by (simp_all add: ascii_at_hex of_nat_not_minus_1)
  have q: "pq (loaded g es) < length (pi_table (loaded g es))"
    using assms(1) by (simp add: loaded_def)
  have e: "pdata (loaded g es) = pdata (upd_entry f (upd_entry f' (loaded g es)))" for f f'
    by simp
  show ?thesis
    using q assms insert_loop_bytes [of es "[]" bs g a r] loaded_insert_end [of es bs g a]
      loaded_insert_start [of es g a]
    by (simp add: read_entry_def h Let_def not_le)
qed

lemma read_entry_delete:
  assumes "length es < TABLE_ENTRIES" "k < 256" "a < 2 ^ 31"
  shows "\<exists>st. read_entry (loaded g es) (print_edit (Del a k) @ r) = Some (st, Some (0x0a # r)) \<and>
    st\<lparr>pq := Suc (pq st)\<rparr> = loaded g (es @ [Del a k])"
proof -
  have h: "ascii_at 10 (hex 8 a @ x) = Some (of_nat a)" "of_nat a \<noteq> (- 1 :: u64)" for x
    using assms(3) by (simp_all add: ascii_at_hex of_nat_not_minus_1)
  have b: "ascii_at 4 (hex 2 k @ x) = Some (of_nat k)" "of_nat k \<noteq> (- 1 :: u64)" for x
    using assms(2) by (simp_all add: ascii_at_hex of_nat_not_minus_1)
  have sp: "skip_blanks (0x20 # hex 2 k @ x) = hex 2 k @ x" for x
    by (simp add: skip_blanks_def hex_def)
  have q: "pq (loaded g es) < length (pi_table (loaded g es))"
    using assms(1) by (simp add: loaded_def)
  have t: "(ucast (of_nat k :: u64) :: u16) = of_nat k" "(ucast (of_nat k :: u64) :: u32) = of_nat k"
    using assms(2) by (simp_all add: unsigned_of_nat take_bit_nat_eq_self)
  show ?thesis
    using q loaded_delete [OF assms(1,2), of g a]
    by (simp add: read_entry_def h b sp t Let_def not_le)
qed

lemma read_loop_print:
  "list_all edit_fits es \<Longrightarrow> length es0 + length es < TABLE_ENTRIES \<Longrightarrow>
   length (all_inserted es0) + length (all_inserted es) \<le> 4096 \<Longrightarrow> length pad + n = N \<Longrightarrow>
   read_loop n N (loaded g es0) (print_script es @ pad) = Some (loaded g (es0 @ es), True)"
proof (induction es arbitrary: es0)
  case Nil
  then show ?case by (simp add: print_script_def read_loop.simps)
next
  case (Cons e es)
  let ?r = "print_script es @ pad"
  obtain st where st: "read_entry (loaded g es0) (print_edit e @ print_script es @ pad) =
        Some (st, Some (0x0a # ?r))"
      "st\<lparr>pq := Suc (pq st)\<rparr> = loaded g (es0 @ [e])"
  proof (cases e)
    case (Ins a bs)
    then have "length (all_inserted es0) + length bs \<le> 4096" "a < 2 ^ 31"
      using Cons.prems by simp_all
    then show ?thesis
      using that read_entry_insert [of es0 bs a g ?r] Cons.prems(2) unfolding Ins by fastforce
  next
    case (Del a k)
    then have "k < 256" "a < 2 ^ 31" using Cons.prems by simp_all
    then show ?thesis
      using that read_entry_delete [of es0 k a g ?r] Cons.prems(2) unfolding Del by fastforce
  qed
  have e: "print_edit e \<noteq> []" "hd (print_edit e) \<noteq> 0x0a" by (cases e; simp)+
  have ne: "length (print_edit e @ ?r) + n \<noteq> N"
    using Cons.prems(4) e(1) by auto
  have "read_loop n N (loaded g es0) (print_edit e @ ?r) = read_loop n N (loaded g (es0 @ [e])) ?r"
    using st e ne by (subst read_loop.simps) simp
  also have "\<dots> = Some (loaded g (es0 @ e # es), True)"
    using Cons.IH [of "es0 @ [e]"] Cons.prems by simp
  finally show ?case by (simp add: print_script_def)
qed

lemma length_print_edit: "length (print_edit e) \<le> 18 + 5 * length (inserted e)"
  by (cases e) (simp_all add: length_concat print_byte_def comp_def sum_list_triv)

lemma length_print_script:
  "length (print_script es) \<le> 18 * length es + 5 * length (all_inserted es)"
proof (induction es)
  case (Cons e es)
  then show ?case using length_print_edit [of e] by (simp add: print_script_def)
qed (simp add: print_script_def)

lemma script_fits_short: "script_fits es \<Longrightarrow> length (print_script es) < 2 ^ 32 - 4096"
  using length_print_script [of es] by (simp add: script_fits_def TABLE_ENTRIES_def)

lemma loaded_Nil: "loaded g [] = \<lparr>pi_table = replicate TABLE_ENTRIES pf0,
    pi_data = replicate 4096 0, pi_end = g, size_updown = 0, pq = 0, pdata = 0\<rparr>"
  by (simp add: loaded_def total_delta_def)

lemma read_patch_loaded:
  assumes "script_fits es" "es \<noteq> []"
  shows "read_patch g (print_script es) = Some (loaded None es, True)"
proof -
  have "read_loop (length (print_script es)) (length (mapped (print_script es))) (loaded g [])
      (mapped (print_script es)) = Some (loaded g es, True)"
    using read_loop_print [of es "[]"] assms(1)
    by (simp add: mapped_small [OF script_fits_short [OF assms(1)]] script_fits_def)
  then show ?thesis using assms(2)
    by (simp add: read_patch_def flip: loaded_Nil) (simp add: loaded_def)
qed

lemma edit_of_entries:
  "list_all edit_fits es \<Longrightarrow> length (all_inserted es) \<le> 4096 \<Longrightarrow>
   map (edit_of (pre @ all_inserted es @ post)) (entries_of (length pre) es) = es"
proof (induction es arbitrary: pre)
  case (Cons e es)
  have "map (edit_of ((pre @ inserted e) @ all_inserted es @ post))
      (entries_of (length (pre @ inserted e)) es) = es"
    using Cons by (intro Cons.IH) auto
  moreover have "edit_of (pre @ inserted e @ all_inserted es @ post) (entry_of (length pre) e) = e"
    using Cons.prems by (cases e) (simp_all add: edit_of_def unsigned_of_nat take_bit_nat_eq_self)
  ultimately show ?case by simp
qed simp

lemma delta_bounds:
  "list_all edit_fits es \<Longrightarrow> total_delta es \<le> int (length (all_inserted es)) \<and>
   - (255 * int (length es)) \<le> total_delta es"
proof (induction es)
  case (Cons e es)
  then show ?case by (cases e) (auto simp: total_delta_def)
qed (simp add: total_delta_def)

lemma script_delta_small:
  "script_fits es \<Longrightarrow> total_delta es \<le> 4096 \<and> - 32385 \<le> total_delta es"
  using delta_bounds [of es] by (simp add: script_fits_def TABLE_ENTRIES_def)

lemma sint_of_int_small: "- (2 ^ 31) \<le> k \<Longrightarrow> k < 2 ^ 31 \<Longrightarrow> sint (of_int k :: u32) = k"
  by (simp add: signed_of_int signed_take_bit_int_eq_self)

text \<open>C31: reading a printed script gives it back: the table holds its edits in order and
  zero entries behind them, and \<open>size_updown\<close> is the change of the file's size.\<close>

theorem patch_roundtrip:
  assumes "script_fits es" "es \<noteq> []"
  shows "\<exists>edit. read_patch g (print_script es) = Some (edit, True) \<and>
    map (edit_of (pi_data edit)) (take (length es) (pi_table edit)) = es \<and>
    drop (length es) (pi_table edit) = replicate (TABLE_ENTRIES - length es) pf0 \<and>
    sint (size_updown edit) = total_delta es \<and> pi_end edit = None"
proof -
  have "map (edit_of (all_inserted es @ replicate (4096 - length (all_inserted es)) 0))
      (entries_of 0 es) = es"
    using edit_of_entries [of es "[]"] assms(1) by (simp add: script_fits_def)
  moreover have "sint (of_int (total_delta es) :: u32) = total_delta es"
    using script_delta_small [OF assms(1)] by (intro sint_of_int_small) simp_all
  ultimately show ?thesis
    unfolding read_patch_loaded [OF assms] by (simp add: loaded_def)
qed

definition ex_script :: "edit list" where
  "ex_script = [Ins 2 [0x41, 0x42], Del 5 3, Ins 8 [0x43]]"

definition ex_input :: "u8 list" where "ex_input = [1, 2, 3, 4, 5, 6, 7, 8, 9, 10]"

lemma ex_script_fits: "script_fits ex_script" "ex_script \<noteq> []"
  by (simp_all add: ex_script_def script_fits_def TABLE_ENTRIES_def)

lemma patch_roundtrip_witness:
  "\<exists>edit. read_patch None (print_script ex_script) = Some (edit, True) \<and>
    map (edit_of (pi_data edit)) (take (length ex_script) (pi_table edit)) = ex_script \<and>
    drop (length ex_script) (pi_table edit) = replicate (TABLE_ENTRIES - length ex_script) pf0 \<and>
    sint (size_updown edit) = total_delta ex_script \<and> pi_end edit = None"
  by (rule patch_roundtrip [OF ex_script_fits])

subsection \<open>Applying a script\<close>

lemma edits_ok_end: "edits_ok es n n \<Longrightarrow> es = []"
  by (cases "(es, n, n)" rule: edits_ok.cases) auto

lemma edits_ok_le: "edits_ok es p n \<Longrightarrow> es \<noteq> [] \<Longrightarrow> p < n"
  by (cases "(es, p, n)" rule: edits_ok.cases) auto

text \<open>The offset of the next edit, beyond the input when there is none.\<close>

fun next_addr :: "edit list \<Rightarrow> nat option" where
  "next_addr [] = None"
| "next_addr (Ins a bs # es) = Some a"
| "next_addr (Del a k # es) = Some a"

lemma copy_step:
  assumes "next_addr es \<noteq> Some p" "edits_ok es p n" "p < n" "n \<le> length inp"
  shows "edits_ok es (Suc p) n" "patched es p (take n inp) = inp ! p # patched es (Suc p) (take n inp)"
proof -
  have d: "drop p (take n inp) = inp ! p # drop (Suc p) (take n inp)"
    using assms(3,4) by (metis Cons_nth_drop_Suc length_take min.absorb2 nth_take)
  have t: "take (a - p) (drop p (take n inp)) =
      inp ! p # take (a - Suc p) (drop (Suc p) (take n inp))" if "p < a" for a
    unfolding d using that by (simp add: take_Cons' Suc_diff_Suc)
  show "edits_ok es (Suc p) n" "patched es p (take n inp) = inp ! p # patched es (Suc p) (take n inp)"
    using assms(1,2) t by (cases "(es, p, n)" rule: edits_ok.cases; simp add: d)+
qed

text \<open>From entry \<open>k\<close> on the table holds a script, with an unused entry behind it.\<close>

fun entry_holds :: "u8 list \<Rightarrow> patch_format \<Rightarrow> edit \<Rightarrow> bool" where
  "entry_holds dat pf (Ins a bs) \<longleftrightarrow> pf_cmd pf = 1 \<and> unat (pf_addr pf) = a \<and>
     unat (pf_length pf) = length bs \<and> take (length bs) (drop (pf_elem pf) dat) = bs"
| "entry_holds dat pf (Del a k) \<longleftrightarrow> pf_cmd pf = 0 \<and> unat (pf_addr pf) = a \<and> unat (pf_length pf) = k"

fun holds :: "patch_info \<Rightarrow> nat \<Rightarrow> edit list \<Rightarrow> bool" where
  "holds pi k [] \<longleftrightarrow> k < length (pi_table pi) \<and> pi_table pi ! k = pf0"
| "holds pi k (e # es) \<longleftrightarrow> k < length (pi_table pi) \<and>
     entry_holds (pi_data pi) (pi_table pi ! k) e \<and> holds pi (Suc k) es"

lemma of_nat_eq_u64: "n < 2 ^ 64 \<Longrightarrow> of_nat n = (w :: u64) \<longleftrightarrow> n = unat w"
  by (auto simp: unsigned_of_nat take_bit_nat_eq_self)

lemma holds_next_addr:
  assumes "holds pi k es" "edits_ok es p n" "p < 2 ^ 64"
  shows "of_nat p = pf_addr (pi_table pi ! k) \<longleftrightarrow> next_addr es = Some p"
  using assms(1,2) of_nat_eq_u64 [OF assms(3)]
  by (cases "(es, p, n)" rule: edits_ok.cases) (auto simp: pf0_def)

lemma apply_loop_stop: "p = n \<or> length out = ol \<Longrightarrow> apply_loop pi inp n ol oa p k out = Some out"
  by (subst apply_loop.simps) simp

text \<open>One round of the loop, by what the table holds at \<open>k\<close>.\<close>

lemma apply_loop_round:
  assumes "holds pi k es" "pi_end pi = None" "edits_ok es p n" "p < n" "n < 2 ^ 64"
    "length out \<noteq> ol" "n \<le> length inp"
  shows "es = Ins p bs # es' \<Longrightarrow> length out + length bs \<le> oa \<Longrightarrow>
      apply_loop pi inp n ol oa p k out = apply_loop pi inp n ol oa p (Suc k) (out @ bs)"
    and "es = Del p d # es' \<Longrightarrow>
      apply_loop pi inp n ol oa p k out = apply_loop pi inp n ol oa (p + d) (Suc k) out"
    and "next_addr es \<noteq> Some p \<Longrightarrow> length out < oa \<Longrightarrow>
      apply_loop pi inp n ol oa p k out = apply_loop pi inp n ol oa (Suc p) k (out @ [inp ! p])"
proof -
  have k: "k < length (pi_table pi)" using assms(1) by (cases es) auto
  have addr: "of_nat p = pf_addr (pi_table pi ! k) \<longleftrightarrow> next_addr es = Some p"
    using assms(1,3,4,5) by (intro holds_next_addr) simp_all
  note base = assms k addr
  show "apply_loop pi inp n ol oa p k out = apply_loop pi inp n ol oa p (Suc k) (out @ bs)"
    if "es = Ins p bs # es'" "length out + length bs \<le> oa"
    using base that by (subst apply_loop.simps) (simp add: Let_def)
  show "apply_loop pi inp n ol oa p k out = apply_loop pi inp n ol oa (p + d) (Suc k) out"
    if "es = Del p d # es'"
    using base that by (subst apply_loop.simps) (simp add: Let_def)
  show "apply_loop pi inp n ol oa p k out = apply_loop pi inp n ol oa (Suc p) k (out @ [inp ! p])"
    if "next_addr es \<noteq> Some p" "length out < oa"
    using base that by (subst apply_loop.simps) (simp add: Let_def)
qed

lemma next_addr_here:
  assumes "next_addr es = Some p"
  obtains bs es' where "es = Ins p bs # es'" | d es' where "es = Del p d # es'"
  using assms by (cases es rule: next_addr.cases) auto

lemma apply_loop_edits:
  assumes "pi_end pi = None" "n \<le> length inp" "n < 2 ^ 64"
  shows "holds pi k es \<Longrightarrow> edits_ok es p n \<Longrightarrow> p \<le> n \<Longrightarrow>
    length out + length (patched es p (take n inp)) \<le> min ol oa \<Longrightarrow>
    apply_loop pi inp n ol oa p k out = Some (out @ patched es p (take n inp))"
proof (induction "length es + (n - p)" arbitrary: es p k out rule: less_induct)
  case less
  note prems = less.prems and hyp = less.hyps
  show ?case
  proof (cases "p = n \<or> length out = ol")
    case True
    then have "patched es p (take n inp) = []" using prems(2,4) by (auto dest: edits_ok_end)
    with True show ?thesis by (simp add: apply_loop_stop)
  next
    case False
    then have pn: "p < n" and ol: "length out \<noteq> ol" using prems(3) by simp_all
    note round = apply_loop_round [OF prems(1) assms(1) prems(2) pn assms(3) ol assms(2)]
    show ?thesis
    proof (cases "next_addr es = Some p")
      case True
      then show ?thesis
      proof (cases rule: next_addr_here)
        case (1 bs es')
        then show ?thesis using round(1) [OF 1] prems hyp [of es' p "Suc k" "out @ bs"] by simp
      next
        case (2 d es')
        then show ?thesis using round(2) [OF 2] prems hyp [of es' "p + d" "Suc k" out] by simp
      qed
    next
      case False
      note step = copy_step [OF False prems(2) pn assms(2)]
      then show ?thesis
        using round(3) [OF False] pn prems hyp [of es "Suc p" k "out @ [inp ! p]"] by simp
    qed
  qed
qed

text \<open>What \<open>read_patch\<close> leaves holds the script.\<close>

lemma entries_hold:
  "list_all edit_fits es \<Longrightarrow> length (all_inserted es) \<le> 4096 \<Longrightarrow>
   pi_data pi = pre @ all_inserted es @ post \<Longrightarrow>
   pi_table pi = tab @ entries_of (length pre) es @ pf0 # tab' \<Longrightarrow> holds pi (length tab) es"
proof (induction es arbitrary: pre tab)
  case (Cons e es)
  have "holds pi (length (tab @ [entry_of (length pre) e])) es"
    using Cons by (intro Cons.IH [where pre = "pre @ inserted e"]) auto
  moreover have "entry_holds (pi_data pi) (entry_of (length pre) e) e"
    using Cons.prems(1,2,3) by (cases e) (simp_all add: unsigned_of_nat take_bit_nat_eq_self)
  ultimately show ?case using Cons.prems(4) by simp
qed simp

lemma loaded_holds:
  assumes "script_fits es"
  shows "holds (loaded None es) 0 es"
proof -
  have "TABLE_ENTRIES - length es = Suc (TABLE_ENTRIES - Suc (length es))"
    using assms by (simp add: script_fits_def Suc_diff_Suc)
  then have "pi_table (loaded None es) =
      [] @ entries_of (length []) es @ pf0 # replicate (TABLE_ENTRIES - Suc (length es)) pf0"
    by (simp add: loaded_def)
  moreover have "pi_data (loaded None es) =
      [] @ all_inserted es @ replicate (4096 - length (all_inserted es)) 0"
    by (simp add: loaded_def)
  ultimately show ?thesis
    using entries_hold [of es "loaded None es" "[]" _ "[]"] assms by (simp add: script_fits_def)
qed

text \<open>The size the script gives is the size \<open>apply_patch\<close> computes.\<close>

lemma length_patched:
  "edits_ok es p (length inp) \<Longrightarrow> p \<le> length inp \<Longrightarrow>
   int (length (patched es p inp)) = int (length inp) - int p + total_delta es"
proof (induction es p inp rule: patched.induct)
  case (1 p inp)
  then show ?case by (simp add: total_delta_def)
qed (auto simp: total_delta_def min_def)

lemma output_size_loaded:
  assumes "script_fits es" "int m = int n + total_delta es" "0 < m"
  shows "output_size n (loaded None es) = of_nat (m - 1)"
proof -
  have s: "sint (of_int (total_delta es) :: u32) = total_delta es"
    using script_delta_small [OF assms(1)] by (intro sint_of_int_small) simp_all
  have m: "int n - 1 + total_delta es = int (m - 1)" using assms(2,3) by linarith
  have "output_size n (loaded None es) = (of_int (int n) - of_int 1) + of_int (total_delta es)"
    by (simp only: output_size_def loaded_def patch_info.simps scast_eq s of_int_of_nat_eq of_int_1)
  also have "\<dots> = of_int (int (m - 1))" by (simp only: m flip: of_int_diff of_int_add)
  finally show ?thesis by simp
qed

lemma output_mapping:
  assumes "0 < m" "m < 2 ^ 32 - 4096"
  shows "out_file_len (of_nat (m - 1)) = m" "m \<le> map_size (of_nat (m - 1))"
    "m \<le> out_writable (of_nat (m - 1))"
proof -
  obtain k where k: "m = Suc k" using assms(1) gr0_implies_Suc by blast
  show fl: "out_file_len (of_nat (m - 1)) = m"
    using assms(2) unfolding k
    by (simp add: out_file_len_def signed_of_nat signed_take_bit_int_eq_self unat_u64
        del: of_nat_Suc)
  have "m - 1 < 4096 + (m - 1) div 4096 * 4096" by (rule dividend_less_div_times) simp
  then have "m \<le> ((m - 1) div 4096 + 1) * 4096" using assms(1) by simp
  moreover have "map_size (of_nat (m - 1)) = ((m - 1) div 4096 + 1) * 4096"
    using assms by (intro map_size_of_nat) simp
  ultimately show ms: "m \<le> map_size (of_nat (m - 1))" by simp
  then show "m \<le> out_writable (of_nat (m - 1))" unfolding out_writable_def fl by simp
qed

text \<open>C30: the tool applied to a printed script writes the edited input, for every script in
  order whose edits lie inside the input, that fits the table and leaves something.\<close>

theorem bipatch_applies_script:
  assumes "fs src = Some inp" "fs pat = Some (print_script es)" "out_f \<noteq> src"
    and "script_fits es" "edits_ok es 0 (length inp)" "patched es 0 inp \<noteq> []"
    and "length inp < 2 ^ 31"
  shows "bipatch_main fs g [prog, src, pat, out_f] = Some (PSaved out_f (patched es 0 inp) True)"
proof -
  let ?m = "length (patched es 0 inp)" and ?e = "loaded None es"
  have ne: "es \<noteq> []" using assms(5) by auto
  have n: "length inp < 2 ^ 32 - 4096" using assms(7) by simp
  have m: "int ?m = int (length inp) + total_delta es" using length_patched [OF assms(5)] by simp
  have b: "0 < ?m" "?m < 2 ^ 32 - 4096"
    using m script_delta_small [OF assms(4)] assms(6,7) by auto
  define sz where "sz = output_size (length inp) ?e"
  have sz: "sz = of_nat (?m - 1)"
    unfolding sz_def by (rule output_size_loaded [OF assms(4) m b(1)])
  note out = output_mapping [OF b, folded sz]
  have ms: "0 < map_size sz" using b(1) out(2) by linarith
  have "apply_loop ?e (mapped inp) (length inp) (map_size sz) (out_writable sz) 0 0 [] = Some (patched es 0 inp)"
    using apply_loop_edits [OF _ _ _ loaded_holds [OF assms(4)] assms(5), of "mapped inp" "[]"]
      out n by (simp add: mapped_small [OF n]) (simp add: loaded_def)
  then show ?thesis
    using assms(1,2,3) b(1) out ms
    by (simp add: bipatch_main_def read_patch_loaded [OF assms(4) ne] apply_patch_def Let_def flip: sz_def)
qed

definition ex_files :: "edit list \<Rightarrow> cstr \<Rightarrow> u8 list option" where
  "ex_files es f = (if f = [0x61] then Some ex_input
     else if f = [0x70] then Some (print_script es) else None)"

lemma bipatch_applies_script_witness:
  "bipatch_main (ex_files ex_script) None [[0x7a], [0x61], [0x70], [0x6f]] =
     Some (PSaved [0x6f] [1, 2, 0x41, 0x42, 3, 4, 5, 0x43, 9, 10] True)"
proof -
  have "patched ex_script 0 ex_input = [1, 2, 0x41, 0x42, 3, 4, 5, 0x43, 9, 10]"
    "edits_ok ex_script 0 (length ex_input)"
    by (simp_all add: ex_script_def ex_input_def)
  then show ?thesis
    using bipatch_applies_script [of "ex_files ex_script" "[0x61]" ex_input "[0x70]" ex_script
        "[0x6f]" None "[0x7a]"] ex_script_fits
    by (simp add: ex_files_def) (simp add: ex_input_def)
qed

text \<open>The unused entries all match at offset 0.\<close>

lemma apply_loop_unused:
  assumes "pi_end pi = None" "0 < n" "length out \<noteq> ol"
  shows "list_all (\<lambda>pf. pf = pf0) (drop k (pi_table pi)) \<Longrightarrow>
    apply_loop pi inp n ol oa 0 k out = None"
proof (induction "length (pi_table pi) - k" arbitrary: k)
  case 0
  then show ?case using assms by (subst apply_loop.simps) simp
next
  case (Suc d)
  then have k: "k < length (pi_table pi)" by simp
  then have "pi_table pi ! k = pf0" "list_all (\<lambda>pf. pf = pf0) (drop (Suc k) (pi_table pi))"
    using Suc.prems by (auto simp: Cons_nth_drop_Suc [symmetric])
  then show ?case using Suc.hyps k assms by (subst apply_loop.simps) (simp add: Let_def pf0_def)
qed

text \<open>A patch that only inserts at offset 0 runs off its table: its input offset stays 0,
  which is the address of every unused entry.\<close>

theorem insert_at_start_faults:
  assumes "fs src = Some inp" "fs pat = Some (print_script [Ins 0 bs])" "out_f \<noteq> src"
    "inp \<noteq> []" "length inp < 2 ^ 31" "length bs \<le> 4096"
  shows "bipatch_main fs g [prog, src, pat, out_f] = None"
proof -
  let ?es = "[Ins 0 bs]" and ?m = "length inp + length bs"
  let ?e = "loaded None ?es"
  have fits: "script_fits ?es" using assms(6) by (simp add: script_fits_def TABLE_ENTRIES_def)
  have m: "int ?m = int (length inp) + total_delta ?es" by (simp add: total_delta_def)
  have b: "0 < ?m" "?m < 2 ^ 32 - 4096" using assms(4,5,6) by auto
  define sz where "sz = output_size (length inp) ?e"
  have sz: "sz = of_nat (?m - 1)"
    unfolding sz_def by (rule output_size_loaded [OF fits m b(1)])
  note out = output_mapping [OF b, folded sz]
  have ms: "0 < map_size sz" using b(1) out(2) by linarith
  have "apply_loop ?e (mapped inp) (length inp) (map_size sz) (out_writable sz) 0 1 bs = None"
    using assms(4) out(2)
    by (intro apply_loop_unused) (auto simp: loaded_def TABLE_ENTRIES_def list_all_iff)
  then have "apply_loop ?e (mapped inp) (length inp) (map_size sz) (out_writable sz) 0 0 [] = None"
    using assms(4,6) out(2,3) ms
    by (subst apply_loop.simps)
       (simp add: Let_def loaded_def TABLE_ENTRIES_def unsigned_of_nat take_bit_nat_eq_self)
  then show ?thesis
    using assms(1,2,3)
    by (simp add: bipatch_main_def read_patch_loaded [OF fits] apply_patch_def Let_def flip: sz_def)
qed

lemma insert_at_start_faults_witness:
  "bipatch_main (ex_files [Ins 0 [0x41]]) None [[0x7a], [0x61], [0x70], [0x6f]] = None"
  by (rule insert_at_start_faults [where inp = ex_input and bs = "[0x41]"])
     (simp_all add: ex_files_def ex_input_def)

subsection \<open>Comparing files\<close>

text \<open>\<open>bidiff\<close> lists exactly the offsets of the common part at which the files differ.\<close>

lemma diff_loop_eq:
  "diff_loop i a b = map (\<lambda>j. (i + j, a ! j, b ! j))
     (filter (\<lambda>j. a ! j \<noteq> b ! j) [0..<min (length a) (length b)])"
proof (induction i a b rule: diff_loop.induct)
  case (1 i a p b q)
  have "[0..<Suc (min (length p) (length q))] = 0 # map Suc [0..<min (length p) (length q)]"
    by (simp add: map_Suc_upt upt_conv_Cons del: upt_Suc)
  then show ?case using 1 by (simp add: filter_map comp_def del: upt_Suc)
qed simp_all

lemma bidiff_same_prefix: "diff_loop i a b = [] \<longleftrightarrow> take (length b) a = take (length a) b"
  by (induction i a b rule: diff_loop.induct) auto

end
