(* ===== verification/PeTypes.thy ===== *)
theory PeTypes
  imports Prelude
begin

text \<open>
  The structures of \<open>include/pe.h\<close> that the COFF linker reads from object files and
  writes into the image, with their byte layouts, and the constants it uses.
\<close>

definition IMAGE_REL_AMD64_ADDR64 :: u16 where "IMAGE_REL_AMD64_ADDR64 = 1"
definition IMAGE_REL_AMD64_ADDR32 :: u16 where "IMAGE_REL_AMD64_ADDR32 = 2"
definition IMAGE_REL_AMD64_ADDR32NB :: u16 where "IMAGE_REL_AMD64_ADDR32NB = 3"
definition IMAGE_REL_AMD64_REL32 :: u16 where "IMAGE_REL_AMD64_REL32 = 4"
definition IMAGE_REL_AMD64_SSPAN32 :: u16 where "IMAGE_REL_AMD64_SSPAN32 = 0x10"

definition PE_REL :: u8 where "PE_REL = 1"

definition IMAGE_SCN_MEM_EXECUTE :: u32 where "IMAGE_SCN_MEM_EXECUTE = 0x20000000"
definition IMAGE_SCN_MEM_READ :: u32 where "IMAGE_SCN_MEM_READ = 0x40000000"
definition IMAGE_SCN_MEM_WRITE :: u32 where "IMAGE_SCN_MEM_WRITE = 0x80000000"

definition IMAGE_NUMBEROF_DIRECTORY_ENTRIES :: nat where "IMAGE_NUMBEROF_DIRECTORY_ENTRIES = 16"

subsection \<open>Structures of object files\<close>

record IMAGE_SECTION_HEADER =
  Name :: "u8 list"
  VirtualSize :: u32
  VirtualAddress :: u32
  SizeOfRawData :: u32
  PointerToRawData :: u32
  PointerToRelocations :: u32
  PointerToLinenumbers :: u32
  NumberOfRelocations :: u16
  NumberOfLinenumbers :: u16
  ish_Characteristics :: u32

definition rd_ish :: "nat \<Rightarrow> mem \<Rightarrow> IMAGE_SECTION_HEADER" where
  "rd_ish a m = \<lparr>Name = get_bytes a 8 m, VirtualSize = get32 (a + 8) m, VirtualAddress = get32 (a + 12) m,
     SizeOfRawData = get32 (a + 16) m, PointerToRawData = get32 (a + 20) m,
     PointerToRelocations = get32 (a + 24) m, PointerToLinenumbers = get32 (a + 28) m,
     NumberOfRelocations = get16 (a + 32) m, NumberOfLinenumbers = get16 (a + 34) m,
     ish_Characteristics = get32 (a + 36) m\<rparr>"

definition enc_ish :: "IMAGE_SECTION_HEADER \<Rightarrow> u8 list" where
  "enc_ish h = Name h @ le32 (VirtualSize h) @ le32 (VirtualAddress h) @ le32 (SizeOfRawData h)
     @ le32 (PointerToRawData h) @ le32 (PointerToRelocations h) @ le32 (PointerToLinenumbers h)
     @ le16 (NumberOfRelocations h) @ le16 (NumberOfLinenumbers h) @ le32 (ish_Characteristics h)"

text \<open>The name of a symbol, \<open>N\<close>, is read through its address (\<open>GET_NAME\<close>).\<close>

record IMAGE_SYMBOL =
  is_Value :: u32
  SectionNumber :: u16
  is_Type :: u16
  StorageClass :: u8
  NumberOfAuxSymbols :: u8

definition rd_is :: "nat \<Rightarrow> mem \<Rightarrow> IMAGE_SYMBOL" where
  "rd_is a m = \<lparr>is_Value = get32 (a + 8) m, SectionNumber = get16 (a + 12) m, is_Type = get16 (a + 14) m,
     StorageClass = m (a + 16), NumberOfAuxSymbols = m (a + 17)\<rparr>"

definition sizeof_IMAGE_SYMBOL :: nat where "sizeof_IMAGE_SYMBOL = 18"

record CoffReloc =
  rel_VirtualAddress :: u32
  SymbolTableIndex :: u32
  rel_Type :: u16

definition rd_coff_reloc :: "nat \<Rightarrow> mem \<Rightarrow> CoffReloc" where
  "rd_coff_reloc a m = \<lparr>rel_VirtualAddress = get32 a m, SymbolTableIndex = get32 (a + 4) m,
     rel_Type = get16 (a + 8) m\<rparr>"

definition sizeof_CoffReloc :: nat where "sizeof_CoffReloc = 10"

subsection \<open>Headers of the image\<close>

record IMAGE_FILE_HEADER =
  Machine :: u16
  NumberOfSections :: u16
  ifh_TimeDateStamp :: u32
  PointerToSymbolTable :: u32
  NumberOfSymbols :: u32
  SizeOfOptionalHeader :: u16
  ifh_Characteristics :: u16

definition rd_ifh :: "nat \<Rightarrow> mem \<Rightarrow> IMAGE_FILE_HEADER" where
  "rd_ifh a m = \<lparr>Machine = get16 a m, NumberOfSections = get16 (a + 2) m, ifh_TimeDateStamp = get32 (a + 4) m,
     PointerToSymbolTable = get32 (a + 8) m, NumberOfSymbols = get32 (a + 12) m,
     SizeOfOptionalHeader = get16 (a + 16) m, ifh_Characteristics = get16 (a + 18) m\<rparr>"

definition enc_ifh :: "IMAGE_FILE_HEADER \<Rightarrow> u8 list" where
  "enc_ifh h = le16 (Machine h) @ le16 (NumberOfSections h) @ le32 (ifh_TimeDateStamp h)
     @ le32 (PointerToSymbolTable h) @ le32 (NumberOfSymbols h) @ le16 (SizeOfOptionalHeader h)
     @ le16 (ifh_Characteristics h)"

text \<open>The fields of the DOS header that the linker sets; the others are 0.\<close>

record IMAGE_DOS_HEADER =
  e_magic :: u16
  e_cblp :: u16
  e_lfarlc :: u16
  e_lfanew :: u32

definition enc_dos :: "IMAGE_DOS_HEADER \<Rightarrow> u8 list" where
  "enc_dos h = le16 (e_magic h) @ le16 (e_cblp h) @ replicate 0x14 0 @ le16 (e_lfarlc h)
     @ replicate 0x22 0 @ le32 (e_lfanew h)"

record IMAGE_EXPORT_DIRECTORY =
  ied_Name :: u32
  NumberOfFunctions :: u32
  NumberOfNames :: u32
  AddressOfFunctions :: u32
  AddressOfNames :: u32
  AddressOfNameOrdinals :: u32

definition enc_ied :: "IMAGE_EXPORT_DIRECTORY \<Rightarrow> u8 list" where
  "enc_ied h = le32 0 @ le32 0 @ le16 0 @ le16 0 @ le32 (ied_Name h) @ le32 0
     @ le32 (NumberOfFunctions h) @ le32 (NumberOfNames h) @ le32 (AddressOfFunctions h)
     @ le32 (AddressOfNames h) @ le32 (AddressOfNameOrdinals h)"

record IMAGE_IMPORT_DESCRIPTOR =
  OriginalFirstThunk :: u32
  iid_TimeDateStamp :: u32
  ForwarderChain :: u32
  iid_Name :: u32
  FirstThunk :: u32

definition rd_iid :: "nat \<Rightarrow> mem \<Rightarrow> IMAGE_IMPORT_DESCRIPTOR" where
  "rd_iid a m = \<lparr>OriginalFirstThunk = get32 a m, iid_TimeDateStamp = get32 (a + 4) m,
     ForwarderChain = get32 (a + 8) m, iid_Name = get32 (a + 12) m, FirstThunk = get32 (a + 16) m\<rparr>"

definition enc_iid :: "IMAGE_IMPORT_DESCRIPTOR \<Rightarrow> u8 list" where
  "enc_iid h = le32 (OriginalFirstThunk h) @ le32 (iid_TimeDateStamp h) @ le32 (ForwarderChain h)
     @ le32 (iid_Name h) @ le32 (FirstThunk h)"

lemma pe_enc_lengths [layout_simps]:
  "length (Name s) = 8 \<Longrightarrow> length (enc_ish s) = 40" "length (enc_ifh f) = 20" "length (enc_dos d) = 64"
  "length (enc_ied e) = 40" "length (enc_iid i) = 20"
  by (simp_all add: enc_ish_def enc_ifh_def enc_dos_def enc_ied_def enc_iid_def)

lemma rd_enc_ish: "length (Name h) = 8 \<Longrightarrow> rd_ish a (put_bytes a (enc_ish h) m) = h"
  using get_bytes_put_bytes_in [of 0 8 "enc_ish h" a m]
  by (simp add: rd_ish_def get_put_bytes_in layout_simps) (simp add: enc_ish_def)

lemma rd_enc_ifh: "rd_ifh a (put_bytes a (enc_ifh h) m) = h"
  using get_put_bytes_in(1) [of 0 "enc_ifh h" a m]
  by (simp add: rd_ifh_def get_put_bytes_in layout_simps del: add_2_eq_Suc') (simp add: enc_ifh_def)

lemma rd_enc_iid: "rd_iid a (put_bytes a (enc_iid h) m) = h"
  using get_put_bytes_in(2) [of 0 "enc_iid h" a m]
  by (simp add: rd_iid_def get_put_bytes_in layout_simps) (simp add: enc_iid_def)

end
