(* ===== verification/Coff.thy ===== *)
theory Coff
  imports PeTypes LinkSymbols HashTables
begin

text \<open>
  The COFF half of the linker, \<open>core/link/coff\<close>: reading sections and symbols
  (\<open>callback.c\<close>, \<open>section.c\<close>), the table of library functions and the list of
  imports (\<open>symbol.c\<close>, \<open>import.c\<close>), and the relocation of the sections (\<open>reloc.c\<close>,
  \<open>callback.c\<close>).  Sections, containers, objects and export symbols are those of
  \<open>LinkState\<close> and \<open>LinkSymbols\<close>; \<open>SymbolChain3\<close> cells, used both for the library
  table and the imports, get a store of their own.  Null pointers that are followed,
  endless chains and a division by zero are \<open>None\<close>; log output is left out.
\<close>

subsection \<open>State\<close>

text \<open>What the field \<open>this\<close> of a \<open>SymbolChain3\<close> points to.\<close>

datatype s3_target = ToChain nat | ToText cstr | ToAddr nat

record SymbolChain3 =
  s3_next :: "nat option"
  s3_this :: s3_target
  s3_name :: cstr
  s3_ever :: u32

record pe_export_data =
  ied_p :: nat
  address_of_name_ordinals :: nat
  address_of_functions :: nat
  address_of_names :: nat
  str_p :: nat
  vaddr_p :: nat

text \<open>The linker state with the Windows fields of \<open>Config\<close>, the static variables of
  \<open>import.c\<close> and \<open>callback.c\<close>, and the name of the output.\<close>

record coff =
  lks :: lst
  header_size :: u32
  export_directory_len :: u32
  export_func_count :: u32
  export_data :: pe_export_data
  plt_offset :: u32
  import_directory_len :: u32
  DLLHashTable :: SymbolHashTable
  s3s :: "nat \<Rightarrow> SymbolChain3"
  n_s3s :: nat
  InitialImport :: "nat option"
  CurrentImport :: "nat option"
  aux_symbols :: u32
  outfile_name :: cstr

definition upd_lks :: "(lst \<Rightarrow> lst) \<Rightarrow> coff \<Rightarrow> coff" where
  "upd_lks f c = c\<lparr>lks := f (lks c)\<rparr>"

definition cmem :: "coff \<Rightarrow> mem" where
  "cmem c = lmem (lks c)"

definition upd_cmem :: "(mem \<Rightarrow> mem) \<Rightarrow> coff \<Rightarrow> coff" where
  "upd_cmem f = upd_lks (upd_mem f)"

definition new_s3 :: "SymbolChain3 \<Rightarrow> coff \<Rightarrow> nat \<times> coff" where
  "new_s3 x c = (n_s3s c, c\<lparr>s3s := (s3s c)(n_s3s c := x), n_s3s := Suc (n_s3s c)\<rparr>)"

definition upd_s3 :: "nat \<Rightarrow> (SymbolChain3 \<Rightarrow> SymbolChain3) \<Rightarrow> coff \<Rightarrow> coff" where
  "upd_s3 k f c = c\<lparr>s3s := (s3s c)(k := f (s3s c k))\<rparr>"

definition next_s3 :: "coff \<Rightarrow> nat \<Rightarrow> nat option" where
  "next_s3 c k = s3_next (s3s c k)"

text \<open>A step of the shared part on the whole state.\<close>

definition on_lks :: "(lst \<Rightarrow> ('a \<times> lst) option) \<Rightarrow> coff \<Rightarrow> ('a \<times> coff) option" where
  "on_lks f c = map_option (\<lambda>(r, s). (r, c\<lparr>lks := s\<rparr>)) (f (lks c))"

text \<open>\<open>GET_NAME\<close>: a name of at most eight bytes stands in the symbol, a longer one in
  the string table.\<close>

definition GET_NAME :: "nat \<Rightarrow> nat \<Rightarrow> mem \<Rightarrow> nat" where
  "GET_NAME is strtab m = (if get32 is m = 0 then strtab + unat (get32 (is + 4) m) else is)"

subsection \<open>Callbacks on sections and symbols (\<open>callback.c\<close>)\<close>

fun digit_sum :: "u8 list \<Rightarrow> int" where
  "digit_sum [] = 0"
| "digit_sum (q # qs) = (sint q - 0x30) + digit_sum qs"

definition char_to_digit :: "nat \<Rightarrow> mem \<Rightarrow> int" where
  "char_to_digit p m = digit_sum (rev (get_bytes (p + 1) 7 m))"

definition new_coff_object :: "nat \<Rightarrow> nat \<Rightarrow> coff \<Rightarrow> (nat \<times> coff) option" where
  "new_coff_object arg1 base c = do {
     (oc, c) \<leftarrow> on_lks (z_alloc_obj_chain 0 0 0) c;
     let ifh = rd_ifh base (cmem c);
     let str = base + unat (PointerToSymbolTable ifh);
     let c = upd_lks (upd_obj oc (\<lambda>o'. o'\<lparr>symbol_table_p := str, section_head := arg1,
       str_table_p := str + unat (NumberOfSymbols ifh) * sizeof_IMAGE_SYMBOL, map_base := base\<rparr>)) c;
     Some (oc, c)
   }"

definition coff_section_name :: "nat \<Rightarrow> nat \<Rightarrow> mem \<Rightarrow> nat" where
  "coff_section_name isec strtab m =
     (if m isec = 0x2f then nat (int strtab + char_to_digit isec m) else isec)"

definition coff_section_callback :: "nat \<Rightarrow> nat \<Rightarrow> nat option \<Rightarrow> coff \<Rightarrow> (nat \<times> coff) option" where
  "coff_section_callback arg1 base ocp c = do {
     (oc, c) \<leftarrow> (case ocp of Some oc \<Rightarrow> Some (oc, c) | None \<Rightarrow> new_coff_object arg1 base c);
     nm \<leftarrow> str_at (cmem c) (coff_section_name arg1 (str_table_p (objs (lks c) oc)) (cmem c));
     found \<leftarrow> match_section nm (lks c);
     (sc, c) \<leftarrow> (case found of
         Some sc \<Rightarrow> Some (sc, c)
       | None \<Rightarrow> on_lks (\<lambda>s. map_option (\<lambda>(sc, _, s). (sc, s)) (alloc_section_container 0 (Some nm) 0 None s)) c);
     let data_offset = map_base (objs (lks c) oc) + unat (PointerToRawData (rd_ish arg1 (cmem c)));
     (schain, c) \<leftarrow> on_lks (alloc_section_chain arg1 data_offset sc (Some oc)) c;
     Some (oc, c)
   }"

definition add_export_len :: "cstr \<Rightarrow> coff \<Rightarrow> coff" where
  "add_export_len nm c =
     (let c = (if export_directory_len c = 0
               then c\<lparr>export_directory_len := 40 + of_nat (z_strlen (outfile_name c)) + 1\<rparr> else c)
      in c\<lparr>export_directory_len := export_directory_len c + (4 + 4 + 2 + of_nat (z_strlen nm) + 1),
           export_func_count := export_func_count c + 1\<rparr>)"

definition coff_symtab_callback :: "nat \<Rightarrow> nat option \<Rightarrow> coff \<Rightarrow> coff option" where
  "coff_symtab_callback arg1 ocp c =
     (if aux_symbols c \<noteq> 0 then Some (c\<lparr>aux_symbols := aux_symbols c - 1\<rparr>)
      else do {
        oc \<leftarrow> ocp;
        let is = rd_is arg1 (cmem c);
        nm \<leftarrow> str_at (cmem c) (GET_NAME arg1 (str_table_p (objs (lks c) oc)) (cmem c));
        c \<leftarrow> (if StorageClass is = 2 \<and> SectionNumber is \<noteq> 0
              then do {
                s \<leftarrow> alloc_export_symbol_chain arg1 nm (unat (scast (SectionNumber is) :: u32)) (lks c);
                Some (add_export_len nm (c\<lparr>lks := s\<rparr>))
              }
              else Some c);
        Some (if NumberOfAuxSymbols is \<noteq> 0 then c\<lparr>aux_symbols := ucast (NumberOfAuxSymbols is)\<rparr> else c)
      })"

subsection \<open>Placing the sections (\<open>callback.c\<close>, \<open>section.c\<close>)\<close>

definition coff_place_section :: "nat \<Rightarrow> nat \<Rightarrow> lst \<Rightarrow> lst option" where
  "coff_place_section sc schain s =
     (let shdr = sch_p (schs s schain);
          va = virtual_address_offset (conf s) + scon_size (scons s sc)
      in if shdr = 0 then None
         else let s = upd_sch schain (\<lambda>c. c\<lparr>sch_vaddr := va\<rparr>) s;
                  s = upd_mem (put32 (shdr + 12) va) s
              in Some (upd_scon sc (\<lambda>c. c\<lparr>scon_size := scon_size c + get32 (shdr + 16) (lmem s)\<rparr>) s))"

definition coff_set_virtual_address :: "nat \<Rightarrow> coff \<Rightarrow> coff option" where
  "coff_set_virtual_address sc c =
     (if scon_init (scons (lks c) sc) = None then Some c
      else do {
        let s = upd_scon sc (\<lambda>x. x\<lparr>scon_size := 0\<rparr>) (lks c);
        s \<leftarrow> iter this_sch (coff_place_section sc) (scon_init (scons s sc)) s;
        let s = upd_scon sc (\<lambda>x. x\<lparr>scon_vaddr := virtual_address_offset (conf s)\<rparr>) s;
        let s = upd_conf (\<lambda>cf. cf\<lparr>virtual_address_offset := virtual_address_offset cf + scon_size (scons s sc)\<rparr>) s;
        Some (c\<lparr>lks := s, plt_offset := virtual_address_offset (conf s)\<rparr>)
      })"

text \<open>\<open>add_coff_section\<close>: the name is copied without its NUL.\<close>

definition add_coff_section :: "cstr \<Rightarrow> u32 \<Rightarrow> u32 \<Rightarrow> nat \<Rightarrow> coff \<Rightarrow> (nat \<times> coff) option" where
  "add_coff_section nm vaddr sz data c = do {
     (sec, c) \<leftarrow> on_lks new_area c;
     let c = upd_cmem (put_bytes sec nm) c;
     let c = upd_cmem (put16 (sec + 32) 0) c;
     let c = upd_cmem (put32 (sec + 24) 0) c;
     let c = upd_cmem (put32 (sec + 20) 0) c;
     let c = upd_cmem (put32 (sec + 16) sz) c;
     let c = upd_cmem (put32 (sec + 36) 0xe0500020) c;
     (scon, c) \<leftarrow> on_lks (\<lambda>s. map_option (\<lambda>(k, _, s). (k, s)) (alloc_section_container vaddr (Some nm) 0 None s)) c;
     (schain, c) \<leftarrow> on_lks (alloc_section_chain sec data scon None) c;
     Some (scon, upd_lks (upd_sch schain (\<lambda>x. x\<lparr>sch_vaddr := vaddr\<rparr>)) c)
   }"

subsection \<open>The table of library functions (\<open>symbol.c\<close>)\<close>

definition dll_match :: "coff \<Rightarrow> cstr \<Rightarrow> nat \<Rightarrow> nat \<Rightarrow> nat option option" where
  "dll_match c nm i k = Some (if z_strcmp nm (s3_name (s3s c k)) = 0 then Some k else None)"

text \<open>\<open>lookup_dynamic_symbol\<close> with an address: the library of the function, and in
  \<open>ever\<close> the PLT slot it was given before (0 at its first use, which is noted).\<close>

definition lookup_dynamic_symbol :: "cstr \<Rightarrow> coff \<Rightarrow> ((s3_target \<times> u32) option \<times> coff) option" where
  "lookup_dynamic_symbol nm c = do {
     b \<leftarrow> sht_slot (DLLHashTable c) nm;
     r \<leftarrow> scan (next_s3 c) (dll_match c nm) (sht_bucket (DLLHashTable c) b);
     Some (case r of
         None \<Rightarrow> (None, c)
       | Some k \<Rightarrow>
           if s3_ever (s3s c k) = 0
           then (Some (s3_this (s3s c k), 0), upd_s3 k (\<lambda>x. x\<lparr>s3_ever := plt_offset c\<rparr>) c)
           else (Some (s3_this (s3s c k), s3_ever (s3s c k)), c))
   }"

text \<open>The same function without an address: where a new cell can be linked.\<close>

datatype s3_slot = NoSlot | BucketSlot nat | NextSlot nat

definition dynamic_symbol_slot :: "cstr \<Rightarrow> coff \<Rightarrow> s3_slot option" where
  "dynamic_symbol_slot nm c = do {
     b \<leftarrow> sht_slot (DLLHashTable c) nm;
     case sht_bucket (DLLHashTable c) b of
       None \<Rightarrow> Some (BucketSlot b)
     | Some h \<Rightarrow> do {
         r \<leftarrow> scan (next_s3 c) (dll_match c nm) (Some h);
         case r of
           Some k \<Rightarrow> Some (case next_s3 c k of None \<Rightarrow> NoSlot | Some n \<Rightarrow> NextSlot n)
         | None \<Rightarrow> map_option NextSlot (chain_last (next_s3 c) h)
       }
   }"

definition set_dll_bucket :: "nat \<Rightarrow> nat \<Rightarrow> coff \<Rightarrow> coff" where
  "set_dll_bucket b k c = c\<lparr>DLLHashTable := (DLLHashTable c)\<lparr>
     sht_bucket := (sht_bucket (DLLHashTable c))(b := Some k)\<rparr>\<rparr>"

definition alloc_dynamic_symbol :: "cstr \<Rightarrow> cstr \<Rightarrow> coff \<Rightarrow> coff option" where
  "alloc_dynamic_symbol nm dllname c = do {
     slot \<leftarrow> dynamic_symbol_slot nm c;
     if slot = NoSlot then Some c
     else let (k, c) = new_s3 \<lparr>s3_next = None, s3_this = ToText dllname, s3_name = nm, s3_ever = 0\<rparr> c in
       Some (case slot of NoSlot \<Rightarrow> c
         | BucketSlot b \<Rightarrow> set_dll_bucket b k c
         | NextSlot n \<Rightarrow> upd_s3 n (\<lambda>x. x\<lparr>s3_next := Some k\<rparr>) c)
   }"

text \<open>The part of \<open>init_hashtable\<close> behind the return for ELF.\<close>

definition init_dll_hashtable :: "coff \<Rightarrow> coff option" where
  "init_dll_hashtable c = do {
     (u, c) \<leftarrow> on_lks (\<lambda>s. map_option (\<lambda>s. ((), s)) (init_hashtable s)) c;
     let c = c\<lparr>DLLHashTable := \<lparr>sht_nbucket = 10, sht_nchain = 0, sht_bucket = (\<lambda>_. None)\<rparr>\<rparr>;
     c \<leftarrow> alloc_dynamic_symbol (ascii ''f1'') (ascii ''ex65'') c;
     c \<leftarrow> alloc_dynamic_symbol (ascii ''ExitProcess'') (ascii ''kernel32'') c;
     c \<leftarrow> alloc_dynamic_symbol (ascii ''GetStdHandle'') (ascii ''kernel32'') c;
     c \<leftarrow> alloc_dynamic_symbol (ascii ''WriteFile'') (ascii ''kernel32'') c;
     alloc_dynamic_symbol (ascii ''MessageBoxA'') (ascii ''user32'') c
   }"

subsection \<open>The list of imports (\<open>import.c\<close>)\<close>

text \<open>The last function of the library; the loop over the libraries does not stop at a
  match.\<close>

definition find_import_dll :: "cstr \<Rightarrow> coff \<Rightarrow> nat option option" where
  "find_import_dll dllname c =
     iter (\<lambda>_. next_s3 c)
       (\<lambda>e acc. if z_strcmp (s3_name (s3s c e)) dllname = 0
          then (case s3_this (s3s c e) of
                  ToChain h \<Rightarrow> map_option Some (chain_last (next_s3 c) h)
                | _ \<Rightarrow> None)
          else Some acc)
       (InitialImport c) None"

definition add_dynamic_resolved_entry :: "cstr \<Rightarrow> cstr \<Rightarrow> nat \<Rightarrow> coff \<Rightarrow> (bool \<times> coff) option" where
  "add_dynamic_resolved_entry nm dllname addr c = do {
     s1 \<leftarrow> find_import_dll dllname c;
     let (fentry, c) = new_s3 \<lparr>s3_next = None, s3_this = ToAddr addr, s3_name = nm, s3_ever = 0\<rparr> c;
     case s1 of
       Some k \<Rightarrow> Some (False, upd_s3 k (\<lambda>x. x\<lparr>s3_next := Some fentry\<rparr>) c)
     | None \<Rightarrow> do {
         let (dllentry, c) = new_s3 \<lparr>s3_next = None, s3_this = ToChain fentry, s3_name = dllname, s3_ever = 0\<rparr> c;
         c \<leftarrow> (if InitialImport c = None then Some (c\<lparr>InitialImport := Some dllentry\<rparr>)
              else do {
                cur \<leftarrow> CurrentImport c;
                Some (upd_s3 cur (\<lambda>x. x\<lparr>s3_next := Some dllentry\<rparr>) c)
              });
         Some (True, c\<lparr>CurrentImport := Some dllentry\<rparr>)
       }
   }"

subsection \<open>Relocation (\<open>reloc.c\<close>, \<open>callback.c\<close>)\<close>

definition coff_fill_address :: "nat \<Rightarrow> u16 \<Rightarrow> u32 \<Rightarrow> u32 \<Rightarrow> coff \<Rightarrow> coff" where
  "coff_fill_address addr type dst_vaddr src_vaddr c =
     (let base = base_address (conf (lks c)) in
      if type = IMAGE_REL_AMD64_ADDR64
      then upd_cmem (\<lambda>m. put64 addr (get64 addr m + ucast (base + dst_vaddr)) m) c
      else if type = IMAGE_REL_AMD64_ADDR32
      then upd_cmem (\<lambda>m. put32 addr (get32 addr m + (base + dst_vaddr)) m) c
      else if type = IMAGE_REL_AMD64_ADDR32NB
      then upd_cmem (\<lambda>m. put32 addr (get32 addr m + dst_vaddr) m) c
      else if type = IMAGE_REL_AMD64_REL32 \<or> type = IMAGE_REL_AMD64_REL32 OR IMAGE_REL_AMD64_SSPAN32
      then upd_cmem (\<lambda>m. put32 addr (get32 addr m + (dst_vaddr - (src_vaddr + 4))) m) c
      else c)"

definition update_import_directory_len :: "bool \<Rightarrow> cstr \<Rightarrow> cstr \<Rightarrow> coff \<Rightarrow> u32" where
  "update_import_directory_len new nm dllname c =
     (let offset = (if new
        then (if import_directory_len c = 0 then 20 else 0) + (20 + 1 + of_nat (z_strlen dllname)) + 2 * 8
        else 0)
      in offset + (2 * 8 + 2 + of_nat (z_strlen nm) + 1))"

text \<open>\<open>sysv_lookup_for_coff\<close> (\<open>hashtable.c\<close>): the names are reached through the export
  table.\<close>

definition export_name :: "coff \<Rightarrow> nat \<Rightarrow> cstr option" where
  "export_name c i =
     (let x = export_data c;
          a = ied_p x + unat (get32 (address_of_names x + 4 * i) (cmem c))
      in if a < vaddr_p x then None else str_at (cmem c) (a - vaddr_p x))"

definition sysv_lookup_for_coff :: "cstr \<Rightarrow> coff \<Rightarrow> u32 option" where
  "sysv_lookup_for_coff s c = do {
     i \<leftarrow> sysv_lookup_in (export_name c) (hash_table_p (conf (lks c))) s (sysv_hash s) (cmem c);
     Some (if i = 0 then 0 else get32 (address_of_functions (export_data c) + 4 * unat i) (cmem c))
   }"

record CallbackArgIn =
  src_vaddr :: u32
  dst_value :: u32
  filled_addr :: nat
  arg_name :: cstr
  arg_type :: u16
  shndx :: int
  storage_class :: u8
  src_oc :: nat

text \<open>The import of a function of a library, and the PLT slot it is called through.\<close>

definition resolve_import :: "CallbackArgIn \<Rightarrow> coff \<Rightarrow> coff option" where
  "resolve_import a c = do {
     (r, c) \<leftarrow> lookup_dynamic_symbol (arg_name a) c;
     case r of
       None \<Rightarrow> Some c
     | Some (target, ever) \<Rightarrow>
         (case target of ToText dllname \<Rightarrow>
            if ever \<noteq> 0 then Some (coff_fill_address (filled_addr a) (arg_type a) ever (src_vaddr a) c)
            else do {
              let c = coff_fill_address (filled_addr a) (arg_type a) (plt_offset c) (src_vaddr a) c;
              let c = c\<lparr>plt_offset := plt_offset c + 6\<rparr>;
              (new, c) \<leftarrow> add_dynamic_resolved_entry (arg_name a) dllname (filled_addr a) c;
              Some (c\<lparr>import_directory_len := import_directory_len c +
                update_import_directory_len new (arg_name a) dllname c\<rparr>)
            }
          | _ \<Rightarrow> None)
   }"

definition coff_resolve :: "CallbackArgIn \<Rightarrow> coff \<Rightarrow> coff option" where
  "coff_resolve a c =
     (if storage_class a = 3
      then let ish = int (section_head (objs (lks c) (src_oc a))) + (shndx a - 1) * 40 in
        if ish < 0 then None
        else if ish = 0 then Some c
        else Some (coff_fill_address (filled_addr a) (arg_type a)
               (dst_value a + VirtualAddress (rd_ish (nat ish) (cmem c))) (src_vaddr a) c)
      else if storage_class a \<noteq> 2 then Some c
      else do {
        dst_vaddr \<leftarrow> sysv_lookup_for_coff (arg_name a) c;
        if dst_vaddr \<noteq> 0
        then Some (coff_fill_address (filled_addr a) (arg_type a) dst_vaddr (src_vaddr a) c)
        else resolve_import a c
      })"

text \<open>The argument \<open>do_reloc\<close> makes of one relocation of a section.\<close>

definition reloc_arg :: "nat \<Rightarrow> nat \<Rightarrow> nat \<Rightarrow> coff \<Rightarrow> CallbackArgIn option" where
  "reloc_arg schain oc reloc c = do {
     let r = rd_coff_reloc reloc (cmem c);
     let ob = objs (lks c) oc;
     let is1 = symbol_table_p ob + sizeof_IMAGE_SYMBOL * unat (SymbolTableIndex r);
     let sy = rd_is is1 (cmem c);
     let ish = rd_ish (sch_p (schs (lks c) schain)) (cmem c);
     nm \<leftarrow> str_at (cmem c) (GET_NAME is1 (str_table_p ob) (cmem c));
     Some \<lparr>src_vaddr = sch_vaddr (schs (lks c) schain) + rel_VirtualAddress r, dst_value = is_Value sy,
       filled_addr = map_base ob + unat (PointerToRawData ish) + unat (rel_VirtualAddress r),
       arg_name = nm, arg_type = rel_Type r, shndx = sint (SectionNumber sy),
       storage_class = StorageClass sy, src_oc = oc\<rparr>
   }"

text \<open>The inner loop; the number of relocations is read again in every round.\<close>

partial_function (option) coff_relocs :: "nat \<Rightarrow> nat \<Rightarrow> nat \<Rightarrow> nat \<Rightarrow> coff \<Rightarrow> coff option" where
  [code]: "coff_relocs schain oc reloc i c =
     (if unat (NumberOfRelocations (rd_ish (sch_p (schs (lks c) schain)) (cmem c))) \<le> i then Some c
      else Option.bind (reloc_arg schain oc reloc c) (\<lambda>a.
        Option.bind (coff_resolve a c) (coff_relocs schain oc (reloc + sizeof_CoffReloc) (Suc i))))"

definition coff_reloc_section :: "nat \<Rightarrow> coff \<Rightarrow> coff option" where
  "coff_reloc_section schain c = do {
     let sc = schs (lks c) schain;
     oc \<leftarrow> sch_obj sc;
     if sch_p sc = 0 then None
     else coff_relocs schain oc (map_base (objs (lks c) oc) +
            unat (PointerToRelocations (rd_ish (sch_p sc) (cmem c)))) 0 c
   }"

definition coff_do_reloc :: "nat \<Rightarrow> coff \<Rightarrow> coff option" where
  "coff_do_reloc sc c =
     iter (\<lambda>c. this_sch (lks c)) coff_reloc_section (scon_init (scons (lks c) sc)) c"

end
