(* ===== verification/CoffTables.thy ===== *)
theory CoffTables
  imports Coff
begin

text \<open>
  The two tables the COFF linker puts into an image: the export directory
  (\<open>coff/export.c\<close>) and the import directory with its PLT (\<open>coff/import.c\<close>).
  Pointers into the areas are addresses of the linker's memory; the cursor records
  hold the local pointers of the loops.
\<close>

definition put_str :: "nat \<Rightarrow> cstr \<Rightarrow> coff \<Rightarrow> coff" where
  "put_str a s = upd_cmem (put_bytes a (s @ [0]))"

subsection \<open>The export directory\<close>

record export_cursor =
  ec_c :: nat
  ec_functions :: nat
  ec_ordinals :: nat
  ec_names :: nat
  ec_i :: u32

definition export_symbol :: "nat \<Rightarrow> nat \<Rightarrow> nat \<Rightarrow> nat \<Rightarrow> export_cursor \<times> coff \<Rightarrow> (export_cursor \<times> coff) option" where
  "export_symbol begin sec oc k = (\<lambda>(e, c). do {
     let sy = syms (lks c) k;
     let is = syc_p sy;
     nm \<leftarrow> str_at (cmem c) (GET_NAME is (str_table_p (objs (lks c) oc)) (cmem c));
     let c = upd_cmem (\<lambda>m. put32 (ec_names e) (get32 (sec + 12) m + of_nat (ec_c e - begin)) m) c;
     schain \<leftarrow> syc_schain sy;
     let export_addr = sch_vaddr (schs (lks c) schain) + is_Value (rd_is is (cmem c));
     let c = upd_cmem (put32 (ec_functions e) export_addr) c;
     let c = upd_cmem (put16 (ec_ordinals e) (ucast (ec_i e))) c;
     c \<leftarrow> (if use_dt_hash (conf (lks c)) \<noteq> 0
           then map_option (\<lambda>m. upd_cmem (\<lambda>_. m) c)
                  (add_dt_hash_entry (hash_table_p (conf (lks c))) (syc_name sy) (ec_i e) (cmem c))
           else Some c);
     let c = put_str (ec_c e) nm c;
     Some (\<lparr>ec_c = ec_c e + (z_strlen nm + 1), ec_functions = ec_functions e + 4,
            ec_ordinals = ec_ordinals e + 2, ec_names = ec_names e + 4, ec_i = ec_i e + 1\<rparr>, c)
   })"

definition export_object :: "nat \<Rightarrow> nat \<Rightarrow> nat \<Rightarrow> export_cursor \<times> coff \<Rightarrow> (export_cursor \<times> coff) option" where
  "export_object begin sec oc s =
     iter (\<lambda>s. next_syc (lks (snd s))) (export_symbol begin sec oc)
       (symbol_chain_head (objs (lks (snd s)) oc)) s"

definition add_export :: "coff \<Rightarrow> coff option" where
  "add_export c = do {
     found \<leftarrow> match_section (ascii ''.edata'') (lks c);
     case found of None \<Rightarrow> Some c | Some scon \<Rightarrow> do {
       schain \<leftarrow> scon_this (scons (lks c) scon);
       let sec = sch_p (schs (lks c) schain);
       let c = (if get32 (sec + 16) (cmem c) = 0
                then upd_cmem (put32 (sec + 16) (export_directory_len c)) c else c);
       (begin, c) \<leftarrow> on_lks new_area c;
       let c = upd_lks (upd_sch schain (\<lambda>x. x\<lparr>sch_data := begin\<rparr>)) c;
       let c = upd_lks (upd_conf (\<lambda>cf. cf\<lparr>dynsym_head := begin\<rparr>)) c;
       let va = get32 (sec + 12) (cmem c);
       let n = unat (export_func_count c);
       let image_name = begin + 40;
       let ordinals = image_name + z_strlen (outfile_name c) + 1;
       let functions = ordinals + 2 * n;
       let names = functions + 4 * n;
       let str = names + 4 * n;
       let c = upd_cmem (put_bytes begin (enc_ied
         \<lparr>ied_Name = va + of_nat (image_name - begin), NumberOfFunctions = export_func_count c,
          NumberOfNames = export_func_count c, AddressOfFunctions = va + of_nat (functions - begin),
          AddressOfNames = va + of_nat (names - begin),
          AddressOfNameOrdinals = va + of_nat (ordinals - begin)\<rparr>)) c;
       let c = put_str image_name (outfile_name c) c;
       let c = c\<lparr>export_data := \<lparr>ied_p = begin, address_of_name_ordinals = ordinals,
         address_of_functions = functions, address_of_names = names, str_p = str, vaddr_p = unat va\<rparr>\<rparr>;
       (e, c) \<leftarrow> iter (\<lambda>s. next_obj (lks (snd s))) (export_object begin sec) (initial_object (conf (lks c)))
         (\<lparr>ec_c = str, ec_functions = functions, ec_ordinals = ordinals, ec_names = names, ec_i = 0\<rparr>, c);
       Some c
     }
   }"

subsection \<open>The import directory\<close>

definition thunk_size :: "coff \<Rightarrow> nat" where
  "thunk_size c = (if file_format (conf (lks c)) = 7 then 4 else 8)"   \<comment> \<open>\<open>COFF_I386\<close>\<close>

definition put_thunk :: "nat \<Rightarrow> u32 \<Rightarrow> coff \<Rightarrow> coff" where
  "put_thunk a v c = upd_cmem (if thunk_size c = 4 then put32 a v else put64 a (ucast v)) c"

definition add_thunk :: "nat \<Rightarrow> nat \<Rightarrow> coff \<Rightarrow> coff" where
  "add_thunk a d c = upd_cmem (\<lambda>m. if thunk_size c = 4 then put32 a (get32 a m + of_nat d) m
     else put64 a (get64 a m + of_nat d) m) c"

definition imported :: "coff \<Rightarrow> nat \<Rightarrow> nat option" where
  "imported c e = (case s3_this (s3s c e) of ToChain h \<Rightarrow> Some h | _ \<Rightarrow> None)"

text \<open>\<open>iterate_import\<close>: a thunk for every function and one that stays empty for every
  library.\<close>

definition iterate_dll :: "u32 \<Rightarrow> nat \<Rightarrow> nat \<times> coff \<Rightarrow> (nat \<times> coff) option" where
  "iterate_dll vaddr e = (\<lambda>(iant, c). do {
     h \<leftarrow> imported c e;
     (iant, c) \<leftarrow> iter (\<lambda>s. next_s3 (snd s)) (\<lambda>_ (iant, c). Some (iant + thunk_size c, put_thunk iant vaddr c))
       (Some h) (iant, c);
     Some (iant + thunk_size c, c)
   })"

definition iterate_import :: "nat \<Rightarrow> u32 \<Rightarrow> coff \<Rightarrow> (nat \<times> coff) option" where
  "iterate_import iant vaddr c =
     iter (\<lambda>s. next_s3 (snd s)) (iterate_dll vaddr) (InitialImport c) (iant, c)"

record import_cursor =
  ic_iid :: nat
  ic_iat :: nat
  ic_int :: nat
  ic_c :: nat
  ic_plt :: nat
  ic_plt_vaddr :: u32

definition import_function :: "nat \<Rightarrow> u32 \<Rightarrow> nat \<Rightarrow> import_cursor \<times> coff \<Rightarrow> (import_cursor \<times> coff) option" where
  "import_function begin import_vaddr s1 = (\<lambda>(i, c).
     let v = import_vaddr + of_nat (ic_iat i - begin);
         c = upd_cmem (put16 (ic_plt i) 0x25ff) c;
         c = (if thunk_size c = 4
              then upd_cmem (put32 (ic_plt i + 2) (v + base_address (conf (lks c)))) c
              else upd_cmem (put32 (ic_plt i + 2) (v - (ic_plt_vaddr i + 6))) c);
         c = add_thunk (ic_iat i) (ic_c i - begin) c;
         c = add_thunk (ic_int i) (ic_c i - begin) c;
         c = upd_cmem (put16 (ic_c i) 0) c;
         c = put_str (ic_c i + 2) (s3_name (s3s c s1)) c
     in Some (i\<lparr>ic_iat := ic_iat i + thunk_size c, ic_int := ic_int i + thunk_size c,
           ic_c := ic_c i + (2 + (z_strlen (s3_name (s3s c s1)) + 1)), ic_plt := ic_plt i + 6,
           ic_plt_vaddr := (if thunk_size c = 4 then ic_plt_vaddr i else ic_plt_vaddr i + 6)\<rparr>, c))"

definition import_dll :: "nat \<Rightarrow> u32 \<Rightarrow> nat \<Rightarrow> import_cursor \<times> coff \<Rightarrow> (import_cursor \<times> coff) option" where
  "import_dll begin import_vaddr e = (\<lambda>(i, c). do {
     let c = upd_cmem (\<lambda>m. put32 (ic_iid i + 16) (get32 (ic_iid i + 16) m + of_nat (ic_iat i - begin)) m) c;
     let c = upd_cmem (\<lambda>m. put32 (ic_iid i) (get32 (ic_iid i) m + of_nat (ic_int i - begin)) m) c;
     let c = put_str (ic_c i) (s3_name (s3s c e)) c;
     let c = upd_cmem (\<lambda>m. put32 (ic_iid i + 12) (get32 (ic_iid i + 12) m + of_nat (ic_c i - begin)) m) c;
     h \<leftarrow> imported c e;
     (i, c) \<leftarrow> iter (\<lambda>s. next_s3 (snd s)) (import_function begin import_vaddr) (Some h)
       (i\<lparr>ic_c := ic_c i + (z_strlen (s3_name (s3s c e)) + 1)\<rparr>, c);
     Some (i\<lparr>ic_iid := ic_iid i + 20, ic_iat := ic_iat i + thunk_size c,
             ic_int := ic_int i + thunk_size c\<rparr>, c)
   })"

definition first_descriptor :: "u32 \<Rightarrow> IMAGE_IMPORT_DESCRIPTOR" where
  "first_descriptor va = \<lparr>OriginalFirstThunk = va, iid_TimeDateStamp = 0, ForwarderChain = 0,
     iid_Name = va, FirstThunk = va\<rparr>"

definition write_import :: "nat \<Rightarrow> nat \<Rightarrow> u32 \<Rightarrow> u32 \<Rightarrow> coff \<Rightarrow> coff option" where
  "write_import pltp begin plt_vaddr import_vaddr c = do {
     (iid, c) \<leftarrow> iter (\<lambda>s. next_s3 (snd s))
       (\<lambda>_ (iid, c). Some (iid + 20, upd_cmem (put_bytes iid (enc_iid (first_descriptor import_vaddr))) c))
       (InitialImport c) (begin, c);
     let iat = iid + 20;
     (int_p, c) \<leftarrow> iterate_import iat import_vaddr c;
     (str, c) \<leftarrow> iterate_import int_p import_vaddr c;
     (i, c) \<leftarrow> iter (\<lambda>s. next_s3 (snd s)) (import_dll begin import_vaddr) (InitialImport c)
       (\<lparr>ic_iid = begin, ic_iat = iat, ic_int = int_p, ic_c = str, ic_plt = pltp, ic_plt_vaddr = plt_vaddr\<rparr>, c);
     Some c
   }"

definition add_import :: "coff \<Rightarrow> coff option" where
  "add_import c =
     (if import_directory_len c = 0 then Some c
      else do {
        let plt_vaddr = virtual_address_offset (conf (lks c));
        let plt_size = plt_offset c - plt_vaddr;
        let import_vaddr = plt_vaddr + plt_size;
        let c = upd_lks (upd_conf (\<lambda>cf. cf\<lparr>virtual_address_offset := import_vaddr + import_directory_len c\<rparr>)) c;
        (pltp, c) \<leftarrow> on_lks new_area c;
        (begin, c) \<leftarrow> on_lks new_area c;
        (plt_sec, c) \<leftarrow> add_coff_section (ascii ''.plt'') plt_vaddr plt_size pltp c;
        (idata_sec, c) \<leftarrow> add_coff_section (ascii ''.idata'') import_vaddr (import_directory_len c) begin c;
        write_import pltp begin plt_vaddr import_vaddr c
      })"

end
