(* ===== verification/CoffImport.thy ===== *)
theory CoffImport
  imports CoffTables
begin

text \<open>
  What \<open>add_import\<close> writes.  The loops change only the memory; \<open>with_mem\<close> puts a
  memory into the state, and every loop over the list of imports is a fold over the
  libraries and their functions, given by name.
\<close>

subsection \<open>Loops that change only memory\<close>

definition with_mem :: "mem \<Rightarrow> coff \<Rightarrow> coff" where
  "with_mem m = upd_cmem (\<lambda>_. m)"

lemma upd_cmem_with_mem [simp]: "upd_cmem f (with_mem m c) = with_mem (f m) c"
  by (simp add: with_mem_def upd_cmem_def upd_lks_def upd_mem_def)

lemma with_mem_fields [simp]:
  "cmem (with_mem m c) = m" "s3s (with_mem m c) = s3s c" "next_s3 (with_mem m c) = next_s3 c"
  "InitialImport (with_mem m c) = InitialImport c" "thunk_size (with_mem m c) = thunk_size c"
  "imported (with_mem m c) e = imported c e" "conf (lks (with_mem m c)) = conf (lks c)"
  by (simp_all add: with_mem_def upd_cmem_def upd_lks_def upd_mem_def cmem_def next_s3_def fun_eq_iff
      thunk_size_def imported_def)

lemma with_mem_cmem: "with_mem (cmem c) c = c"
  by (simp add: with_mem_def upd_cmem_def upd_lks_def upd_mem_def cmem_def)

lemma put_str_with_mem [simp]: "put_str a s (with_mem m c) = with_mem (put_bytes a (s @ [0]) m) c"
  by (simp add: put_str_def)

text \<open>A loop whose body is a function of the cursor and the memory is a fold.\<close>

lemma iter_mem:
  assumes "opath (next_s3 c) p ks"
    and "\<And>k i m. k \<in> set ks \<Longrightarrow> f k (i, with_mem m c) = Some (map_prod id (\<lambda>m. with_mem m c) (g k (i, m)))"
  shows "iter (\<lambda>s. next_s3 (snd s)) f p (i, with_mem m c) =
    Some (map_prod id (\<lambda>m. with_mem m c) (fold g ks (i, m)))"
proof -
  have "iter (\<lambda>s. next_s3 (snd s)) f p (i, with_mem m c) = fold_opt f ks (i, with_mem m c)"
    using assms iter_opath [where nx = "\<lambda>s. next_s3 (snd s)" and s = "(i, with_mem m c)" and p = p and xs = ks
      and P = "\<lambda>s. \<exists>m. snd s = with_mem m c" and f = f] by (fastforce simp: map_prod_def split: prod.splits)
  moreover have "fold_opt f ks (i, with_mem m c) = Some (map_prod id (\<lambda>m. with_mem m c) (fold g ks (i, m)))"
    using assms(2)
  proof (induction ks arbitrary: i m)
    case (Cons k ks)
    obtain i' m' where g: "g k (i, m) = (i', m')" by (cases "g k (i, m)")
    then show ?case using Cons.IH [of i' m'] Cons.prems by simp
  qed simp
  ultimately show ?thesis by simp
qed

subsection \<open>The steps on memory\<close>

definition adv_fun :: "cstr \<Rightarrow> import_cursor \<Rightarrow> import_cursor" where
  "adv_fun nm i = i\<lparr>ic_iat := ic_iat i + 8, ic_int := ic_int i + 8, ic_c := ic_c i + (length nm + 3),
     ic_plt := ic_plt i + 6, ic_plt_vaddr := ic_plt_vaddr i + 6\<rparr>"

definition fun_mem :: "nat \<Rightarrow> u32 \<Rightarrow> import_cursor \<Rightarrow> cstr \<Rightarrow> mem \<Rightarrow> mem" where
  "fun_mem begin va i nm m =
     (let m = put16 (ic_plt i) 0x25ff m;
          m = put32 (ic_plt i + 2) (va + of_nat (ic_iat i - begin) - (ic_plt_vaddr i + 6)) m;
          m = put64 (ic_iat i) (get64 (ic_iat i) m + of_nat (ic_c i - begin)) m;
          m = put64 (ic_int i) (get64 (ic_int i) m + of_nat (ic_c i - begin)) m;
          m = put16 (ic_c i) 0 m
      in put_bytes (ic_c i + 2) (nm @ [0]) m)"

definition fun_step :: "nat \<Rightarrow> u32 \<Rightarrow> cstr \<Rightarrow> import_cursor \<times> mem \<Rightarrow> import_cursor \<times> mem" where
  "fun_step begin va nm = (\<lambda>(i, m). (adv_fun nm i, fun_mem begin va i nm m))"

definition dll_start :: "cstr \<Rightarrow> import_cursor \<Rightarrow> import_cursor" where
  "dll_start d i = i\<lparr>ic_c := ic_c i + (length d + 1)\<rparr>"

definition dll_end :: "import_cursor \<Rightarrow> import_cursor" where
  "dll_end i = i\<lparr>ic_iid := ic_iid i + 20, ic_iat := ic_iat i + 8, ic_int := ic_int i + 8\<rparr>"

definition dll_mem :: "nat \<Rightarrow> cstr \<Rightarrow> import_cursor \<Rightarrow> mem \<Rightarrow> mem" where
  "dll_mem begin d i m =
     (let m = put32 (ic_iid i + 16) (get32 (ic_iid i + 16) m + of_nat (ic_iat i - begin)) m;
          m = put32 (ic_iid i) (get32 (ic_iid i) m + of_nat (ic_int i - begin)) m;
          m = put_bytes (ic_c i) (d @ [0]) m
      in put32 (ic_iid i + 12) (get32 (ic_iid i + 12) m + of_nat (ic_c i - begin)) m)"

type_synonym import_list = "(cstr \<times> cstr list) list"

definition dll_step :: "nat \<Rightarrow> u32 \<Rightarrow> cstr \<times> cstr list \<Rightarrow> import_cursor \<times> mem \<Rightarrow> import_cursor \<times> mem" where
  "dll_step begin va d = (\<lambda>(i, m).
     let (i, m) = fold (fun_step begin va) (snd d) (dll_start (fst d) i, dll_mem begin (fst d) i m)
     in (dll_end i, m))"

definition thunk_step :: "u32 \<Rightarrow> cstr \<times> cstr list \<Rightarrow> nat \<times> mem \<Rightarrow> nat \<times> mem" where
  "thunk_step va d = (\<lambda>(a, m).
     let (a, m) = fold (\<lambda>_ (a, m). (a + 8, put64 a (ucast va) m)) (snd d) (a, m) in (a + 8, m))"

definition iid_step :: "u32 \<Rightarrow> nat \<times> mem \<Rightarrow> nat \<times> mem" where
  "iid_step va = (\<lambda>(a, m). (a + 20, put_bytes a (enc_iid (first_descriptor va)) m))"

text \<open>The imports of the state as a list: the libraries \<open>es\<close> with the functions \<open>fs e\<close>.\<close>

definition imports_are :: "coff \<Rightarrow> nat list \<Rightarrow> (nat \<Rightarrow> nat list) \<Rightarrow> bool" where
  "imports_are c es fs \<longleftrightarrow> opath (next_s3 c) (InitialImport c) es \<and>
     (\<forall>e \<in> set es. nul_free (s3_name (s3s c e)) \<and> opath (next_s3 c) (imported c e) (fs e) \<and> fs e \<noteq> [] \<and>
        (\<forall>f \<in> set (fs e). nul_free (s3_name (s3s c f))))"

definition names_of :: "coff \<Rightarrow> nat list \<Rightarrow> (nat \<Rightarrow> nat list) \<Rightarrow> import_list" where
  "names_of c es fs = map (\<lambda>e. (s3_name (s3s c e), map (\<lambda>f. s3_name (s3s c f)) (fs e))) es"

lemma import_function_step:
  assumes "thunk_size c = 8" "nul_free (s3_name (s3s c k))"
  shows "import_function begin va k (i, with_mem m c) =
    Some (map_prod id (\<lambda>m. with_mem m c) (fun_step begin va (s3_name (s3s c k)) (i, m)))"
  using assms
  by (simp add: import_function_def Let_def fun_step_def adv_fun_def fun_mem_def add_thunk_def ac_simps)

lemma imports_areD:
  assumes "imports_are c es fs" "e \<in> set es"
  shows "nul_free (s3_name (s3s c e))" "\<exists>h. imported c e = Some h \<and> opath (next_s3 c) (Some h) (fs e)"
    "\<And>f. f \<in> set (fs e) \<Longrightarrow> nul_free (s3_name (s3s c f))"
  using assms by (auto simp: imports_are_def opath_def split: option.splits)

lemma import_dll_step:
  assumes "thunk_size c = 8" "imports_are c es fs" "e \<in> set es"
  shows "import_dll begin va e (i, with_mem m c) = Some (map_prod id (\<lambda>m. with_mem m c)
    (dll_step begin va (s3_name (s3s c e), map (\<lambda>f. s3_name (s3s c f)) (fs e)) (i, m)))"
proof -
  note d = imports_areD [OF assms(2,3)]
  obtain h where h: "imported c e = Some h" "opath (next_s3 c) (Some h) (fs e)" using d(2) by blast
  have "iter (\<lambda>s. next_s3 (snd s)) (import_function begin va) (Some h) (i', with_mem m' c) =
      Some (map_prod id (\<lambda>m. with_mem m c)
        (fold (fun_step begin va) (map (\<lambda>f. s3_name (s3s c f)) (fs e)) (i', m')))" for i' m'
    using d(3) import_function_step [OF assms(1)]
    by (subst iter_mem [OF h(2), where g = "\<lambda>f. fun_step begin va (s3_name (s3s c f))"])
      (simp_all add: fold_map comp_def)
  then show ?thesis
    using d(1) h(1) assms(1)
    by (simp add: import_dll_def Let_def dll_step_def dll_mem_def dll_start_def dll_end_def
        map_prod_def split: prod.split)
qed

lemma iterate_import_step:
  assumes "thunk_size c = 8" "imports_are c es fs"
  shows "iterate_import a va (with_mem m c) = Some (map_prod id (\<lambda>m. with_mem m c)
    (fold (thunk_step va) (names_of c es fs) (a, m)))"
proof -
  have "iterate_dll va e (a, with_mem m c) = Some (map_prod id (\<lambda>m. with_mem m c)
      (thunk_step va (s3_name (s3s c e), map (\<lambda>f. s3_name (s3s c f)) (fs e)) (a, m)))"
    if e: "e \<in> set es" for e a m
  proof -
    obtain h where h: "imported c e = Some h" "opath (next_s3 c) (Some h) (fs e)"
      using imports_areD(2) [OF assms(2) e] by blast
    have "iter (\<lambda>s. next_s3 (snd s)) (\<lambda>_ (iant, c). Some (iant + thunk_size c, put_thunk iant va c))
        (Some h) (a, with_mem m c) = Some (map_prod id (\<lambda>m. with_mem m c)
          (fold (\<lambda>_ (a, m). (a + 8, put64 a (ucast va) m)) (map (\<lambda>f. s3_name (s3s c f)) (fs e)) (a, m)))"
      by (subst iter_mem [OF h(2), where g = "\<lambda>_ (a, m). (a + 8, put64 a (ucast va) m)"])
        (simp_all add: assms(1) put_thunk_def fold_map comp_def)
    then show ?thesis
      by (simp add: iterate_dll_def h(1) thunk_step_def assms(1) map_prod_def split: prod.split)
  qed
  then show ?thesis
    using assms(2) unfolding iterate_import_def names_of_def imports_are_def
    by (subst iter_mem [where ks = es and
          g = "\<lambda>e. thunk_step va (s3_name (s3s c e), map (\<lambda>f. s3_name (s3s c f)) (fs e))"])
      (simp_all add: fold_map comp_def)
qed

text \<open>\<open>write_import\<close> as folds over the names.\<close>

definition import_mem :: "nat \<Rightarrow> nat \<Rightarrow> u32 \<Rightarrow> u32 \<Rightarrow> import_list \<Rightarrow> mem \<Rightarrow> mem" where
  "import_mem pltp begin plt_va va ds m =
     (let (iid, m) = fold (\<lambda>_. iid_step va) ds (begin, m);
          (int_p, m) = fold (thunk_step va) ds (iid + 20, m);
          (str, m) = fold (thunk_step va) ds (int_p, m)
      in snd (fold (dll_step begin va) ds
        (\<lparr>ic_iid = begin, ic_iat = iid + 20, ic_int = int_p, ic_c = str, ic_plt = pltp, ic_plt_vaddr = plt_va\<rparr>, m)))"

lemma write_import_mem:
  assumes "thunk_size c = 8" "imports_are c es fs"
  shows "write_import pltp begin plt_va va (with_mem m c) =
    Some (with_mem (import_mem pltp begin plt_va va (names_of c es fs) m) c)"
proof -
  have p: "opath (next_s3 c) (InitialImport c) es" using assms(2) by (simp add: imports_are_def)
  have iids: "iter (\<lambda>s. next_s3 (snd s))
      (\<lambda>_ (iid, c). Some (iid + 20, upd_cmem (put_bytes iid (enc_iid (first_descriptor va))) c))
      (InitialImport c) (a, with_mem m c) =
    Some (map_prod id (\<lambda>m. with_mem m c) (fold (\<lambda>_. iid_step va) (names_of c es fs) (a, m)))" for a m
    by (subst iter_mem [OF p, where g = "\<lambda>_. iid_step va"])
      (simp_all add: iid_step_def names_of_def fold_map comp_def)
  have dlls: "iter (\<lambda>s. next_s3 (snd s)) (import_dll begin va) (InitialImport c) (i, with_mem m c) =
    Some (map_prod id (\<lambda>m. with_mem m c) (fold (dll_step begin va) (names_of c es fs) (i, m)))" for i m
    using import_dll_step [OF assms]
    by (subst iter_mem [OF p, where g = "\<lambda>e. dll_step begin va (s3_name (s3s c e), map (\<lambda>f. s3_name (s3s c f)) (fs e))"])
      (simp_all add: names_of_def fold_map comp_def)
  show ?thesis
    by (simp add: write_import_def iids dlls iterate_import_step [OF assms] import_mem_def map_prod_def
        split: prod.split)
qed

subsection \<open>What a function adds\<close>

definition fun_ok :: "nat \<Rightarrow> u32 \<Rightarrow> import_cursor \<Rightarrow> cstr \<Rightarrow> mem \<Rightarrow> bool" where
  "fun_ok begin va i nm m \<longleftrightarrow>
     get16 (ic_plt i) m = 0x25ff \<and>
     get32 (ic_plt i + 2) m = va + of_nat (ic_iat i - begin) - (ic_plt_vaddr i + 6) \<and>
     get64 (ic_iat i) m = ucast va + of_nat (ic_c i - begin) \<and>
     get64 (ic_int i) m = ucast va + of_nat (ic_c i - begin) \<and>
     get_bytes (ic_c i) (length nm + 3) m = 0 # 0 # nm @ [0]"

fun funs_ok :: "nat \<Rightarrow> u32 \<Rightarrow> import_cursor \<Rightarrow> cstr list \<Rightarrow> mem \<Rightarrow> bool" where
  "funs_ok begin va i [] m = True"
| "funs_ok begin va i (nm # nms) m = (fun_ok begin va i nm m \<and> funs_ok begin va (adv_fun nm i) nms m)"

definition name_room :: "cstr list \<Rightarrow> nat" where
  "name_room nms = sum_list (map (\<lambda>nm. length nm + 3) nms)"

lemma name_room_simps [simp]: "name_room [] = 0" "name_room (nm # nms) = length nm + 3 + name_room nms"
  by (simp_all add: name_room_def)

lemma adv_fun_fields [simp]:
  "ic_iid (adv_fun nm i) = ic_iid i" "ic_iat (adv_fun nm i) = ic_iat i + 8" "ic_int (adv_fun nm i) = ic_int i + 8"
  "ic_c (adv_fun nm i) = ic_c i + (length nm + 3)" "ic_plt (adv_fun nm i) = ic_plt i + 6"
  "ic_plt_vaddr (adv_fun nm i) = ic_plt_vaddr i + 6"
  by (simp_all add: adv_fun_def)

text \<open>Where a run of functions writes.\<close>

definition touched :: "import_cursor \<Rightarrow> cstr list \<Rightarrow> nat \<Rightarrow> bool" where
  "touched i nms x \<longleftrightarrow>
     ic_iat i \<le> x \<and> x < ic_iat i + 8 * length nms \<or> ic_int i \<le> x \<and> x < ic_int i + 8 * length nms \<or>
     ic_c i \<le> x \<and> x < ic_c i + name_room nms \<or> ic_plt i \<le> x \<and> x < ic_plt i + 6 * length nms"

text \<open>The four areas lie apart, in this order, and the PLT outside.\<close>

definition apart :: "nat \<Rightarrow> import_cursor \<Rightarrow> cstr list \<Rightarrow> bool" where
  "apart begin i nms \<longleftrightarrow> begin \<le> ic_iat i \<and> ic_iat i + 8 * length nms \<le> ic_int i \<and>
     ic_int i + 8 * length nms \<le> ic_c i \<and>
     (ic_plt i + 6 * length nms \<le> begin \<or> ic_c i + name_room nms \<le> ic_plt i)"

lemma apart_Cons: "apart begin i (nm # nms) \<Longrightarrow> apart begin (adv_fun nm i) nms"
  by (auto simp: apart_def)

lemma fun_mem_frame: "\<not> touched i [nm] x \<Longrightarrow> fun_mem begin va i nm m x = m x"
  unfolding touched_def fun_mem_def Let_def
  by (auto simp: put_apply_other put_bytes_apply)

lemma touched_Cons: "touched i (nm # nms) x \<longleftrightarrow> touched i [nm] x \<or> touched (adv_fun nm i) nms x"
  by (auto simp: touched_def)

lemma put16_zero: "put16 a 0 m = put_bytes a [0, 0] m"
  by (simp add: put16_def le16_def)

lemma fun_mem_ok:
  assumes "apart begin i [nm]" "get64 (ic_iat i) m = ucast va" "get64 (ic_int i) m = ucast va"
  shows "fun_ok begin va i nm (fun_mem begin va i nm m)"
proof -
  define m1 where "m1 = put32 (ic_plt i + 2) (va + of_nat (ic_iat i - begin) - (ic_plt_vaddr i + 6)) (put16 (ic_plt i) 0x25ff m)"
  define m2 where "m2 = put64 (ic_iat i) (get64 (ic_iat i) m1 + of_nat (ic_c i - begin)) m1"
  define m3 where "m3 = put64 (ic_int i) (get64 (ic_int i) m2 + of_nat (ic_c i - begin)) m2"
  have m: "fun_mem begin va i nm m = put_bytes (ic_c i) (0 # 0 # nm @ [0]) m3"
    using put_bytes_append [of "ic_c i" "[0, 0]" "nm @ [0]" m3]
    by (simp add: fun_mem_def Let_def put16_zero m1_def m2_def m3_def)
  have ap: "begin \<le> ic_iat i" "ic_iat i + 8 \<le> ic_int i" "ic_int i + 8 \<le> ic_c i"
    "ic_plt i + 6 \<le> begin \<or> ic_c i + (length nm + 3) \<le> ic_plt i"
    using assms(1) by (auto simp: apart_def)
  have p: "get16 (ic_plt i) m1 = 0x25ff" "get32 (ic_plt i + 2) m1 = va + of_nat (ic_iat i - begin) - (ic_plt_vaddr i + 6)"
    by (simp_all add: m1_def get_put_same get_put_other)
  have t1: "get64 (ic_iat i) m1 = ucast va" "get64 (ic_int i) m1 = ucast va"
    using ap assms(2,3) by (auto simp: m1_def get_put_other)
  have t2: "get64 (ic_int i) m2 = ucast va" using ap t1 by (simp add: m2_def get_put_other)
  have q: "get16 (ic_plt i) m3 = get16 (ic_plt i) m1" "get32 (ic_plt i + 2) m3 = get32 (ic_plt i + 2) m1"
    using ap by (auto simp: m2_def m3_def get_put_other)
  have t3: "get64 (ic_iat i) m3 = ucast va + of_nat (ic_c i - begin)" "get64 (ic_int i) m3 = ucast va + of_nat (ic_c i - begin)"
    using ap by (simp_all add: m3_def get_put_same get_put_other t2) (simp add: m2_def get_put_same t1)
  define bs where "bs = 0 # 0 # nm @ [0]"
  have lb: "length bs = length nm + 3" by (simp add: bs_def)
  have "get16 (ic_plt i) (put_bytes (ic_c i) bs m3) = get16 (ic_plt i) m3"
    "get32 (ic_plt i + 2) (put_bytes (ic_c i) bs m3) = get32 (ic_plt i + 2) m3"
    "get64 (ic_iat i) (put_bytes (ic_c i) bs m3) = get64 (ic_iat i) m3"
    "get64 (ic_int i) (put_bytes (ic_c i) bs m3) = get64 (ic_int i) m3"
    by (rule get_put_bytes_out; use ap lb in linarith)+
  moreover have "get_bytes (ic_c i) (length nm + 3) (put_bytes (ic_c i) bs m3) = bs"
    unfolding lb [symmetric] by (rule get_put_bytes)
  ultimately show ?thesis
    unfolding fun_ok_def m bs_def [symmetric] using p q t3 by simp
qed

lemma fun_ok_cong:
  assumes "\<And>x. touched i [nm] x \<Longrightarrow> m' x = m x"
  shows "fun_ok begin va i nm m' = fun_ok begin va i nm m"
proof -
  have "get16 (ic_plt i) m' = get16 (ic_plt i) m" "get32 (ic_plt i + 2) m' = get32 (ic_plt i + 2) m"
    "get64 (ic_iat i) m' = get64 (ic_iat i) m" "get64 (ic_int i) m' = get64 (ic_int i) m"
    "get_bytes (ic_c i) (length nm + 3) m' = get_bytes (ic_c i) (length nm + 3) m"
    by (intro get_cong get_bytes_cong assms; simp add: touched_def)+
  then show ?thesis by (simp add: fun_ok_def)
qed

text \<open>A run of functions.\<close>

lemma fun_step_eq [simp]: "fun_step begin va nm (i, m) = (adv_fun nm i, fun_mem begin va i nm m)"
  by (simp add: fun_step_def)

lemma fold_fun_step:
  assumes "apart begin i nms"
    and "\<And>j. j < length nms \<Longrightarrow> get64 (ic_iat i + 8 * j) m = ucast va \<and> get64 (ic_int i + 8 * j) m = ucast va"
  shows "fst (fold (fun_step begin va) nms (i, m)) = fold adv_fun nms i \<and>
    funs_ok begin va i nms (snd (fold (fun_step begin va) nms (i, m))) \<and>
    (\<forall>x. \<not> touched i nms x \<longrightarrow> snd (fold (fun_step begin va) nms (i, m)) x = m x)"
  using assms
proof (induction nms arbitrary: i m)
  case (Cons nm nms)
  let ?m1 = "fun_mem begin va i nm m" and ?i1 = "adv_fun nm i"
  define m' where "m' = snd (fold (fun_step begin va) nms (?i1, ?m1))"
  have thunks: "get64 (ic_iat ?i1 + 8 * j) ?m1 = ucast va \<and> get64 (ic_int ?i1 + 8 * j) ?m1 = ucast va"
    if "j < length nms" for j
  proof -
    have "get64 (ic_iat i + 8 * Suc j) ?m1 = get64 (ic_iat i + 8 * Suc j) m"
      "get64 (ic_int i + 8 * Suc j) ?m1 = get64 (ic_int i + 8 * Suc j) m"
      using Cons.prems(1) that
      by (intro get_cong fun_mem_frame; auto simp: apart_def touched_def)+
    then show ?thesis using Cons.prems(2) [of "Suc j"] that by (simp add: add.assoc)
  qed
  from Cons.IH [OF apart_Cons [OF Cons.prems(1)] thunks]
  have rest: "fst (fold (fun_step begin va) nms (?i1, ?m1)) = fold adv_fun nms ?i1"
    "funs_ok begin va ?i1 nms m'" "\<And>x. \<not> touched ?i1 nms x \<Longrightarrow> m' x = ?m1 x"
    by (simp_all add: m'_def)
  have "\<not> touched ?i1 nms x" if "touched i [nm] x" for x
    using Cons.prems(1) that by (auto simp: apart_def touched_def)
  then have "fun_ok begin va i nm m' = fun_ok begin va i nm ?m1"
    using rest(3) by (intro fun_ok_cong) blast
  moreover have "fun_ok begin va i nm ?m1"
    using Cons.prems(1) Cons.prems(2) [of 0] by (intro fun_mem_ok) (auto simp: apart_def)
  moreover have "m' x = m x" if "\<not> touched i (nm # nms) x" for x
    using that rest(3) fun_mem_frame by (simp add: touched_Cons [of i nm nms])
  ultimately show ?case using rest by (simp add: m'_def)
qed simp

subsection \<open>What a library adds\<close>

definition thunk_room :: "import_list \<Rightarrow> nat" where
  "thunk_room ds = sum_list (map (\<lambda>(d, fs). 8 * length fs + 8) ds)"

definition text_room :: "import_list \<Rightarrow> nat" where
  "text_room ds = sum_list (map (\<lambda>(d, fs). length d + 1 + name_room fs) ds)"

definition plt_room :: "import_list \<Rightarrow> nat" where
  "plt_room ds = sum_list (map (\<lambda>(d, fs). 6 * length fs) ds)"

lemma room_simps [simp]:
  "thunk_room [] = 0" "thunk_room ((d, fs) # ds) = 8 * length fs + 8 + thunk_room ds"
  "text_room [] = 0" "text_room ((d, fs) # ds) = length d + 1 + name_room fs + text_room ds"
  "plt_room [] = 0" "plt_room ((d, fs) # ds) = 6 * length fs + plt_room ds"
  by (simp_all add: thunk_room_def text_room_def plt_room_def)

definition all_touched :: "import_cursor \<Rightarrow> import_list \<Rightarrow> nat \<Rightarrow> bool" where
  "all_touched i ds x \<longleftrightarrow> ic_iid i \<le> x \<and> x < ic_iid i + 20 * length ds \<or>
     ic_iat i \<le> x \<and> x < ic_iat i + thunk_room ds \<or> ic_int i \<le> x \<and> x < ic_int i + thunk_room ds \<or>
     ic_c i \<le> x \<and> x < ic_c i + text_room ds \<or> ic_plt i \<le> x \<and> x < ic_plt i + plt_room ds"

definition all_apart :: "nat \<Rightarrow> import_cursor \<Rightarrow> import_list \<Rightarrow> bool" where
  "all_apart begin i ds \<longleftrightarrow> begin \<le> ic_iid i \<and> ic_iid i + 20 * length ds \<le> ic_iat i \<and>
     ic_iat i + thunk_room ds \<le> ic_int i \<and> ic_int i + thunk_room ds \<le> ic_c i \<and>
     (ic_plt i + plt_room ds \<le> begin \<or> ic_c i + text_room ds \<le> ic_plt i)"

lemma fold_adv_fun [simp]:
  "ic_iid (fold adv_fun nms i) = ic_iid i" "ic_iat (fold adv_fun nms i) = ic_iat i + 8 * length nms"
  "ic_int (fold adv_fun nms i) = ic_int i + 8 * length nms" "ic_c (fold adv_fun nms i) = ic_c i + name_room nms"
  "ic_plt (fold adv_fun nms i) = ic_plt i + 6 * length nms"
  "ic_plt_vaddr (fold adv_fun nms i) = ic_plt_vaddr i + 6 * of_nat (length nms)"
  by (induction nms arbitrary: i) (simp_all add: algebra_simps)

lemma dll_cursor_fields [simp]:
  "ic_iid (dll_start d i) = ic_iid i" "ic_iat (dll_start d i) = ic_iat i" "ic_int (dll_start d i) = ic_int i"
  "ic_c (dll_start d i) = ic_c i + (length d + 1)" "ic_plt (dll_start d i) = ic_plt i"
  "ic_plt_vaddr (dll_start d i) = ic_plt_vaddr i"
  "ic_iid (dll_end i) = ic_iid i + 20" "ic_iat (dll_end i) = ic_iat i + 8" "ic_int (dll_end i) = ic_int i + 8"
  "ic_c (dll_end i) = ic_c i" "ic_plt (dll_end i) = ic_plt i" "ic_plt_vaddr (dll_end i) = ic_plt_vaddr i"
  by (simp_all add: dll_start_def dll_end_def)

definition adv_dll :: "cstr \<times> cstr list \<Rightarrow> import_cursor \<Rightarrow> import_cursor" where
  "adv_dll d i = dll_end (fold adv_fun (snd d) (dll_start (fst d) i))"

lemma adv_dll_fields [simp]:
  "ic_iid (adv_dll (d, fs) i) = ic_iid i + 20" "ic_iat (adv_dll (d, fs) i) = ic_iat i + 8 * length fs + 8"
  "ic_int (adv_dll (d, fs) i) = ic_int i + 8 * length fs + 8"
  "ic_c (adv_dll (d, fs) i) = ic_c i + (length d + 1) + name_room fs"
  "ic_plt (adv_dll (d, fs) i) = ic_plt i + 6 * length fs"
  "ic_plt_vaddr (adv_dll (d, fs) i) = ic_plt_vaddr i + 6 * of_nat (length fs)"
  by (simp_all add: adv_dll_def)

lemma all_apart_Cons:
  assumes "all_apart begin i ((d, fs) # ds)"
  shows "all_apart begin (adv_dll (d, fs) i) ds" "apart begin (dll_start d i) fs"
  using assms by (auto simp: all_apart_def apart_def)

definition dll_ok :: "nat \<Rightarrow> u32 \<Rightarrow> import_cursor \<Rightarrow> cstr \<Rightarrow> mem \<Rightarrow> bool" where
  "dll_ok begin va i d m \<longleftrightarrow>
     get32 (ic_iid i + 16) m = va + of_nat (ic_iat i - begin) \<and>
     get32 (ic_iid i) m = va + of_nat (ic_int i - begin) \<and>
     get32 (ic_iid i + 12) m = va + of_nat (ic_c i - begin) \<and>
     get_bytes (ic_c i) (length d + 1) m = d @ [0]"

fun dlls_ok :: "nat \<Rightarrow> u32 \<Rightarrow> import_cursor \<Rightarrow> import_list \<Rightarrow> mem \<Rightarrow> bool" where
  "dlls_ok begin va i [] m = True"
| "dlls_ok begin va i ((d, fs) # ds) m = (dll_ok begin va i d m \<and> funs_ok begin va (dll_start d i) fs m \<and>
     get64 (ic_iat i + 8 * length fs) m = 0 \<and> get64 (ic_int i + 8 * length fs) m = 0 \<and>
     dlls_ok begin va (adv_dll (d, fs) i) ds m)"

text \<open>The descriptors and thunks as the first loops leave them.\<close>

definition iid_raw :: "u32 \<Rightarrow> nat \<Rightarrow> mem \<Rightarrow> bool" where
  "iid_raw va a m \<longleftrightarrow> get32 a m = va \<and> get32 (a + 12) m = va \<and> get32 (a + 16) m = va"

definition thunks_raw :: "u32 \<Rightarrow> nat \<Rightarrow> nat \<Rightarrow> mem \<Rightarrow> bool" where
  "thunks_raw va a n m \<longleftrightarrow> (\<forall>j < n. get64 (a + 8 * j) m = ucast va) \<and> get64 (a + 8 * n) m = 0"

fun dlls_raw :: "u32 \<Rightarrow> import_cursor \<Rightarrow> import_list \<Rightarrow> mem \<Rightarrow> bool" where
  "dlls_raw va i [] m = True"
| "dlls_raw va i ((d, fs) # ds) m = (iid_raw va (ic_iid i) m \<and> thunks_raw va (ic_iat i) (length fs) m \<and>
     thunks_raw va (ic_int i) (length fs) m \<and> dlls_raw va (adv_dll (d, fs) i) ds m)"

text \<open>Raw entries and finished entries depend on the memory only where they lie.\<close>

definition in_table :: "import_cursor \<Rightarrow> import_list \<Rightarrow> nat \<Rightarrow> bool" where
  "in_table i ds x \<longleftrightarrow> ic_iid i \<le> x \<and> x < ic_iid i + 20 * length ds \<or>
     ic_iat i \<le> x \<and> x < ic_iat i + thunk_room ds \<or> ic_int i \<le> x \<and> x < ic_int i + thunk_room ds"

lemma dlls_raw_cong:
  "(\<And>x. in_table i ds x \<Longrightarrow> m' x = m x) \<Longrightarrow> dlls_raw va i ds m' = dlls_raw va i ds m"
proof (induction ds arbitrary: i)
  case (Cons e ds)
  obtain d fs where e: "e = (d, fs)" by (cases e)
  have "iid_raw va (ic_iid i) m' = iid_raw va (ic_iid i) m"
    using Cons.prems unfolding iid_raw_def e
    by (subst (1 2 3) get_cong(2) [of _ m' m]) (auto simp: in_table_def)
  moreover have "get64 (ic_iat i + 8 * j) m' = get64 (ic_iat i + 8 * j) m"
    "get64 (ic_int i + 8 * j) m' = get64 (ic_int i + 8 * j) m" if "j \<le> length fs" for j
    using that by (intro get_cong Cons.prems; simp add: in_table_def e)+
  moreover have "dlls_raw va (adv_dll e i) ds m' = dlls_raw va (adv_dll e i) ds m"
    by (intro Cons.IH Cons.prems) (auto simp: in_table_def e)
  ultimately show ?case by (simp add: e thunks_raw_def)
qed simp

lemma dll_ok_cong:
  assumes "\<And>x. ic_iid i \<le> x \<and> x < ic_iid i + 20 \<or> ic_c i \<le> x \<and> x < ic_c i + length d + 1 \<Longrightarrow> m' x = m x"
  shows "dll_ok begin va i d m' = dll_ok begin va i d m"
proof -
  have "get32 (ic_iid i + 16) m' = get32 (ic_iid i + 16) m" "get32 (ic_iid i) m' = get32 (ic_iid i) m"
    "get32 (ic_iid i + 12) m' = get32 (ic_iid i + 12) m"
    "get_bytes (ic_c i) (length d + 1) m' = get_bytes (ic_c i) (length d + 1) m"
    by (intro get_cong get_bytes_cong assms; simp)+
  then show ?thesis by (simp add: dll_ok_def)
qed

lemma funs_ok_cong:
  "(\<And>x. touched i nms x \<Longrightarrow> m' x = m x) \<Longrightarrow> funs_ok begin va i nms m' = funs_ok begin va i nms m"
proof (induction nms arbitrary: i)
  case (Cons nm nms)
  have "fun_ok begin va i nm m' = fun_ok begin va i nm m"
    by (intro fun_ok_cong Cons.prems) (simp add: touched_Cons [of i nm nms])
  moreover have "funs_ok begin va (adv_fun nm i) nms m' = funs_ok begin va (adv_fun nm i) nms m"
    by (intro Cons.IH Cons.prems) (simp add: touched_Cons [of i nm nms])
  ultimately show ?case by simp
qed simp

lemma dll_mem_frame:
  assumes "\<not> (ic_iid i \<le> x \<and> x < ic_iid i + 20)" "\<not> (ic_c i \<le> x \<and> x < ic_c i + length d + 1)"
  shows "dll_mem begin d i m x = m x"
  using assms unfolding dll_mem_def Let_def by (auto simp: put_apply_other put_bytes_apply)

lemma dll_mem_ok:
  assumes "ic_iid i + 20 \<le> ic_c i" "iid_raw va (ic_iid i) m"
  shows "dll_ok begin va i d (dll_mem begin d i m)"
proof -
  define w where "w = of_nat (ic_c i - begin) + va"
  define bs where "bs = d @ [0 :: u8]"
  define m1 where "m1 = put32 (ic_iid i + 16) (get32 (ic_iid i + 16) m + of_nat (ic_iat i - begin)) m"
  define m2 where "m2 = put32 (ic_iid i) (get32 (ic_iid i) m1 + of_nat (ic_int i - begin)) m1"
  define m3 where "m3 = put_bytes (ic_c i) bs m2"
  have lb: "length bs = length d + 1" by (simp add: bs_def)
  have r1: "get32 (ic_iid i + 16) m1 = va + of_nat (ic_iat i - begin)" "get32 (ic_iid i) m1 = va"
    "get32 (ic_iid i + 12) m1 = va"
    using assms(2) by (simp_all only: m1_def iid_raw_def get_put_same get_put_other)
      (simp_all add: get_put_other)
  have r2: "get32 (ic_iid i + 16) m2 = va + of_nat (ic_iat i - begin)"
    "get32 (ic_iid i) m2 = va + of_nat (ic_int i - begin)" "get32 (ic_iid i + 12) m2 = va"
    using r1 by (simp_all add: m2_def get_put_same get_put_other)
  have "get32 (ic_iid i + 16) m3 = get32 (ic_iid i + 16) m2" "get32 (ic_iid i) m3 = get32 (ic_iid i) m2"
    "get32 (ic_iid i + 12) m3 = get32 (ic_iid i + 12) m2"
    unfolding m3_def by (rule get_put_bytes_out; use assms(1) in linarith)+
  moreover have "get_bytes (ic_c i) (length d + 1) m3 = bs"
    unfolding m3_def lb [symmetric] by (rule get_put_bytes)
  moreover have "dll_mem begin d i m = put32 (ic_iid i + 12) (get32 (ic_iid i + 12) m3 + of_nat (ic_c i - begin)) m3"
    by (simp add: dll_mem_def Let_def m1_def m2_def m3_def bs_def)
  ultimately show ?thesis
    using assms(1) r2
    by (simp add: dll_ok_def get_put_same get_put_other get_bytes_put_other bs_def)
qed

lemma dll_step_eq:
  "dll_step begin va (d, fs) (i, m) =
    (let s = fold (fun_step begin va) fs (dll_start d i, dll_mem begin d i m) in (dll_end (fst s), snd s))"
  by (simp add: dll_step_def Let_def split: prod.split)

text \<open>One library: its descriptor and functions are finished, the rest is untouched.\<close>

lemma dll_step_ok:
  assumes "all_apart begin i ((d, fs) # ds)" "dlls_raw va i ((d, fs) # ds) m"
  defines "s \<equiv> dll_step begin va (d, fs) (i, m)"
  shows "fst s = adv_dll (d, fs) i" "dll_ok begin va i d (snd s)" "funs_ok begin va (dll_start d i) fs (snd s)"
    "dlls_raw va (adv_dll (d, fs) i) ds (snd s)" "\<not> all_touched i [(d, fs)] x \<Longrightarrow> snd s x = m x"
    "get64 (ic_iat i + 8 * length fs) (snd s) = 0" "get64 (ic_int i + 8 * length fs) (snd s) = 0"
proof -
  let ?m1 = "dll_mem begin d i m" and ?i1 = "dll_start d i"
  note ap = assms(1) [unfolded all_apart_def]
  have raw: "iid_raw va (ic_iid i) m" "thunks_raw va (ic_iat i) (length fs) m"
    "thunks_raw va (ic_int i) (length fs) m" "dlls_raw va (adv_dll (d, fs) i) ds m"
    using assms(2) by simp_all
  have frame1: "?m1 x = m x" if "\<not> (ic_iid i \<le> x \<and> x < ic_iid i + 20)" "\<not> (ic_c i \<le> x \<and> x < ic_c i + length d + 1)" for x
    using that by (rule dll_mem_frame)
  have "get64 (ic_iat ?i1 + 8 * j) ?m1 = ucast va \<and> get64 (ic_int ?i1 + 8 * j) ?m1 = ucast va"
    if "j < length fs" for j
  proof -
    have "get64 (ic_iat i + 8 * j) ?m1 = get64 (ic_iat i + 8 * j) m" "get64 (ic_int i + 8 * j) ?m1 = get64 (ic_int i + 8 * j) m"
      using ap that by (intro get_cong frame1; simp)+
    then show ?thesis using raw(2,3) that by (simp add: thunks_raw_def)
  qed
  from fold_fun_step [OF all_apart_Cons(2) [OF assms(1)] this]
  have f: "fst s = adv_dll (d, fs) i" "funs_ok begin va ?i1 fs (snd s)"
    "\<And>x. \<not> touched ?i1 fs x \<Longrightarrow> snd s x = ?m1 x"
    by (simp_all add: s_def dll_step_eq Let_def adv_dll_def)
  show "fst s = adv_dll (d, fs) i" "funs_ok begin va ?i1 fs (snd s)" by (fact f)+
  have "dll_ok begin va i d ?m1" using ap raw(1) by (intro dll_mem_ok) simp_all
  moreover have "dll_ok begin va i d (snd s) = dll_ok begin va i d ?m1"
    using ap by (intro dll_ok_cong f(3)) (auto simp: touched_def)
  ultimately show "dll_ok begin va i d (snd s)" by simp
  have fr: "snd s x = m x" if "\<not> all_touched i [(d, fs)] x" for x
  proof -
    have "\<not> touched ?i1 fs x" "\<not> (ic_iid i \<le> x \<and> x < ic_iid i + 20)" "\<not> (ic_c i \<le> x \<and> x < ic_c i + length d + 1)"
      using that by (auto simp: all_touched_def touched_def)
    then show ?thesis using f(3) frame1 by simp
  qed
  then show "\<not> all_touched i [(d, fs)] x \<Longrightarrow> snd s x = m x" .
  have "dlls_raw va (adv_dll (d, fs) i) ds (snd s) = dlls_raw va (adv_dll (d, fs) i) ds m"
    using ap by (intro dlls_raw_cong fr) (auto simp: in_table_def all_touched_def)
  then show "dlls_raw va (adv_dll (d, fs) i) ds (snd s)" using raw(4) by simp
  have fr2: "snd s x = m x" if "\<not> touched ?i1 fs x" "\<not> (ic_iid i \<le> x \<and> x < ic_iid i + 20)"
    "\<not> (ic_c i \<le> x \<and> x < ic_c i + length d + 1)" for x
    using that f(3) frame1 by simp
  have "get64 (ic_iat i + 8 * length fs) (snd s) = get64 (ic_iat i + 8 * length fs) m"
    "get64 (ic_int i + 8 * length fs) (snd s) = get64 (ic_int i + 8 * length fs) m"
    using ap by (intro get_cong fr2; auto simp: touched_def)+
  then show "get64 (ic_iat i + 8 * length fs) (snd s) = 0" "get64 (ic_int i + 8 * length fs) (snd s) = 0"
    using raw(2,3) by (simp_all add: thunks_raw_def)
qed

lemma all_touched_Cons:
  assumes "\<not> all_touched i ((d, fs) # ds) x"
  shows "\<not> all_touched i [(d, fs)] x" "\<not> all_touched (adv_dll (d, fs) i) ds x"
proof -
  have "all_touched i ((d, fs) # ds) x" if "all_touched i [(d, fs)] x"
    using that unfolding all_touched_def by (elim disjE conjE) simp_all
  moreover have "all_touched i ((d, fs) # ds) x" if "all_touched (adv_dll (d, fs) i) ds x"
    using that unfolding all_touched_def by (elim disjE conjE) simp_all
  ultimately show "\<not> all_touched i [(d, fs)] x" "\<not> all_touched (adv_dll (d, fs) i) ds x"
    using assms by blast+
qed

lemma fold_dll_step:
  assumes "all_apart begin i ds" "dlls_raw va i ds m"
  shows "dlls_ok begin va i ds (snd (fold (dll_step begin va) ds (i, m))) \<and>
    (\<forall>x. \<not> all_touched i ds x \<longrightarrow> snd (fold (dll_step begin va) ds (i, m)) x = m x)"
  using assms
proof (induction ds arbitrary: i m)
  case (Cons e ds)
  obtain d fs where e: "e = (d, fs)" by (cases e)
  let ?s = "dll_step begin va (d, fs) (i, m)" and ?i1 = "adv_dll (d, fs) i"
  note step = dll_step_ok [OF Cons.prems [unfolded e]]
  define m' where "m' = snd (fold (dll_step begin va) ds (?i1, snd ?s))"
  have s: "?s = (?i1, snd ?s)" using step(1) by (simp add: prod_eq_iff)
  from Cons.IH [OF all_apart_Cons(1) [OF Cons.prems(1) [unfolded e]] step(4)]
  have rest: "dlls_ok begin va ?i1 ds m'" "\<And>x. \<not> all_touched ?i1 ds x \<Longrightarrow> m' x = snd ?s x"
    by (simp_all add: m'_def)
  note ap = Cons.prems(1) [unfolded e all_apart_def]
  have "dll_ok begin va i d m' = dll_ok begin va i d (snd ?s)"
    using ap by (intro dll_ok_cong rest(2)) (auto simp: all_touched_def)
  moreover have "funs_ok begin va (dll_start d i) fs m' = funs_ok begin va (dll_start d i) fs (snd ?s)"
    using ap by (intro funs_ok_cong rest(2)) (auto simp: all_touched_def touched_def)
  moreover have "m' x = m x" if "\<not> all_touched i ((d, fs) # ds) x" for x
    using all_touched_Cons [OF that] rest(2) step(5) by simp
  moreover have "get64 (ic_iat i + 8 * length fs) m' = get64 (ic_iat i + 8 * length fs) (snd ?s)"
    "get64 (ic_int i + 8 * length fs) m' = get64 (ic_int i + 8 * length fs) (snd ?s)"
    using ap by (intro get_cong rest(2); auto simp: all_touched_def)+
  moreover have "snd (fold (dll_step begin va) (e # ds) (i, m)) = m'"
    unfolding m'_def e by (simp flip: s)
  ultimately show ?case using step(2,3,6,7) rest(1) by (simp add: e)
qed simp

subsection \<open>The first loops\<close>

fun tlist_raw :: "u32 \<Rightarrow> nat \<Rightarrow> import_list \<Rightarrow> mem \<Rightarrow> bool" where
  "tlist_raw va a [] m = True"
| "tlist_raw va a ((d, fs) # ds) m = (thunks_raw va a (length fs) m \<and> tlist_raw va (a + 8 * length fs + 8) ds m)"

definition iids_raw :: "u32 \<Rightarrow> nat \<Rightarrow> nat \<Rightarrow> mem \<Rightarrow> bool" where
  "iids_raw va a n m \<longleftrightarrow> (\<forall>j < n. iid_raw va (a + 20 * j) m)"

lemma iids_raw_Suc: "iids_raw va a (Suc n) m \<longleftrightarrow> iid_raw va a m \<and> iids_raw va (a + 20) n m"
proof -
  have "(\<forall>j < Suc n. iid_raw va (a + 20 * j) m) \<longleftrightarrow> iid_raw va (a + 20 * 0) m \<and> (\<forall>j < n. iid_raw va (a + 20 * Suc j) m)"
    using less_Suc_eq_0_disj by auto
  then show ?thesis by (simp add: iids_raw_def add.assoc)
qed

lemma dlls_raw_split:
  "dlls_raw va i ds m \<longleftrightarrow> iids_raw va (ic_iid i) (length ds) m \<and> tlist_raw va (ic_iat i) ds m \<and> tlist_raw va (ic_int i) ds m"
  by (induction va i ds m rule: dlls_raw.induct) (auto simp: iids_raw_Suc, simp add: iids_raw_def)

lemma fold_iid_step:
  "fst (fold (\<lambda>_. iid_step va) ds (a, m)) = a + 20 * length ds \<and>
   iids_raw va a (length ds) (snd (fold (\<lambda>_. iid_step va) ds (a, m))) \<and>
   (\<forall>x. x < a \<or> a + 20 * length ds \<le> x \<longrightarrow> snd (fold (\<lambda>_. iid_step va) ds (a, m)) x = m x)"
proof (induction ds arbitrary: a m)
  case Nil
  then show ?case by (simp add: iids_raw_def)
next
  case (Cons d ds)
  let ?m1 = "put_bytes a (enc_iid (first_descriptor va)) m"
  define m' where "m' = snd (fold (\<lambda>_. iid_step va) ds (a + 20, ?m1))"
  have ih: "fst (fold (\<lambda>_. iid_step va) ds (a + 20, ?m1)) = a + 20 + 20 * length ds"
    "iids_raw va (a + 20) (length ds) m'" "\<And>x. x < a + 20 \<or> a + 20 + 20 * length ds \<le> x \<Longrightarrow> m' x = ?m1 x"
    using Cons.IH [of "a + 20" ?m1] by (auto simp: m'_def)
  have "rd_iid a ?m1 = first_descriptor va" by (rule rd_enc_iid)
  then have "iid_raw va a ?m1" by (simp add: rd_iid_def first_descriptor_def iid_raw_def)
  moreover have "get32 a m' = get32 a ?m1" "get32 (a + 12) m' = get32 (a + 12) ?m1" "get32 (a + 16) m' = get32 (a + 16) ?m1"
    by (intro get_cong ih(3); simp)+
  ultimately have "iid_raw va a m'" by (simp add: iid_raw_def)
  moreover have "m' x = m x" if "x < a \<or> a + 20 * Suc (length ds) \<le> x" for x
    using that ih(3) by (auto simp: put_bytes_apply layout_simps)
  moreover have step: "fold (\<lambda>_. iid_step va) (d # ds) (a, m) = fold (\<lambda>_. iid_step va) ds (a + 20, ?m1)"
    by (simp add: iid_step_def)
  ultimately show ?case using ih(1,2) unfolding step m'_def [symmetric] by (simp add: iids_raw_Suc)
qed

lemma fold_thunks:
  "fold (\<lambda>_ (a, m). (a + 8, put64 a w m)) fs (a, m) =
     (a + 8 * length fs, snd (fold (\<lambda>_ (a, m). (a + 8, put64 a w m)) fs (a, m))) \<and>
   (\<forall>j < length fs. get64 (a + 8 * j) (snd (fold (\<lambda>_ (a, m). (a + 8, put64 a w m)) fs (a, m))) = w) \<and>
   (\<forall>x. x < a \<or> a + 8 * length fs \<le> x \<longrightarrow> snd (fold (\<lambda>_ (a, m). (a + 8, put64 a w m)) fs (a, m)) x = m x)"
proof (induction fs arbitrary: a m)
  case (Cons f fs)
  let ?g = "\<lambda>_ (a, m). (a + 8, put64 a w m)"
  let ?m1 = "put64 a w m"
  define m' where "m' = snd (fold ?g fs (a + 8, ?m1))"
  have ih: "fold ?g fs (a + 8, ?m1) = (a + 8 + 8 * length fs, m')"
    "\<And>j. j < length fs \<Longrightarrow> get64 (a + 8 + 8 * j) m' = w"
    "\<And>x. x < a + 8 \<or> a + 8 + 8 * length fs \<le> x \<Longrightarrow> m' x = ?m1 x"
    using Cons.IH [of "a + 8" ?m1] by (auto simp: m'_def)
  have step: "fold ?g (f # fs) (a, m) = fold ?g fs (a + 8, ?m1)" by simp
  have "get64 a m' = get64 a ?m1" by (intro get_cong ih(3)) simp
  then have "get64 (a + 8 * j) m' = w" if "j < Suc (length fs)" for j
    using that ih(2) [of "j - 1"] by (cases j) (simp_all add: get_put_same add.assoc)
  moreover have "m' x = m x" if "x < a \<or> a + 8 * Suc (length fs) \<le> x" for x
    using that ih(3) by (auto simp: put_apply_other)
  ultimately show ?case unfolding step ih(1) by simp
qed simp

lemma get64_zeros: "(\<And>x. a \<le> x \<Longrightarrow> x < a + 8 \<Longrightarrow> m x = 0) \<Longrightarrow> get64 a m = 0"
  using get_cong(3) [of a m "\<lambda>_. 0"] by (simp add: get64_def get_bytes_def of_le64_def of_le32_def upt_rec numeral_eq_Suc)

lemma fold_thunk_step:
  "(\<And>x. a \<le> x \<Longrightarrow> x < a + thunk_room ds \<Longrightarrow> m x = 0) \<Longrightarrow> fst (fold (thunk_step va) ds (a, m)) = a + thunk_room ds \<and>
   tlist_raw va a ds (snd (fold (thunk_step va) ds (a, m))) \<and>
   (\<forall>x. x < a \<or> a + thunk_room ds \<le> x \<longrightarrow> snd (fold (thunk_step va) ds (a, m)) x = m x)"
proof (induction ds arbitrary: a m)
  case (Cons e ds)
  obtain d fs where e: "e = (d, fs)" by (cases e)
  define m1 where "m1 = snd (fold (\<lambda>_ (a, m). (a + 8, put64 a (ucast va) m)) fs (a, m))"
  let ?a1 = "a + 8 * length fs + 8"
  have th: "thunk_step va e (a, m) = (?a1, m1)" "\<And>j. j < length fs \<Longrightarrow> get64 (a + 8 * j) m1 = ucast va"
    "\<And>x. x < a \<or> a + 8 * length fs \<le> x \<Longrightarrow> m1 x = m x"
    using fold_thunks [of "ucast va" fs a m] by (auto simp: thunk_step_def e m1_def split: prod.split)
  have "get64 (a + 8 * length fs) m1 = 0"
    by (intro get64_zeros) (simp add: th(3) Cons.prems e)
  then have raw: "thunks_raw va a (length fs) m1" using th(2) by (simp add: thunks_raw_def)
  define m' where "m' = snd (fold (thunk_step va) ds (?a1, m1))"
  have ih: "fst (fold (thunk_step va) ds (?a1, m1)) = ?a1 + thunk_room ds" "tlist_raw va ?a1 ds m'"
    "\<And>x. x < ?a1 \<or> ?a1 + thunk_room ds \<le> x \<Longrightarrow> m' x = m1 x"
    using Cons.IH [of ?a1 m1] Cons.prems th(3) by (auto simp: m'_def e)
  have "get64 (a + 8 * j) m' = get64 (a + 8 * j) m1" if "j \<le> length fs" for j
    using that by (intro get_cong ih(3)) simp
  then have "thunks_raw va a (length fs) m'" using raw by (simp add: thunks_raw_def)
  moreover have "m' x = m x" if "x < a \<or> a + thunk_room (e # ds) \<le> x" for x
    using that ih(3) th(3) by (auto simp: e)
  moreover have step: "fold (thunk_step va) (e # ds) (a, m) = fold (thunk_step va) ds (?a1, m1)" by (simp add: th(1))
  ultimately show ?case using ih(1,2) unfolding step m'_def [symmetric] by (simp add: e)
qed simp

lemma tlist_raw_cong:
  "(\<And>x. a \<le> x \<Longrightarrow> x < a + thunk_room ds \<Longrightarrow> m' x = m x) \<Longrightarrow> tlist_raw va a ds m' = tlist_raw va a ds m"
proof (induction ds arbitrary: a)
  case (Cons e ds)
  obtain d fs where e: "e = (d, fs)" by (cases e)
  have "get64 (a + 8 * j) m' = get64 (a + 8 * j) m" if "j \<le> length fs" for j
    using that by (intro get_cong Cons.prems) (simp_all add: e)
  moreover have "tlist_raw va (a + 8 * length fs + 8) ds m' = tlist_raw va (a + 8 * length fs + 8) ds m"
    by (intro Cons.IH Cons.prems) (simp_all add: e)
  ultimately show ?case by (simp add: e thunks_raw_def)
qed simp

lemma iids_raw_cong:
  assumes "\<And>x. a \<le> x \<Longrightarrow> x < a + 20 * n \<Longrightarrow> m' x = m x"
  shows "iids_raw va a n m' = iids_raw va a n m"
proof -
  have "get32 (a + 20 * j) m' = get32 (a + 20 * j) m" "get32 (a + 20 * j + 12) m' = get32 (a + 20 * j + 12) m"
    "get32 (a + 20 * j + 16) m' = get32 (a + 20 * j + 16) m" if "j < n" for j
    using that by (intro get_cong assms; simp)+
  then show ?thesis by (simp add: iids_raw_def iid_raw_def)
qed

end
