(* ===== verification/CoffLoad.thy ===== *)
theory CoffLoad
  imports CoffImport
begin

text \<open>
  How a loader reads the tables of \<open>add_import\<close>.  \<open>read_imports\<close> walks the
  descriptors up to the empty one and the names of every library up to the empty
  thunk; \<open>stub_function\<close> follows the indirect jump of a PLT stub to the thunk it reads
  and to the name that stands there.  \<open>rva\<close> turns an address relative to the image
  into one of the linker's memory.
\<close>

subsection \<open>The loader\<close>

definition rva :: "nat \<Rightarrow> u32 \<Rightarrow> nat \<Rightarrow> nat" where
  "rva begin va x = begin + (x - unat va)"

partial_function (option) read_thunks :: "nat \<Rightarrow> u32 \<Rightarrow> nat \<Rightarrow> mem \<Rightarrow> cstr list option" where
  [code]: "read_thunks begin va a m =
     (if get64 a m = 0 then Some []
      else Option.bind (str_at m (rva begin va (unat (get64 a m)) + 2)) (\<lambda>nm.
        Option.bind (read_thunks begin va (a + 8) m) (\<lambda>nms. Some (nm # nms))))"

partial_function (option) read_imports :: "nat \<Rightarrow> u32 \<Rightarrow> nat \<Rightarrow> mem \<Rightarrow> (cstr \<times> cstr list \<times> cstr list) list option" where
  [code]: "read_imports begin va a m =
     (let d = rd_iid a m in
      if iid_Name d = 0 then Some []
      else Option.bind (str_at m (rva begin va (unat (iid_Name d)))) (\<lambda>nm.
        Option.bind (read_thunks begin va (rva begin va (unat (OriginalFirstThunk d))) m) (\<lambda>names.
        Option.bind (read_thunks begin va (rva begin va (unat (FirstThunk d))) m) (\<lambda>slots.
        Option.bind (read_imports begin va (a + 20) m) (\<lambda>ds. Some ((nm, names, slots) # ds))))))"

definition stub_function :: "nat \<Rightarrow> u32 \<Rightarrow> nat \<Rightarrow> u32 \<Rightarrow> nat \<Rightarrow> mem \<Rightarrow> cstr option" where
  "stub_function pltp plt_va begin va k m =
     (let disp = get32 (pltp + 6 * k + 2) m;
          slot = plt_va + 6 * of_nat k + 6 + disp
      in if get16 (pltp + 6 * k) m \<noteq> 0x25ff then None
         else str_at m (rva begin va (unat (get64 (rva begin va (unat slot)) m)) + 2))"

subsection \<open>The whole area\<close>

text \<open>The cursor at the start of the last loop.\<close>

definition import_start :: "nat \<Rightarrow> nat \<Rightarrow> u32 \<Rightarrow> import_list \<Rightarrow> import_cursor" where
  "import_start pltp begin plt_va ds = \<lparr>ic_iid = begin, ic_iat = begin + 20 * length ds + 20,
     ic_int = begin + 20 * length ds + 20 + thunk_room ds,
     ic_c = begin + 20 * length ds + 20 + 2 * thunk_room ds, ic_plt = pltp, ic_plt_vaddr = plt_va\<rparr>"

definition import_room :: "import_list \<Rightarrow> nat" where
  "import_room ds = 20 * (length ds + 1) + 2 * thunk_room ds + text_room ds"

lemma import_start_fields [simp]:
  "ic_iid (import_start pltp begin plt_va ds) = begin"
  "ic_iat (import_start pltp begin plt_va ds) = begin + 20 * length ds + 20"
  "ic_int (import_start pltp begin plt_va ds) = begin + 20 * length ds + 20 + thunk_room ds"
  "ic_c (import_start pltp begin plt_va ds) = begin + 20 * length ds + 20 + 2 * thunk_room ds"
  "ic_plt (import_start pltp begin plt_va ds) = pltp" "ic_plt_vaddr (import_start pltp begin plt_va ds) = plt_va"
  by (simp_all add: import_start_def)

lemma import_mem_ok:
  fixes plt_va va :: u32
  assumes zero: "\<And>x. begin \<le> x \<Longrightarrow> x < begin + import_room ds \<Longrightarrow> m x = 0"
    and "pltp + plt_room ds \<le> begin \<or> begin + import_room ds \<le> pltp"
  defines "i \<equiv> import_start pltp begin plt_va ds" and "m' \<equiv> import_mem pltp begin plt_va va ds m"
  shows "dlls_ok begin va i ds m'"
    "\<And>x. \<not> all_touched i ds x \<Longrightarrow> m' x = m x"
proof -
  define s1 where "s1 = fold (\<lambda>_. iid_step va) ds (begin, m)"
  define s2 where "s2 = fold (thunk_step va) ds (begin + 20 * length ds + 20, snd s1)"
  define s3 where "s3 = fold (thunk_step va) ds (begin + 20 * length ds + 20 + thunk_room ds, snd s2)"
  have p1: "s1 = (begin + 20 * length ds, snd s1)" using fold_iid_step [of va ds "begin" m] by (simp add: s1_def prod_eq_iff)
  have raw1: "iids_raw va begin (length ds) (snd s1)"
    "\<And>x. x < begin \<or> begin + 20 * length ds \<le> x \<Longrightarrow> snd s1 x = m x"
    using fold_iid_step [of va ds "begin" m] by (auto simp: s1_def)
  have z1: "snd s1 x = 0" if "begin + 20 * length ds + 20 \<le> x" "x < begin + 20 * length ds + 20 + 2 * thunk_room ds" for x
    using that raw1(2) zero by (simp add: import_room_def)
  have p2: "s2 = (begin + 20 * length ds + 20 + thunk_room ds, snd s2)"
    using fold_thunk_step [of "begin + 20 * length ds + 20" ds "snd s1" va] z1 by (simp add: s2_def prod_eq_iff)
  have raw2: "tlist_raw va (begin + 20 * length ds + 20) ds (snd s2)"
    "\<And>x. x < begin + 20 * length ds + 20 \<or> begin + 20 * length ds + 20 + thunk_room ds \<le> x \<Longrightarrow> snd s2 x = snd s1 x"
    using fold_thunk_step [of "begin + 20 * length ds + 20" ds "snd s1" va] z1 by (auto simp: s2_def)
  have z2: "snd s2 x = 0" if "begin + 20 * length ds + 20 + thunk_room ds \<le> x" "x < begin + 20 * length ds + 20 + 2 * thunk_room ds" for x
    using that raw2(2) z1 by simp
  have p3: "s3 = (begin + 20 * length ds + 20 + 2 * thunk_room ds, snd s3)"
    using fold_thunk_step [of "begin + 20 * length ds + 20 + thunk_room ds" ds "snd s2" va] z2 by (simp add: s3_def prod_eq_iff)
  have raw3: "tlist_raw va (begin + 20 * length ds + 20 + thunk_room ds) ds (snd s3)"
    "\<And>x. x < begin + 20 * length ds + 20 + thunk_room ds \<or> begin + 20 * length ds + 20 + 2 * thunk_room ds \<le> x \<Longrightarrow> snd s3 x = snd s2 x"
    using fold_thunk_step [of "begin + 20 * length ds + 20 + thunk_room ds" ds "snd s2" va] z2 by (auto simp: s3_def)
  have m': "m' = snd (fold (dll_step begin va) ds (i, snd s3))"
    unfolding m'_def import_mem_def s1_def [symmetric]
    by (subst p1, simp add: s2_def [symmetric], subst p2, simp add: s3_def [symmetric], subst p3)
      (simp add: i_def import_start_def)
  have "iids_raw va begin (length ds) (snd s3)"
    using raw1(1) by (subst iids_raw_cong [of _ _ "snd s3" "snd s1"]) (simp_all add: raw2(2) raw3(2))
  moreover have "tlist_raw va (begin + 20 * length ds + 20) ds (snd s3)"
    using raw2(1) by (subst tlist_raw_cong [of _ _ "snd s3" "snd s2"]) (simp_all add: raw3(2))
  ultimately have "dlls_raw va i ds (snd s3)" using raw3(1) by (simp add: dlls_raw_split i_def)
  moreover have "all_apart begin i ds" using assms(2) by (auto simp: all_apart_def i_def import_room_def)
  ultimately have f: "dlls_ok begin va i ds m'" "\<And>x. \<not> all_touched i ds x \<Longrightarrow> m' x = snd s3 x"
    using fold_dll_step [of "begin" i ds va "snd s3"] by (simp_all add: m')
  show "dlls_ok begin va i ds m'" by (fact f(1))
  show "m' x = m x" if "\<not> all_touched i ds x" for x
  proof -
    have "snd s3 x = snd s2 x" "snd s2 x = snd s1 x" "snd s1 x = m x"
      using that by (intro raw1(2) raw2(2) raw3(2); auto simp: all_touched_def i_def)+
    then show ?thesis using f(2) that by simp
  qed
qed

subsection \<open>Reading it back\<close>

text \<open>Offsets do not wrap: the area ends below 4 GiB.\<close>

lemma unat_rva:
  fixes va :: u32
  assumes "unat va + n < 2 ^ 32"
  shows "unat (va + of_nat n) = unat va + n" "unat (ucast va + of_nat n :: u64) = unat va + n"
    "rva b va (unat va + n) = b + n"
proof -
  have n: "n < 2 ^ 32" using assms by simp
  then have "unat (of_nat n :: u32) = n" "unat (of_nat n :: u64) = n"
    by (simp_all add: unsigned_of_nat take_bit_nat_eq_self)
  then show "unat (va + of_nat n) = unat va + n" "unat (ucast va + of_nat n :: u64) = unat va + n"
    using assms unat_ucast_u32_u64 [of va] by (simp_all add: unat_word_ariths take_bit_nat_eq_self)
  show "rva b va (unat va + n) = b + n" by (simp add: rva_def)
qed

lemma rva_at: "unat (va :: u32) + n < 2 ^ 32 \<Longrightarrow> rva b va (unat (va + of_nat n)) = b + n"
  by (simp only: unat_rva)

definition names_ok :: "import_list \<Rightarrow> bool" where
  "names_ok ds \<longleftrightarrow> (\<forall>(d, fs) \<in> set ds. nul_free d \<and> (\<forall>f \<in> set fs. nul_free f))"

lemma fun_ok_reads:
  assumes "fun_ok begin va i nm m" "nul_free nm" "begin \<le> ic_iat i" "begin < ic_c i"
    "unat va + (ic_c i - begin) < 2 ^ 32"
  shows "get64 (ic_iat i) m \<noteq> 0" "get64 (ic_int i) m \<noteq> 0"
    "str_at m (rva begin va (unat (get64 (ic_iat i) m)) + 2) = Some nm"
    "str_at m (rva begin va (unat (get64 (ic_int i) m)) + 2) = Some nm"
proof -
  let ?w = "ucast va + of_nat (ic_c i - begin) :: u64"
  have t: "get64 (ic_iat i) m = ?w" "get64 (ic_int i) m = ?w"
    and s: "get_bytes (ic_c i) (length nm + 3) m = 0 # 0 # nm @ [0]"
    using assms(1) by (simp_all add: fun_ok_def)
  have w: "unat ?w = unat va + (ic_c i - begin)" "rva begin va (unat ?w) = ic_c i"
    using unat_rva [OF assms(5)] assms(4) by simp_all
  then have "unat ?w \<noteq> 0" using assms(4) by simp
  then show "get64 (ic_iat i) m \<noteq> 0" "get64 (ic_int i) m \<noteq> 0" unfolding t by auto
  have "get_bytes (ic_c i + 2) (length nm + 1) m = nm @ [0]"
    using arg_cong [OF s, of "drop 2"] by (simp add: drop_get_bytes)
  then have "str_at m (ic_c i + 2) = Some nm" using str_at_bytes assms(2) by blast
  then show "str_at m (rva begin va (unat (get64 (ic_iat i) m)) + 2) = Some nm"
    "str_at m (rva begin va (unat (get64 (ic_int i) m)) + 2) = Some nm"
    unfolding t w(2) by - assumption+
qed

lemma funs_ok_reads:
  assumes "funs_ok begin va i nms m" "\<forall>f \<in> set nms. nul_free f" "begin \<le> ic_iat i" "begin < ic_c i"
    "unat va + (ic_c i + name_room nms - begin) < 2 ^ 32"
  shows "get64 (ic_iat i + 8 * length nms) m = 0 \<Longrightarrow> read_thunks begin va (ic_iat i) m = Some nms"
    "get64 (ic_int i + 8 * length nms) m = 0 \<Longrightarrow> read_thunks begin va (ic_int i) m = Some nms"
  using assms
proof (induction nms arbitrary: i)
  case Nil
  { case 1 then show ?case by (subst read_thunks.simps) simp }
  { case 2 then show ?case by (subst read_thunks.simps) simp }
next
  case (Cons nm nms)
  { case 1
    then have "unat va + (ic_c i - begin) < 2 ^ 32" "nul_free nm" by simp_all
    note r = fun_ok_reads [OF _ this(2) 1(4,5) this(1)]
    have "read_thunks begin va (ic_iat i + 8) m = Some nms"
      using Cons.IH(1) [of "adv_fun nm i"] 1 by (simp add: ac_simps)
    then show ?case using r 1 by (subst read_thunks.simps) simp }
  { case 2
    then have "unat va + (ic_c i - begin) < 2 ^ 32" "nul_free nm" by simp_all
    note r = fun_ok_reads [OF _ this(2) 2(4,5) this(1)]
    have "read_thunks begin va (ic_int i + 8) m = Some nms"
      using Cons.IH(2) [of "adv_fun nm i"] 2 by (simp add: ac_simps)
    then show ?case using r 2 by (subst read_thunks.simps) simp }
qed

lemma stub_shift:
  "stub_function (p + 6 * n) (pv + 6 * of_nat n) b va k m = stub_function p pv b va (n + k) m"
  by (simp add: stub_function_def Let_def algebra_simps)

lemma fun_ok_stub:
  assumes "fun_ok begin va i nm m" "nul_free nm" "begin \<le> ic_iat i" "begin < ic_c i" "ic_iat i \<le> ic_c i"
    "unat va + (ic_c i - begin) < 2 ^ 32"
  shows "stub_function (ic_plt i) (ic_plt_vaddr i) begin va 0 m = Some nm"
proof -
  let ?v = "va + of_nat (ic_iat i - begin)"
  have j: "get16 (ic_plt i) m = 0x25ff" "get32 (ic_plt i + 2) m = ?v - (ic_plt_vaddr i + 6)"
    using assms(1) by (simp_all add: fun_ok_def)
  have slot: "ic_plt_vaddr i + 6 * of_nat 0 + 6 + (?v - (ic_plt_vaddr i + 6)) = ?v" by simp
  have "unat va + (ic_iat i - begin) < 2 ^ 32" using assms(5,6) by linarith
  then have "rva begin va (unat ?v) = ic_iat i" using rva_at [of va "ic_iat i - begin" "begin"] assms(3) by linarith
  then show ?thesis
    using fun_ok_reads(3) [OF assms(1-4,6)] j unfolding stub_function_def Let_def by (simp del: of_nat_0)
qed

lemma funs_ok_stubs:
  assumes "funs_ok begin va i nms m" "\<forall>f \<in> set nms. nul_free f" "begin \<le> ic_iat i" "begin < ic_c i"
    "ic_iat i + 8 * length nms \<le> ic_c i" "unat va + (ic_c i + name_room nms - begin) < 2 ^ 32" "k < length nms"
  shows "stub_function (ic_plt i) (ic_plt_vaddr i) begin va k m = Some (nms ! k)"
  using assms
proof (induction nms arbitrary: i k)
  case (Cons nm nms)
  show ?case
  proof (cases k)
    case 0
    then show ?thesis using Cons.prems by (auto intro!: fun_ok_stub)
  next
    case (Suc k')
    have "stub_function (ic_plt (adv_fun nm i)) (ic_plt_vaddr (adv_fun nm i)) begin va k' m = Some (nms ! k')"
      using Cons.prems Suc by (intro Cons.IH) (auto simp: ac_simps)
    then show ?thesis using stub_shift [of "ic_plt i" 1 "ic_plt_vaddr i" "begin" va k' m] Suc by simp
  qed
qed simp

definition all_functions :: "import_list \<Rightarrow> cstr list" where
  "all_functions ds = concat (map snd ds)"

lemma dlls_ok_stubs:
  assumes "dlls_ok begin va i ds m" "names_ok ds" "all_apart begin i ds" "begin < ic_iat i"
    "unat va + (ic_c i + text_room ds - begin) < 2 ^ 32" "k < length (all_functions ds)"
  shows "stub_function (ic_plt i) (ic_plt_vaddr i) begin va k m = Some (all_functions ds ! k)"
  using assms
proof (induction ds arbitrary: i k)
  case (Cons e ds)
  obtain d fs where e: "e = (d, fs)" by (cases e)
  note ap = Cons.prems(3) [unfolded e all_apart_def]
  show ?case
  proof (cases "k < length fs")
    case True
    have "stub_function (ic_plt (dll_start d i)) (ic_plt_vaddr (dll_start d i)) begin va k m = Some (fs ! k)"
      using ap True Cons.prems(1,2,4,5) unfolding e by (intro funs_ok_stubs) (auto simp: names_ok_def)
    then show ?thesis using True by (simp add: all_functions_def e nth_append)
  next
    case False
    let ?i1 = "adv_dll (d, fs) i"
    have "stub_function (ic_plt ?i1) (ic_plt_vaddr ?i1) begin va (k - length fs) m = Some (all_functions ds ! (k - length fs))"
      using Cons.prems False unfolding e
      by (intro Cons.IH all_apart_Cons) (auto simp: names_ok_def all_functions_def ac_simps)
    then show ?thesis
      using False stub_shift [of "ic_plt i" "length fs" "ic_plt_vaddr i" "begin" va "k - length fs" m]
      by (simp add: all_functions_def e nth_append)
  qed
qed (simp add: all_functions_def)

lemma dlls_ok_reads:
  assumes "dlls_ok begin va i ds m" "names_ok ds" "all_apart begin i ds" "begin < ic_iat i"
    "unat va + (ic_c i + text_room ds - begin) < 2 ^ 32" "get32 (ic_iid i + 20 * length ds + 12) m = 0"
  shows "read_imports begin va (ic_iid i) m = Some (map (\<lambda>(d, fs). (d, fs, fs)) ds)"
  using assms
proof (induction ds arbitrary: i)
  case Nil
  then show ?case by (subst read_imports.simps) (simp add: rd_iid_def)
next
  case (Cons e ds)
  obtain d fs where e: "e = (d, fs)" by (cases e)
  note ap = Cons.prems(3) [unfolded e all_apart_def]
  have nf: "nul_free d" "\<forall>f \<in> set fs. nul_free f" using Cons.prems(2) by (simp_all add: names_ok_def e)
  have ok: "dll_ok begin va i d m" "funs_ok begin va (dll_start d i) fs m"
    "get64 (ic_iat i + 8 * length fs) m = 0" "get64 (ic_int i + 8 * length fs) m = 0"
    using Cons.prems(1) by (simp_all add: e)
  have b: "unat va + (ic_iat i - begin) < 2 ^ 32" "unat va + (ic_int i - begin) < 2 ^ 32"
    "unat va + (ic_c i - begin) < 2 ^ 32" "unat va + (ic_c (dll_start d i) + name_room fs - begin) < 2 ^ 32"
    using Cons.prems(5) ap by (simp_all add: e) linarith+
  have r: "rva begin va (unat (get32 (ic_iid i + 16) m)) = ic_iat i" "rva begin va (unat (get32 (ic_iid i) m)) = ic_int i"
    "rva begin va (unat (get32 (ic_iid i + 12) m)) = ic_c i" "unat (get32 (ic_iid i + 12) m) \<noteq> 0"
    using ap Cons.prems(4) unat_rva(1) [OF b(3)]
    unfolding ok(1) [unfolded dll_ok_def, THEN conjunct1] ok(1) [unfolded dll_ok_def, THEN conjunct2, THEN conjunct1]
      ok(1) [unfolded dll_ok_def, THEN conjunct2, THEN conjunct2, THEN conjunct1]
      rva_at [OF b(1)] rva_at [OF b(2)] rva_at [OF b(3)] by linarith+
  have nm: "str_at m (ic_c i) = Some d" using ok(1) nf(1) by (intro str_at_bytes) (simp_all add: dll_ok_def)
  have th: "read_thunks begin va (ic_iat i) m = Some fs" "read_thunks begin va (ic_int i) m = Some fs"
    using funs_ok_reads [OF ok(2) nf(2) _ _ b(4)] ok(3,4) ap Cons.prems(4) by simp_all
  have rest: "read_imports begin va (ic_iid i + 20) m = Some (map (\<lambda>(d, fs). (d, fs, fs)) ds)"
    using Cons.IH [of "adv_dll (d, fs) i"] Cons.prems all_apart_Cons(1) [of "begin" i d fs ds]
    by (auto simp: e names_ok_def ac_simps)
  show ?case
    using r nm th rest by (subst read_imports.simps) (auto simp: rd_iid_def e Let_def)
qed

lemma get32_zeros: "(\<And>x. a \<le> x \<Longrightarrow> x < a + 4 \<Longrightarrow> m x = 0) \<Longrightarrow> get32 a m = 0"
  using get_cong(2) [of a m "\<lambda>_. 0"] by (simp add: get32_def get_bytes_def of_le32_def upt_rec numeral_eq_Suc)

lemma names_of_ok: "imports_are c es fs \<Longrightarrow> names_ok (names_of c es fs)"
  by (auto simp: names_ok_def names_of_def imports_are_def)

lemma import_mem_reads:
  fixes plt_va va :: u32
  assumes "\<And>x. begin \<le> x \<Longrightarrow> x < begin + import_room ds \<Longrightarrow> m x = 0"
    and "pltp + plt_room ds \<le> begin \<or> begin + import_room ds \<le> pltp"
    and "names_ok ds" "unat va + import_room ds < 2 ^ 32"
  defines "m' \<equiv> import_mem pltp begin plt_va va ds m"
  shows "read_imports begin va begin m' = Some (map (\<lambda>(d, fs). (d, fs, fs)) ds)"
    and "k < length (all_functions ds) \<Longrightarrow> stub_function pltp plt_va begin va k m' = Some (all_functions ds ! k)"
    and "\<not> (begin \<le> x \<and> x < begin + import_room ds) \<Longrightarrow> \<not> (pltp \<le> x \<and> x < pltp + plt_room ds) \<Longrightarrow> m' x = m x"
proof -
  let ?i = "import_start pltp begin plt_va ds"
  note ok = import_mem_ok [OF assms(1,2), where va = va and plt_va = plt_va]
  have frame: "m' x = m x" if "\<not> all_touched ?i ds x" for x using ok(2) that by (simp add: m'_def)
  have ap: "all_apart begin ?i ds" using assms(2) by (auto simp: all_apart_def import_room_def)
  have b: "unat va + (ic_c ?i + text_room ds - begin) < 2 ^ 32" "begin < ic_iat ?i"
    using assms(4) by (simp_all add: import_room_def)
  have "get32 (begin + 20 * length ds + 12) m' = get32 (begin + 20 * length ds + 12) m"
    using assms(2) by (intro get_cong frame) (auto simp: all_touched_def import_room_def)
  also have "\<dots> = 0" by (intro get32_zeros assms(1)) (simp_all add: import_room_def)
  finally show "read_imports begin va begin m' = Some (map (\<lambda>(d, fs). (d, fs, fs)) ds)"
    using dlls_ok_reads [OF ok(1) assms(3) ap b(2,1)] by (simp add: m'_def)
  show "stub_function pltp plt_va begin va k m' = Some (all_functions ds ! k)" if "k < length (all_functions ds)"
    using dlls_ok_stubs [OF ok(1) assms(3) ap b(2,1) that] by (simp add: m'_def)
  show "m' x = m x" if "\<not> (begin \<le> x \<and> x < begin + import_room ds)" "\<not> (pltp \<le> x \<and> x < pltp + plt_room ds)"
    using that by (intro frame) (auto simp: all_touched_def import_room_def)
qed

text \<open>C32: The import directory and the PLT that \<open>write_import\<close> puts into fresh (zeroed)
  areas for 64-bit images read back as what was imported: the loader finds the libraries
  in order with their functions in both tables, and the \<open>k\<close>-th PLT stub jumps through the
  thunk of the \<open>k\<close>-th function, libraries in order.  Nothing outside the areas of the
  computed sizes changes.\<close>

theorem import_directory_reads_back:
  assumes "thunk_size c = 8" "imports_are c es fs"
    and "\<forall>x. begin \<le> x \<and> x < begin + import_room (names_of c es fs) \<longrightarrow> cmem c x = 0"
    and "pltp + plt_room (names_of c es fs) \<le> begin \<or> begin + import_room (names_of c es fs) \<le> pltp"
    and "unat va + import_room (names_of c es fs) < 2 ^ 32"
  shows "\<exists>c'. write_import pltp begin plt_va va c = Some c' \<and>
    read_imports begin va begin (cmem c') = Some (map (\<lambda>(d, fs). (d, fs, fs)) (names_of c es fs)) \<and>
    (\<forall>k < length (all_functions (names_of c es fs)).
       stub_function pltp plt_va begin va k (cmem c') = Some (all_functions (names_of c es fs) ! k)) \<and>
    (\<forall>x. \<not> (begin \<le> x \<and> x < begin + import_room (names_of c es fs)) \<longrightarrow>
       \<not> (pltp \<le> x \<and> x < pltp + plt_room (names_of c es fs)) \<longrightarrow> cmem c' x = cmem c x)"
proof -
  note r = import_mem_reads [where ds = "names_of c es fs" and m = "cmem c" and pltp = pltp and plt_va = plt_va and va = va]
  have "write_import pltp begin plt_va va c =
      Some (with_mem (import_mem pltp begin plt_va va (names_of c es fs) (cmem c)) c)"
    using write_import_mem [OF assms(1,2), of pltp "begin" plt_va va "cmem c"] by (simp add: with_mem_cmem)
  then show ?thesis using r assms(3-) names_of_ok [OF assms(2)] by simp
qed

end
