(* ===== verification/CoffResolve.thy ===== *)
theory CoffResolve
  imports CoffLoad
begin

text \<open>
  How the list of imports grows while relocations are resolved
  (\<open>add_dynamic_resolved_entry\<close>, \<open>resolve\<close>), as an operation on the names, the room
  the import directory will need, and the order of the PLT slots.
\<close>

subsection \<open>Grouping by library\<close>

fun group_add :: "cstr \<Rightarrow> cstr \<Rightarrow> import_list \<Rightarrow> import_list" where
  "group_add nm d [] = [(d, [nm])]"
| "group_add nm d ((d', fs) # ds) = (if d' = d then (d', fs @ [nm]) # ds else (d', fs) # group_add nm d ds)"

lemma group_add_new: "d \<notin> fst ` set ds \<Longrightarrow> group_add nm d ds = ds @ [(d, [nm])]"
  by (induction nm d ds rule: group_add.induct) auto

lemma group_add_old:
  "d \<notin> fst ` set xs \<Longrightarrow> group_add nm d (xs @ (d, fs) # ys) = xs @ (d, fs @ [nm]) # ys"
  by (induction xs) auto

lemma name_room_append [simp]: "name_room (xs @ ys) = name_room xs + name_room ys"
  by (simp add: name_room_def)

lemma import_room_group_add:
  "import_room (group_add nm d ds) = import_room ds + (if d \<in> fst ` set ds then 0 else 37 + length d) + 19 + length nm"
  by (induction nm d ds rule: group_add.induct) (auto simp: import_room_def)

lemma thunk_rooms_append [simp]:
  "thunk_room (xs @ ys) = thunk_room xs + thunk_room ys" "text_room (xs @ ys) = text_room xs + text_room ys"
  by (simp_all add: thunk_room_def text_room_def)

text \<open>Where the new function comes in the order of the stubs.\<close>

lemma all_functions_simps [simp]:
  "all_functions [] = []" "all_functions ((d, fs) # ds) = fs @ all_functions ds"
  "all_functions (xs @ ys) = all_functions xs @ all_functions ys"
  by (simp_all add: all_functions_def)

lemma length_all_functions_group_add: "length (all_functions (group_add nm d ds)) = Suc (length (all_functions ds))"
  by (induction nm d ds rule: group_add.induct) auto

subsection \<open>The list in the store\<close>

definition imports_wf :: "coff \<Rightarrow> nat list \<Rightarrow> (nat \<Rightarrow> nat list) \<Rightarrow> bool" where
  "imports_wf c es fs \<longleftrightarrow> imports_are c es fs \<and> (es \<noteq> [] \<longrightarrow> CurrentImport c = Some (last es)) \<and>
     distinct (map (\<lambda>e. s3_name (s3s c e)) es) \<and> (\<forall>e \<in> set es. e < n_s3s c) \<and>
     (\<forall>e \<in> set es. set (fs e) \<inter> set es = {} \<and> (\<forall>f \<in> set (fs e). f < n_s3s c) \<and>
        (\<forall>e' \<in> set es. e \<noteq> e' \<longrightarrow> set (fs e) \<inter> set (fs e') = {}))"

lemma imports_wf_upd_ever:
  assumes "imports_wf c es fs"
  shows "imports_wf (upd_s3 k (\<lambda>x. x\<lparr>s3_ever := v\<rparr>) c) es fs"
    "names_of (upd_s3 k (\<lambda>x. x\<lparr>s3_ever := v\<rparr>) c) es fs = names_of c es fs"
proof -
  have "next_s3 (upd_s3 k (\<lambda>x. x\<lparr>s3_ever := v\<rparr>) c) = next_s3 c"
    "imported (upd_s3 k (\<lambda>x. x\<lparr>s3_ever := v\<rparr>) c) = imported c"
    by (auto simp: fun_eq_iff next_s3_def imported_def upd_s3_def)
  moreover have "s3_name (s3s (upd_s3 k (\<lambda>x. x\<lparr>s3_ever := v\<rparr>) c) e) = s3_name (s3s c e)" for e
    by (simp add: upd_s3_def)
  ultimately show "imports_wf (upd_s3 k (\<lambda>x. x\<lparr>s3_ever := v\<rparr>) c) es fs"
    "names_of (upd_s3 k (\<lambda>x. x\<lparr>s3_ever := v\<rparr>) c) es fs = names_of c es fs"
    using assms by (simp_all add: imports_wf_def imports_are_def names_of_def) (simp add: upd_s3_def)
qed

text \<open>The representation depends on the cells and the two list pointers only.\<close>

lemma imports_wf_cong:
  assumes "s3s c' = s3s c" "n_s3s c' = n_s3s c" "InitialImport c' = InitialImport c" "CurrentImport c' = CurrentImport c"
  shows "imports_wf c' es fs = imports_wf c es fs" "names_of c' es fs = names_of c es fs"
proof -
  have "next_s3 c' = next_s3 c" "imported c' = imported c"
    by (simp_all add: fun_eq_iff next_s3_def imported_def assms)
  then show "imports_wf c' es fs = imports_wf c es fs" "names_of c' es fs = names_of c es fs"
    by (simp_all add: imports_wf_def imports_are_def names_of_def assms)
qed

lemma fold_find_last:
  assumes "distinct (map h es)"
  shows "fold (\<lambda>e acc. if h e = d then Some (g e) else acc) es acc =
    (case List.find (\<lambda>e. h e = d) es of None \<Rightarrow> acc | Some e \<Rightarrow> Some (g e))"
  using assms
proof (induction es arbitrary: acc)
  case (Cons e es)
  have "List.find (\<lambda>e. h e = d) es = None" if "h e = d"
    using Cons.prems that by (auto simp: find_None_iff image_iff)
  then show ?case using Cons by (auto split: option.splits)
qed simp

lemma fold_opt_total: "(\<And>x s. x \<in> set xs \<Longrightarrow> f x s = Some (g x s)) \<Longrightarrow> fold_opt f xs s = Some (fold g xs s)"
  by (induction xs arbitrary: s) simp_all

lemma find_import_dll_eq:
  assumes "imports_wf c es fs" "nul_free d"
  shows "find_import_dll d c =
    Some (map_option (\<lambda>e. last (fs e)) (List.find (\<lambda>e. s3_name (s3s c e) = d) es))"
proof -
  have w: "imports_are c es fs" "distinct (map (\<lambda>e. s3_name (s3s c e)) es)" using assms(1) by (simp_all add: imports_wf_def)
  let ?f = "\<lambda>e acc. if z_strcmp (s3_name (s3s c e)) d = 0
      then (case s3_this (s3s c e) of ToChain h \<Rightarrow> map_option Some (chain_last (next_s3 c) h) | _ \<Rightarrow> None)
      else Some acc"
  let ?g = "\<lambda>e acc. if s3_name (s3s c e) = d then Some (last (fs e)) else acc"
  have f: "?f e acc = Some (?g e acc)" if e: "e \<in> set es" for e acc
  proof -
    obtain h where "imported c e = Some h" "path (next_s3 c) h (fs e)"
      using imports_areD(2) [OF w(1) e] by (auto simp: opath_def)
    moreover have "nul_free (s3_name (s3s c e))" using imports_areD(1) [OF w(1) e] .
    ultimately show ?thesis
      using assms(2) by (auto simp: imported_def z_strcmp_eq0 chain_last_path split: s3_target.splits)
  qed
  have "find_import_dll d c = fold_opt ?f es None"
    unfolding find_import_dll_def
    using w(1) f iter_opath [where nx = "\<lambda>_. next_s3 c" and P = "\<lambda>_. True" and f = ?f and s = None and p = "InitialImport c" and xs = es]
    by (auto simp: imports_are_def)
  also have "\<dots> = Some (fold ?g es None)" using f by (rule fold_opt_total)
  also have "fold ?g es None = map_option (\<lambda>e. last (fs e)) (List.find (\<lambda>e. s3_name (s3s c e) = d) es)"
    using fold_find_last [OF w(2), of d "\<lambda>e. last (fs e)" None] by (simp split: option.splits)
  finally show ?thesis .
qed

text \<open>A function of a library that is already in the list.\<close>

lemma upd_s3_fields [simp]:
  "next_s3 (upd_s3 k (\<lambda>x. x\<lparr>s3_next := Some n\<rparr>) c) = (next_s3 c)(k := Some n)"
  "imported (upd_s3 k (\<lambda>x. x\<lparr>s3_next := v\<rparr>) c) = imported c"
  "s3_name (s3s (upd_s3 k (\<lambda>x. x\<lparr>s3_next := v\<rparr>) c) e) = s3_name (s3s c e)"
  "InitialImport (upd_s3 k f c) = InitialImport c" "CurrentImport (upd_s3 k f c) = CurrentImport c"
  "n_s3s (upd_s3 k f c) = n_s3s c" "lks (upd_s3 k f c) = lks c" "plt_offset (upd_s3 k f c) = plt_offset c"
  "import_directory_len (upd_s3 k f c) = import_directory_len c"
  by (auto simp: upd_s3_def next_s3_def imported_def fun_eq_iff)

lemma new_s3_fields [simp]:
  assumes "new_s3 x c = (k, c')"
  shows "k = n_s3s c" "next_s3 c' = (next_s3 c)(k := s3_next x)"
    "imported c' = (imported c)(k := (case s3_this x of ToChain h \<Rightarrow> Some h | _ \<Rightarrow> None))"
    "s3_name (s3s c' e) = (if e = k then s3_name x else s3_name (s3s c e))"
    "InitialImport c' = InitialImport c" "CurrentImport c' = CurrentImport c" "n_s3s c' = Suc k"
    "lks c' = lks c" "plt_offset c' = plt_offset c" "import_directory_len c' = import_directory_len c"
  using assms by (auto simp: new_s3_def next_s3_def imported_def fun_eq_iff)

lemma add_old_function:
  assumes wf: "imports_wf c es fs" and e: "e \<in> set es" and nm: "nul_free nm"
    and new: "new_s3 \<lparr>s3_next = None, s3_this = ToAddr a, s3_name = nm, s3_ever = 0\<rparr> c = (k, c1)"
  defines "c' \<equiv> upd_s3 (last (fs e)) (\<lambda>x. x\<lparr>s3_next := Some k\<rparr>) c1"
  shows "imports_wf c' es (fs(e := fs e @ [k]))"
proof -
  note n = new_s3_fields [OF new]
  have w: "imports_are c es fs" "\<And>x. x \<in> set es \<Longrightarrow> x < k" "\<And>x f. x \<in> set es \<Longrightarrow> f \<in> set (fs x) \<Longrightarrow> f < k"
    "\<And>x. x \<in> set es \<Longrightarrow> set (fs x) \<inter> set es = {}" "\<And>x y. x \<in> set es \<Longrightarrow> y \<in> set es \<Longrightarrow> x \<noteq> y \<Longrightarrow> set (fs x) \<inter> set (fs y) = {}"
    using wf n(1) by (auto simp: imports_wf_def)
  have d: "s3_name (s3s c' x) = s3_name (s3s c x)" "imported c' x = imported c x" if "x < k" for x
    using that n by (simp_all add: c'_def)
  have nx: "next_s3 c' = (next_s3 c)(k := None, last (fs e) := Some k)" using n by (simp add: c'_def)
  obtain h where h: "imported c e = Some h" "path (next_s3 c) h (fs e)"
    using imports_areD(2) [OF w(1) e] by (auto simp: opath_def)
  have l: "last (fs e) \<in> set (fs e)" using h(2) by (auto intro: last_in_set)
  have lk: "last (fs e) \<noteq> k" using w(3) [OF e l] by simp
  have kn: "k \<notin> set (fs e)" using w(3) [OF e] by blast
  have es: "opath (next_s3 c') (InitialImport c') es"
  proof (rule opath_cong [of "next_s3 c"])
    show "opath (next_s3 c) (InitialImport c') es" using w(1) n(5) by (simp add: imports_are_def c'_def)
    show "next_s3 c' x = next_s3 c x" if "x \<in> set es" for x
      using w(2) [OF that] w(4) [OF e] l that unfolding nx by auto
  qed
  have fe: "opath (next_s3 c') (imported c' e) (fs e @ [k])"
    using kn h lk l unfolding opath_def d(2) [OF w(2) [OF e]]
    by (auto intro!: path_extend [OF h(2) refl] simp: nx)
  have fx: "opath (next_s3 c') (imported c' x) (fs x)" if "x \<in> set es" "x \<noteq> e" for x
  proof (rule opath_cong [of "next_s3 c"])
    show "opath (next_s3 c) (imported c' x) (fs x)" using w(1) d(2) [OF w(2) [OF that(1)]] that(1) by (simp add: imports_are_def)
    show "next_s3 c' y = next_s3 c y" if "y \<in> set (fs x)" for y
      using w(3,5) e l that \<open>x \<in> set es\<close> \<open>x \<noteq> e\<close> unfolding nx by fastforce
  qed
  have "imports_are c' es (fs(e := fs e @ [k]))"
    unfolding imports_are_def
  proof (intro conjI ballI es)
    fix x assume x: "x \<in> set es"
    show "nul_free (s3_name (s3s c' x))" using x w(1,2) d(1) by (simp add: imports_are_def)
    show "opath (next_s3 c') (imported c' x) ((fs(e := fs e @ [k])) x)" using fe fx x by simp
    show "(fs(e := fs e @ [k])) x \<noteq> []" using x w(1) by (simp add: imports_are_def)
    show "nul_free (s3_name (s3s c' f))" if "f \<in> set ((fs(e := fs e @ [k])) x)" for f
    proof (cases "f = k")
      case True then show ?thesis using n(4) nm by (simp add: c'_def)
    next
      case False
      then have "f \<in> set (fs x)" using that by (auto split: if_splits)
      then show ?thesis using w(1,3) x d(1) by (simp add: imports_are_def)
    qed
  qed
  moreover have "map (\<lambda>x. s3_name (s3s c' x)) es = map (\<lambda>x. s3_name (s3s c x)) es" using w(2) d(1) by simp
  then have "distinct (map (\<lambda>x. s3_name (s3s c' x)) es)" using wf by (simp only: imports_wf_def)
  moreover have "CurrentImport c' = CurrentImport c" "n_s3s c' = Suc k" using n by (simp_all add: c'_def)
  moreover have "\<forall>x \<in> set es. x < Suc k" "\<forall>x \<in> set es. \<forall>f \<in> set ((fs(e := fs e @ [k])) x). f < Suc k"
    using w(2,3) by (auto intro: less_SucI)
  moreover have "k \<notin> set es" "\<forall>x \<in> set es. k \<notin> set (fs x)" using w(2,3) by blast+
  ultimately show ?thesis
    using wf unfolding imports_wf_def by (auto simp del: new_s3_fields)
qed

lemma names_of_simps [simp]:
  "names_of c [] fs = []"
  "names_of c (e # es) fs = (s3_name (s3s c e), map (\<lambda>f. s3_name (s3s c f)) (fs e)) # names_of c es fs"
  "names_of c (xs @ ys) fs = names_of c xs fs @ names_of c ys fs"
  by (simp_all add: names_of_def)

lemma names_of_cong:
  "(\<And>e. e \<in> set es \<Longrightarrow> s3_name (s3s c' e) = s3_name (s3s c e) \<and> fs' e = fs e \<and>
      (\<forall>f \<in> set (fs e). s3_name (s3s c' f) = s3_name (s3s c f))) \<Longrightarrow> names_of c' es fs' = names_of c es fs"
  by (simp add: names_of_def)

lemma fst_names_of: "fst ` set (names_of c es fs) = (\<lambda>e. s3_name (s3s c e)) ` set es"
  by (auto simp: names_of_def image_iff)

lemma add_old_function_names:
  assumes wf: "imports_wf c es fs" and e: "e \<in> set es" "s3_name (s3s c e) = d"
    and new: "new_s3 \<lparr>s3_next = None, s3_this = ToAddr a, s3_name = nm, s3_ever = 0\<rparr> c = (k, c1)"
  defines "c' \<equiv> upd_s3 (last (fs e)) (\<lambda>x. x\<lparr>s3_next := Some k\<rparr>) c1"
  shows "names_of c' es (fs(e := fs e @ [k])) = group_add nm d (names_of c es fs)"
proof -
  note n = new_s3_fields [OF new]
  have d: "s3_name (s3s c' x) = (if x = k then nm else s3_name (s3s c x))" for x using n by (simp add: c'_def)
  have lt: "x \<noteq> k" "\<And>f. f \<in> set (fs x) \<Longrightarrow> f \<noteq> k" if "x \<in> set es" for x
    using wf that n(1) by (auto simp: imports_wf_def)
  obtain xs ys where es: "es = xs @ e # ys" using e(1) by (auto dest: split_list)
  have dist: "e \<notin> set xs" "e \<notin> set ys" "d \<notin> (\<lambda>e. s3_name (s3s c e)) ` set xs"
    using wf e(2) by (auto simp: imports_wf_def es)
  have same: "names_of c' zs (fs(e := fs e @ [k])) = names_of c zs fs" if "set zs \<subseteq> set es" "e \<notin> set zs" for zs
    using that lt by (intro names_of_cong) (auto simp: d)
  have sx: "names_of c' xs (fs(e := fs e @ [k])) = names_of c xs fs" "names_of c' ys (fs(e := fs e @ [k])) = names_of c ys fs"
    using dist(1,2) by (intro same; auto simp: es)+
  have names: "map (\<lambda>f. s3_name (s3s c' f)) (fs e) = map (\<lambda>f. s3_name (s3s c f)) (fs e)" using lt(2) [OF e(1)] d by simp
  have "s3_name (s3s c' e) = d" "s3_name (s3s c' k) = nm" using lt(1) [OF e(1)] d e(2) by simp_all
  then have "names_of c' es (fs(e := fs e @ [k])) =
      names_of c xs fs @ (d, map (\<lambda>f. s3_name (s3s c f)) (fs e) @ [nm]) # names_of c ys fs"
    unfolding es by (simp only: names_of_simps sx fun_upd_same map_append names list.map)
  then show ?thesis using dist(3) e(2) group_add_old unfolding es by (simp add: fst_names_of)
qed

text \<open>A function of a library that is not in the list yet.\<close>

lemma add_new_library:
  assumes wf: "imports_wf c es fs" and d: "d \<notin> (\<lambda>e. s3_name (s3s c e)) ` set es" "nul_free d" and nm: "nul_free nm"
    and new: "new_s3 \<lparr>s3_next = None, s3_this = ToAddr a, s3_name = nm, s3_ever = 0\<rparr> c = (k, c1)"
      "new_s3 \<lparr>s3_next = None, s3_this = ToChain k, s3_name = d, s3_ever = 0\<rparr> c1 = (e, c2)"
  defines "c' \<equiv> (if InitialImport c2 = None then c2\<lparr>InitialImport := Some e\<rparr>
      else upd_s3 (last es) (\<lambda>x. x\<lparr>s3_next := Some e\<rparr>) c2)\<lparr>CurrentImport := Some e\<rparr>"
  shows "imports_wf c' (es @ [e]) (fs(e := [k]))"
    "names_of c' (es @ [e]) (fs(e := [k])) = names_of c es fs @ [(d, [nm])]"
proof -
  note n1 = new_s3_fields [OF new(1)] and n2 = new_s3_fields [OF new(2)]
  have ek: "e = Suc k" using n1 n2 by simp
  have w: "imports_are c es fs" "\<And>x. x \<in> set es \<Longrightarrow> x < k" "\<And>x f. x \<in> set es \<Longrightarrow> f \<in> set (fs x) \<Longrightarrow> f < k"
    "\<And>x. x \<in> set es \<Longrightarrow> set (fs x) \<inter> set es = {}" "\<And>x y. x \<in> set es \<Longrightarrow> y \<in> set es \<Longrightarrow> x \<noteq> y \<Longrightarrow> set (fs x) \<inter> set (fs y) = {}"
    "distinct (map (\<lambda>e. s3_name (s3s c e)) es)"
    using wf n1(1) by (auto simp: imports_wf_def)
  have nm': "s3_name (s3s c' x) = (if x = e then d else if x = k then nm else s3_name (s3s c x))" for x
    using n1(4) n2(4) ek by (simp add: c'_def)
  have im: "imported c' x = (if x = e then Some k else if x = k then None else imported c x)" for x
    using n1(3) n2(3) ek by (simp add: c'_def imported_def fun_eq_iff upd_s3_def)
  have i2: "InitialImport c2 = InitialImport c" using n1 n2 by simp
  have none: "InitialImport c = None \<longleftrightarrow> es = []" using w(1) by (auto simp: imports_are_def opath_def split: option.splits)
  have nx: "next_s3 c' = (if es = [] then (next_s3 c)(k := None, e := None)
      else (next_s3 c)(k := None, e := None, last es := Some e))"
    using n1(2) n2(2) i2 none by (auto simp: c'_def next_s3_def upd_s3_def fun_eq_iff)
  have init: "InitialImport c' = (if es = [] then Some e else InitialImport c)"
    using i2 none by (simp add: c'_def upd_s3_def)
  have fresh: "e \<notin> set es" "k \<notin> set es" "\<And>x. x \<in> set es \<Longrightarrow> e \<notin> set (fs x)" "\<And>x. x \<in> set es \<Longrightarrow> k \<notin> set (fs x)"
    using w(2,3) ek by fastforce+
  have es: "opath (next_s3 c') (InitialImport c') (es @ [e])"
  proof (cases "es = []")
    case True
    then show ?thesis using init nx by (simp add: opath_def)
  next
    case False
    then obtain h where h: "InitialImport c = Some h" "path (next_s3 c) h es"
      using w(1) none by (auto simp: imports_are_def opath_def)
    have "last es \<noteq> e" "last es \<noteq> k" using False fresh(1,2) last_in_set by metis+
    then have "path (next_s3 c') h (es @ [e])"
      using fresh False by (intro path_extend [OF h(2) refl fresh(1)]) (auto simp: nx)
    then show ?thesis using False init h(1) by (simp add: opath_def)
  qed
  have "imports_are c' (es @ [e]) (fs(e := [k]))"
    unfolding imports_are_def
  proof (intro conjI ballI es)
    fix x assume "x \<in> set (es @ [e])"
    then consider "x = e" | "x \<in> set es" "x \<noteq> e" using fresh(1) by auto
    then have "nul_free (s3_name (s3s c' x)) \<and> opath (next_s3 c') (imported c' x) ((fs(e := [k])) x) \<and>
        (fs(e := [k])) x \<noteq> [] \<and> (\<forall>f \<in> set ((fs(e := [k])) x). nul_free (s3_name (s3s c' f)))"
    proof cases
      case 1
      have "es \<noteq> [] \<longrightarrow> last es \<noteq> k" using fresh(2) last_in_set by metis
      then have "next_s3 c' k = None" using ek by (auto simp: nx)
      then show ?thesis using 1 d(2) nm ek by (simp add: nm' im opath_def)
    next
      case 2
      have xk: "x \<noteq> k" using 2 fresh(2) by auto
      have "opath (next_s3 c') (imported c x) (fs x)"
      proof (rule opath_cong [of "next_s3 c"])
        show "opath (next_s3 c) (imported c x) (fs x)" using w(1) 2 by (simp add: imports_are_def)
        show "next_s3 c' y = next_s3 c y" if "y \<in> set (fs x)" for y
        proof -
          have "y \<noteq> e" "y \<noteq> k" "y \<notin> set es" using that 2(1) fresh(3,4) w(4) by blast+
          then show ?thesis using last_in_set by (auto simp: nx)
        qed
      qed
      then show ?thesis using w(1) 2 xk fresh(3,4) [OF 2(1)] nm d(2) by (auto simp: nm' im imports_are_def)
    qed
    then show "nul_free (s3_name (s3s c' x))" "opath (next_s3 c') (imported c' x) ((fs(e := [k])) x)"
      "(fs(e := [k])) x \<noteq> []" "\<And>f. f \<in> set ((fs(e := [k])) x) \<Longrightarrow> nul_free (s3_name (s3s c' f))" by blast+
  qed
  moreover have names: "map (\<lambda>e. s3_name (s3s c' e)) (es @ [e]) = map (\<lambda>e. s3_name (s3s c e)) es @ [d]"
    using fresh(1,2) by (auto simp: nm')
  have "distinct (map (\<lambda>e. s3_name (s3s c' e)) (es @ [e]))" unfolding names using w(6) d(1) by simp
  moreover have "CurrentImport c' = Some e" "n_s3s c' = Suc e" using n2(7) by (simp_all add: c'_def upd_s3_def)
  moreover have "x < Suc e" "\<And>f. f \<in> set ((fs(e := [k])) x) \<Longrightarrow> f < Suc e" if "x \<in> set (es @ [e])" for x
    using that w(2) [of x] w(3) [of x] ek by (auto split: if_splits) (metis less_SucI)+
  ultimately show "imports_wf c' (es @ [e]) (fs(e := [k]))"
    using w(4,5) fresh ek by (auto simp: imports_wf_def simp del: new_s3_fields)
  show "names_of c' (es @ [e]) (fs(e := [k])) = names_of c es fs @ [(d, [nm])]"
  proof -
    have "names_of c' es (fs(e := [k])) = names_of c es fs"
      using fresh by (intro names_of_cong) (auto simp: nm')
    then show ?thesis using ek by (simp add: nm')
  qed
qed

lemma add_entry_refines:
  assumes "imports_wf c es fs" "nul_free nm" "nul_free d"
  shows "\<exists>c' es' fs'. add_dynamic_resolved_entry nm d a c = Some (d \<notin> fst ` set (names_of c es fs), c') \<and>
    imports_wf c' es' fs' \<and> names_of c' es' fs' = group_add nm d (names_of c es fs) \<and>
    lks c' = lks c \<and> plt_offset c' = plt_offset c \<and> import_directory_len c' = import_directory_len c"
proof -
  obtain k c1 where new: "new_s3 \<lparr>s3_next = None, s3_this = ToAddr a, s3_name = nm, s3_ever = 0\<rparr> c = (k, c1)"
    by (cases "new_s3 \<lparr>s3_next = None, s3_this = ToAddr a, s3_name = nm, s3_ever = 0\<rparr> c")
  note n1 = new_s3_fields [OF new]
  note found = find_import_dll_eq [OF assms(1,3)]
  show ?thesis
  proof (cases "List.find (\<lambda>e. s3_name (s3s c e) = d) es")
    case (Some e)
    then have e: "e \<in> set es" "s3_name (s3s c e) = d" by (auto dest: find_SomeD)
    have "d \<in> fst ` set (names_of c es fs)" using e by (auto simp: fst_names_of)
    then show ?thesis
      using add_old_function [OF assms(1) e(1) assms(2) new] add_old_function_names [OF assms(1) e new] Some found new n1
      by (auto simp: add_dynamic_resolved_entry_def Let_def intro!: exI)
  next
    case None
    then have d: "d \<notin> (\<lambda>e. s3_name (s3s c e)) ` set es" by (auto simp: find_None_iff)
    obtain e c2 where new2: "new_s3 \<lparr>s3_next = None, s3_this = ToChain k, s3_name = d, s3_ever = 0\<rparr> c1 = (e, c2)"
      by (cases "new_s3 \<lparr>s3_next = None, s3_this = ToChain k, s3_name = d, s3_ever = 0\<rparr> c1")
    note n2 = new_s3_fields [OF new2]
    define c' where "c' = (if InitialImport c2 = None then c2\<lparr>InitialImport := Some e\<rparr>
      else upd_s3 (last es) (\<lambda>x. x\<lparr>s3_next := Some e\<rparr>) c2)\<lparr>CurrentImport := Some e\<rparr>"
    have "InitialImport c = None \<longleftrightarrow> es = []" "es \<noteq> [] \<longrightarrow> CurrentImport c = Some (last es)"
      using assms(1) by (auto simp: imports_wf_def imports_are_def opath_def split: option.splits)
    then have "add_dynamic_resolved_entry nm d a c = Some (True, c')"
      using None found new new2 n1(5,6) n2(5,6)
      by (auto simp: add_dynamic_resolved_entry_def Let_def c'_def simp del: new_s3_fields)
    moreover have "lks c' = lks c" "plt_offset c' = plt_offset c" "import_directory_len c' = import_directory_len c"
      using n1(8-10) n2(8-10) by (simp_all add: c'_def)
    ultimately show ?thesis
      using add_new_library [OF assms(1) d assms(3,2) new new2] d
      by (auto simp: c'_def fst_names_of group_add_new intro!: exI)
  qed
qed

subsection \<open>The first use of a library function\<close>

text \<open>What holds between two relocations: the list, the PLT slots given out and the
  room of the import directory agree.\<close>

definition import_inv :: "u32 \<Rightarrow> coff \<Rightarrow> nat list \<Rightarrow> (nat \<Rightarrow> nat list) \<Rightarrow> bool" where
  "import_inv plt_va c es fs \<longleftrightarrow> imports_wf c es fs \<and>
     plt_offset c = plt_va + 6 * of_nat (length (all_functions (names_of c es fs))) \<and>
     import_directory_len c = (if es = [] then 0 else of_nat (import_room (names_of c es fs)))"

lemma coff_fill_fields [simp]:
  "s3s (coff_fill_address p t d v c) = s3s c" "n_s3s (coff_fill_address p t d v c) = n_s3s c"
  "InitialImport (coff_fill_address p t d v c) = InitialImport c" "CurrentImport (coff_fill_address p t d v c) = CurrentImport c"
  "plt_offset (coff_fill_address p t d v c) = plt_offset c"
  "import_directory_len (coff_fill_address p t d v c) = import_directory_len c"
  by (simp_all add: coff_fill_address_def upd_cmem_def upd_lks_def Let_def)

lemma coff_fill_lks: "lks c1 = lks c \<Longrightarrow> lks (coff_fill_address p t d v c1) = lks (coff_fill_address p t d v c)"
  by (simp add: coff_fill_address_def upd_cmem_def upd_lks_def Let_def)

lemma lookup_first_use:
  assumes "lookup_dynamic_symbol nm c = Some (Some (t, 0), c1)"
  shows "\<exists>k. c1 = upd_s3 k (\<lambda>x. x\<lparr>s3_ever := plt_offset c\<rparr>) c"
  using assms unfolding lookup_dynamic_symbol_def by (auto split: bind_splits option.splits if_splits)

lemma import_len_step:
  assumes "import_room (group_add nm d ds) < 2 ^ 32" "nul_free nm" "nul_free d"
    and "import_directory_len c = (if ds = [] then 0 else of_nat (import_room ds))"
  shows "import_directory_len c + update_import_directory_len (d \<notin> fst ` set ds) nm d c =
    of_nat (import_room (group_add nm d ds))"
proof -
  have "import_room ds \<noteq> 0" "import_room ds < 2 ^ 32" using assms(1) by (simp_all add: import_room_group_add) (simp add: import_room_def)
  then have nz: "(of_nat (import_room ds) :: u32) \<noteq> 0" by (simp add: word_of_nat_eq_0_iff nat_dvd_not_less)
  show ?thesis
  proof (cases "ds = []")
    case True
    then show ?thesis using assms(2-4) by (simp add: update_import_directory_len_def import_room_def ac_simps)
  next
    case False
    then show ?thesis using assms(2-4) nz
      by (simp add: update_import_directory_len_def import_room_group_add ac_simps)
  qed
qed

text \<open>C33: The first use of a library function, \<open>resolve_import\<close> keeps the imports, the PLT
  and the size of the import directory in step: the call is filled with the next free
  six-byte slot, the function joins its library in the list of imports, and the length
  accounted for is exactly the room \<open>write_import\<close> will need.\<close>

theorem resolve_import_first_use:
  assumes "import_inv plt_va c es fs" "nul_free (arg_name a)" "nul_free d"
    and "lookup_dynamic_symbol (arg_name a) c = Some (Some (ToText d, 0), c1)"
    and "import_room (group_add (arg_name a) d (names_of c es fs)) < 2 ^ 32"
  shows "\<exists>c' es' fs'. resolve_import a c = Some c' \<and> import_inv plt_va c' es' fs' \<and>
    names_of c' es' fs' = group_add (arg_name a) d (names_of c es fs) \<and>
    lks c' = lks (coff_fill_address (filled_addr a) (arg_type a)
      (plt_va + 6 * of_nat (length (all_functions (names_of c es fs)))) (src_vaddr a) c)"
proof -
  let ?ds = "names_of c es fs"
  obtain k where c1: "c1 = upd_s3 k (\<lambda>x. x\<lparr>s3_ever := plt_offset c\<rparr>) c" using lookup_first_use [OF assms(4)] by blast
  define c2 where "c2 = (coff_fill_address (filled_addr a) (arg_type a) (plt_offset c1) (src_vaddr a) c1)\<lparr>plt_offset := plt_offset c1 + 6\<rparr>"
  have inv: "imports_wf c es fs" "plt_offset c = plt_va + 6 * of_nat (length (all_functions ?ds))"
    "import_directory_len c = (if ?ds = [] then 0 else of_nat (import_room ?ds))"
    using assms(1) by (auto simp: import_inv_def names_of_def)
  have c2: "imports_wf c2 es fs" "names_of c2 es fs = ?ds"
    using imports_wf_cong [of c2 c1] imports_wf_upd_ever [OF inv(1)] by (simp_all add: c2_def c1)
  obtain c3 es' fs' where c3: "add_dynamic_resolved_entry (arg_name a) d (filled_addr a) c2 = Some (d \<notin> fst ` set ?ds, c3)"
    "imports_wf c3 es' fs'" "names_of c3 es' fs' = group_add (arg_name a) d ?ds" "lks c3 = lks c2"
    "plt_offset c3 = plt_offset c2" "import_directory_len c3 = import_directory_len c2"
    using add_entry_refines [OF c2(1) assms(2,3), of "filled_addr a"] c2(2) by auto
  define c' where "c' = c3\<lparr>import_directory_len := import_directory_len c3 +
      update_import_directory_len (d \<notin> fst ` set ?ds) (arg_name a) d c3\<rparr>"
  have "resolve_import a c = Some c'"
    using assms(4) c3(1) by (simp add: resolve_import_def c2_def [symmetric] c'_def)
  moreover have "import_directory_len c3 = import_directory_len c" using c3(6) by (simp add: c2_def c1)
  then have len: "import_directory_len c' = of_nat (import_room (group_add (arg_name a) d ?ds))"
    using import_len_step [OF assms(5,2,3), of c3] inv(3) by (simp add: c'_def)
  have "es' \<noteq> []" using c3(3) by (cases "es' = []"; cases ?ds) (auto split: if_splits)
  then have "import_inv plt_va c' es' fs'"
    using c3 len imports_wf_cong [of c' c3 es' fs'] inv(2)
    by (simp add: import_inv_def c'_def length_all_functions_group_add c2_def c1 algebra_simps)
  moreover have "names_of c' es' fs' = group_add (arg_name a) d ?ds"
    using c3(3) imports_wf_cong [of c' c3 es' fs'] by (simp add: c'_def)
  moreover have "lks c' = lks (coff_fill_address (filled_addr a) (arg_type a) (plt_offset c) (src_vaddr a) c)"
    using c3(4) coff_fill_lks [of c1 c] by (simp add: c'_def c2_def c1)
  ultimately show ?thesis using inv(2) by auto
qed

subsection \<open>The slots and the stubs\<close>

lemma all_functions_new: "d \<notin> fst ` set ds \<Longrightarrow> all_functions (group_add nm d ds) = all_functions ds @ [nm]"
  by (simp add: group_add_new)

lemma all_functions_last:
  assumes "ds \<noteq> []" "fst (last ds) = d" "distinct (map fst ds)"
  shows "all_functions (group_add nm d ds) = all_functions ds @ [nm]"
proof -
  obtain xs fs where ds: "ds = xs @ [(d, fs)]" using assms(1,2) by (cases ds rule: rev_cases) auto
  then have "d \<notin> fst ` set xs" using assms(3) by auto
  then show ?thesis using group_add_old [of d xs nm fs "[]"] ds by simp
qed

text \<open>The libraries and functions that are first used in the order \<open>us\<close>: libraries in
  the order of their first use, functions of a library in the order of use.\<close>

definition uses_of :: "(cstr \<times> cstr) list \<Rightarrow> cstr \<Rightarrow> cstr list" where
  "uses_of us d = map snd (filter (\<lambda>u. fst u = d) us)"

definition libraries :: "(cstr \<times> cstr) list \<Rightarrow> cstr list" where
  "libraries us = rev (remdups (rev (map fst us)))"

definition grouped :: "(cstr \<times> cstr) list \<Rightarrow> import_list" where
  "grouped us = map (\<lambda>d. (d, uses_of us d)) (libraries us)"

lemma set_libraries: "set (libraries us) = fst ` set us" "distinct (libraries us)"
  by (simp_all add: libraries_def)

lemma libraries_snoc: "libraries (us @ [u]) = (if fst u \<in> fst ` set us then libraries us else libraries us @ [fst u])"
  by (simp add: libraries_def)

lemma uses_of_snoc: "uses_of (us @ [u]) d = (if fst u = d then uses_of us d @ [snd u] else uses_of us d)"
  by (simp add: uses_of_def)

lemma uses_of_new: "d \<notin> fst ` set us \<Longrightarrow> uses_of us d = []"
  by (force simp: uses_of_def filter_empty_conv)

lemma group_add_map:
  "distinct ls \<Longrightarrow> group_add nm d (map (\<lambda>d. (d, f d)) ls) =
    (if d \<in> set ls then map (\<lambda>d'. (d', if d' = d then f d' @ [nm] else f d')) ls
     else map (\<lambda>d. (d, f d)) ls @ [(d, [nm])])"
  by (induction ls) auto

lemma grouped_snoc: "grouped (us @ [u]) = group_add (snd u) (fst u) (grouped us)"
proof -
  have "map (\<lambda>d. (d, uses_of (us @ [u]) d)) (libraries us) = map (\<lambda>d. (d, uses_of us d)) (libraries us)"
    if "fst u \<notin> fst ` set us"
    using that set_libraries(1) [of us] by (intro map_cong refl) (auto simp: uses_of_snoc)
  moreover have "map (\<lambda>d. (d, uses_of (us @ [u]) d)) (libraries us) =
      map (\<lambda>d'. (d', if d' = fst u then uses_of us d' @ [snd u] else uses_of us d')) (libraries us)"
    by (auto simp: uses_of_snoc)
  ultimately show ?thesis
    unfolding grouped_def libraries_snoc group_add_map [OF set_libraries(2)]
    by (auto simp: set_libraries(1) uses_of_new uses_of_snoc)
qed

text \<open>All uses of a library come one after the other.\<close>

definition library_by_library :: "(cstr \<times> cstr) list \<Rightarrow> bool" where
  "library_by_library us \<longleftrightarrow>
     (\<forall>i j k. i < j \<longrightarrow> j < k \<longrightarrow> k < length us \<longrightarrow> fst (us ! i) = fst (us ! k) \<longrightarrow> fst (us ! j) = fst (us ! k))"

lemma library_by_library_snoc:
  assumes "library_by_library (us @ [u])"
  shows "library_by_library us" "fst u \<in> fst ` set us \<Longrightarrow> fst (last us) = fst u"
proof -
  show "library_by_library us"
    unfolding library_by_library_def
  proof (intro allI impI)
    fix i j k assume "i < j" "j < k" "k < length us" "fst (us ! i) = fst (us ! k)"
    then show "fst (us ! j) = fst (us ! k)"
      using assms [unfolded library_by_library_def, rule_format, of i j k] by (simp add: nth_append)
  qed
  assume "fst u \<in> fst ` set us"
  then obtain i where i: "i < length us" "fst (us ! i) = fst u" by (auto simp: in_set_conv_nth)
  show "fst (last us) = fst u"
  proof (cases "i = length us - 1")
    case True
    then show ?thesis using i last_conv_nth [of us] by (cases us) auto
  next
    case False
    then show ?thesis
      using i assms [unfolded library_by_library_def, rule_format, of i "length us - 1" "length us"] last_conv_nth [of us]
      by (cases "us = []") (simp_all add: nth_append)
  qed
qed

lemma grouped_in_order:
  "library_by_library us \<Longrightarrow> all_functions (grouped us) = map snd us \<and> (us \<noteq> [] \<longrightarrow> fst (last (grouped us)) = fst (last us))"
proof (induction us rule: rev_induct)
  case Nil
  then show ?case by (simp add: grouped_def libraries_def)
next
  case (snoc u us)
  note lbl = library_by_library_snoc [OF snoc.prems]
  have IH: "all_functions (grouped us) = map snd us" "us \<noteq> [] \<Longrightarrow> fst (last (grouped us)) = fst (last us)"
    using snoc.IH lbl(1) by simp_all
  have d: "distinct (map fst (grouped us))" "fst ` set (grouped us) = fst ` set us"
    using set_libraries [of us] by (simp_all add: grouped_def comp_def image_image)
  show ?case
  proof (cases "fst u \<in> fst ` set us")
    case False
    then show ?thesis using IH(1) d(2) by (simp add: grouped_snoc all_functions_new group_add_new)
  next
    case True
    then have ne: "us \<noteq> []" "grouped us \<noteq> []" using d(2) by auto
    have l: "fst (last (grouped us)) = fst u" using IH(2) ne lbl(2) True by simp
    have "fst (last (grouped (us @ [u]))) = fst (last (grouped us))"
    proof -
      have "map fst (grouped (us @ [u])) = map fst (grouped us)"
        using True by (simp add: grouped_def libraries_snoc comp_def)
      then show ?thesis using ne(2) last_map [of "grouped us" fst] last_map [of "grouped (us @ [u])" fst]
        by (metis map_is_Nil_conv)
    qed
    then show ?thesis using all_functions_last [OF ne(2) l d(1)] IH(1) l by (simp add: grouped_snoc)
  qed
qed

lemma length_all_functions_grouped: "length (all_functions (grouped us)) = length us"
  by (induction us rule: rev_induct)
    (simp_all add: grouped_snoc length_all_functions_group_add, simp add: grouped_def libraries_def)

text \<open>C34: Where the calls of a finished image end up.  When the functions \<open>us\<close> (with
  their libraries) are first used in this order, the list of imports is \<open>grouped us\<close>,
  and the call of function \<open>k\<close> of \<open>us\<close> has been given slot \<open>k\<close>.  The stubs come in the
  order of the libraries, not of the slots: in the written image slot \<open>k\<close> jumps to
  function \<open>k\<close> of the list in which the functions of each library stand together.
  So every call reaches its function when no library is used again after another
  one has been used.\<close>

theorem import_call_reaches:
  assumes "thunk_size c = 8" "imports_are c es fs" "names_of c es fs = foldl (\<lambda>ds (d, nm). group_add nm d ds) [] us"
    and "\<forall>x. begin \<le> x \<and> x < begin + import_room (grouped us) \<longrightarrow> cmem c x = 0"
    and "pltp + plt_room (grouped us) \<le> begin \<or> begin + import_room (grouped us) \<le> pltp"
    and "unat va + import_room (grouped us) < 2 ^ 32"
    and "write_import pltp begin plt_va va c = Some c'" and "k < length us"
  shows "stub_function pltp plt_va begin va k (cmem c') = Some (concat (map (uses_of us) (libraries us)) ! k) \<and>
    (library_by_library us \<longrightarrow> stub_function pltp plt_va begin va k (cmem c') = Some (snd (us ! k)))"
proof -
  have g: "names_of c es fs = grouped us"
    unfolding assms(3) by (induction us rule: rev_induct)
      (simp_all add: grouped_snoc split_beta, simp add: grouped_def libraries_def)
  have "c' = with_mem (import_mem pltp begin plt_va va (grouped us) (cmem c)) c"
    using write_import_mem [OF assms(1,2), of pltp "begin" plt_va va "cmem c"] assms(7) g by (simp add: with_mem_cmem)
  then have "stub_function pltp plt_va begin va k (cmem c') = Some (all_functions (grouped us) ! k)"
    using import_mem_reads(2) [where ds = "grouped us" and m = "cmem c" and pltp = pltp and plt_va = plt_va and va = va]
      assms(4-6,8) names_of_ok [OF assms(2)] g by (simp add: length_all_functions_grouped)
  moreover have "all_functions (grouped us) = concat (map (uses_of us) (libraries us))"
    by (simp add: all_functions_def grouped_def comp_def)
  ultimately show ?thesis using grouped_in_order [of us] assms(8) by simp
qed

subsection \<open>Witnesses\<close>

text \<open>Library \<open>k\<close> with the functions \<open>a\<close> and \<open>c\<close>, library \<open>u\<close> with \<open>b\<close>, the last
  use being that of \<open>c\<close>; and a state without imports that knows the function \<open>a\<close> of \<open>k\<close>.\<close>

definition zero_s3 :: SymbolChain3 where
  "zero_s3 = \<lparr>s3_next = None, s3_this = ToAddr 0, s3_name = [], s3_ever = 0\<rparr>"

definition coff0 :: coff where
  "coff0 = \<lparr>lks = zero_lst, header_size = 0, export_directory_len = 0, export_func_count = 0,
     export_data = \<lparr>ied_p = 0, address_of_name_ordinals = 0, address_of_functions = 0, address_of_names = 0,
       str_p = 0, vaddr_p = 0\<rparr>,
     plt_offset = 0x1000, import_directory_len = 0,
     DLLHashTable = \<lparr>sht_nbucket = 1, sht_nchain = 0, sht_bucket = (\<lambda>_. Some 0)\<rparr>,
     s3s = (\<lambda>_. zero_s3)(0 := zero_s3\<lparr>s3_this := ToText [0x6b], s3_name := [0x61]\<rparr>), n_s3s = 1,
     InitialImport = None, CurrentImport = None, aux_symbols = 0, outfile_name = []\<rparr>"

definition coff2 :: coff where
  "coff2 = coff0\<lparr>s3s := (\<lambda>_. zero_s3)(
       0 := \<lparr>s3_next = Some 1, s3_this = ToChain 2, s3_name = [0x6b], s3_ever = 0\<rparr>,
       1 := \<lparr>s3_next = None, s3_this = ToChain 4, s3_name = [0x75], s3_ever = 0\<rparr>,
       2 := \<lparr>s3_next = Some 3, s3_this = ToAddr 0, s3_name = [0x61], s3_ever = 0\<rparr>,
       3 := \<lparr>s3_next = None, s3_this = ToAddr 0, s3_name = [0x63], s3_ever = 0\<rparr>,
       4 := \<lparr>s3_next = None, s3_this = ToAddr 0, s3_name = [0x62], s3_ever = 0\<rparr>),
     n_s3s := 5, InitialImport := Some 0, CurrentImport := Some 1\<rparr>"

lemma coff2_imports:
  "thunk_size coff2 = 8" "imports_are coff2 [0, 1] (\<lambda>e. if e = 0 then [2, 3] else [4])"
  "names_of coff2 [0, 1] (\<lambda>e. if e = 0 then [2, 3] else [4]) = [([0x6b], [[0x61], [0x63]]), ([0x75], [[0x62]])]"
  "cmem coff2 x = 0"
  by (simp_all add: coff2_def coff0_def thunk_size_def imports_are_def opath_def next_s3_def imported_def cmem_def zero_defs)

lemma coff2_names [simp]:
  "s3_name (s3s coff2 0) = [0x6b]" "s3_name (s3s coff2 (Suc 0)) = [0x75]" "s3_name (s3s coff2 2) = [0x61]"
  "s3_name (s3s coff2 3) = [0x63]" "s3_name (s3s coff2 4) = [0x62]"
  by (simp_all add: coff2_def)

lemma import_directory_reads_back_witness:
  "\<exists>c'. write_import 0x8000 0x1000 0x2000 0x3000 coff2 = Some c' \<and>
    read_imports 0x1000 0x3000 0x1000 (cmem c') =
      Some [([0x6b], [[0x61], [0x63]], [[0x61], [0x63]]), ([0x75], [[0x62]], [[0x62]])]"
  using import_directory_reads_back [OF coff2_imports(1,2), of "0x1000" "0x8000" "0x3000" "0x2000"]
  by (auto simp: coff2_imports import_room_def plt_room_def)

lemma import_call_reaches_witness:
  "\<exists>c'. write_import 0x8000 0x1000 0x2000 0x3000 coff2 = Some c' \<and>
    stub_function 0x8000 0x2000 0x1000 0x3000 2 (cmem c') = Some [0x62]"
proof -
  obtain c' where c': "write_import 0x8000 0x1000 0x2000 0x3000 coff2 = Some c'"
    using write_import_mem [OF coff2_imports(1,2), of "0x8000" "0x1000" "0x2000" "0x3000" "cmem coff2"]
    by (auto simp: with_mem_cmem)
  let ?us = "[([0x6b], [0x61]), ([0x75], [0x62]), ([0x6b], [0x63])] :: (cstr \<times> cstr) list"
  have n: "names_of coff2 [0, 1] (\<lambda>e. if e = 0 then [2, 3] else [4]) = foldl (\<lambda>ds (d, nm). group_add nm d ds) [] ?us"
    by (simp add: coff2_imports)
  have g: "libraries ?us = [[0x6b], [0x75]]" "uses_of ?us [0x6b] = [[0x61], [0x63]]" "uses_of ?us [0x75] = [[0x62]]"
    by (simp_all add: libraries_def uses_of_def)
  have "stub_function 0x8000 0x2000 0x1000 0x3000 2 (cmem c') = Some (concat (map (uses_of ?us) (libraries ?us)) ! 2)"
    by (rule import_call_reaches [OF coff2_imports(1,2) n _ _ _ c', THEN conjunct1])
      (simp_all add: coff2_imports grouped_def g import_room_def plt_room_def)
  then show ?thesis using c' by (simp add: g)
qed

lemma resolve_import_first_use_witness:
  "\<exists>c' es' fs'. resolve_import \<lparr>src_vaddr = 0x10, dst_value = 0, filled_addr = 0x500, arg_name = [0x61],
      arg_type = 4, shndx = 0, storage_class = 2, src_oc = 0\<rparr> coff0 = Some c' \<and>
    names_of c' es' fs' = [([0x6b], [[0x61]])] \<and> import_inv 0x1000 c' es' fs'"
proof -
  have inv: "import_inv 0x1000 coff0 [] (\<lambda>_. [])"
    by (simp add: import_inv_def imports_wf_def imports_are_def coff0_def opath_def)
  have "scan_from (next_s3 coff0) (dll_match coff0 [0x61]) 0 0 = Some (Some 0)"
    by (subst scan_from.simps) (simp add: dll_match_def coff0_def)
  then have l: "lookup_dynamic_symbol [0x61] coff0 =
      Some (Some (ToText [0x6b], 0), upd_s3 0 (\<lambda>x. x\<lparr>s3_ever := 0x1000\<rparr>) coff0)"
    by (simp add: lookup_dynamic_symbol_def sht_slot_def scan_def coff0_def zero_s3_def)
  show ?thesis
    using resolve_import_first_use [OF inv, of "\<lparr>src_vaddr = 0x10, dst_value = 0, filled_addr = 0x500,
        arg_name = [0x61], arg_type = 4, shndx = 0, storage_class = 2, src_oc = 0\<rparr>" "[0x6b]"] l
    by (auto simp: import_room_def)
qed

end
