(* ===== verification/CoffEmit.thy ===== *)
theory CoffEmit
  imports CoffResolve Zld
begin

text \<open>
  \<open>coff/emit.c\<close>: writing the PE image, and \<open>do_coff_task\<close> of \<open>tools/zld.c\<close>, the
  order of the parts of the COFF linker.  The file is a byte memory with a position, as
  in \<open>ElfEmit\<close>.  Fresh memory of \<open>__malloc\<close> is zero, so the structures written are the
  fields that are set and 0 elsewhere.  The functions behind \<open>emit_obj\<close>, which nothing
  calls, are left out, and so is log output.
\<close>

definition PE32 :: u8 where "PE32 = 5"
definition SECTION_ALIGNMENT :: u32 where "SECTION_ALIGNMENT = 0x1000"
definition FILE_ALIGNMENT :: u32 where "FILE_ALIGNMENT = 0x200"

record pe =
  pcf :: coff
  pfile :: mem
  ppos :: nat

definition pwrite :: "u8 list \<Rightarrow> pe \<Rightarrow> pe" where
  "pwrite bs e = e\<lparr>pfile := put_bytes (ppos e) bs (pfile e), ppos := ppos e + length bs\<rparr>"

definition pconf :: "coff \<Rightarrow> Config" where
  "pconf c = conf (lks c)"

subsection \<open>Sizes\<close>

definition get_header_size :: "coff \<Rightarrow> u32 \<times> coff" where
  "get_header_size c =
     (if header_size c \<noteq> 0 then (header_size c, c)
      else let h = 64 + 4 + 20 + 240 + 40 * shdr_num (pconf c);
               h = (if file_format (pconf c) = PE32 then h - 0x10 else h);
               h = (h + (FILE_ALIGNMENT - 1)) AND - FILE_ALIGNMENT
           in (h, c\<lparr>header_size := h\<rparr>))"

definition get_out_size :: "coff \<Rightarrow> (u32 \<times> coff) option" where
  "get_out_size c = do {
     n \<leftarrow> iter (\<lambda>_. next_scon (lks c)) (\<lambda>k n. Some (n + scon_size (scons (lks c) k))) (initial_section (pconf c)) 0;
     let (h, c) = get_header_size c;
     Some (n + h, c)
   }"

subsection \<open>Headers\<close>

definition write_dos_header :: "pe \<Rightarrow> pe" where
  "write_dos_header = pwrite (enc_dos \<lparr>e_magic = 0x5a4d, e_cblp = 0xff, e_lfarlc = 0x60, e_lfanew = 0x40\<rparr>)"

definition write_nt_header_signature :: "pe \<Rightarrow> pe" where
  "write_nt_header_signature = pwrite (le32 0x4550)"

definition image_file_header :: "Config \<Rightarrow> IMAGE_FILE_HEADER" where
  "image_file_header c =
     (let t = outfile_type c; w32 = (file_format c = PE32);
          image = (t = PE_EXEC \<or> t = PE_DLL);
          ch = (if image then (if w32 then 0x32f else 0x22f) else 0)
      in \<lparr>Machine = (if w32 then 0x14c else 0x8664), NumberOfSections = 1, ifh_TimeDateStamp = 0,
          PointerToSymbolTable = 0, NumberOfSymbols = 0,
          SizeOfOptionalHeader = (if image then (if w32 then 224 else 240) else 0),
          ifh_Characteristics = (if t = PE_DLL then ch OR 0x2000 else ch)\<rparr>)"

definition write_image_file_header :: "pe \<Rightarrow> pe" where
  "write_image_file_header e = pwrite (enc_ifh (image_file_header (pconf (pcf e)))) e"

text \<open>The directory entries at \<open>d\<close> of the header \<open>oh\<close>, from the last section of every
  container.\<close>

definition directory_entry :: "nat \<Rightarrow> IMAGE_SECTION_HEADER \<Rightarrow> mem \<Rightarrow> mem" where
  "directory_entry d h oh =
     put32 (d + 4) (if VirtualSize h = 0 then SizeOfRawData h else VirtualSize h) (put32 d (VirtualAddress h) oh)"

definition section_directory :: "nat \<Rightarrow> coff \<Rightarrow> nat \<Rightarrow> mem \<Rightarrow> mem option" where
  "section_directory d c t oh =
     (let ish = sch_p (schs (lks c) t); h = rd_ish ish (cmem c) in
      if ish = 0 then None
      else do {
        nm \<leftarrow> str_at (cmem c) ish;
        let oh = (if z_strcmp nm (ascii ''.edata'') = 0 then directory_entry d h oh else oh);
        Some (if z_strcmp nm (ascii ''.idata'') = 0 then directory_entry (d + 8) h oh else oh)
      })"

definition set_image_directory_entry :: "nat \<Rightarrow> coff \<Rightarrow> mem \<Rightarrow> mem option" where
  "set_image_directory_entry d c =
     iter (\<lambda>_. next_scon (lks c))
       (\<lambda>k. iter (\<lambda>_. this_sch (lks c)) (section_directory d c) (scon_this (scons (lks c) k)))
       (initial_section (pconf c))"

text \<open>The fixed part, by offsets; a 32-bit header has \<open>BaseOfData\<close> at 24 and the
  \<open>ImageBase\<close> (a static variable that stays 0) at 28.\<close>

definition optional_header :: "u32 \<Rightarrow> Config \<Rightarrow> mem" where
  "optional_header hsize c =
     (let w32 = (file_format c = PE32);
          oh = put16 0 (if w32 then 0x10b else 0x20b) (\<lambda>_. 0);
          oh = put32 4 (out_size c) oh;
          oh = put32 20 0x1000 oh;
          oh = (if w32 then put32 28 0 (put32 24 0x1000 oh) else put64 24 (scast (base_address c)) oh);
          oh = put32 16 (if entry_address c \<noteq> 0 then ucast (entry_address c) else 0x1000) oh;
          oh = put16 40 6 oh;
          oh = put16 48 6 oh;
          oh = put32 56 ((out_size c + (2 * SECTION_ALIGNMENT - 1)) AND - SECTION_ALIGNMENT) oh;
          oh = put32 60 hsize oh;
          oh = put32 32 SECTION_ALIGNMENT oh;
          oh = put32 36 FILE_ALIGNMENT oh;
          oh = put16 68 3 oh
      in put32 (if w32 then 0x5c else 0x6c) 0x10 oh)"

definition write_optional_header :: "pe \<Rightarrow> pe option" where
  "write_optional_header e = do {
     let c = pcf e;
     c \<leftarrow> (if out_size (pconf c) = 0
          then map_option (\<lambda>(n, c). upd_lks (upd_conf (\<lambda>cf. cf\<lparr>out_size := n\<rparr>)) c) (get_out_size c) else Some c);
     let (hsize, c) = get_header_size c;
     let w32 = (file_format (pconf c) = PE32);
     oh \<leftarrow> set_image_directory_entry (if w32 then 0x60 else 0x70) c (optional_header hsize (pconf c));
     Some (pwrite (get_bytes 0 (if w32 then 224 else 240) oh) (e\<lparr>pcf := c\<rparr>))
   }"

text \<open>The only section header; the position is then set to the alignment of the file.\<close>

definition a_section :: "coff \<Rightarrow> IMAGE_SECTION_HEADER" where
  "a_section c = \<lparr>Name = ascii ''.gik'' @ [0, 0, 0, 0], VirtualSize = out_size (pconf c) - header_size c,
     VirtualAddress = 0x1000, SizeOfRawData = out_size (pconf c) - header_size c,
     PointerToRawData = header_size c, PointerToRelocations = 0, PointerToLinenumbers = 0,
     NumberOfRelocations = 0, NumberOfLinenumbers = 0,
     ish_Characteristics = IMAGE_SCN_MEM_EXECUTE OR IMAGE_SCN_MEM_READ OR IMAGE_SCN_MEM_WRITE\<rparr>"

definition write_a_section :: "pe \<Rightarrow> pe" where
  "write_a_section e = (pwrite (enc_ish (a_section (pcf e))) e)\<lparr>ppos := unat FILE_ALIGNMENT\<rparr>"

subsection \<open>Data\<close>

definition write_a_chain :: "nat \<Rightarrow> pe \<Rightarrow> pe option" where
  "write_a_chain x e =
     (let sc = schs (lks (pcf e)) x; n = unat (SizeOfRawData (rd_ish (sch_p sc) (cmem (pcf e)))) in
      if sch_p sc = 0 then None
      else Some (if n \<noteq> 0 then pwrite (get_bytes (sch_data sc) n (cmem (pcf e))) e else e))"

definition coff_write_raw_data :: "nat \<Rightarrow> pe \<Rightarrow> pe option" where
  "coff_write_raw_data k e =
     iter (\<lambda>e. this_sch (lks (pcf e))) write_a_chain (scon_init (scons (lks (pcf e)) k)) e"

definition emit_dos :: "pe \<Rightarrow> pe option" where
  "emit_dos e = do {
     let e = write_dos_header e;
     let e = write_nt_header_signature e;
     let e = write_image_file_header e;
     e \<leftarrow> write_optional_header e;
     let e = write_a_section e;
     iter (\<lambda>e. next_scon (lks (pcf e))) coff_write_raw_data (initial_section (pconf (pcf e))) e
   }"

definition gen_pe :: "coff \<Rightarrow> pe option" where
  "gen_pe c = emit_dos \<lparr>pcf = c, pfile = (\<lambda>_. 0), ppos = 0\<rparr>"

subsection \<open>\<open>do_coff_task\<close>\<close>

definition iterate_coff :: "(nat \<Rightarrow> coff \<Rightarrow> coff option) \<Rightarrow> coff \<Rightarrow> coff option" where
  "iterate_coff f c = iter (\<lambda>c. next_scon (lks c)) f (initial_section (pconf c)) c"

definition do_coff_task :: "coff \<Rightarrow> pe option" where
  "do_coff_task c = do {
     (_, c) \<leftarrow> add_coff_section (ascii ''.edata'') 0 (export_directory_len c) 0 c;
     c \<leftarrow> iterate_coff coff_set_virtual_address c;
     c \<leftarrow> add_export c;
     c \<leftarrow> iterate_coff coff_do_reloc c;
     c \<leftarrow> add_import c;
     gen_pe c
   }"

subsection \<open>The data in the file\<close>

lemma pwrite_fields [simp]:
  "pcf (pwrite bs e) = pcf e" "ppos (pwrite bs e) = ppos e + length bs"
  "pfile (pwrite bs e) = put_bytes (ppos e) bs (pfile e)"
  by (simp_all add: pwrite_def)

lemma pwrite_Nil [simp]: "pwrite [] e = e"
  by (simp add: pwrite_def)

lemma pwrite_append: "pwrite (xs @ ys) e = pwrite ys (pwrite xs e)"
  by (simp add: pwrite_def put_bytes_append)

definition raw_size :: "coff \<Rightarrow> nat \<Rightarrow> nat" where
  "raw_size c x = unat (SizeOfRawData (rd_ish (sch_p (schs (lks c) x)) (cmem c)))"

definition raw_data :: "coff \<Rightarrow> nat \<Rightarrow> u8 list" where
  "raw_data c x = get_bytes (sch_data (schs (lks c) x)) (raw_size c x) (cmem c)"

text \<open>A container with the sections \<open>xs\<close>, the last of which (the chain \<open>ts\<close> from the
  tail pointer) have readable names.\<close>

definition pe_container :: "coff \<Rightarrow> nat \<Rightarrow> nat list \<Rightarrow> nat list \<Rightarrow> bool" where
  "pe_container c k xs ts \<longleftrightarrow> opath (this_sch (lks c)) (scon_init (scons (lks c) k)) xs \<and>
     opath (this_sch (lks c)) (scon_this (scons (lks c) k)) ts \<and> (\<forall>x \<in> set xs \<union> set ts. sch_p (schs (lks c) x) \<noteq> 0) \<and>
     (\<forall>t \<in> set ts. str_at (cmem c) (sch_p (schs (lks c) t)) \<noteq> None)"

lemma iter_invariant:
  assumes "opath nx p xs" "\<And>x s. x \<in> set xs \<Longrightarrow> P s \<Longrightarrow> \<exists>s'. f x s = Some s' \<and> P s'" "P s"
  shows "\<exists>s'. iter (\<lambda>_. nx) f p s = Some s' \<and> P s'"
  using iter_opath [where nx = "\<lambda>_. nx" and P = P and f = f and s = s and p = p and xs = xs] assms by auto

lemma raw_write_step:
  assumes "pcf e = c" "sch_p (schs (lks c) x) \<noteq> 0"
  shows "write_a_chain x e = Some (pwrite (raw_data c x) e)"
  using assms by (auto simp: write_a_chain_def Let_def raw_data_def raw_size_def get_bytes_def)

lemma fold_opt_writes:
  assumes "\<And>x e. x \<in> set xs \<Longrightarrow> pcf e = c \<Longrightarrow> f x e = Some (pwrite (g x) e)" "pcf e = c"
  shows "fold_opt f xs e = Some (pwrite (concat (map g xs)) e)"
  using assms by (induction xs arbitrary: e) (simp_all add: pwrite_append)

lemma raw_write_container:
  assumes "pe_container c k xs ts" "pcf e = c"
  shows "coff_write_raw_data k e = Some (pwrite (concat (map (raw_data c) xs)) e)"
proof -
  have w: "write_a_chain x e = Some (pwrite (raw_data c x) e)" if "x \<in> set xs" "pcf e = c" for x e
    using raw_write_step that assms(1) by (simp add: pe_container_def)
  have "coff_write_raw_data k e = fold_opt write_a_chain xs e"
    using assms w iter_opath [where nx = "\<lambda>e. this_sch (lks (pcf e))" and P = "\<lambda>e. pcf e = c" and f = write_a_chain
        and s = e and p = "scon_init (scons (lks c) k)" and xs = xs]
    by (simp add: coff_write_raw_data_def pe_container_def)
  also have "\<dots> = Some (pwrite (concat (map (raw_data c) xs)) e)"
    using w assms(2) by (rule fold_opt_writes)
  finally show ?thesis .
qed

lemma raw_write_all:
  assumes "opath (next_scon (lks c)) (initial_section (pconf c)) ks" "\<And>k. k \<in> set ks \<Longrightarrow> pe_container c k (ss k) (ts k)" "pcf e = c"
  shows "iter (\<lambda>e. next_scon (lks (pcf e))) coff_write_raw_data (initial_section (pconf (pcf e))) e =
    Some (pwrite (concat (map (raw_data c) (concat (map ss ks)))) e)"
proof -
  have w: "coff_write_raw_data k e = Some (pwrite (concat (map (raw_data c) (ss k))) e)" if "k \<in> set ks" "pcf e = c" for k e
    using raw_write_container assms(2) that by blast
  have "iter (\<lambda>e. next_scon (lks (pcf e))) coff_write_raw_data (initial_section (pconf (pcf e))) e = fold_opt coff_write_raw_data ks e"
    using assms w iter_opath [where nx = "\<lambda>e. next_scon (lks (pcf e))" and P = "\<lambda>e. pcf e = c" and f = coff_write_raw_data
        and s = e and p = "initial_section (pconf c)" and xs = ks]
    by simp
  also have "\<dots> = Some (pwrite (concat (map (\<lambda>k. concat (map (raw_data c) (ss k))) ks)) e)"
    using w assms(3) by (rule fold_opt_writes)
  also have "concat (map (\<lambda>k. concat (map (raw_data c) (ss k))) ks) = concat (map (raw_data c) (concat (map ss ks)))"
    by (induction ks) simp_all
  finally show ?thesis .
qed

subsection \<open>The headers in the file\<close>

text \<open>What the optional header changes in the state: the two sizes.\<close>

definition size_state :: "coff \<Rightarrow> u32 \<Rightarrow> u32 \<Rightarrow> coff" where
  "size_state c n h = upd_lks (upd_conf (\<lambda>cf. cf\<lparr>out_size := n\<rparr>)) (c\<lparr>header_size := h\<rparr>)"

definition container_sizes :: "coff \<Rightarrow> nat list \<Rightarrow> u32" where
  "container_sizes c ks = sum_list (map (\<lambda>k. scon_size (scons (lks c) k)) ks)"

lemma directory_total:
  assumes "opath (next_scon (lks c)) (initial_section (pconf c)) ks" "\<And>k. k \<in> set ks \<Longrightarrow> pe_container c k (ss k) (ts k)"
  shows "\<exists>oh'. set_image_directory_entry d c oh = Some oh' \<and> (\<forall>x < d. oh' x = oh x)"
proof -
  let ?P = "\<lambda>oh'. \<forall>x < d. oh' x = oh x"
  have "\<exists>oh'. section_directory d c t oh1 = Some oh' \<and> ?P oh'" if "k \<in> set ks" "t \<in> set (ts k)" "?P oh1" for k t oh1
    using assms(2) [OF that(1)] that(2,3)
    by (auto simp: section_directory_def directory_entry_def Let_def pe_container_def put_apply_other)
  then have "\<exists>oh'. iter (\<lambda>_. this_sch (lks c)) (section_directory d c) (scon_this (scons (lks c) k)) oh1 = Some oh' \<and> ?P oh'"
    if "k \<in> set ks" "?P oh1" for k oh1
    using assms(2) [OF that(1)] that by (intro iter_invariant [of _ _ "ts k"]) (auto simp: pe_container_def)
  then show ?thesis
    unfolding set_image_directory_entry_def by (intro iter_invariant [OF assms(1)]) blast+
qed

lemma get_out_size_eq:
  assumes "opath (next_scon (lks c)) (initial_section (pconf c)) ks"
  shows "get_out_size c = Some (container_sizes c ks + fst (get_header_size c), snd (get_header_size c))"
proof -
  have "fold_opt (\<lambda>k n. Some (n + scon_size (scons (lks c) k))) ks a = Some (a + container_sizes c ks)" for a
    by (induction ks arbitrary: a) (simp_all add: container_sizes_def add.assoc)
  then show ?thesis
    using iter_opath [where nx = "\<lambda>_. next_scon (lks c)" and P = "\<lambda>_. True" and s = "0 :: u32"
        and f = "\<lambda>k n. Some (n + scon_size (scons (lks c) k))" and p = "initial_section (pconf c)" and xs = ks] assms
    by (simp add: get_out_size_def split: prod.split)
qed

lemma size_state_fields [simp]:
  "schs (lks (size_state c n h)) = schs (lks c)" "scons (lks (size_state c n h)) = scons (lks c)"
  "cmem (size_state c n h) = cmem c" "pconf (size_state c n h) = (pconf c)\<lparr>out_size := n\<rparr>" "header_size (size_state c n h) = h"
  by (simp_all add: size_state_def upd_lks_def upd_conf_def cmem_def pconf_def)

lemma size_state_same [simp]:
  "this_sch (lks (size_state c n h)) = this_sch (lks c)" "pe_container (size_state c n h) = pe_container c" "raw_data (size_state c n h) = raw_data c"
  "next_scon (lks (size_state c n h)) = next_scon (lks c)"
proof -
  show t: "this_sch (lks (size_state c n h)) = this_sch (lks c)" by (simp add: fun_eq_iff this_sch_def)
  show "pe_container (size_state c n h) = pe_container c" by (simp add: fun_eq_iff pe_container_def t)
  show "raw_data (size_state c n h) = raw_data c" by (simp add: fun_eq_iff raw_data_def raw_size_def)
  show "next_scon (lks (size_state c n h)) = next_scon (lks c)" by (simp add: fun_eq_iff next_scon_def)
qed

definition optional_size :: "coff \<Rightarrow> nat" where
  "optional_size c = (if file_format (pconf c) = PE32 then 224 else 240)"

text \<open>The fixed part of the optional header at its start.\<close>

definition header_start :: "coff \<Rightarrow> u8 list \<Rightarrow> bool" where
  "header_start c bs \<longleftrightarrow> (\<forall>x < 0x60. bs ! x = optional_header 0x200 (pconf c) x)"

text \<open>The directory entries it ends with.\<close>

definition directories_of :: "coff \<Rightarrow> u8 list \<Rightarrow> bool" where
  "directories_of c bs \<longleftrightarrow> (\<exists>oh. set_image_directory_entry (if file_format (pconf c) = PE32 then 0x60 else 0x70) c
     (optional_header 0x200 (pconf c)) = Some oh \<and> bs = get_bytes 0 (optional_size c) oh)"

lemma write_optional_header_eq:
  assumes "opath (next_scon (lks c)) (initial_section (pconf c)) ks" "\<And>k. k \<in> set ks \<Longrightarrow> pe_container c k (ss k) (ts k)"
    and "pcf e = c" "out_size (pconf c) = 0" "header_size c = 0" "shdr_num (pconf c) = 1"
  shows "\<exists>bs. write_optional_header e =
    Some (pwrite bs (e\<lparr>pcf := size_state c (container_sizes c ks + 0x200) 0x200\<rparr>)) \<and> length bs = optional_size c \<and>
    header_start (size_state c (container_sizes c ks + 0x200) 0x200) bs \<and>
    directories_of (size_state c (container_sizes c ks + 0x200) 0x200) bs"
proof -
  let ?c = "size_state c (container_sizes c ks + 0x200) 0x200" and ?d = "if file_format (pconf c) = PE32 then 0x60 else 0x70 :: nat"
  have h: "get_header_size c = (0x200, c\<lparr>header_size := 0x200\<rparr>)"
    using assms(5,6) by (simp add: get_header_size_def FILE_ALIGNMENT_def)
  have n: "get_out_size c = Some (container_sizes c ks + 0x200, c\<lparr>header_size := 0x200\<rparr>)"
    using get_out_size_eq [OF assms(1)] h by simp
  have "get_header_size ?c = (0x200, ?c)" by (simp add: get_header_size_def)
  moreover have "initial_section (pconf ?c) = initial_section (pconf c)" by simp
  then have "\<exists>oh. set_image_directory_entry ?d ?c (optional_header 0x200 (pconf ?c)) = Some oh \<and>
      (\<forall>x < ?d. oh x = optional_header 0x200 (pconf ?c) x)"
    using assms(1,2) by (intro directory_total [of ?c ks ss ts]) simp_all
  then obtain oh where oh: "set_image_directory_entry ?d ?c (optional_header 0x200 (pconf ?c)) = Some oh"
      "\<forall>x < ?d. oh x = optional_header 0x200 (pconf ?c) x"
    by blast
  have "header_start ?c (get_bytes 0 (optional_size c) oh)"
    using oh(2) unfolding header_start_def optional_size_def get_bytes_def by (auto split: if_splits)
  moreover have "upd_lks (upd_conf (\<lambda>cf. cf\<lparr>out_size := container_sizes c ks + 0x200\<rparr>)) (c\<lparr>header_size := 0x200\<rparr>) = ?c"
    by (simp add: size_state_def)
  moreover have "directories_of ?c (get_bytes 0 (optional_size c) oh)"
    using oh(1) by (simp add: directories_of_def optional_size_def)
  ultimately show ?thesis
    using n oh(1) assms(3,4)
    by (intro exI [of _ "get_bytes 0 (optional_size c) oh"]) (simp add: write_optional_header_def Let_def optional_size_def)
qed

text \<open>The loader: the section header behind the optional header maps an address of the
  image to an offset of the file.\<close>

definition section_table :: "mem \<Rightarrow> nat" where
  "section_table f = (let nt = unat (get32 0x3c f) in nt + 24 + unat (SizeOfOptionalHeader (rd_ifh (nt + 4) f)))"

definition file_offset :: "mem \<Rightarrow> u32 \<Rightarrow> nat" where
  "file_offset f v = (let h = rd_ish (section_table f) f in
     unat (PointerToRawData h) + (unat v - unat (VirtualAddress h)))"

lemma rd_cong:
  "(\<And>x. a \<le> x \<Longrightarrow> x < a + 20 \<Longrightarrow> m' x = m x) \<Longrightarrow> rd_ifh a m' = rd_ifh a m"
  "(\<And>x. a \<le> x \<Longrightarrow> x < a + 40 \<Longrightarrow> m' x = m x) \<Longrightarrow> rd_ish a m' = rd_ish a m"
proof -
  assume m: "\<And>x. a \<le> x \<Longrightarrow> x < a + 20 \<Longrightarrow> m' x = m x"
  have "get16 a m' = get16 a m" "get16 (a + 2) m' = get16 (a + 2) m" "get32 (a + 4) m' = get32 (a + 4) m"
    "get32 (a + 8) m' = get32 (a + 8) m" "get32 (a + 12) m' = get32 (a + 12) m" "get16 (a + 16) m' = get16 (a + 16) m"
    "get16 (a + 18) m' = get16 (a + 18) m"
    by (intro get_cong m; simp)+
  then show "rd_ifh a m' = rd_ifh a m" unfolding rd_ifh_def by simp
next
  assume m: "\<And>x. a \<le> x \<Longrightarrow> x < a + 40 \<Longrightarrow> m' x = m x"
  have "get_bytes a 8 m' = get_bytes a 8 m" "get32 (a + 8) m' = get32 (a + 8) m" "get32 (a + 12) m' = get32 (a + 12) m"
    "get32 (a + 16) m' = get32 (a + 16) m" "get32 (a + 20) m' = get32 (a + 20) m" "get32 (a + 24) m' = get32 (a + 24) m"
    "get32 (a + 28) m' = get32 (a + 28) m" "get16 (a + 32) m' = get16 (a + 32) m" "get16 (a + 34) m' = get16 (a + 34) m"
    "get32 (a + 36) m' = get32 (a + 36) m"
    by (intro get_cong get_bytes_cong m; simp)+
  then show "rd_ish a m' = rd_ish a m" unfolding rd_ish_def by simp
qed

definition dos_header :: IMAGE_DOS_HEADER where
  "dos_header = \<lparr>e_magic = 0x5a4d, e_cblp = 0xff, e_lfarlc = 0x60, e_lfanew = 0x40\<rparr>"

definition pe_file :: "coff \<Rightarrow> u8 list \<Rightarrow> u32 \<Rightarrow> u8 list \<Rightarrow> mem" where
  "pe_file c opt n data = put_bytes 0x200 data (put_bytes (88 + length opt) (enc_ish (a_section (size_state c n 0x200)))
     (put_bytes 88 opt (put_bytes 68 (enc_ifh (image_file_header (pconf c)))
     (put_bytes 64 (le32 0x4550) (put_bytes 0 (enc_dos dos_header) (\<lambda>_. 0))))))"

lemma gen_pe_eq:
  assumes "opath (next_scon (lks c)) (initial_section (pconf c)) ks" "\<And>k. k \<in> set ks \<Longrightarrow> pe_container c k (ss k) (ts k)"
    and "out_size (pconf c) = 0" "header_size c = 0" "shdr_num (pconf c) = 1"
  shows "\<exists>e' opt. gen_pe c = Some e' \<and> length opt = optional_size c \<and> header_start (size_state c (container_sizes c ks + 0x200) 0x200) opt \<and>
    directories_of (size_state c (container_sizes c ks + 0x200) 0x200) opt \<and>
    pfile e' = pe_file c opt (container_sizes c ks + 0x200) (concat (map (raw_data c) (concat (map ss ks))))"
proof -
  define e1 where "e1 = write_image_file_header (write_nt_header_signature (write_dos_header \<lparr>pcf = c, pfile = (\<lambda>_. 0), ppos = 0\<rparr>))"
  let ?n = "container_sizes c ks + 0x200" and ?data = "concat (map (raw_data c) (concat (map ss ks)))"
  let ?c = "size_state c ?n 0x200"
  have e1: "pcf e1 = c" "ppos e1 = 88" "pfile e1 = put_bytes 68 (enc_ifh (image_file_header (pconf c)))
     (put_bytes 64 (le32 0x4550) (put_bytes 0 (enc_dos dos_header) (\<lambda>_. 0)))"
    by (simp_all add: e1_def write_image_file_header_def write_nt_header_signature_def write_dos_header_def dos_header_def layout_simps)
  obtain opt where opt: "write_optional_header e1 = Some (pwrite opt (e1\<lparr>pcf := ?c\<rparr>))" "length opt = optional_size c" "header_start ?c opt" "directories_of ?c opt"
    using write_optional_header_eq [OF assms(1,2) e1(1) assms(3-5)] by blast
  define e2 where "e2 = write_a_section (pwrite opt (e1\<lparr>pcf := ?c\<rparr>))"
  have e2: "pcf e2 = ?c" "ppos e2 = 0x200" "pfile e2 = put_bytes (88 + length opt) (enc_ish (a_section ?c)) (put_bytes 88 opt (pfile e1))"
    by (simp_all add: e2_def write_a_section_def FILE_ALIGNMENT_def e1(2))
  have ks: "opath (next_scon (lks ?c)) (initial_section (pconf ?c)) ks" using assms(1) by simp
  have cs: "pe_container ?c k (ss k) (ts k)" if "k \<in> set ks" for k using assms(2) [OF that] by simp
  from raw_write_all [OF ks cs e2(1)] have "gen_pe c = Some (pwrite ?data e2)"
    using opt(1) by (simp add: gen_pe_def emit_dos_def Let_def e1_def e2_def)
  moreover have "pfile (pwrite ?data e2) = pe_file c opt ?n ?data"
    using e2(2,3) e1(3) by (simp add: pe_file_def)
  ultimately show ?thesis using opt(2-4) by blast
qed

lemma length_a_section: "length (Name (a_section c)) = 8"
  by (simp add: a_section_def ascii_def)

lemma pe_file_heads:
  fixes n data
  assumes "length opt = optional_size c" "outfile_type (pconf c) = PE_EXEC \<or> outfile_type (pconf c) = PE_DLL"
  defines "f \<equiv> pe_file c opt n data"
  shows "get16 0 f = 0x5a4d" "get32 0x3c f = 0x40" "get32 0x40 f = 0x4550" "rd_ifh 0x44 f = image_file_header (pconf c)"
    "section_table f = 88 + optional_size c" "rd_ish (section_table f) f = a_section (size_state c n 0x200)"
proof -
  note len = assms(1) length_a_section layout_simps
  have os: "88 + optional_size c + 40 \<le> 0x200" by (simp add: optional_size_def)
  have s: "f x = put_bytes 64 (le32 0x4550) (put_bytes 0 (enc_dos dos_header) (\<lambda>_. 0)) x" if "x < 68" for x
    using that by (simp add: f_def pe_file_def put_bytes_apply len)
  have d: "f x = put_bytes 0 (enc_dos dos_header) (\<lambda>_. 0) x" if "x < 64" for x
    using that s [of x] by (simp add: put_bytes_apply len)
  have "get16 0 f = get16 0 (put_bytes 0 (enc_dos dos_header) (\<lambda>_. 0))" by (intro get_cong d) simp
  then show "get16 0 f = 0x5a4d"
    using get_put_bytes_in(1) [of 0 "enc_dos dos_header" 0] by (simp add: len) (simp add: enc_dos_def dos_header_def)
  have "get32 0x3c f = get32 0x3c (put_bytes 0 (enc_dos dos_header) (\<lambda>_. 0))" by (intro get_cong d) simp
  then show nt: "get32 0x3c f = 0x40"
    using get_put_bytes_in(2) [of 60 "enc_dos dos_header" 0] by (simp add: len) (simp add: enc_dos_def dos_header_def)
  have "get32 0x40 f = get32 0x40 (put_bytes 64 (le32 0x4550) (put_bytes 0 (enc_dos dos_header) (\<lambda>_. 0)))" by (intro get_cong s) simp
  then show "get32 0x40 f = 0x4550" using get_put_bytes_in(2) [of 0 "le32 0x4550" 64] by simp
  have "rd_ifh 68 f = rd_ifh 68 (put_bytes 68 (enc_ifh (image_file_header (pconf c)))
     (put_bytes 64 (le32 0x4550) (put_bytes 0 (enc_dos dos_header) (\<lambda>_. 0))))"
    by (intro rd_cong) (simp add: f_def pe_file_def put_bytes_apply len)
  then show fh: "rd_ifh 0x44 f = image_file_header (pconf c)" by (simp add: rd_enc_ifh)
  have "unat (SizeOfOptionalHeader (image_file_header (pconf c))) = optional_size c"
    using assms(2) by (auto simp: image_file_header_def optional_size_def Let_def)
  then show st: "section_table f = 88 + optional_size c" using nt fh by (simp add: section_table_def Let_def)
  have "rd_ish (88 + optional_size c) f = rd_ish (88 + optional_size c) (put_bytes (88 + optional_size c)
      (enc_ish (a_section (size_state c n 0x200))) (put_bytes 88 opt (put_bytes 68 (enc_ifh (image_file_header (pconf c)))
     (put_bytes 64 (le32 0x4550) (put_bytes 0 (enc_dos dos_header) (\<lambda>_. 0))))))"
    using os by (intro rd_cong) (simp add: f_def pe_file_def put_bytes_apply [of "0x200"] assms(1))
  then show "rd_ish (section_table f) f = a_section (size_state c n 0x200)"
    unfolding st by (simp add: rd_enc_ish length_a_section)
qed

text \<open>C35: The PE image.  For an image of which nothing has been sized yet, \<open>gen_pe\<close> succeeds
  and writes a file whose headers are found the way a loader finds them, with one
  section that is as long as the containers are; the section header maps the address
  of every section that was placed behind the sections before it to the offset where
  its data stand.\<close>

theorem pe_image_holds_sections:
  fixes c ks ss
  defines "U \<equiv> concat (map ss ks)"
  assumes "opath (next_scon (lks c)) (initial_section (pconf c)) ks" "\<forall>k \<in> set ks. pe_container c k (ss k) (ts k)"
    and "out_size (pconf c) = 0" "header_size c = 0" "shdr_num (pconf c) = 1"
    and "outfile_type (pconf c) = PE_EXEC \<or> outfile_type (pconf c) = PE_DLL"
  shows "\<exists>e'. gen_pe c = Some e' \<and>
    get16 0 (pfile e') = 0x5a4d \<and> get32 (unat (get32 0x3c (pfile e'))) (pfile e') = 0x4550 \<and>
    rd_ifh 0x44 (pfile e') = image_file_header (pconf c) \<and>
    SizeOfRawData (rd_ish (section_table (pfile e')) (pfile e')) = container_sizes c ks \<and>
    (\<forall>pre x post. U = pre @ x # post \<longrightarrow>
       unat (sch_vaddr (schs (lks c) x)) = 0x1000 + sum_list (map (raw_size c) pre) \<longrightarrow>
       get_bytes (file_offset (pfile e') (sch_vaddr (schs (lks c) x))) (raw_size c x) (pfile e') = raw_data c x)"
proof -
  obtain e' opt where e': "gen_pe c = Some e'" "length opt = optional_size c"
    "pfile e' = pe_file c opt (container_sizes c ks + 0x200) (concat (map (raw_data c) U))"
    using gen_pe_eq [OF assms(2) _ assms(4-6)] assms(3) unfolding U_def by blast
  note h = pe_file_heads [OF e'(2) assms(7), of "container_sizes c ks + 0x200" "concat (map (raw_data c) U)", folded e'(3)]
  have "get_bytes (file_offset (pfile e') (sch_vaddr (schs (lks c) x))) (raw_size c x) (pfile e') = raw_data c x"
    if U: "U = pre @ x # post" and v: "unat (sch_vaddr (schs (lks c) x)) = 0x1000 + sum_list (map (raw_size c) pre)" for pre x post
  proof -
    define off where "off = sum_list (map (raw_size c) pre)"
    have len: "length (concat (map (raw_data c) pre)) = off" unfolding off_def by (induction pre) (simp_all add: raw_data_def)
    have "file_offset (pfile e') (sch_vaddr (schs (lks c) x)) = 0x200 + off"
      using v h(6) by (simp add: file_offset_def Let_def a_section_def off_def)
    moreover have "get_bytes (0x200 + off) (raw_size c x) (pfile e') = raw_data c x"
      unfolding e'(3) pe_file_def U using len
      by (subst get_bytes_put_bytes_in) (simp_all add: raw_data_def)
    ultimately show ?thesis by simp
  qed
  note data = this
  have "SizeOfRawData (rd_ish (section_table (pfile e')) (pfile e')) = container_sizes c ks"
    using h(6) by (simp add: a_section_def)
  then show ?thesis using e'(1) h(1-4) data by (intro exI [of _ e'] conjI allI impI) simp_all
qed

text \<open>One container with one section of two bytes at \<open>0x1000\<close>, named \<open>.\<close>.\<close>

definition coff1 :: coff where
  "coff1 = coff0\<lparr>lks := zero_lst\<lparr>conf := zero_conf\<lparr>file_format := 8, outfile_type := 2, shdr_num := 1\<rparr>,
     scons := (\<lambda>_. zero_scon\<lparr>scon_init := Some 0, scon_this := Some 0, scon_size := 2\<rparr>),
     schs := (\<lambda>_. zero_sch\<lparr>sch_p := 0x3000, sch_data := 0x4000, sch_vaddr := 0x1000\<rparr>),
     lmem := put_bytes 0x4000 [7, 8] (put32 0x3010 2 (put_bytes 0x3000 [0x2e] (\<lambda>_. 0)))\<rparr>\<rparr>"

lemma coff1_parts:
  shows "raw_size coff1 0 = 2" "raw_data coff1 0 = [7, 8]" "opath (next_scon (lks coff1)) (initial_section (pconf coff1)) [0]"
    "\<forall>k \<in> set [0]. pe_container coff1 k [0] [0]" "sch_vaddr (schs (lks coff1) x) = 0x1000" "container_sizes coff1 [0] = 2"
    "out_size (pconf coff1) = 0" "header_size coff1 = 0" "shdr_num (pconf coff1) = 1" "outfile_type (pconf coff1) = PE_EXEC"
proof -
  have m: "cmem coff1 = put_bytes 0x4000 [7, 8] (put32 0x3010 2 (put_bytes 0x3000 [0x2e] (\<lambda>_. 0)))"
    by (simp add: coff1_def cmem_def)
  have s: "schs (lks coff1) x = zero_sch\<lparr>sch_p := 0x3000, sch_data := 0x4000, sch_vaddr := 0x1000\<rparr>" for x by (simp add: coff1_def)
  have "cmem coff1 0x3000 = 0x2e" "cmem coff1 0x3001 = 0"
    unfolding m by (simp_all add: put_bytes_apply put_apply_other del: put_bytes.simps)
  then have nm: "str_at (cmem coff1) 0x3000 = Some [0x2e]" by (intro str_at_bytes) (simp_all add: get_bytes_def)
  show n: "raw_size coff1 0 = 2" unfolding raw_size_def m s by (simp add: rd_ish_def mem_simps del: put_bytes.simps)
  show "raw_data coff1 0 = [7, 8]"
    using get_put_bytes [of "0x4000" "[7, 8]"] unfolding raw_data_def n m s by (simp add: numeral_2_eq_2 del: put_bytes.simps)
  show "opath (next_scon (lks coff1)) (initial_section (pconf coff1)) [0]"
    by (simp add: opath_def next_scon_def coff1_def pconf_def zero_defs)
  show "\<forall>k \<in> set [0]. pe_container coff1 k [0] [0]"
    using nm by (simp add: pe_container_def s opath_def this_sch_def coff1_def zero_defs)
  show "sch_vaddr (schs (lks coff1) x) = 0x1000" by (simp add: s)
  show "container_sizes coff1 [0] = 2" by (simp add: container_sizes_def coff1_def)
  show "out_size (pconf coff1) = 0" "header_size coff1 = 0" "shdr_num (pconf coff1) = 1" "outfile_type (pconf coff1) = PE_EXEC"
    by (simp_all add: coff1_def pconf_def zero_defs coff0_def PE_EXEC_def)
qed

lemma pe_image_holds_sections_witness:
  "\<exists>e'. gen_pe coff1 = Some e' \<and> get_bytes (file_offset (pfile e') 0x1000) 2 (pfile e') = [7, 8]"
proof -
  from pe_image_holds_sections [OF coff1_parts(3,4)] obtain e' where e': "gen_pe coff1 = Some e'"
    "\<forall>pre x post. [0] = pre @ x # post \<longrightarrow>
       unat (sch_vaddr (schs (lks coff1) x)) = 0x1000 + sum_list (map (raw_size coff1) pre) \<longrightarrow>
       get_bytes (file_offset (pfile e') (sch_vaddr (schs (lks coff1) x))) (raw_size coff1 x) (pfile e') = raw_data coff1 x"
    by (auto simp: coff1_parts)
  from e'(2) [rule_format, of "[]" 0 "[]"] e'(1) show ?thesis by (simp add: coff1_parts)
qed

end
