(* ===== verification/GuestMem.thy ===== *)
theory GuestMem
  imports CString "HOL-Library.Monad_Syntax"
begin

text \<open>
  \<open>core/memory.c\<close>: the memory of the guest of the emulator.  Every mapping has an entry
  in a table on one shared page; \<open>HEAP_HEADER_ADDR_HEAD .. HEAP_HEADER_ADDR_P\<close> is the
  list \<open>heaps\<close>.  The system is a parameter of the state: \<open>maps\<close> are the addresses the
  coming \<open>mmap\<close> calls return (\<open>-1\<close> for a failure), file descriptors and sizes are
  arguments.  A guest address is 32 bits wide, a host address 64; \<open>PAGE_SIZE\<close> is 4096.
\<close>

definition PAGE_SIZE :: nat where "PAGE_SIZE = 4096"

definition MAP_FAILED :: u64 where "MAP_FAILED = - 1"

record heap =
  h_begin :: u64
  page_num :: u16
  h_flags :: u32
  h_file :: u16
  h_guest_addr :: u32
  index1 :: u16
  index2 :: u16
  name_or_parent :: u64

record gmem =
  heaps :: "heap list"
  PAGE_PATH :: "u8 list"
  maps :: "u64 list"

text \<open>The table: the first entry of the page is taken by the thread counter, an entry
  is 32 bytes long, and writing behind the page faults.\<close>

definition HEAP_ENTRIES :: nat where "HEAP_ENTRIES = 127"

definition add_heap :: "heap \<Rightarrow> gmem \<Rightarrow> gmem option" where
  "add_heap h g = (if length (heaps g) < HEAP_ENTRIES then Some (g\<lparr>heaps := heaps g @ [h]\<rparr>) else None)"

definition mmap :: "gmem \<Rightarrow> (u64 \<times> gmem) option" where
  "mmap g = (case maps g of [] \<Rightarrow> None | a # as \<Rightarrow> Some (a, g\<lparr>maps := as\<rparr>))"

definition set_heap_header :: "u64 list \<Rightarrow> gmem" where
  "set_heap_header ms = \<lparr>heaps = [], PAGE_PATH = ascii ''static/page/_00/_00.bin'', maps = ms\<rparr>"

text \<open>What the destructor gives back: addresses and sizes for \<open>munmap\<close>, descriptors for
  \<open>close\<close>.\<close>

definition unset_heap_header :: "gmem \<Rightarrow> (u64 \<times> nat) list \<times> u16 list" where
  "unset_heap_header g = (map (\<lambda>h. (h_begin h, PAGE_SIZE)) (heaps g), filter (\<lambda>f. f \<noteq> 0) (map h_file (heaps g)))"

subsection \<open>The page path\<close>

text \<open>\<open>strrchr\<close> for a slash that occurs.\<close>

definition last_slash :: "u8 list \<Rightarrow> nat" where
  "last_slash s = length s - 1 - length (takeWhile (\<lambda>c. c \<noteq> 0x2f) (rev s))"

definition get_page_path1 :: "gmem \<Rightarrow> u8" where
  "get_page_path1 g = PAGE_PATH g ! (last_slash (PAGE_PATH g) - 1)"

definition set_page_path1 :: "u8 \<Rightarrow> gmem \<Rightarrow> gmem" where
  "set_page_path1 p g = g\<lparr>PAGE_PATH := (PAGE_PATH g)[last_slash (PAGE_PATH g) - 1 := p]\<rparr>"

definition update_page_path1 :: "gmem \<Rightarrow> gmem" where
  "update_page_path1 g = set_page_path1 (get_page_path1 g + 1) g"

definition get_page_path2 :: "gmem \<Rightarrow> u8" where
  "get_page_path2 g = PAGE_PATH g ! (last_slash (PAGE_PATH g) + 3)"

definition set_page_path2 :: "u8 \<Rightarrow> gmem \<Rightarrow> gmem" where
  "set_page_path2 p g = g\<lparr>PAGE_PATH := (PAGE_PATH g)[last_slash (PAGE_PATH g) + 3 := p]\<rparr>"

definition update_page_path2 :: "gmem \<Rightarrow> gmem" where
  "update_page_path2 g = set_page_path2 (get_page_path2 g + 1) g"

subsection \<open>Mappings\<close>

text \<open>A failed mapping gives the null pointer, the inner \<open>None\<close>; fields that are not
  set keep what the fresh page holds, 0.\<close>

definition map_file :: "u16 \<Rightarrow> u32 \<Rightarrow> u32 \<Rightarrow> gmem \<Rightarrow> (heap option \<times> gmem) option" where
  "map_file fd sz guest g = do {
     (a, g) \<leftarrow> mmap g;
     if a = MAP_FAILED then Some (None, g)
     else do {
       let h = \<lparr>h_begin = a, page_num = 0x1000 + ucast sz, h_flags = 1, h_file = fd, h_guest_addr = guest,
                index1 = 0, index2 = 0, name_or_parent = 0\<rparr>;
       g \<leftarrow> add_heap h g;
       Some (Some h, g)
     }
   }"

text \<open>\<open>st\<close> is the size of the file, or \<open>None\<close> if it cannot be opened or examined.\<close>

definition init_map_file :: "u16 \<Rightarrow> u32 option \<Rightarrow> gmem \<Rightarrow> (heap option \<times> gmem) option" where
  "init_map_file fd st g = (case st of None \<Rightarrow> Some (None, g) | Some sz \<Rightarrow> map_file fd sz (- 1) g)"

definition out_map_file :: "u16 \<Rightarrow> gmem \<Rightarrow> (heap \<times> gmem) option" where
  "out_map_file fd g = do {
     (a, g) \<leftarrow> mmap g;
     if a = MAP_FAILED then None
     else do {
       let h = \<lparr>h_begin = a, page_num = 1, h_flags = 1, h_file = fd, h_guest_addr = - 1,
                index1 = 0, index2 = 0, name_or_parent = 0\<rparr>;
       g \<leftarrow> add_heap h g;
       Some (h, g)
     }
   }"

definition get_page :: "u8 \<Rightarrow> gmem \<Rightarrow> (heap \<times> gmem) option" where
  "get_page n g = do {
     (a, g) \<leftarrow> mmap g;
     let h = \<lparr>h_begin = a, page_num = of_nat (PAGE_SIZE * unat n div PAGE_SIZE), h_flags = 1, h_file = - 1,
              h_guest_addr = - 1, index1 = 0, index2 = 0, name_or_parent = 0\<rparr>;
     g \<leftarrow> add_heap h g;
     Some (h, g)
   }"

definition guest_mmap :: "u64 \<Rightarrow> u32 \<Rightarrow> u32 \<Rightarrow> u64 \<Rightarrow> u16 \<Rightarrow> gmem \<Rightarrow> (heap \<times> gmem) option" where
  "guest_mmap guest map_size flags np fd g = do {
     (a, g) \<leftarrow> mmap g;
     let h = \<lparr>h_begin = a, page_num = of_nat (unat map_size div PAGE_SIZE), h_flags = flags, h_file = fd,
              h_guest_addr = ucast guest, index1 = ucast (get_page_path1 g), index2 = ucast (get_page_path2 g),
              name_or_parent = np\<rparr>;
     g \<leftarrow> add_heap h g;
     Some (h, g)
   }"

definition get_current_meta_addr :: "gmem \<Rightarrow> heap option" where
  "get_current_meta_addr g = (if heaps g = [] then None else Some (last (heaps g)))"

definition get_page_head :: "gmem \<Rightarrow> u64 option" where
  "get_page_head g = map_option h_begin (get_current_meta_addr g)"

subsection \<open>Translation\<close>

text \<open>The search all functions share: the first entry with a page at the address, and
  the number of the page.  The sum of guest address and offset is a \<open>size_t\<close>.\<close>

definition PAGE_MASK :: u32 where "PAGE_MASK = 0xfffff000"

definition page_of :: "u32 \<Rightarrow> heap \<Rightarrow> nat option" where
  "page_of guest_begin h =
     (if h_guest_addr h = - 1 then None
      else List.find (\<lambda>p. unat guest_begin = unat (h_guest_addr h) + p * PAGE_SIZE) [0..<unat (page_num h)])"

fun find_page :: "u32 \<Rightarrow> heap list \<Rightarrow> (heap \<times> nat) option" where
  "find_page a [] = None"
| "find_page a (h # hs) = (case page_of a h of Some p \<Rightarrow> Some (h, p) | None \<Rightarrow> find_page a hs)"

definition get_host_addr :: "u32 \<Rightarrow> gmem \<Rightarrow> u64" where
  "get_host_addr guest g =
     (case find_page (guest AND PAGE_MASK) (heaps g) of
        None \<Rightarrow> 0
      | Some (h, p) \<Rightarrow> h_begin h + of_nat (p * PAGE_SIZE) + ucast (ucast (guest - (guest AND PAGE_MASK)) :: u16))"

definition get_diff_host_guest_addr :: "u64 \<Rightarrow> gmem \<Rightarrow> u64" where
  "get_diff_host_guest_addr guest g =
     (let b = ucast guest AND PAGE_MASK in
      case find_page b (heaps g) of
        None \<Rightarrow> 0
      | Some (h, p) \<Rightarrow> h_begin h - (ucast b - of_nat (p * PAGE_SIZE)))"

text \<open>The result is stored through a pointer, and not at all when nothing is found.\<close>

definition get_diff_host_guest_addr_p :: "u64 \<Rightarrow> gmem \<Rightarrow> u64 option" where
  "get_diff_host_guest_addr_p guest g =
     (let b = ucast guest AND PAGE_MASK in
      map_option (\<lambda>(h, p). h_begin h + of_nat (p * PAGE_SIZE) + ucast (ucast (guest - ucast b) :: u16))
        (find_page b (heaps g)))"

definition get_host_head :: "u32 \<Rightarrow> gmem \<Rightarrow> u64" where
  "get_host_head guest g = (case find_page (guest AND PAGE_MASK) (heaps g) of None \<Rightarrow> 0 | Some (h, p) \<Rightarrow> h_begin h)"

definition get_parent_heap_from_guest :: "u32 \<Rightarrow> gmem \<Rightarrow> u64" where
  "get_parent_heap_from_guest guest g =
     (case find_page (guest AND PAGE_MASK) (heaps g) of None \<Rightarrow> 0 | Some (h, p) \<Rightarrow> name_or_parent h)"

text \<open>From host addresses.\<close>

definition get_host_head_from_host :: "u64 \<Rightarrow> gmem \<Rightarrow> u64 option" where
  "get_host_head_from_host a g =
     map_option h_begin (List.find (\<lambda>h. h_guest_addr h \<noteq> - 1 \<and>
       (\<exists>p \<in> set [0..<unat (page_num h)]. a AND 0xfffffffffffff000 = h_begin h + of_nat (p * PAGE_SIZE))) (heaps g))"

definition get_diff_host_addr :: "u64 \<Rightarrow> gmem \<Rightarrow> u64" where
  "get_diff_host_addr a g =
     (let b = a AND 0xfffff000 in
      case List.find (\<lambda>h. h_guest_addr h \<noteq> - 1 \<and> b = h_begin h) (heaps g) of
        None \<Rightarrow> 0 | Some h \<Rightarrow> ucast (h_guest_addr h) - b)"

definition search_page_by_name :: "u64 \<Rightarrow> gmem \<Rightarrow> heap option" where
  "search_page_by_name query g =
     List.find (\<lambda>h. h_guest_addr h \<noteq> - 1 \<and> h_flags h \<noteq> 0 \<and> name_or_parent h \<noteq> 0 \<and> name_or_parent h = query) (heaps g)"

subsection \<open>The mapping a table stands for\<close>

definition covers :: "heap \<Rightarrow> u32 \<Rightarrow> bool" where
  "covers h x \<longleftrightarrow> h_guest_addr h \<noteq> - 1 \<and> unat (h_guest_addr h) \<le> unat x \<and>
     unat x < unat (h_guest_addr h) + unat (page_num h) * PAGE_SIZE"

definition host_of :: "heap \<Rightarrow> u32 \<Rightarrow> u64" where
  "host_of h x = h_begin h + of_nat (unat x - unat (h_guest_addr h))"

definition host_map :: "gmem \<Rightarrow> u32 \<rightharpoonup> u64" where
  "host_map g x = map_option (\<lambda>h. host_of h x) (List.find (\<lambda>h. covers h x) (heaps g))"

definition aligned :: "heap \<Rightarrow> bool" where
  "aligned h \<longleftrightarrow> h_guest_addr h = - 1 \<or> PAGE_SIZE dvd unat (h_guest_addr h)"

lemma page_mask: "unat (x AND PAGE_MASK) = unat x div PAGE_SIZE * PAGE_SIZE"
proof -
  have m: "PAGE_MASK = push_bit 12 (mask 20)"
    by (simp add: mask_eq_exp_minus_1 push_bit_eq_mult PAGE_MASK_def)
  have a: "x AND PAGE_MASK = push_bit 12 (drop_bit 12 x)"
    unfolding m by (rule bit_word_eqI) (auto simp: bit_simps)
  have d: "unat (drop_bit 12 x) = unat x div 4096" unfolding unsigned_drop_bit_eq
    by (simp add: drop_bit_eq_div take_bit_nat_eq_self [OF unsigned_less, of x, simplified])
  have "unat x div 4096 * 4096 \<le> unat x" by simp
  then have "unat x div 4096 * 4096 < 2 ^ LENGTH(32)" using unsigned_less [of x] by (rule le_less_trans)
  then show ?thesis
    unfolding a push_bit_eq_mult by (simp add: unat_word_ariths d take_bit_nat_eq_self PAGE_SIZE_def)
qed

lemma find_append:
  "List.find P (xs @ ys) = (case List.find P xs of None \<Rightarrow> List.find P ys | Some x \<Rightarrow> Some x)"
  by (induction xs) auto

lemma find_unique:
  assumes "x \<in> set xs" "P x" "\<And>y. y \<in> set xs \<Longrightarrow> P y \<Longrightarrow> y = x"
  shows "List.find P xs = Some x"
proof (cases "List.find P xs")
  case None
  then show ?thesis using assms(1,2) by (auto simp: find_None_iff)
next
  case (Some y)
  then show ?thesis using assms(3) [of y] find_SomeD [OF Some] by simp
qed

lemma page_of_eq:
  assumes "aligned h"
  shows "page_of (x AND PAGE_MASK) h =
    (if covers h x then Some ((unat x - unat (h_guest_addr h)) div PAGE_SIZE) else None)"
proof (cases "h_guest_addr h = - 1")
  case True
  then show ?thesis by (simp add: page_of_def covers_def)
next
  case False
  then obtain k where k: "unat (h_guest_addr h) = PAGE_SIZE * k" using assms by (auto simp: aligned_def)
  let ?n = "unat (page_num h)" and ?q = "unat x div PAGE_SIZE"
  have eq: "unat (x AND PAGE_MASK) = unat (h_guest_addr h) + p * PAGE_SIZE \<longleftrightarrow> p + k = ?q" for p
  proof -
    have "q * 4096 = 4096 * k + p * 4096 \<longleftrightarrow> p + k = q" for q :: nat by arith
    then show ?thesis unfolding page_mask k by (simp add: PAGE_SIZE_def)
  qed
  have c: "covers h x \<longleftrightarrow> k \<le> ?q \<and> ?q - k < ?n"
  proof -
    have "PAGE_SIZE * k \<le> unat x \<longleftrightarrow> k \<le> ?q"
      by (simp add: PAGE_SIZE_def less_eq_div_iff_mult_less_eq mult.commute)
    moreover have "unat x < PAGE_SIZE * k + ?n * PAGE_SIZE \<longleftrightarrow> ?q < k + ?n"
      by (simp add: PAGE_SIZE_def div_less_iff_less_mult algebra_simps)
    ultimately show ?thesis using False by (auto simp: covers_def k)
  qed
  have "(unat x - unat (h_guest_addr h)) div PAGE_SIZE = ?q - k" by (simp add: k PAGE_SIZE_def)
  moreover have "List.find (\<lambda>p. p + k = ?q) [0..<?n] = (if k \<le> ?q \<and> ?q - k < ?n then Some (?q - k) else None)"
  proof (cases "k \<le> ?q \<and> ?q - k < ?n")
    case True
    then have "List.find (\<lambda>p. p + k = ?q) [0..<?n] = Some (?q - k)" by (intro find_unique) auto
    then show ?thesis using True by simp
  qed (auto simp: find_None_iff)
  ultimately show ?thesis using False by (simp add: page_of_def eq c)
qed

lemma find_page_eq:
  assumes "\<forall>h \<in> set hs. aligned h"
  shows "find_page (x AND PAGE_MASK) hs =
    map_option (\<lambda>h. (h, (unat x - unat (h_guest_addr h)) div PAGE_SIZE)) (List.find (\<lambda>h. covers h x) hs)"
  using assms by (induction hs) (simp_all add: page_of_eq)

lemma page_offset: "ucast (ucast (x - (x AND PAGE_MASK)) :: u16) = (of_nat (unat x mod PAGE_SIZE) :: u64)"
proof -
  have le: "x AND PAGE_MASK \<le> x" unfolding word_le_nat_alt page_mask by simp
  have "unat (x - (x AND PAGE_MASK)) = unat x - unat x div PAGE_SIZE * PAGE_SIZE"
    using unat_sub [OF le] by (simp add: page_mask)
  then have d: "unat (x - (x AND PAGE_MASK)) = unat x mod PAGE_SIZE" by (simp add: minus_div_mult_eq_mod)
  have "unat x mod PAGE_SIZE < 2 ^ 16" by (simp add: PAGE_SIZE_def order_less_trans [of _ 4096])
  then have "unat (ucast (x - (x AND PAGE_MASK)) :: u16) = unat x mod PAGE_SIZE"
    by (simp add: unsigned_ucast_eq d take_bit_nat_eq_self)
  then show ?thesis by (metis of_nat_unat)
qed

lemma page_pos:
  assumes "aligned h" "covers h x"
  shows "(unat x - unat (h_guest_addr h)) div PAGE_SIZE * PAGE_SIZE + unat x mod PAGE_SIZE = unat x - unat (h_guest_addr h)"
proof -
  obtain k where k: "unat (h_guest_addr h) = k * 4096"
    using assms by (auto simp: aligned_def covers_def PAGE_SIZE_def mult.commute)
  have "(y - k * 4096) div 4096 * 4096 + y mod 4096 = y - k * 4096" if "k * 4096 \<le> y" for y :: nat
    using that by (metis mod_mult_self2 div_mult_mod_eq le_add_diff_inverse2 mult.commute)
  then show ?thesis using assms(2) k by (simp add: covers_def PAGE_SIZE_def)
qed

lemma get_host_addr_eq:
  assumes "\<forall>h \<in> set (heaps g). aligned h"
  shows "get_host_addr x g = (case host_map g x of Some a \<Rightarrow> a | None \<Rightarrow> 0)"
proof (cases "List.find (\<lambda>h. covers h x) (heaps g)")
  case (Some h)
  then have "aligned h" "covers h x" using assms by (auto dest: find_SomeD)
  note p = page_pos [OF this]
  show ?thesis
    using Some arg_cong [OF p, of "of_nat :: nat \<Rightarrow> u64"]
    by (simp add: get_host_addr_def find_page_eq [OF assms] page_offset host_map_def host_of_def add.assoc)
qed (simp add: get_host_addr_def find_page_eq [OF assms] host_map_def)

lemma get_diff_eq:
  assumes "\<forall>h \<in> set (heaps g). aligned h" "host_map g x = Some a"
  shows "get_diff_host_guest_addr (ucast x) g + ucast x = a"
proof -
  obtain h where h: "List.find (\<lambda>h. covers h x) (heaps g) = Some h" "a = host_of h x"
    using assms(2) by (auto simp: host_map_def)
  then have c: "aligned h" "covers h x" using assms(1) by (auto dest: find_SomeD)
  let ?p = "(unat x - unat (h_guest_addr h)) div PAGE_SIZE" and ?b = "x AND PAGE_MASK"
  have "unat x = unat ?b + unat x mod PAGE_SIZE" by (simp add: page_mask)
  then have "(ucast x :: u64) = ucast ?b + of_nat (unat x mod PAGE_SIZE)" by (metis of_nat_unat of_nat_add)
  moreover have "get_diff_host_guest_addr (ucast x) g = h_begin h - (ucast ?b - of_nat (?p * PAGE_SIZE))"
    using h(1) find_page_eq [OF assms(1)] by (simp add: get_diff_host_guest_addr_def Let_def)
  ultimately have "get_diff_host_guest_addr (ucast x) g + ucast x =
      h_begin h + (of_nat (?p * PAGE_SIZE) + of_nat (unat x mod PAGE_SIZE))" by simp
  also have "\<dots> = h_begin h + of_nat (?p * PAGE_SIZE + unat x mod PAGE_SIZE)" by simp
  also have "\<dots> = a" unfolding page_pos [OF c] by (simp add: h(2) host_of_def)
  finally show ?thesis .
qed

text \<open>C37: Translation of guest addresses.  When every mapping starts on a page,
  \<open>guest_mmap\<close> adds to the addresses \<open>get_host_addr\<close> translates those of its whole
  pages (their number cut to 16 bits) and changes no other; a translated address lies
  as far behind the start of the mapping as the guest address does, and differs from
  the guest address by what \<open>get_diff_host_guest_addr\<close> returns.\<close>

theorem guest_mmap_translation:
  assumes "\<forall>h \<in> set (heaps g). aligned h" "aligned h" "guest_mmap guest sz flags np fd g = Some (h, g')"
  defines "n \<equiv> unat sz div PAGE_SIZE mod 65536"
  shows "(\<forall>h \<in> set (heaps g'). aligned h) \<and>
    host_map g' x = (case host_map g x of Some a \<Rightarrow> Some a
      | None \<Rightarrow> if ucast guest \<noteq> (- 1 :: u32) \<and> unat (ucast guest :: u32) \<le> unat x \<and>
          unat x < unat (ucast guest :: u32) + n * PAGE_SIZE
        then Some (h_begin h + of_nat (unat x - unat (ucast guest :: u32))) else None) \<and>
    get_host_addr x g' = (case host_map g' x of Some a \<Rightarrow> a | None \<Rightarrow> 0) \<and>
    (\<forall>a. host_map g' x = Some a \<longrightarrow> get_diff_host_guest_addr (ucast x) g' + ucast x = a)"
proof -
  have m: "heaps g' = heaps g @ [h]" "h_guest_addr h = ucast guest" "unat (page_num h) = n"
    using assms(3) by (auto simp: guest_mmap_def mmap_def add_heap_def n_def unsigned_of_nat take_bit_nat_def Let_def
        split: list.splits if_splits)
  have al: "\<forall>h \<in> set (heaps g'). aligned h" using assms(1,2) m(1) by auto
  have "host_map g' x = (case host_map g x of Some a \<Rightarrow> Some a
      | None \<Rightarrow> if ucast guest \<noteq> (- 1 :: u32) \<and> unat (ucast guest :: u32) \<le> unat x \<and>
          unat x < unat (ucast guest :: u32) + n * PAGE_SIZE
        then Some (h_begin h + of_nat (unat x - unat (ucast guest :: u32))) else None)"
    by (simp add: host_map_def m find_append covers_def host_of_def split: option.splits)
  then show ?thesis using al get_host_addr_eq [OF al] get_diff_eq [OF al] by blast
qed

lemma guest_mmap_translation_witness:
  "\<exists>h g'. guest_mmap 0x400000 0x2800 1 0 (- 1) (set_heap_header [0x7000000]) = Some (h, g') \<and>
    get_host_addr 0x401234 g' = 0x7001234 \<and> get_host_addr 0x402000 g' = 0"
proof -
  define g where "g = set_heap_header [0x7000000]"
  obtain h g' where m: "guest_mmap 0x400000 0x2800 1 0 (- 1) g = Some (h, g')" "h_begin h = 0x7000000" "aligned h"
    by (simp add: guest_mmap_def mmap_def add_heap_def g_def set_heap_header_def HEAP_ENTRIES_def Let_def aligned_def
        PAGE_SIZE_def)
  have "\<forall>h \<in> set (heaps g). aligned h" "host_map g x = None" for x by (simp_all add: g_def set_heap_header_def host_map_def)
  note t = guest_mmap_translation [OF this(1) m(3,1)] this(2)
  have "get_host_addr 0x401234 g' = 0x7001234" "get_host_addr 0x402000 g' = 0"
    using t(1) [of "0x401234"] t(1) [of "0x402000"] by (simp_all add: t(2) m(2) PAGE_SIZE_def)
  then show ?thesis using m(1) by (simp add: g_def)
qed

text \<open>\<open>map_file\<close> counts its pages as 4096 plus the bytes of the file: addresses far behind
  the mapping are translated as if they belonged to it.\<close>

lemma map_file_overclaims:
  assumes "heaps g = []" "maps g = a # as" "a \<noteq> MAP_FAILED" "PAGE_SIZE dvd unat guest" "unat sz < 0xf000"
    and "unat guest \<le> unat x" "unat x < unat guest + (0x1000 + unat sz) * PAGE_SIZE"
  shows "\<exists>h g'. map_file fd sz guest g = Some (Some h, g') \<and> get_host_addr x g' = a + of_nat (unat x - unat guest)"
proof -
  have "guest \<noteq> - 1"
  proof
    assume "guest = - 1"
    moreover have "unat (- 1 :: u32) = 4294967295" by (simp add: unsigned_minus_1_eq_mask mask_eq_exp_minus_1)
    ultimately have "(4096 :: nat) dvd 4294967295" using assms(4) by (simp only: PAGE_SIZE_def)
    then show False by presburger
  qed
  have s: "unat (ucast sz :: u16) = unat sz" using assms(5) by (simp add: unsigned_ucast_eq take_bit_nat_eq_self)
  then have n: "unat (0x1000 + ucast sz :: u16) = 0x1000 + unat sz" using assms(5) by (simp add: unat_word_ariths)
  obtain h g' where m: "map_file fd sz guest g = Some (Some h, g')" "heaps g' = [h]" "h_begin h = a"
      "page_num h = 0x1000 + ucast sz" "h_guest_addr h = guest"
    using assms(1-3) by (simp add: map_file_def mmap_def add_heap_def HEAP_ENTRIES_def Let_def)
  have "\<forall>h \<in> set (heaps g'). aligned h" using m assms(4) by (simp add: aligned_def)
  moreover have "covers h x" using assms(6,7) \<open>guest \<noteq> - 1\<close> n m by (simp add: covers_def)
  ultimately have "get_host_addr x g' = a + of_nat (unat x - unat guest)"
    using get_host_addr_eq [of g' x] m by (simp add: host_map_def host_of_def)
  then show ?thesis using m(1) by blast
qed

end
