(* ===== verification/Thread.thy ===== *)
theory Thread
  imports Prelude
begin

text \<open>
  \<open>core/std/thread.c\<close>: a pool of threads that take tasks from a queue.  The code has no
  locks, so the model is a transition system whose steps are the statements of
  \<open>enqueue\<close>, \<open>dequeue\<close> and \<open>do_idle\<close>, interleaved freely: one thread puts tasks,
  \<open>num\<close> workers take them.  Tasks lie in a store and are named by their position in it,
  \<open>None\<close> is the null pointer; what a task does is not part of the model, and tasks put
  no tasks.  The runs start when \<open>init_thread_pool\<close> has spawned its threads, with a
  pool of zeros, which is what \<open>__malloc\<close> returns from a fresh page.
\<close>

record task =
  work :: u64
  argc :: u32
  args :: u64
  prev :: "nat option"

record queue =
  front :: "nat option"
  rear :: "nat option"
  len :: u32

record thread_pool =
  num_threads_alive :: u32
  queue :: queue

text \<open>The program counter of the putting thread: it waits in \<open>init_thread_pool\<close>, is
  outside of the pool, or at a statement of \<open>enqueue\<close>.\<close>

datatype main_pc = Init | Outside | Test_rear nat | Set_front nat | Set_prev nat | Set_rear nat | Inc_len

text \<open>That of a worker: at the head of \<open>do_idle\<close>, at its loop, at a statement of
  \<open>dequeue\<close>, before the call of the task, behind the loop, ended.\<close>

datatype worker_pc = Start | Loop | Test_len | Dec_len | Get_front | Clear_front "nat option" | Work nat | Stop | Ended

record pstate =
  tasks :: "task list"
  pool :: thread_pool
  keep_alive :: bool
  main_at :: main_pc
  worker_at :: "nat \<Rightarrow> worker_pc"
  executed :: "nat list"

abbreviation q :: "pstate \<Rightarrow> queue" where "q s \<equiv> queue (pool s)"

definition upd_q :: "(queue \<Rightarrow> queue) \<Rightarrow> pstate \<Rightarrow> pstate" where
  "upd_q f s = s\<lparr>pool := (pool s)\<lparr>queue := f (q s)\<rparr>\<rparr>"

definition upd_alive :: "(u32 \<Rightarrow> u32) \<Rightarrow> pstate \<Rightarrow> pstate" where
  "upd_alive f s = s\<lparr>pool := (pool s)\<lparr>num_threads_alive := f (num_threads_alive (pool s))\<rparr>\<rparr>"

definition at_worker :: "nat \<Rightarrow> worker_pc \<Rightarrow> pstate \<Rightarrow> pstate" where
  "at_worker i c s = s\<lparr>worker_at := (worker_at s)(i := c)\<rparr>"

definition init_thread_pool :: pstate where
  "init_thread_pool = \<lparr>tasks = [], pool = \<lparr>num_threads_alive = 0, queue = \<lparr>front = None, rear = None, len = 0\<rparr>\<rparr>,
     keep_alive = True, main_at = Init, worker_at = (\<lambda>i. Start), executed = []\<rparr>"

text \<open>One statement of the putting thread, inside \<open>enqueue\<close> or at the wait for the
  workers.\<close>

definition main_step :: "nat \<Rightarrow> pstate \<Rightarrow> pstate option" where
  "main_step num s = (case main_at s of
     Init \<Rightarrow> Some (if num_threads_alive (pool s) <s of_nat num then s else s\<lparr>main_at := Outside\<rparr>)
   | Outside \<Rightarrow> None
   | Test_rear t \<Rightarrow> Some (s\<lparr>main_at := (if rear (q s) = None then Set_front t else Set_prev t)\<rparr>)
   | Set_front t \<Rightarrow> Some (upd_q (\<lambda>u. u\<lparr>front := Some t\<rparr>) s\<lparr>main_at := Set_rear t\<rparr>)
   | Set_prev t \<Rightarrow> Some (s\<lparr>tasks := (tasks s)[t := (tasks s ! t)\<lparr>prev := rear (q s)\<rparr>], main_at := Set_rear t\<rparr>)
   | Set_rear t \<Rightarrow> Some (upd_q (\<lambda>u. u\<lparr>rear := Some t\<rparr>) s\<lparr>main_at := Inc_len\<rparr>)
   | Inc_len \<Rightarrow> Some (upd_q (\<lambda>u. u\<lparr>len := len u + 1\<rparr>) s\<lparr>main_at := Outside\<rparr>))"

text \<open>The call of \<open>enqueue\<close>: the task is allocated, its \<open>prev\<close> is not set.\<close>

definition put_task :: "u64 \<Rightarrow> u32 \<Rightarrow> u64 \<Rightarrow> nat option \<Rightarrow> pstate \<Rightarrow> pstate option" where
  "put_task w n a garbage s = (if main_at s = Outside
     then Some (s\<lparr>tasks := tasks s @ [\<lparr>work = w, argc = n, args = a, prev = garbage\<rparr>],
                  main_at := Test_rear (length (tasks s))\<rparr>)
     else None)"

definition worker_step :: "nat \<Rightarrow> pstate \<Rightarrow> pstate option" where
  "worker_step i s = (case worker_at s i of
     Start \<Rightarrow> Some (at_worker i Loop (upd_alive (\<lambda>n. n + 1) s))
   | Loop \<Rightarrow> Some (at_worker i (if keep_alive s then Test_len else Stop) s)
   | Test_len \<Rightarrow> Some (at_worker i (if len (q s) \<noteq> 0 then Dec_len else Loop) s)
   | Dec_len \<Rightarrow> Some (at_worker i Get_front (upd_q (\<lambda>u. u\<lparr>len := len u - 1\<rparr>) s))
   | Get_front \<Rightarrow> Some (at_worker i (Clear_front (front (q s))) s)
   | Clear_front t \<Rightarrow> Some (at_worker i (case t of None \<Rightarrow> Loop | Some t \<Rightarrow> Work t) (upd_q (\<lambda>u. u\<lparr>front := None\<rparr>) s))
   | Work t \<Rightarrow> Some (at_worker i Loop (s\<lparr>executed := executed s @ [t]\<rparr>))
   | Stop \<Rightarrow> Some (at_worker i Ended (upd_alive (\<lambda>n. n - 1) s))
   | Ended \<Rightarrow> None)"

inductive pool_step :: "nat \<Rightarrow> pstate \<Rightarrow> pstate \<Rightarrow> bool" for num where
  put: "put_task w n a g s = Some s' \<Longrightarrow> pool_step num s s'"
| main: "main_step num s = Some s' \<Longrightarrow> pool_step num s s'"
| worker: "i < num \<Longrightarrow> worker_step i s = Some s' \<Longrightarrow> pool_step num s s'"

abbreviation runs_to :: "nat \<Rightarrow> pstate \<Rightarrow> pstate \<Rightarrow> bool" where
  "runs_to num \<equiv> (pool_step num)\<^sup>*\<^sup>*"

text \<open>Schedules, to run the system on concrete interleavings.\<close>

datatype sched = Put u64 u32 u64 | Main | Worker nat

fun sched_step :: "nat \<Rightarrow> sched \<Rightarrow> pstate \<Rightarrow> pstate option" where
  "sched_step num (Put w n a) s = put_task w n a None s"
| "sched_step num Main s = main_step num s"
| "sched_step num (Worker i) s = (if i < num then worker_step i s else None)"

fun run_sched :: "nat \<Rightarrow> sched list \<Rightarrow> pstate \<Rightarrow> pstate option" where
  "run_sched num [] s = Some s"
| "run_sched num (a # as) s = (case sched_step num a s of None \<Rightarrow> None | Some s \<Rightarrow> run_sched num as s)"

lemma sched_step_sound: "sched_step num a s = Some s' \<Longrightarrow> pool_step num s s'"
  by (cases a) (auto intro: pool_step.intros split: if_splits)

lemma run_sched_sound: "run_sched num as s = Some s' \<Longrightarrow> runs_to num s s'"
proof (induction "as" arbitrary: s)
  case (Cons a "as")
  then obtain t where "sched_step num a s = Some t" "run_sched num as t = Some s'" by (auto split: option.splits)
  then show ?case using Cons.IH sched_step_sound converse_rtranclp_into_rtranclp by metis
qed simp

subsection \<open>What every interleaving keeps\<close>

text \<open>The first \<open>k\<close> tasks are linked: from the rear, \<open>prev\<close> leads through all of them.\<close>

definition linked_to :: "nat \<Rightarrow> pstate \<Rightarrow> bool" where
  "linked_to k s \<longleftrightarrow> rear (q s) = (if k = 0 then None else Some (k - 1)) \<and>
     (\<forall>j. 0 < j \<and> j < k \<longrightarrow> prev (tasks s ! j) = Some (j - 1))"

definition queue_ok :: "pstate \<Rightarrow> bool" where
  "queue_ok s \<longleftrightarrow> (let n = length (tasks s) in case main_at s of
     Init \<Rightarrow> linked_to n s
   | Outside \<Rightarrow> linked_to n s
   | Test_rear t \<Rightarrow> n = Suc t \<and> linked_to t s
   | Set_front t \<Rightarrow> n = Suc t \<and> t = 0 \<and> linked_to t s
   | Set_prev t \<Rightarrow> n = Suc t \<and> 0 < t \<and> linked_to t s
   | Set_rear t \<Rightarrow> n = Suc t \<and> linked_to t s \<and> (0 < t \<longrightarrow> prev (tasks s ! t) = Some (t - 1))
   | Inc_len \<Rightarrow> linked_to n s)"

definition holds_at_most :: "nat set \<Rightarrow> worker_pc \<Rightarrow> bool" where
  "holds_at_most A c \<longleftrightarrow> (case c of Clear_front (Some t) \<Rightarrow> t \<in> A | Work t \<Rightarrow> t \<in> A | Stop \<Rightarrow> False | Ended \<Rightarrow> False | _ \<Rightarrow> True)"

definition pool_inv :: "pstate \<Rightarrow> bool" where
  "pool_inv s \<longleftrightarrow> keep_alive s \<and> (\<forall>t. front (q s) = Some t \<longrightarrow> t = 0) \<and> set (executed s) \<subseteq> {0} \<and>
     (\<forall>i. holds_at_most {0} (worker_at s i)) \<and> queue_ok s"

lemmas step_simps = put_task_def main_step_def worker_step_def upd_q_def upd_alive_def at_worker_def

lemma queue_ok_main: "main_step num s = Some s' \<Longrightarrow> queue_ok s \<Longrightarrow> queue_ok s'"
  by (cases "main_at s") (auto simp: step_simps queue_ok_def linked_to_def Let_def nth_list_update less_Suc_eq split: if_splits)

lemma queue_ok_put: "put_task w n a g s = Some s' \<Longrightarrow> queue_ok s \<Longrightarrow> queue_ok s'"
  by (auto simp: step_simps queue_ok_def linked_to_def nth_append Let_def split: if_splits)

lemma queue_ok_front: "queue_ok s \<Longrightarrow> main_at s = Set_front t \<Longrightarrow> t = 0"
  by (simp add: queue_ok_def Let_def)

lemma worker_frame:
  "worker_step i s = Some s' \<Longrightarrow> tasks s' = tasks s \<and> rear (q s') = rear (q s) \<and> main_at s' = main_at s \<and> keep_alive s' = keep_alive s"
  by (auto simp: step_simps split: worker_pc.splits)

lemma queue_ok_worker: "worker_step i s = Some s' \<Longrightarrow> queue_ok s \<Longrightarrow> queue_ok s'"
proof -
  assume w: "worker_step i s = Some s'" and ok: "queue_ok s"
  note f = worker_frame [OF w]
  then have "linked_to k s' = linked_to k s" for k by (simp add: linked_to_def)
  then show "queue_ok s'" using ok f by (cases "main_at s") (simp_all add: queue_ok_def Let_def)
qed

lemma pool_inv_worker: "worker_step i s = Some s' \<Longrightarrow> pool_inv s \<Longrightarrow> pool_inv s'"
  using queue_ok_worker [of i s s']
  by (auto simp: pool_inv_def step_simps holds_at_most_def split: worker_pc.splits option.splits if_splits)

lemma pool_inv_main: "main_step num s = Some s' \<Longrightarrow> pool_inv s \<Longrightarrow> pool_inv s'"
  using queue_ok_main [of num s s'] queue_ok_front [of s]
  by (cases "main_at s") (auto simp: pool_inv_def step_simps split: if_splits)

lemma pool_inv_step: "pool_step num s s' \<Longrightarrow> pool_inv s \<Longrightarrow> pool_inv s'"
proof (induction rule: pool_step.induct)
  case (put w n a g s s')
  then show ?case using queue_ok_put [of w n a g s s'] by (auto simp: pool_inv_def put_task_def split: if_splits)
qed (auto intro: pool_inv_worker pool_inv_main)

lemma pool_inv_runs: "runs_to num init_thread_pool s \<Longrightarrow> pool_inv s"
proof (induction rule: rtranclp_induct)
  case base
  show ?case by (simp add: pool_inv_def init_thread_pool_def queue_ok_def linked_to_def holds_at_most_def)
qed (auto intro: pool_inv_step)

text \<open>The front has been taken, nobody holds it any more, and the rear is set.\<close>

definition first_gone :: "pstate \<Rightarrow> bool" where
  "first_gone s \<longleftrightarrow> front (q s) = None \<and> rear (q s) \<noteq> None \<and> (\<forall>i. holds_at_most {} (worker_at s i))"

lemma first_gone_worker:
  "worker_step i s = Some s' \<Longrightarrow> first_gone s \<Longrightarrow> keep_alive s \<Longrightarrow> first_gone s' \<and> executed s' = executed s"
proof -
  assume w: "worker_step i s = Some s'" and g: "first_gone s" and k: "keep_alive s"
  have "holds_at_most {} (worker_at s i)" "front (q s) = None" using g by (simp_all add: first_gone_def)
  then have "(\<exists>c. worker_at s' = (worker_at s)(i := c) \<and> holds_at_most {} c) \<and> front (q s') = None \<and> executed s' = executed s"
    using w k by (cases "worker_at s i") (auto simp: step_simps holds_at_most_def split: option.splits)
  then show "first_gone s' \<and> executed s' = executed s"
    using g worker_frame [OF w] by (auto simp: first_gone_def)
qed

lemma first_gone_step:
  assumes "pool_step num s s'" "pool_inv s" "first_gone s"
  shows "first_gone s' \<and> executed s' = executed s"
  using assms(1)
proof (cases rule: pool_step.cases)
  case (put w n a g)
  then show ?thesis using assms(3) by (auto simp: first_gone_def put_task_def split: if_splits)
next
  case main
  then show ?thesis using assms(2,3)
    by (cases "main_at s") (auto simp: step_simps first_gone_def pool_inv_def queue_ok_def linked_to_def)
next
  case (worker i)
  then show ?thesis using first_gone_worker assms(2,3) by (simp add: pool_inv_def)
qed

lemma first_gone_runs:
  assumes "runs_to num s s'" "pool_inv s" "first_gone s"
  shows "pool_inv s' \<and> first_gone s' \<and> executed s' = executed s"
  using assms by (induction rule: rtranclp_induct) (auto dest: first_gone_step pool_inv_step)

lemma worker_takes_front:
  assumes "i < num" "worker_at s i = Loop" "keep_alive s" "len (q s) \<noteq> 0" "front (q s) = Some t"
  shows "\<exists>s'. runs_to num s s' \<and> executed s' = executed s @ [t]"
proof -
  have "\<exists>s'. run_sched num (replicate 6 (Worker i)) s = Some s' \<and> executed s' = executed s @ [t]"
    using assms by (simp add: eval_nat_numeral step_simps)
  then show ?thesis using run_sched_sound by metis
qed

text \<open>C38: The queue of the thread pool.  However the putting thread and the workers
  interleave, every task that is put is linked into the queue, but no other than the
  first one is ever executed: as soon as the first has been taken from the front,
  nothing is executed any more.  Until then a worker that is at its loop can always
  get to execute it.\<close>

theorem only_first_task_runs:
  assumes "runs_to num init_thread_pool s"
  shows "set (executed s) \<subseteq> {0} \<and>
    (main_at s = Outside \<longrightarrow> linked_to (length (tasks s)) s) \<and>
    (first_gone s \<longrightarrow> (\<forall>s'. runs_to num s s' \<longrightarrow> first_gone s' \<and> executed s' = executed s)) \<and>
    (front (q s) \<noteq> None \<and> len (q s) \<noteq> 0 \<and> (\<exists>i<num. worker_at s i = Loop) \<longrightarrow>
      (\<exists>s'. runs_to num s s' \<and> executed s' = executed s @ [0]))"
proof -
  have inv: "pool_inv s" using assms by (rule pool_inv_runs)
  then have "\<exists>s'. runs_to num s s' \<and> executed s' = executed s @ [0]"
    if "i < num" "worker_at s i = Loop" "front (q s) = Some t" "len (q s) \<noteq> 0" for i t
    using worker_takes_front [OF that(1,2) _ that(4,3)] that(3) by (simp add: pool_inv_def)
  moreover have "set (executed s) \<subseteq> {0}" "main_at s = Outside \<Longrightarrow> linked_to (length (tasks s)) s"
    using inv by (simp_all add: pool_inv_def queue_ok_def)
  ultimately show ?thesis using inv first_gone_runs by blast
qed

text \<open>Two tasks, one worker: the second task is lost.\<close>

lemma only_first_task_runs_witness:
  "\<exists>s. runs_to 1 init_thread_pool s \<and> length (tasks s) = 2 \<and> executed s = [0] \<and>
    (\<forall>s'. runs_to 1 s s' \<longrightarrow> executed s' = [0])"
proof -
  let ?sched = "[Worker 0, Main, Put 1 0 0, Main, Main, Main, Main, Put 2 0 0, Main, Main, Main, Main,
    Worker 0, Worker 0, Worker 0, Worker 0, Worker 0, Worker 0]"
  obtain s where s: "run_sched 1 ?sched init_thread_pool = Some s" "length (tasks s) = 2" "executed s = [0]"
      "front (q s) = None" "rear (q s) = Some 1" "worker_at s = (\<lambda>i. Start)(0 := Loop)"
    by (simp add: step_simps init_thread_pool_def word_sless_alt)
  then have "first_gone s" by (simp add: first_gone_def holds_at_most_def)
  then show ?thesis using only_first_task_runs [OF run_sched_sound [OF s(1)]] s run_sched_sound by metis
qed

text \<open>Two workers can take the same task, and execute it twice: the front is read and
  cleared in two steps.\<close>

lemma first_task_runs_twice: "\<exists>s. runs_to 2 init_thread_pool s \<and> executed s = [0, 0]"
proof -
  let ?sched = "[Worker 0, Worker 1, Main, Put 1 0 0, Main, Main, Main, Main, Put 2 0 0, Main, Main, Main, Main,
    Worker 0, Worker 0, Worker 0, Worker 0, Worker 1, Worker 1, Worker 1, Worker 1, Worker 0, Worker 0, Worker 1, Worker 1]"
  have "\<exists>s. run_sched 2 ?sched init_thread_pool = Some s \<and> executed s = [0, 0]"
    by (simp add: step_simps init_thread_pool_def word_sless_alt)
  then show ?thesis using run_sched_sound by metis
qed

end
