(* ===== verification/Logger.thy ===== *)
theory Logger
  imports CString
begin

text \<open>
  \<open>core/log/logger.c\<close>: the number formats and the log files.  A formatting function
  that fills a buffer from its end gives the bytes between the pointer it returns
  and the end; one that fills from the start gives the bytes written.  The four
  log files are the bytes written to them so far.  \<open>None\<close> is a write outside of a
  buffer or a read behind the end of a string.  Opening the files is I/O and left out.
\<close>

subsection \<open>Numbers\<close>

definition xdigit :: "u64 \<Rightarrow> u8" where
  "xdigit d = (if d < 10 then 0x30 + ucast d else 0x41 + ucast (d - 10))"

lemma drop_bit_4_less: "x \<noteq> 0 \<Longrightarrow> unat (drop_bit 4 x :: u64) < unat x"
  by (simp add: unsigned_drop_bit_eq drop_bit_eq_div unat_gt_0 unat_div)

function fmt_x :: "u64 \<Rightarrow> u8 \<Rightarrow> u8 list \<Rightarrow> u8 list" where
  "fmt_x x lower s = (if x = 0 then s else fmt_x (drop_bit 4 x) lower ((xdigit (x AND 15) OR lower) # s))"
  by pat_completeness auto
termination by (relation "measure (\<lambda>(x, lower, s). unat x)") (simp_all add: drop_bit_4_less)

declare fmt_x.simps [simp del]

partial_function (option) fmt_x_loop :: "u64 \<Rightarrow> u8 \<Rightarrow> u8 \<Rightarrow> u8 list option" where
  [code]: "fmt_x_loop x lower i =
     (let two = [xdigit (drop_bit (4 * (unat i + 1)) x AND 15) OR lower,
                 xdigit (drop_bit (4 * unat i) x AND 15) OR lower]
      in if i = 0 then Some two
         else Option.bind (fmt_x_loop x lower (i - 2)) (\<lambda>r. Some (two @ r)))"

definition fmt_x_fixed :: "u64 \<Rightarrow> u8 \<Rightarrow> u8 \<Rightarrow> u8 list option" where
  "fmt_x_fixed x lower mx = fmt_x_loop x lower (mx - 2)"

fun fmt_mx_loop :: "u64 \<Rightarrow> u8 \<Rightarrow> nat \<Rightarrow> nat \<Rightarrow> u8 list" where
  "fmt_mx_loop x lower i 0 = []"
| "fmt_mx_loop x lower i (Suc n) =
     [xdigit (drop_bit (4 * (i + 1)) x AND 15) OR lower, xdigit (drop_bit (4 * i) x AND 15) OR lower]
     @ fmt_mx_loop x lower (i + 2) n"

definition fmt_mx :: "u64 \<Rightarrow> u8 \<Rightarrow> u8 \<Rightarrow> u8 list" where
  "fmt_mx x lower mx = fmt_mx_loop x lower 0 ((unat mx + 1) div 2)"

text \<open>\<open>ULONG_MAX\<close> is redefined as \<open>0xffffffff\<close>; both loops divide by ten.\<close>

definition ULONG_MAX :: u64 where "ULONG_MAX = 0xffffffff"

lemma div_10_less: "x \<noteq> 0 \<Longrightarrow> unat (x div 10 :: u64) < unat x"
  by (simp add: unat_div unat_gt_0)

function fmt_u_long :: "u64 \<Rightarrow> u8 list \<Rightarrow> u64 \<times> u8 list" where
  "fmt_u_long x s = (if x > ULONG_MAX then fmt_u_long (x div 10) ((0x30 + ucast (x mod 10)) # s) else (x, s))"
  by pat_completeness auto
termination
  by (relation "measure (\<lambda>(x, s). unat x)") (auto intro!: div_10_less simp: ULONG_MAX_def)

function fmt_u_loop :: "u64 \<Rightarrow> u8 list \<Rightarrow> u8 list" where
  "fmt_u_loop y s = (if y = 0 then s else fmt_u_loop (y div 10) ((0x30 + ucast (y mod 10)) # s))"
  by pat_completeness auto
termination by (relation "measure (\<lambda>(x, s). unat x)") (simp_all add: div_10_less)

declare fmt_u_long.simps [simp del] fmt_u_loop.simps [simp del]

definition fmt_u :: "u64 \<Rightarrow> u8 list" where
  "fmt_u x = (let (y, s) = fmt_u_long x [] in fmt_u_loop y s)"

subsection \<open>\<open>_sprintf\<close>\<close>

text \<open>The text of a number is written below \<open>tmp + 7\<close>: there is room for seven bytes.\<close>

definition in_tmp :: "u8 list \<Rightarrow> u8 list option" where
  "in_tmp q = (if length q \<le> 7 then Some q else None)"

text \<open>The loop, with the argument \<open>va\<close> and the memory in which \<open>%s\<close> reads: after a
  directive the next byte of the format is copied as it is, also the NUL, and the
  loop goes on behind it.  The argument is never advanced to the next one, only
  to the end of its string.\<close>

fun sprintf_loop :: "mem \<Rightarrow> u64 \<Rightarrow> u8 list \<Rightarrow> u8 list option" where
  "sprintf_loop m va [] = Some []"
| "sprintf_loop m va (c # p) =
     (if c \<noteq> 0x25 then map_option ((#) c) (sprintf_loop m va p)
      else (case p of
        [] \<Rightarrow> None
      | d # p' \<Rightarrow>
          Option.bind (if d = 0x73 then (if va = 0 then Some (va, []) else map_option (\<lambda>s. (va + of_nat (length s), s)) (str_at m (unat va)))
                       else if d = 0x78 \<or> d = 0x70 then map_option (Pair va) (in_tmp (fmt_x va 32 []))
                       else if d = 0x64 then map_option (Pair va) (in_tmp (fmt_u va))
                       else Some (va, []))
            (\<lambda>(va, out). case p' of [] \<Rightarrow> None | e # r \<Rightarrow> map_option (\<lambda>s. out @ e # s) (sprintf_loop m va r))))"

definition BUF_SIZE :: nat where "BUF_SIZE = 400"

definition log_sprintf :: "mem \<Rightarrow> u64 \<Rightarrow> u8 list \<Rightarrow> u8 list option" where
  "log_sprintf m va p = Option.bind (sprintf_loop m va p) (\<lambda>s. if length s < BUF_SIZE then Some s else None)"

subsection \<open>The log files\<close>

datatype log_name = LogDefault | MemoryLog | MiscLog | InstructionLog

type_synonym logs = "log_name \<Rightarrow> u8 list"

text \<open>\<open>_strcmp\<close> gives 0 exactly when the strings are equal.\<close>

fun log_strcmp :: "cstr \<Rightarrow> cstr \<Rightarrow> int" where
  "log_strcmp (a # s) (b # t) = (if a \<noteq> 0 \<and> b \<noteq> 0 then (if a \<noteq> b then - 1 else log_strcmp s t) else if a = b then 0 else 1)"
| "log_strcmp s t = (if hdz s = hdz t then 0 else 1)"

definition check_handle :: "cstr \<Rightarrow> log_name" where
  "check_handle name =
     (if log_strcmp name (ascii ''memory.log'') = 0 then MemoryLog
      else if log_strcmp name (ascii ''misc.log'') = 0 then MiscLog
      else if log_strcmp name (ascii ''instruction.log'') = 0 then InstructionLog
      else LogDefault)"

definition log_write :: "log_name \<Rightarrow> u8 list \<Rightarrow> logs \<Rightarrow> logs" where
  "log_write h s l = l(h := l h @ s)"

definition logger_emit :: "cstr \<Rightarrow> cstr \<Rightarrow> logs \<Rightarrow> logs" where
  "logger_emit name log = log_write (check_handle name) log"

definition logger_emit_p :: "u64 \<Rightarrow> logs \<Rightarrow> logs option" where
  "logger_emit_p p l = Option.bind (fmt_x_fixed p 32 16) (\<lambda>q. Some (log_write MiscLog (ascii ''0x'' @ q @ [0x0a]) l))"

definition logger_emit_m :: "u64 \<Rightarrow> logs \<Rightarrow> logs" where
  "logger_emit_m p = log_write MiscLog (ascii ''0x'' @ fmt_mx p 32 16 @ [0x0a])"

text \<open>The digits end at \<open>tmp + 7\<close>, where a NUL follows: the newline in \<open>tmp[15]\<close> is
  never written.\<close>

definition logger_emit_d :: "u64 \<Rightarrow> logs \<Rightarrow> logs option" where
  "logger_emit_d p l = map_option (\<lambda>q. log_write MiscLog q l) (in_tmp (fmt_u p))"

definition logger_emit3 :: "cstr \<Rightarrow> u8 list \<Rightarrow> mem \<Rightarrow> u64 \<Rightarrow> logs \<Rightarrow> logs option" where
  "logger_emit3 name log m va l = map_option (\<lambda>s. log_write (check_handle name) s l) (log_sprintf m va log)"

subsection \<open>Values of digit strings\<close>

definition hex_val :: "u8 \<Rightarrow> nat" where
  "hex_val c = (if c < 0x40 then unat c - 0x30 else unat c - 0x57)"

definition hex_value :: "u8 list \<Rightarrow> nat" where
  "hex_value s = foldl (\<lambda>n c. 16 * n + hex_val c) 0 s"

definition dec_value :: "u8 list \<Rightarrow> nat" where
  "dec_value s = foldl (\<lambda>n c. 10 * n + (unat c - 0x30)) 0 s"

lemma word_lt_16_cases: "(d :: u64) < 16 \<Longrightarrow> d \<in> word_of_nat ` {..<16}"
  by (rule image_eqI [of _ _ "unat d"]) (simp_all add: word_less_nat_alt)

lemma hex_val_xdigit:
  assumes "d < 16"
  shows "hex_val (xdigit d OR 32) = unat d"
proof -
  have "d \<in> word_of_nat ` {..<16}" using word_lt_16_cases [OF assms] .
  then have "d \<in> {0, 1, 2, 3, 4, 5, 6, 7, 8, 9, 10, 11, 12, 13, 14, 15}"
    by (auto simp: lessThan_nat_numeral lessThan_Suc)
  then show ?thesis by (auto simp: xdigit_def hex_val_def)
qed

lemma and_15_less: "(x :: u64) AND 15 < 16"
  using word_and_le1 [of x 15] by (rule order.strict_trans1) simp

lemma hex_val_digit: "hex_val (xdigit (x AND 15) OR 32) = unat x mod 16"
proof -
  have "x AND 15 = take_bit 4 x" by (simp add: take_bit_eq_mask mask_numeral)
  then have "unat (x AND 15) = unat x mod 16" by (simp add: unat_mod take_bit_eq_mod)
  then show ?thesis using hex_val_xdigit [OF and_15_less [of x]] by simp
qed

lemma foldl_hex: "foldl (\<lambda>n c. 16 * n + hex_val c) a s = a * 16 ^ length s + hex_value s"
proof (induction s arbitrary: a)
  case (Cons c s)
  show ?case
    using Cons.IH [of "16 * a + hex_val c"] Cons.IH [of "hex_val c"] by (simp add: hex_value_def algebra_simps)
qed (simp add: hex_value_def)

lemma hex_value_Cons: "hex_value (c # s) = hex_val c * 16 ^ length s + hex_value s"
  using foldl_hex [of "hex_val c" s] by (simp add: hex_value_def)

lemma unat_drop_bit: "unat (drop_bit n x :: u64) = unat x div 2 ^ n"
proof -
  have "unat x < 2 ^ 64" using unsigned_less [of x, where ?'a = nat] by simp
  then show ?thesis by (simp add: unsigned_drop_bit_eq take_bit_nat_eq_self flip: drop_bit_eq_div)
qed

lemma unat_drop_bit_4: "unat (drop_bit (4 * n) x :: u64) = unat x div 16 ^ n"
  by (simp only: unat_drop_bit power_mult) simp

text \<open>The hexadecimal digits of a number, as a table of characters.\<close>

definition digit_chars :: "u8 list" where
  "digit_chars = ascii ''0123456789abcdef''"

definition digit_text :: "nat \<Rightarrow> nat \<Rightarrow> u8 list" where
  "digit_text n X = map (\<lambda>j. digit_chars ! (X div 16 ^ j mod 16)) (rev [0..<n])"

lemma digit_text_step: "digit_text (n + 2) X = [digit_chars ! (X div 16 ^ (n + 1) mod 16), digit_chars ! (X div 16 ^ n mod 16)] @ digit_text n X"
  by (simp add: digit_text_def)

lemma xdigit_char:
  assumes "d < 16"
  shows "xdigit d OR 32 = digit_chars ! unat d"
proof -
  have "d \<in> word_of_nat ` {..<16}" using word_lt_16_cases [OF assms] .
  then have "d \<in> {0, 1, 2, 3, 4, 5, 6, 7, 8, 9, 10, 11, 12, 13, 14, 15}"
    by (auto simp: lessThan_nat_numeral lessThan_Suc)
  then show ?thesis by (auto simp: xdigit_def digit_chars_def ascii_def)
qed

lemma xdigit_char_at: "xdigit (drop_bit (4 * n) x AND 15) OR 32 = digit_chars ! (unat x div 16 ^ n mod 16)"
proof -
  have "drop_bit (4 * n) x AND 15 = take_bit 4 (drop_bit (4 * n) x)" by (simp add: take_bit_eq_mask mask_numeral)
  then have "unat (drop_bit (4 * n) x AND 15) = unat x div 16 ^ n mod 16"
    by (simp add: unat_mod take_bit_eq_mod unat_drop_bit_4)
  then show ?thesis using xdigit_char [OF and_15_less [of "drop_bit (4 * n) x"]] by simp
qed

lemma fmt_x_loop_even:
  assumes "i = 2 * k" "k < 128"
  shows "fmt_x_loop x 32 (word_of_nat i) = Some (digit_text (i + 2) (unat x))"
  using assms
proof (induction k arbitrary: i)
  case 0
  then show ?case
    using xdigit_char_at [of 0 x] xdigit_char_at [of 1 x]
    by (subst fmt_x_loop.simps) (simp add: digit_text_step [of 0, simplified] digit_text_def)
next
  case (Suc k)
  have i256: "i < 256" "2 \<le> i" using Suc.prems by simp_all
  have u: "unat (word_of_nat i :: u8) = i" using i256(1) by (simp add: unsigned_of_nat take_bit_nat_eq_self)
  then have nz: "(word_of_nat i :: u8) \<noteq> 0" using i256(2) by (metis not_numeral_le_zero unat_0)
  have m: "(word_of_nat i :: u8) - 2 = word_of_nat (i - 2)" using i256(2) by (simp add: of_nat_diff)
  have d: "fmt_x_loop x 32 (word_of_nat (i - 2)) = Some (digit_text i (unat x))"
    using Suc.IH [of "i - 2"] Suc.prems by auto
  show ?case
    using d nz xdigit_char_at [of "i + 1" x] by (subst fmt_x_loop.simps) (simp add: u m digit_text_step xdigit_char_at del: add_2_eq_Suc')
qed

lemma hex_val_char: "n < 16 \<Longrightarrow> hex_val (digit_chars ! n) = n"
  using xdigit_char [of "word_of_nat n"] hex_val_xdigit [of "word_of_nat n"]
  by (simp add: word_less_nat_alt unsigned_of_nat take_bit_nat_eq_self)

lemma hex_value_digit_text: "hex_value (digit_text n X) = X mod 16 ^ n"
proof (induction n)
  case (Suc n)
  have "X mod (16 ^ n * 16) = 16 ^ n * (X div 16 ^ n mod 16) + X mod 16 ^ n" by (rule mod_mult2_eq)
  then show ?case
    using Suc hex_val_char [of "X div 16 ^ n mod 16"] by (simp add: digit_text_def hex_value_Cons mult.commute)
qed (simp add: digit_text_def hex_value_def)

text \<open>C26: a pointer is logged as \<open>0x\<close>, its sixteen hexadecimal digits, the highest
  first, in the characters \<open>0\<close> to \<open>9\<close> and \<open>a\<close> to \<open>f\<close>, and a newline; read as a number
  the digits give the pointer.\<close>

theorem logger_emit_p_hex:
  "logger_emit_p p l = Some (l(MiscLog := l MiscLog @ ascii ''0x'' @
      map (\<lambda>j. ascii ''0123456789abcdef'' ! (unat p div 16 ^ j mod 16)) (rev [0..<16]) @ [0x0a])) \<and>
    hex_value (map (\<lambda>j. ascii ''0123456789abcdef'' ! (unat p div 16 ^ j mod 16)) (rev [0..<16])) = unat p"
  unfolding digit_chars_def [symmetric] digit_text_def [symmetric]
proof
  have "fmt_x_loop p 32 14 = Some (digit_text 16 (unat p))" using fmt_x_loop_even [of 14 7 p] by simp
  then show "logger_emit_p p l = Some (l(MiscLog := l MiscLog @ ascii ''0x'' @ digit_text 16 (unat p) @ [0x0a]))"
    by (simp add: logger_emit_p_def fmt_x_fixed_def log_write_def)
  have "unat p < 16 ^ 16" using unsigned_less [of p] by simp
  then show "hex_value (digit_text 16 (unat p)) = unat p" by (simp add: hex_value_digit_text)
qed

subsection \<open>The width of a number\<close>

lemma fmt_x_length: "length s \<le> length (fmt_x x lower s)"
proof (induction x lower s rule: fmt_x.induct)
  case (1 x lower s)
  then show ?case by (subst fmt_x.simps) (use Suc_leD in fastforce)
qed

lemma unat_drop_bit_4_1: "unat (drop_bit 4 x :: u64) = unat x div 16"
  using unat_drop_bit_4 [of 1 x] by simp

lemma fmt_x_width: "length (fmt_x x lower s) \<le> length s + n \<longleftrightarrow> unat x < 16 ^ n"
proof (induction x lower s arbitrary: n rule: fmt_x.induct)
  case (1 x lower s)
  show ?case
  proof (cases "x = 0")
    case True
    then show ?thesis by (subst fmt_x.simps) simp
  next
    case False
    let ?s = "(xdigit (x AND 15) OR lower) # s"
    have step: "fmt_x x lower s = fmt_x (drop_bit 4 x) lower ?s" using False by (subst fmt_x.simps) simp
    show ?thesis
    proof (cases n)
      case 0
      then show ?thesis using False fmt_x_length [of ?s "drop_bit 4 x" lower] step by (simp add: unat_eq_zero)
    next
      case (Suc k)
      have "length (fmt_x (drop_bit 4 x) lower ?s) \<le> length ?s + k \<longleftrightarrow> unat x div 16 < 16 ^ k"
        using "1.IH" [OF False, of k] by (simp add: unat_drop_bit_4_1)
      then show ?thesis using Suc step by (simp add: div_less_iff_less_mult mult.commute)
    qed
  qed
qed

lemma fmt_x_value: "hex_value (fmt_x x 32 s) = unat x * 16 ^ length s + hex_value s"
proof (induction x "32 :: u8" s rule: fmt_x.induct)
  case (1 x s)
  show ?case
  proof (cases "x = 0")
    case True
    then show ?thesis by (subst fmt_x.simps) simp
  next
    case False
    let ?s = "(xdigit (x AND 15) OR 32) # s"
    have "hex_value (fmt_x x 32 s) = unat x div 16 * 16 ^ length ?s + hex_value ?s"
      using "1" [OF False] False by (subst fmt_x.simps) (simp add: unat_drop_bit_4_1)
    also have "\<dots> = (unat x div 16 * 16 + unat x mod 16) * 16 ^ length s + hex_value s"
      unfolding hex_value_Cons hex_val_digit distrib_right by simp
    finally show ?thesis by simp
  qed
qed

lemma sprintf_plain: "0x25 \<notin> set p \<Longrightarrow> sprintf_loop m va (p @ r) = map_option ((@) p) (sprintf_loop m va r)"
proof (induction p)
  case (Cons a p)
  then show ?case by (cases "sprintf_loop m va r") auto
qed (cases "sprintf_loop m va r", simp_all)

text \<open>A format with one \<open>%p\<close> that is followed by at least one byte prints the
  hexadecimal digits of the argument if they are at most seven, that is below
  \<open>2^28\<close>; a larger argument overruns the buffer of the digits, and a format that
  ends with the directive is read past its end.\<close>

theorem sprintf_pointer:
  assumes "0x25 \<notin> set pre" "0x25 \<notin> set post"
  shows "sprintf_loop m va (pre @ [0x25, 0x70, c] @ post) =
      (if unat va < 2 ^ 28 then Some (pre @ fmt_x va 32 [] @ [c] @ post) else None) \<and>
    sprintf_loop m va (pre @ [0x25, 0x70]) = None \<and> hex_value (fmt_x va 32 []) = unat va"
proof -
  have "length (fmt_x va 32 []) \<le> 7 \<longleftrightarrow> unat va < 2 ^ 28" using fmt_x_width [of va 32 "[]" 7] by simp
  moreover have "sprintf_loop m va post = Some post" using sprintf_plain [OF assms(2), of m va "[]"] by simp
  ultimately show ?thesis
    using fmt_x_value [of va "[]"] by (simp add: sprintf_plain [OF assms(1)] in_tmp_def hex_value_def)
qed

lemma sprintf_pointer_witness:
  "\<exists>s. sprintf_loop (\<lambda>_. 0) 0xab ([0x3d] @ [0x25, 0x70, 0x0a] @ []) = Some ([0x3d] @ s @ [0x0a] @ []) \<and> hex_value s = 0xab"
  using sprintf_pointer [of "[0x3d]" "[]" "\<lambda>_. 0" "0xab" "0x0a"] by simp

end
