(* ===== verification/Disasm.thy ===== *)
theory Disasm
  imports Logger "HOL-Library.Monad_Syntax"
begin

text \<open>
  \<open>core/asm/x86/disasm.c\<close>: the disassembler of the emulator.  It prints the instruction
  the emulator has just decoded into its \<open>Context\<close>.  Its static buffers are the state
  \<open>dis\<close>; \<open>written\<close> is what has been written to the standard output.  The decoder is
  assembly code: the context it fills and the addresses it gives (of the registers, of
  the operation tables, of the program) are parameters.  An endless loop, an overrun of
  a buffer and a shift by the width of an \<open>int\<close> are \<open>None\<close>; log lines are left out.
\<close>

record Context =
  displacement :: u64
  imm_op :: u64
  reg :: u64
  rm :: u64
  imm_val :: u64
  sib_index :: u64
  sib_base :: u64
  opcode :: u8
  c_mod :: u8
  sib :: u8
  sib_scale :: u8
  rip_rel :: u8
  dflag :: u8
  aflag :: u8

record dis_env =
  reg_head :: u64
  op_shift_base :: u64
  op_f6_f_base :: u64
  op_fe_f_base :: u64
  op01_f_base :: u64
  image_base :: u64
  emu_base :: u64
  get_rip :: u64
  is_extend_op :: bool

record dis =
  RM_BUF :: "u8 list"
  REG_BUF :: "u8 list"
  DIGIT :: "u8 list"
  written :: "u8 list"

definition os_write :: "u8 list \<Rightarrow> dis \<Rightarrow> dis" where
  "os_write s d = d\<lparr>written := written d @ s\<rparr>"

text \<open>Reading and writing a buffer as a string; the NUL is not written.\<close>

definition cstring :: "u8 list \<Rightarrow> cstr" where "cstring b = takeWhile (\<lambda>c. c \<noteq> 0) b"

definition put_at :: "nat \<Rightarrow> u8 list \<Rightarrow> u8 list \<Rightarrow> u8 list option" where
  "put_at k s b = (if k + length s \<le> length b then Some (take k b @ s @ drop (k + length s) b) else None)"

text \<open>What \<open>cons\<close> writes: the strings, and a bracket that closes a bracket.\<close>

definition cons :: "cstr list \<Rightarrow> cstr" where
  "cons q = concat q @ (if hdz (hd q) = 0x5b then [0x5d] else [])"

function itoh_loop :: "u64 \<Rightarrow> u64 \<Rightarrow> nat \<Rightarrow> u8 list" where
  "itoh_loop a p i =
     (if p = 0 then []
      else let b = ucast (drop_bit i (a AND p)) :: u8
           in (b + (if b < 0x0a then 0x30 else 0x61 - 0x0a)) # itoh_loop a (drop_bit 4 p) (i - 4))"
  by pat_completeness auto
termination by (relation "measure (\<lambda>(a, p, i). unat p)") (simp_all add: drop_bit_4_less)

declare itoh_loop.simps [simp del]

text \<open>\<open>itoh\<close> returns its static buffer: its string is read when it is used.\<close>

definition itoh :: "u64 \<Rightarrow> nat \<Rightarrow> dis \<Rightarrow> dis option" where
  "itoh a digit d = do {
     b \<leftarrow> put_at 2 (itoh_loop a (push_bit (digit - 4) 0x0f) (digit - 4)) (DIGIT d);
     Some (d\<lparr>DIGIT := b\<rparr>)
   }"

subsection \<open>Names of registers\<close>

text \<open>Each function gives the buffer and the offset of the name in it.\<close>

definition set_name1 :: "u8 list \<Rightarrow> u8 \<Rightarrow> u8 list \<times> nat" where
  "set_name1 q flag =
     (if flag = 0x00 then (q[2 := 0x6c], 1)
      else if flag = 0x04 then (q[2 := 0x68], 1)
      else if flag = 0x08 then (q[2 := 0x78], 1)
      else if flag = 0x10 then (q[0 := 0x65, 2 := 0x78], 0)
      else if flag = 0x18 then (q[0 := 0x72, 2 := 0x78], 0)
      else (q, 0))"

definition set_name2 :: "u8 list \<Rightarrow> u8 \<Rightarrow> (u8 list \<times> nat) option" where
  "set_name2 q flag =
     (if flag = 0x00 then Some (q[3 := 0x6c], 1)
      else if flag = 0x04 then None
      else if flag = 0x08 then Some (q, 1)
      else if flag = 0x10 then Some (q[0 := 0x65], 0)
      else if flag = 0x18 then Some (q[0 := 0x72], 0)
      else Some (q, 0))"

text \<open>\<open>k\<close> is how far the pointer passed to \<open>set_name3\<close> is behind the buffer.\<close>

definition set_name3 :: "u8 list \<Rightarrow> nat \<Rightarrow> u8 \<Rightarrow> (u8 list \<times> nat) option" where
  "set_name3 q k flag =
     (if flag = 0x00 then Some (q[k + 2 := 0x62], 0)
      else if flag = 0x04 then None
      else if flag = 0x08 then Some (q[k + 2 := 0x77], 0)
      else if flag = 0x10 then Some (q[k + 2 := 0x64], 0)
      else Some (q, 0))"

definition register_number :: "dis_env \<Rightarrow> u64 \<Rightarrow> u32" where
  "register_number env p = ucast (drop_bit 3 (p - reg_head env))"

definition register_text :: "u32 \<Rightarrow> u8 \<Rightarrow> cstr option" where
  "register_text r flag =
     (let q = replicate 8 0 in
      map_option (\<lambda>(q, k). cstring (drop k q))
       (if r = 0 then Some (set_name1 (q[1 := 0x61]) flag)
        else if r = 1 then Some (set_name1 (q[1 := 0x63]) flag)
        else if r = 2 then Some (set_name1 (q[1 := 0x64]) flag)
        else if r = 3 then Some (set_name1 (q[1 := 0x62]) flag)
        else if r = 4 then set_name2 (q[1 := 0x73, 2 := 0x70]) flag
        else if r = 5 then set_name2 (q[1 := 0x62, 2 := 0x70]) flag
        else if r = 6 then set_name2 (q[1 := 0x73, 2 := 0x69]) flag
        else if r = 7 then set_name2 (q[1 := 0x64, 2 := 0x69]) flag
        else if r = 8 then set_name3 (q[0 := 0x72, 1 := 0x38]) 0 flag
        else if r = 9 then set_name3 (q[0 := 0x72, 1 := 0x39]) 0 flag
        else if r \<le> 15 then set_name3 (q[0 := 0x72, 1 := 0x31, 2 := ucast r + 0x26]) 1 flag
        else None))"

definition get_register_name :: "dis_env \<Rightarrow> u64 \<Rightarrow> u8 \<Rightarrow> cstr option" where
  "get_register_name env p flag = register_text (register_number env p) flag"

subsection \<open>Operands\<close>

text \<open>The sign and the digits; a shift of an \<open>int\<close> by 31 or more has no value.\<close>

definition check_sign :: "u64 \<Rightarrow> nat \<Rightarrow> dis \<Rightarrow> (cstr list \<times> dis) option" where
  "check_sign imm digit d =
     (if 31 \<le> digit then None
      else let pow = push_bit digit 1 in
        if drop_bit 1 pow \<le> imm
        then do { d \<leftarrow> itoh (pow - imm) digit d; Some ([ascii ''-'', cstring (DIGIT d)], d) }
        else do { d \<leftarrow> itoh imm digit d; Some ([ascii ''+'', cstring (DIGIT d)], d) })"

definition write_scale_index_base :: "dis_env \<Rightarrow> Context \<Rightarrow> cstr list \<Rightarrow> cstr option" where
  "write_scale_index_base env con buf = do {
     base \<leftarrow> (if sib_base con = 0 then Some (ascii '' '') else get_register_name env (sib_base con) (aflag con));
     if sib_scale con = 0 then Some (cons (buf @ [ascii ''('', base, ascii '')'']))
     else do {
       index \<leftarrow> get_register_name env (sib_index con) (aflag con);
       Some (cons (buf @ [ascii ''('', base, ascii '','', index, ascii '',''] @
         (if sib_scale con = 1 then [ascii ''2'', ascii '')'']
          else if sib_scale con = 2 then [ascii ''4'', ascii '')'']
          else if sib_scale con = 3 then [ascii ''8'', ascii '')'']
          else [])))
     }
   }"

text \<open>What \<open>t1\<close> writes to its buffer.\<close>

definition t1 :: "dis_env \<Rightarrow> Context \<Rightarrow> bool \<Rightarrow> dis \<Rightarrow> (cstr \<times> dis) option" where
  "t1 env con apply_mod d =
     (if apply_mod then
        if c_mod con = 0x00 then
          if sib con \<noteq> 0 then do { s \<leftarrow> write_scale_index_base env con []; Some (s, d) }
          else if rip_rel con \<noteq> 0 then do {
            (b, d) \<leftarrow> check_sign (displacement con) 8 d;
            Some (cons ([ascii ''['', ascii ''rip''] @ b), d) }
          else do { r \<leftarrow> get_register_name env (rm con) (aflag con); Some (cons [ascii ''['', r], d) }
        else if c_mod con = 0x08 then
          if sib con \<noteq> 0 then do {
            (b, d) \<leftarrow> check_sign (displacement con) 8 d;
            s \<leftarrow> write_scale_index_base env con b;
            Some (s, d) }
          else do {
            r \<leftarrow> get_register_name env (rm con) (aflag con);
            (b, d) \<leftarrow> check_sign (displacement con) 8 d;
            Some (cons ([ascii ''['', r] @ b), d) }
        else if c_mod con = 0x10 then
          if sib con \<noteq> 0 then do {
            (b, d) \<leftarrow> check_sign (displacement con) 32 d;
            s \<leftarrow> write_scale_index_base env con b;
            Some (s, d) }
          else do {
            r \<leftarrow> get_register_name env (rm con) (aflag con);
            (b, d) \<leftarrow> check_sign (imm_val con) 32 d;
            Some (cons ([ascii ''['', r] @ b), d) }
        else if c_mod con = 0x18 then do {
          r \<leftarrow> get_register_name env (rm con) (dflag con);
          Some (cons [r], d) }
        else Some ([], d)
      else do {
        r \<leftarrow> get_register_name env (reg con) (dflag con);
        Some (cons [r], d) })"

definition get_rm_name :: "dis_env \<Rightarrow> Context \<Rightarrow> dis \<Rightarrow> dis option" where
  "get_rm_name env con d = do {
     (s, d) \<leftarrow> t1 env con True d;
     b \<leftarrow> put_at 0 s (RM_BUF d);
     Some (d\<lparr>RM_BUF := b\<rparr>)
   }"

definition get_reg_name :: "dis_env \<Rightarrow> Context \<Rightarrow> dis \<Rightarrow> dis option" where
  "get_reg_name env con d = do {
     (s, d) \<leftarrow> t1 env con False d;
     b \<leftarrow> put_at 0 s (REG_BUF d);
     Some (d\<lparr>REG_BUF := b\<rparr>)
   }"

definition fill_name :: "dis_env \<Rightarrow> Context \<Rightarrow> dis \<Rightarrow> dis option" where
  "fill_name env con d = do { d \<leftarrow> get_rm_name env con d; get_reg_name env con d }"

subsection \<open>Names of operations\<close>

definition get_jmp_name :: "u8 \<Rightarrow> cstr option" where
  "get_jmp_name index =
     (if 0x70 \<le> index \<and> index \<le> 0x7f
      then Some (ascii ([''jo'', ''jno'', ''jnae'', ''jnc'', ''je'', ''jne'', ''jna'', ''ja'', ''js'', ''jns'',
        ''jpe'', ''jpo'', ''jnge'', ''jge'', ''jng'', ''jnle''] ! (unat index - 0x70)))
      else None)"

text \<open>An operation group: \<open>imm_op\<close> points into its table.\<close>

definition op_number :: "Context \<Rightarrow> u64 \<Rightarrow> nat" where
  "op_number con base = unat (drop_bit 3 (imm_op con - base))"

definition get_op_shift_name :: "dis_env \<Rightarrow> Context \<Rightarrow> cstr option" where
  "get_op_shift_name env con =
     (let diff = op_number con (op_shift_base env) in
      if diff < 8 then Some (ascii ([''rol'', ''ror'', ''rcl'', ''rcr'', ''shl'', ''shr'', ''shl1'', ''sar''] ! diff))
      else None)"

definition get_f6_opcode_name :: "dis_env \<Rightarrow> Context \<Rightarrow> cstr option" where
  "get_f6_opcode_name env con =
     (let diff = op_number con (op_f6_f_base env) in
      if diff < 8 \<and> diff \<noteq> 1
      then Some (ascii ([''test'', '''', ''not'', ''neg'', ''mul'', ''imul'', ''div'', ''idiv''] ! diff))
      else None)"

definition get_fe_opcode_name :: "dis_env \<Rightarrow> Context \<Rightarrow> cstr option" where
  "get_fe_opcode_name env con =
     (let diff = op_number con (op_fe_f_base env) in
      if diff < 7 then Some (ascii ([''inc'', ''dec'', ''call'', ''call'', ''jmp'', ''jmp'', ''push''] ! diff))
      else None)"

definition get_op01_f_base :: "dis_env \<Rightarrow> Context \<Rightarrow> cstr option" where
  "get_op01_f_base env con =
     (let diff = op_number con (op01_f_base env) in
      if diff < 8 then Some (ascii ([''add'', ''or'', ''adc'', ''sbb'', ''and'', ''sub'', ''xor'', ''cmp''] ! diff))
      else None)"

subsection \<open>The line of an instruction\<close>

text \<open>The strings of the line, in the order of \<open>b2\<close>; without one nothing is printed.
  The operands are read from the buffers when the line is put together.\<close>

type_synonym line = "(cstr list \<times> dis) option"

definition rm_reg :: "dis_env \<Rightarrow> Context \<Rightarrow> cstr \<Rightarrow> dis \<Rightarrow> line" where
  "rm_reg env con nm d = do {
     d \<leftarrow> fill_name env con d;
     Some ([nm, cstring (RM_BUF d), cstring (REG_BUF d)], d) }"

definition rm_only :: "dis_env \<Rightarrow> Context \<Rightarrow> cstr \<Rightarrow> dis \<Rightarrow> line" where
  "rm_only env con nm d = do { d \<leftarrow> get_rm_name env con d; Some ([nm, cstring (RM_BUF d)], d) }"

definition rm_imm :: "dis_env \<Rightarrow> Context \<Rightarrow> cstr \<Rightarrow> nat \<Rightarrow> dis \<Rightarrow> line" where
  "rm_imm env con nm n d = do {
     d \<leftarrow> get_rm_name env con d;
     d \<leftarrow> itoh (imm_val con) n d;
     Some ([nm, cstring (RM_BUF d), cstring (DIGIT d)], d) }"

definition imm_only :: "Context \<Rightarrow> cstr \<Rightarrow> nat \<Rightarrow> dis \<Rightarrow> line" where
  "imm_only con nm n d = do { d \<leftarrow> itoh (imm_val con) n d; Some ([nm, cstring (DIGIT d)], d) }"

text \<open>Opcodes \<open>0x00 .. 0x3d\<close>.\<close>

definition dis_00 :: "dis_env \<Rightarrow> Context \<Rightarrow> dis \<Rightarrow> line" where
  "dis_00 env con d =
     (let op = opcode con in
      if op \<in> {0x00, 0x01, 0x02, 0x03, 0x04, 0x05} then rm_reg env con (ascii ''add'') d
      else if op \<in> {0x08, 0x09, 0x0a, 0x0b, 0x0c, 0x0d} then rm_reg env con (ascii ''or'') d
      else if op \<in> {0x10, 0x11, 0x12, 0x13, 0x14, 0x15} then rm_reg env con (ascii ''adc'') d
      else if op \<in> {0x18, 0x19, 0x1a, 0x1b, 0x1c, 0x1d} then rm_reg env con (ascii ''sbb'') d
      else if op \<in> {0x20, 0x21, 0x22, 0x23, 0x24, 0x25} then rm_reg env con (ascii ''and'') d
      else if op \<in> {0x28, 0x29, 0x2a, 0x2b, 0x2c, 0x2d} then rm_reg env con (ascii ''sub'') d
      else if op = 0x2e then Some ([ascii ''nop''], os_write (ascii ''k'' @ [0x0a]) d)
      else if op \<in> {0x30, 0x31, 0x32, 0x33, 0x34, 0x35} then rm_reg env con (ascii ''xor'') d
      else if op \<in> {0x38, 0x39, 0x3a, 0x3b, 0x3c, 0x3d} then rm_reg env con (ascii ''cmp'') d
      else None)"

text \<open>Opcodes \<open>0x50 .. 0x7f\<close>; \<open>0x60\<close> falls through to \<open>0x68\<close>.\<close>

definition dis_50 :: "dis_env \<Rightarrow> Context \<Rightarrow> dis \<Rightarrow> line" where
  "dis_50 env con d =
     (let op = opcode con in
      if 0x50 \<le> op \<and> op \<le> 0x57 then do { r \<leftarrow> get_register_name env (reg con) 0x18; Some ([ascii ''push'', r], d) }
      else if 0x58 \<le> op \<and> op \<le> 0x5f then do { r \<leftarrow> get_register_name env (reg con) 0x18; Some ([ascii ''pop'', r], d) }
      else if op \<in> {0x60, 0x68} then imm_only con (ascii ''push'') 32 d
      else if op = 0x6a then imm_only con (ascii ''push'') 8 d
      else if 0x70 \<le> op \<and> op \<le> 0x7f then do { nm \<leftarrow> get_jmp_name op; imm_only con nm 8 d }
      else None)"

text \<open>Opcodes \<open>0x80 .. 0xad\<close>.\<close>

definition dis_80 :: "dis_env \<Rightarrow> Context \<Rightarrow> dis \<Rightarrow> line" where
  "dis_80 env con d =
     (let op = opcode con in
      if op \<in> {0x80, 0x81, 0x82, 0x83} then do { nm \<leftarrow> get_op01_f_base env con; rm_imm env con nm 8 d }
      else if op \<in> {0x84, 0x85} then rm_reg env con (ascii ''test'') d
      else if op \<in> {0x86, 0x87} then rm_reg env con (ascii ''xchg'') d
      else if op \<in> {0x88, 0x89, 0x8a, 0x8b} then rm_reg env con (ascii ''mov'') d
      else if op = 0x8d then rm_reg env con (ascii ''lea'') d
      else if op \<in> {0x8c, 0x8e, 0x8f} then Some ([], d)
      else if 0x90 \<le> op \<and> op \<le> 0x97 then rm_reg env con (ascii ''xchg'') d
      else if op \<in> {0x98, 0x99} then Some ([], d)
      else if op = 0x9c then Some ([ascii ''pushf''], d)
      else if op = 0x9d then Some ([ascii ''popf''], d)
      else if op = 0xa8 then Some ([], d)
      else if op = 0xa9 then rm_imm env con (ascii ''test'') 32 d
      else if op \<in> {0xaa, 0xab} then Some ([ascii ''stosS''], d)
      else if op \<in> {0xac, 0xad} then Some ([ascii ''lodsS''], d)
      else None)"

text \<open>Opcodes \<open>0xb0 .. 0xff\<close>.\<close>

definition dis_b0 :: "dis_env \<Rightarrow> Context \<Rightarrow> dis \<Rightarrow> line" where
  "dis_b0 env con d =
     (let op = opcode con in
      if 0xb0 \<le> op \<and> op \<le> 0xbf then do {
        d \<leftarrow> get_reg_name env con d;
        d \<leftarrow> itoh (imm_val con) (if op AND 0x08 \<noteq> 0 then 32 else 8) d;
        Some ([ascii ''mov'', cstring (REG_BUF d), cstring (DIGIT d)], d) }
      else if op \<in> {0xc0, 0xc1, 0xd0, 0xd1} then do { nm \<leftarrow> get_op_shift_name env con; rm_imm env con nm 8 d }
      else if op = 0xc2 then rm_only env con (ascii ''ret'') d
      else if op = 0xc3 then Some ([ascii ''ret''], d)
      else if op \<in> {0xc4, 0xc5} then Some ([], d)
      else if op \<in> {0xc6, 0xc7} then rm_reg env con (ascii ''mov'') d
      else if op = 0xe8 then imm_only con (ascii ''call'') 32 d
      else if op = 0xe9 then imm_only con (ascii ''jmp'') 32 d
      else if op \<in> {0xea, 0xeb} then imm_only con (ascii ''jmp'') 8 d
      else if op \<in> {0xf6, 0xf7} then do { nm \<leftarrow> get_f6_opcode_name env con; rm_only env con nm d }
      else if op \<in> {0xfe, 0xff} then do { nm \<leftarrow> get_fe_opcode_name env con; rm_only env con nm d }
      else None)"

definition dis_opcode :: "dis_env \<Rightarrow> Context \<Rightarrow> dis \<Rightarrow> line" where
  "dis_opcode env con d =
     (if opcode con < 0x50 then dis_00 env con d
      else if opcode con < 0x80 then dis_50 env con d
      else if opcode con < 0xb0 then dis_80 env con d
      else dis_b0 env con d)"

text \<open>The opcodes with the prefix \<open>0x0f\<close>.\<close>

definition fetch_extend :: "Context \<Rightarrow> dis \<Rightarrow> line" where
  "fetch_extend con d = Some (if opcode con = 0x1f then [ascii ''nop''] else [], d)"

definition snprintf :: "cstr list \<Rightarrow> cstr option" where
  "snprintf q = map_option cstring (put_at 0 (concat (map (\<lambda>s. s @ [0x20]) q) @ [0x0a]) (replicate 160 0))"

text \<open>The register buffer lies behind the other one, as they are declared.\<close>

definition clean_digit :: "u8 list \<Rightarrow> u8 list" where
  "clean_digit b = take 2 b @ replicate 8 0 @ drop 10 b"

definition state_clean_internal :: "dis \<Rightarrow> dis" where
  "state_clean_internal d =
     d\<lparr>RM_BUF := replicate 0x180 0, REG_BUF := replicate 0x180 0, DIGIT := clean_digit (DIGIT d)\<rparr>"

definition write_addr :: "dis_env \<Rightarrow> dis \<Rightarrow> dis option" where
  "write_addr env d = do {
     d \<leftarrow> itoh (get_rip env + (image_base env - emu_base env)) 32 d;
     let d = os_write (cstring (DIGIT d) @ [0x09]) d;
     Some (d\<lparr>DIGIT := clean_digit (DIGIT d)\<rparr>)
   }"

definition x86_dis :: "dis_env \<Rightarrow> Context \<Rightarrow> dis \<Rightarrow> dis option" where
  "x86_dis env con d = do {
     (b2, d) \<leftarrow> (if is_extend_op env then fetch_extend con d else dis_opcode env con d);
     d \<leftarrow> (if b2 = [] then Some d
           else do { s \<leftarrow> snprintf b2; Some (state_clean_internal (os_write s d)) });
     write_addr env d
   }"

subsection \<open>Digits\<close>

definition hexd :: "nat \<Rightarrow> u8" where "hexd n = ascii ''0123456789abcdef'' ! n"

fun hex_digits :: "nat \<Rightarrow> nat \<Rightarrow> cstr" where
  "hex_digits 0 x = []"
| "hex_digits (Suc n) x = hexd (x div 16 ^ n mod 16) # hex_digits n x"

definition hex_text :: "nat \<Rightarrow> nat \<Rightarrow> cstr" where
  "hex_text n x = [0x30, 0x78] @ hex_digits n x"

lemma hex_digits_numeral:
  "hex_digits (numeral k) x = hexd (x div 16 ^ pred_numeral k mod 16) # hex_digits (pred_numeral k) x"
  by (simp only: numeral_eq_Suc hex_digits.simps)

lemma length_hex_digits [simp]: "length (hex_digits n x) = n"
  by (induction n) simp_all

lemma hexd_word:
  assumes "b < (16 :: u8)"
  shows "b + (if b < 0x0a then 0x30 else 0x61 - 0x0a) = hexd (unat b)"
proof -
  have "unat b < 16" using assms by (simp add: word_less_nat_alt)
  then have "b \<in> of_nat ` {..<16}" by (metis image_eqI lessThan_iff of_nat_unat ucast_id)
  then show ?thesis by (auto simp: lessThan_nat_numeral lessThan_Suc hexd_def ascii_def)
qed

lemma hexd_nz: "n < 16 \<Longrightarrow> hexd n \<noteq> 0"
proof -
  assume "n < 16"
  then have "n \<in> {..<16}" by simp
  then show ?thesis by (auto simp: lessThan_nat_numeral lessThan_Suc hexd_def ascii_def)
qed

lemma nul_free_hex_digits: "0 \<notin> set (hex_digits n x)"
  by (induction n) (simp_all add: hexd_nz [THEN not_sym])

lemma digit_mask: "drop_bit i (a AND push_bit i 0xf) = take_bit 4 (drop_bit i a)" if "i \<le> 60" for a :: u64
proof -
  have "drop_bit i (a AND push_bit i (mask 4)) = take_bit 4 (drop_bit i a)"
    using that by (intro bit_word_eqI) (auto simp: bit_simps)
  then show ?thesis by (simp add: mask_eq_exp_minus_1)
qed

lemma digit_value:
  "(let b = ucast (take_bit 4 (drop_bit (4 * n) a)) :: u8 in b + (if b < 0x0a then 0x30 else 0x61 - 0x0a)) =
    hexd (unat a div 16 ^ n mod 16)" for a :: u64
proof -
  have "unat (take_bit 4 (drop_bit (4 * n) a)) = unat a div 16 ^ n mod 16"
  proof -
    have "unat (drop_bit (4 * n) a) = drop_bit (4 * n) (unat a)"
      unfolding unsigned_drop_bit_eq take_bit_nat_eq_self [OF unsigned_less] ..
    then show ?thesis by (simp add: take_bit_eq_mod drop_bit_eq_div power_mult unat_mod)
  qed
  then have u: "unat (ucast (take_bit 4 (drop_bit (4 * n) a)) :: u8) = unat a div 16 ^ n mod 16"
    by (simp add: unsigned_ucast_eq take_bit_eq_mod mod_mod_cancel)
  then have "ucast (take_bit 4 (drop_bit (4 * n) a)) < (16 :: u8)" by (simp add: word_less_nat_alt)
  then show ?thesis unfolding Let_def u [symmetric] by (rule hexd_word)
qed

lemma itoh_loop_digits:
  assumes "n < 16"
  shows "itoh_loop a (push_bit (4 * n) 0xf) (4 * n) = hex_digits (Suc n) (unat a)"
  using assms
proof (induction n)
  case 0
  have "itoh_loop a 0 0 = []" by (subst itoh_loop.simps) simp
  then have "itoh_loop a 0xf 0 = [hexd (unat a mod 16)]"
    using digit_value [of 0 a] digit_mask [of 0 a] by (subst itoh_loop.simps) (simp add: Let_def)
  then show ?case by simp
next
  case (Suc n)
  let ?p = "push_bit (4 * Suc n) 0xf :: u64"
  have "bit ?p (4 * Suc n)" using Suc.prems by (simp add: bit_simps)
  then have nz: "?p \<noteq> 0" by (metis bit_0_eq bot_apply bot_bool_def)
  have p: "drop_bit 4 ?p = push_bit (4 * n) 0xf"
  proof -
    have "drop_bit 4 (push_bit (4 * Suc n) (mask 4)) = (push_bit (4 * n) (mask 4) :: u64)"
      using Suc.prems by (intro bit_word_eqI) (auto simp: bit_simps)
    then show ?thesis by (simp add: mask_eq_exp_minus_1)
  qed
  have "itoh_loop a ?p (4 * Suc n) = hexd (unat a div 16 ^ Suc n mod 16) # itoh_loop a (push_bit (4 * n) 0xf) (4 * n)"
    using nz p digit_value [of "Suc n" a] digit_mask [of "4 * Suc n" a] Suc.prems
    by (subst itoh_loop.simps) (simp add: Let_def)
  then show ?case using Suc by simp
qed

text \<open>\<open>DIGIT\<close> holds at most \<open>n\<close> digits, the rest is zero.\<close>

definition digits_at_most :: "nat \<Rightarrow> u8 list \<Rightarrow> bool" where
  "digits_at_most n b \<longleftrightarrow> length b = 16 \<and> take 2 b = [0x30, 0x78] \<and> drop (2 + n) b = replicate (14 - n) 0"

lemma cstring_append_zero: "0 \<notin> set s \<Longrightarrow> cstring (s @ replicate n 0) = s"
proof -
  assume "0 \<notin> set s"
  then have "\<forall>c \<in> set s. c \<noteq> 0" by metis
  then show "cstring (s @ replicate n 0) = s" by (cases n) (simp_all add: cstring_def takeWhile_append2 takeWhile_eq_all_conv)
qed

lemma itoh_eq:
  assumes "digits_at_most m (DIGIT d)" "m \<le> n" "0 < n" "n \<le> 14"
  shows "itoh a (4 * n) d = Some (d\<lparr>DIGIT := hex_text n (unat a) @ replicate (14 - n) 0\<rparr>)"
proof -
  have "4 * n - 4 = 4 * (n - 1)" "Suc (n - 1) = n" using assms(3) by simp_all
  moreover have "drop (2 + n) (DIGIT d) = replicate (14 - n) 0"
  proof -
    have "drop (2 + n) (DIGIT d) = drop (n - m) (drop (2 + m) (DIGIT d))" using assms(2) by simp
    also have "\<dots> = drop (n - m) (replicate (14 - m) 0)" using assms(1) by (simp add: digits_at_most_def)
    finally show ?thesis using assms(2) by simp
  qed
  ultimately show ?thesis
    using assms itoh_loop_digits [of "n - 1" a] by (simp add: itoh_def put_at_def digits_at_most_def hex_text_def)
qed

lemma hex_text_digits:
  "n \<le> 14 \<Longrightarrow> digits_at_most n (hex_text n x @ replicate (14 - n) 0)"
  "cstring (hex_text n x @ replicate k 0) = hex_text n x"
  by (simp_all add: digits_at_most_def hex_text_def cstring_append_zero [of "0x30 # 0x78 # hex_digits n x", simplified]
      nul_free_hex_digits)

subsection \<open>What the text of an operand is\<close>

text \<open>The names of the registers in the sizes the flags stand for.\<close>

definition reg_names :: "u8 \<Rightarrow> string list" where
  "reg_names f =
     (if f = 0x00 then [''al'', ''cl'', ''dl'', ''bl'', ''spl'', ''bpl'', ''sil'', ''dil'',
        ''r8b'', ''r9b'', ''r10b'', ''r11b'', ''r12b'', ''r13b'', ''r14b'', ''r15b'']
      else if f = 0x08 then [''ax'', ''cx'', ''dx'', ''bx'', ''sp'', ''bp'', ''si'', ''di'',
        ''r8w'', ''r9w'', ''r10w'', ''r11w'', ''r12w'', ''r13w'', ''r14w'', ''r15w'']
      else if f = 0x10 then [''eax'', ''ecx'', ''edx'', ''ebx'', ''esp'', ''ebp'', ''esi'', ''edi'',
        ''r8d'', ''r9d'', ''r10d'', ''r11d'', ''r12d'', ''r13d'', ''r14d'', ''r15d'']
      else [''rax'', ''rcx'', ''rdx'', ''rbx'', ''rsp'', ''rbp'', ''rsi'', ''rdi'',
        ''r8'', ''r9'', ''r10'', ''r11'', ''r12'', ''r13'', ''r14'', ''r15''])"

definition reg_name :: "u8 \<Rightarrow> nat \<Rightarrow> cstr" where "reg_name f i = ascii (reg_names f ! i)"

definition operand_size :: "u8 \<Rightarrow> bool" where "operand_size f \<longleftrightarrow> f \<in> {0x00, 0x08, 0x10, 0x18}"

definition reg_at :: "dis_env \<Rightarrow> nat \<Rightarrow> u64" where "reg_at env i = reg_head env + 8 * of_nat i"

text \<open>Operands: a register, memory at a register or behind the instruction pointer,
  or at base and scaled index, with a displacement of a byte.\<close>

datatype operand =
    Direct nat
  | Mem nat "int option"
  | Rip int
  | Scaled "nat option" "(nat \<times> nat) option" "int option"

definition byte_disp :: "Context \<Rightarrow> int \<Rightarrow> bool" where
  "byte_disp con v \<longleftrightarrow> - 128 \<le> v \<and> v < 128 \<and> displacement con = of_int v"

definition mod_disp :: "Context \<Rightarrow> int option \<Rightarrow> bool" where
  "mod_disp con v \<longleftrightarrow> (case v of None \<Rightarrow> c_mod con = 0x00 | Some v \<Rightarrow> c_mod con = 0x08 \<and> byte_disp con v)"

fun encodes :: "dis_env \<Rightarrow> Context \<Rightarrow> operand \<Rightarrow> bool" where
  "encodes env con (Direct i) \<longleftrightarrow> c_mod con = 0x18 \<and> i < 16 \<and> rm con = reg_at env i"
| "encodes env con (Mem i v) \<longleftrightarrow> sib con = 0 \<and> rip_rel con = 0 \<and> i < 16 \<and> rm con = reg_at env i \<and> mod_disp con v"
| "encodes env con (Rip v) \<longleftrightarrow> sib con = 0 \<and> rip_rel con \<noteq> 0 \<and> c_mod con = 0x00 \<and> byte_disp con v"
| "encodes env con (Scaled b x v) \<longleftrightarrow> sib con \<noteq> 0 \<and> mod_disp con v \<and>
     (case b of None \<Rightarrow> sib_base con = 0 | Some b \<Rightarrow> b < 16 \<and> sib_base con = reg_at env b \<and> sib_base con \<noteq> 0) \<and>
     (case x of None \<Rightarrow> sib_scale con = 0
      | Some (i, s) \<Rightarrow> i < 16 \<and> sib_index con = reg_at env i \<and> s \<in> {1, 2, 3} \<and> sib_scale con = of_nat s)"

definition disp_text :: "int \<Rightarrow> cstr" where
  "disp_text v = ascii (if v < 0 then ''-'' else ''+'') @ hex_text 2 (nat \<bar>v\<bar>)"

definition opt_disp :: "int option \<Rightarrow> cstr" where
  "opt_disp v = (case v of None \<Rightarrow> [] | Some v \<Rightarrow> disp_text v)"

fun operand_text :: "u8 \<Rightarrow> u8 \<Rightarrow> operand \<Rightarrow> cstr" where
  "operand_text a d (Direct i) = reg_name d i"
| "operand_text a d (Mem i v) = ascii ''['' @ reg_name a i @ opt_disp v @ ascii '']''"
| "operand_text a d (Rip v) = ascii ''[rip'' @ disp_text v @ ascii '']''"
| "operand_text a d (Scaled b x v) = opt_disp v @ ascii ''('' @ (case b of None \<Rightarrow> ascii '' '' | Some b \<Rightarrow> reg_name a b) @
     (case x of None \<Rightarrow> [] | Some (i, s) \<Rightarrow> ascii '','' @ reg_name a i @ ascii '','' @ ascii ([''2'', ''4'', ''8''] ! (s - 1))) @ ascii '')''"

lemma less_16_cases: "i < (16 :: nat) \<Longrightarrow> i \<in> {0, 1, 2, 3, 4, 5, 6, 7, 8, 9, 10, 11, 12, 13, 14, 15}"
  by (simp only: insert_iff empty_iff) presburger

lemma register_number: "i < 16 \<Longrightarrow> register_number env (reg_at env i) = of_nat i"
  using less_16_cases [of i] by (auto simp: register_number_def reg_at_def)

lemma register_text_table:
  "list_all (\<lambda>f. list_all (\<lambda>i. register_text (of_nat i) f = Some (reg_name f i)) [0..<16]) [0x00, 0x08, 0x10, 0x18]"
  by code_simp

lemma get_register_name_eq:
  assumes "i < 16" "operand_size f"
  shows "get_register_name env (reg_at env i) f = Some (reg_name f i)"
proof -
  have "f \<in> set [0x00, 0x08, 0x10, 0x18]" "i \<in> set [0..<16]" using assms by (auto simp: operand_size_def)
  then have "register_text (of_nat i) f = Some (reg_name f i)"
    using register_text_table unfolding list_all_iff by blast
  then show ?thesis by (simp add: get_register_name_def register_number assms(1))
qed

lemma reg_name_table:
  "list_all (\<lambda>f. list_all (\<lambda>i. let s = reg_name f i in hdz s \<noteq> 0x5b \<and> 0 \<notin> set s \<and> length s \<le> 4) [0..<16]) [0x00, 0x08, 0x10, 0x18]"
  by code_simp

lemma reg_name_text:
  assumes "i < 16" "operand_size f"
  shows "hdz (reg_name f i) \<noteq> 0x5b" "0 \<notin> set (reg_name f i)" "length (reg_name f i) \<le> 4"
proof -
  have "f \<in> set [0x00, 0x08, 0x10, 0x18]" "i \<in> set [0..<16]" using assms by (auto simp: operand_size_def)
  then show "hdz (reg_name f i) \<noteq> 0x5b" "0 \<notin> set (reg_name f i)" "length (reg_name f i) \<le> 4"
    using reg_name_table unfolding list_all_iff Let_def by blast+
qed

lemma itoh8_eq:
  "digits_at_most m (DIGIT d) \<Longrightarrow> m \<le> 2 \<Longrightarrow> itoh a 8 d = Some (d\<lparr>DIGIT := hex_text 2 (unat a) @ replicate 12 0\<rparr>)"
  using itoh_eq [of m d 2 a] by simp

lemma itoh32_eq:
  "digits_at_most m (DIGIT d) \<Longrightarrow> m \<le> 8 \<Longrightarrow> itoh a 32 d = Some (d\<lparr>DIGIT := hex_text 8 (unat a) @ replicate 6 0\<rparr>)"
  using itoh_eq [of m d 8 a] by simp

lemma hex_text_2_256: "hex_text 2 (256 + k) = hex_text 2 k"
proof -
  have "(256 + k) div 16 = 16 + k div 16" using div_mult_self1 [of 16 k 16] by simp
  then have "(256 + k) div 16 mod 16 = k div 16 mod 16" by simp
  moreover have "(256 + k) mod 16 = k mod 16" using mod_mult_self1 [of k 16 16] by (simp add: add.commute)
  ultimately have "hex_digits (Suc (Suc 0)) (256 + k) = hex_digits (Suc (Suc 0)) k"
    by (simp only: hex_digits.simps power_0 power_Suc0_right div_by_1)
  then show ?thesis by (simp only: hex_text_def numeral_2_eq_2)
qed

lemma minus_byte_ge: "0 < k \<Longrightarrow> k \<le> 128 \<Longrightarrow> (128 :: u64) \<le> - of_nat k"
proof (rule ccontr)
  assume k: "0 < k" "k \<le> 128" and "\<not> (128 :: u64) \<le> - of_nat k"
  then have j: "unat (- of_nat k :: u64) < 128" by (simp add: word_le_nat_alt)
  have "of_nat (unat (- of_nat k :: u64) + k) = (0 :: u64)" by simp
  then have "2 ^ LENGTH(64) dvd unat (- of_nat k :: u64) + k" by (simp only: word_of_nat_eq_0_iff)
  then show False using j k by (auto dest!: dvd_imp_le)
qed

lemma check_sign_eq:
  assumes "digits_at_most m (DIGIT d)" "m \<le> 2" "- 128 \<le> v" "v < 128"
  shows "check_sign (of_int v) 8 d =
    Some ([ascii (if v < 0 then ''-'' else ''+''), hex_text 2 (nat \<bar>v\<bar>)],
      d\<lparr>DIGIT := hex_text 2 (nat \<bar>v\<bar>) @ replicate 12 0\<rparr>)"
proof (cases "v < 0")
  case False
  then obtain k where k: "v = int k" "k < 128" using assms(4) by (metis zero_le_imp_eq_int linorder_not_less of_nat_less_iff of_nat_numeral)
  have u: "unat (of_nat k :: u64) = k" using k(2) by (simp add: unsigned_of_nat take_bit_nat_eq_self)
  then have "\<not> (drop_bit 1 (push_bit 8 1) :: u64) \<le> of_nat k" using k(2) by (simp add: word_le_nat_alt)
  then show ?thesis
    using k(1) u hex_text_digits(2) [of 2 k 12] by (simp add: check_sign_def Let_def itoh8_eq [OF assms(1,2)])
next
  case True
  define k where "k = nat (- v)"
  have k: "0 < k" "k \<le> 128" "v = - int k" using True assms(3) by (simp_all add: k_def)
  then have w: "(of_int v :: u64) = - of_nat k" by simp
  have ge: "(drop_bit 1 (push_bit 8 1) :: u64) \<le> of_int v" using minus_byte_ge [OF k(1,2)] by (simp add: w)
  have u: "unat (push_bit 8 1 - of_int v :: u64) = 256 + k"
  proof -
    have "push_bit 8 1 - of_int v = (of_nat (256 + k) :: u64)" unfolding w by simp
    then show ?thesis using k(2) by (simp only: unsigned_of_nat) (simp add: take_bit_nat_eq_self)
  qed
  show ?thesis
    using True k ge u hex_text_digits(2) [of 2 k 12]
    by (simp add: check_sign_def Let_def itoh8_eq [OF assms(1,2)] hex_text_2_256)
qed

lemma digits_at_most_mono: "digits_at_most m b \<Longrightarrow> m \<le> n \<Longrightarrow> n \<le> 14 \<Longrightarrow> digits_at_most n b"
proof -
  assume a: "digits_at_most m b" "m \<le> n" "n \<le> 14"
  have "drop (2 + n) b = drop (n - m) (drop (2 + m) b)" using a(2) by simp
  also have "\<dots> = drop (n - m) (replicate (14 - m) 0)" using a(1) by (simp add: digits_at_most_def)
  finally show "digits_at_most n b" using a by (simp add: digits_at_most_def)
qed

lemma write_scale_eq:
  assumes "encodes env con (Scaled b x v)" "operand_size (aflag con)" "hdz (hd (buf @ [ascii ''('']))  \<noteq> 0x5b"
  shows "write_scale_index_base env con buf =
    Some (concat buf @ operand_text (aflag con) (dflag con) (Scaled b x None))"
proof -
  have c: "cons (buf @ ascii ''('' # r) = concat buf @ ascii ''('' @ concat r" for r
    using assms(3) by (cases buf) (simp_all add: cons_def)
  have 1: "(if sib_base con = 0 then Some (ascii '' '') else get_register_name env (sib_base con) (aflag con)) =
      Some (case b of None \<Rightarrow> ascii '' '' | Some b \<Rightarrow> reg_name (aflag con) b)"
    using assms(1,2) by (cases b) (auto simp: get_register_name_eq)
  show ?thesis
  proof (cases x)
    case None
    then show ?thesis using assms(1) unfolding write_scale_index_base_def 1 by (simp add: c opt_disp_def)
  next
    case (Some y)
    then obtain i s where y: "x = Some (i, s)" "i < 16" "sib_index con = reg_at env i" "s = 1 \<or> s = 2 \<or> s = 3"
        "sib_scale con = of_nat s"
      using assms(1) by (cases y) auto
    have 2: "get_register_name env (sib_index con) (aflag con) = Some (reg_name (aflag con) i)"
      using y assms(2) by (simp add: get_register_name_eq)
    show ?thesis using y(1,4,5) unfolding write_scale_index_base_def 1 2
      by (elim disjE) (simp_all add: c opt_disp_def)
  qed
qed

lemma t1_operand:
  assumes "encodes env con op" "operand_size (aflag con)" "operand_size (dflag con)" "digits_at_most 0 (DIGIT d)"
  shows "\<exists>D. t1 env con True d = Some (operand_text (aflag con) (dflag con) op, d\<lparr>DIGIT := D\<rparr>) \<and> digits_at_most 2 D"
proof -
  have D: "digits_at_most 2 (hex_text 2 x @ replicate 12 0)" for x using hex_text_digits(1) [of 2 x] by simp
  have s: "check_sign (displacement con) 8 d =
      Some ([ascii (if v < 0 then ''-'' else ''+''), hex_text 2 (nat \<bar>v\<bar>)], d\<lparr>DIGIT := hex_text 2 (nat \<bar>v\<bar>) @ replicate 12 0\<rparr>)"
    if "byte_disp con v" for v
    using that check_sign_eq [OF assms(4)] by (simp add: byte_disp_def)
  have same: "\<exists>D. d = d\<lparr>DIGIT := D\<rparr> \<and> digits_at_most 2 D"
    using digits_at_most_mono [OF assms(4), of 2] by (intro exI [of _ "DIGIT d"]) simp
  show ?thesis
  proof (cases op)
    case (Direct i)
    then show ?thesis using assms same reg_name_text(1) by (simp add: t1_def get_register_name_eq cons_def)
  next
    case (Mem i v)
    then show ?thesis
      using assms same D s
      by (cases v) (auto simp: t1_def get_register_name_eq cons_def mod_disp_def opt_disp_def disp_text_def ascii_def)
  next
    case (Rip v)
    then show ?thesis using assms D s by (auto simp: t1_def cons_def disp_text_def ascii_def)
  next
    case (Scaled b x v)
    note w = write_scale_eq [OF assms(1) [unfolded Scaled] assms(2)]
    show ?thesis
    proof (cases v)
      case None
      then show ?thesis
        using Scaled assms(1) same w [of "[]"] by (simp add: t1_def mod_disp_def opt_disp_def ascii_def)
    next
      case (Some u)
      then have "c_mod con = 0x08" "byte_disp con u" "sib con \<noteq> 0" using Scaled assms(1) by (simp_all add: mod_disp_def)
      moreover have "hdz (ascii (if u < 0 then ''-'' else ''+'')) \<noteq> 0x5b" by (simp add: ascii_def hdz_def)
      ultimately show ?thesis
        using Scaled Some D s [of u] w [of "[ascii (if u < 0 then ''-'' else ''+''), hex_text 2 (nat \<bar>u\<bar>)]"]
        by (intro exI [of _ "hex_text 2 (nat \<bar>u\<bar>) @ replicate 12 0"]) (simp add: t1_def opt_disp_def disp_text_def)
    qed
  qed
qed

subsection \<open>Lines leave the buffers clean\<close>

definition clean :: "dis \<Rightarrow> bool" where
  "clean d \<longleftrightarrow> RM_BUF d = replicate 0x180 0 \<and> REG_BUF d = replicate 0x180 0 \<and> digits_at_most 0 (DIGIT d)"

text \<open>Inside of a line \<open>DIGIT\<close> holds at most eight digits.\<close>

abbreviation digits_ok :: "dis \<Rightarrow> bool" where "digits_ok d \<equiv> digits_at_most 8 (DIGIT d)"

lemma put_at_digits:
  assumes "put_at 2 s b = Some b'" "length s \<le> 8" "digits_at_most 8 b"
  shows "digits_at_most 8 b'"
proof -
  have b': "b' = take 2 b @ s @ drop (2 + length s) b" using assms(1) by (simp add: put_at_def split: if_splits)
  have "drop (8 - length s) (drop (2 + length s) b) = drop 10 b" using assms(2) by simp
  then show ?thesis using assms(2,3) b' by (simp add: digits_at_most_def)
qed

lemma itoh_ok: "itoh a n d = Some d' \<Longrightarrow> n = 8 \<or> n = 32 \<Longrightarrow> digits_ok d \<Longrightarrow> digits_ok d'"
  using itoh_loop_digits [of 1 a] itoh_loop_digits [of 7 a]
  by (auto simp: itoh_def dest: put_at_digits split: bind_splits)

lemma check_sign_ok: "check_sign a n d = Some (b, d') \<Longrightarrow> n = 8 \<or> n = 32 \<Longrightarrow> digits_ok d \<Longrightarrow> digits_ok d'"
  by (auto simp: check_sign_def Let_def dest: itoh_ok split: bind_splits if_splits)

lemma t1_ok: "t1 env con b d = Some (s, d') \<Longrightarrow> digits_ok d \<Longrightarrow> digits_ok d'"
  by (auto simp: t1_def dest: check_sign_ok split: bind_splits if_splits)

lemma names_ok:
  "get_rm_name env con d = Some d' \<Longrightarrow> digits_ok d \<Longrightarrow> digits_ok d'"
  "get_reg_name env con d = Some d' \<Longrightarrow> digits_ok d \<Longrightarrow> digits_ok d'"
  "fill_name env con d = Some d' \<Longrightarrow> digits_ok d \<Longrightarrow> digits_ok d'"
  by (auto simp: get_rm_name_def get_reg_name_def fill_name_def dest!: t1_ok split: bind_splits)

text \<open>A line without strings changes nothing.\<close>

definition line_ok :: "dis \<Rightarrow> line \<Rightarrow> bool" where
  "line_ok d r \<longleftrightarrow> (case r of None \<Rightarrow> True | Some (b2, d') \<Rightarrow> digits_ok d' \<and> (b2 = [] \<longrightarrow> d' = d))"

lemma line_ok_simps [simp]: "line_ok d None" "line_ok d (Some (b2, d')) \<longleftrightarrow> digits_ok d' \<and> (b2 = [] \<longrightarrow> d' = d)"
  by (simp_all add: line_ok_def)

lemma line_kinds_ok:
  assumes "digits_ok d"
  shows "line_ok d (rm_reg env con nm d)" "line_ok d (rm_only env con nm d)" "line_ok d (imm_only con nm 8 d)"
    "line_ok d (imm_only con nm 32 d)" "line_ok d (rm_imm env con nm 8 d)" "line_ok d (rm_imm env con nm 32 d)"
  using assms
  by (auto simp: rm_reg_def rm_only_def imm_only_def rm_imm_def dest: names_ok itoh_ok split: bind_split)

lemma line_bind_ok: "(\<And>x. r = Some x \<Longrightarrow> line_ok d (f x)) \<Longrightarrow> line_ok d (Option.bind r f)"
  by (cases r) simp_all

lemma dis_opcode_ok:
  assumes "digits_ok d"
  shows "line_ok d (dis_opcode env con d)"
proof -
  note simps = assms line_kinds_ok [OF assms] Let_def os_write_def
  have "line_ok d (dis_00 env con d)" by (simp add: dis_00_def simps)
  moreover have "line_ok d (dis_50 env con d)" by (simp add: dis_50_def simps line_bind_ok)
  moreover have "line_ok d (dis_80 env con d)" by (simp add: dis_80_def simps line_bind_ok)
  moreover have "line_ok d (dis_b0 env con d)"
  proof -
    have "line_ok d (do {
        d \<leftarrow> get_reg_name env con d;
        d \<leftarrow> itoh (imm_val con) (if opcode con AND 0x08 \<noteq> 0 then 32 else 8) d;
        Some ([ascii ''mov'', cstring (REG_BUF d), cstring (DIGIT d)], d) })"
      using assms by (auto intro!: line_bind_ok dest: names_ok itoh_ok)
    then show ?thesis by (simp add: dis_b0_def simps line_bind_ok)
  qed
  ultimately show ?thesis by (simp add: dis_opcode_def)
qed

lemma clean_digit_clean: "digits_at_most 8 b \<Longrightarrow> digits_at_most 0 (clean_digit b)"
  by (simp add: digits_at_most_def clean_digit_def flip: replicate_add)

lemma write_addr_clean:
  assumes "write_addr env d = Some d'" "digits_ok d" "RM_BUF d = replicate 0x180 0" "REG_BUF d = replicate 0x180 0"
  shows "clean d'"
  using assms(1,3,4) itoh32_eq [OF assms(2)] hex_text_digits(1) [of 8]
  by (auto simp: write_addr_def clean_def os_write_def Let_def intro!: clean_digit_clean)

lemma x86_dis_clean:
  assumes "x86_dis env con d = Some d'" "clean d"
  shows "clean d'"
proof -
  have d: "digits_ok d" using assms(2) digits_at_most_mono [of 0 _ 8] by (simp add: clean_def)
  define l where "l = (if is_extend_op env then fetch_extend con d else dis_opcode env con d)"
  have "line_ok d l" using dis_opcode_ok [OF d] d by (simp add: l_def fetch_extend_def)
  moreover obtain b2 d1 d2 where l: "l = Some (b2, d1)"
      "(if b2 = [] then Some d1 else do { s \<leftarrow> snprintf b2; Some (state_clean_internal (os_write s d1)) }) = Some d2"
      "write_addr env d2 = Some d'"
    using assms(1) unfolding x86_dis_def l_def [symmetric] by (auto split: bind_splits)
  ultimately have "digits_ok d2 \<and> RM_BUF d2 = replicate 0x180 0 \<and> REG_BUF d2 = replicate 0x180 0"
    using assms(2) digits_at_most_mono [OF clean_digit_clean, of _ 8]
    by (auto simp: clean_def state_clean_internal_def os_write_def split: if_splits bind_splits)
  then show ?thesis using write_addr_clean [OF l(3)] by simp
qed

subsection \<open>Instructions with two operands\<close>

text \<open>The opcodes of the Intel manual whose two operands are those of ModRM: register or
  memory, and a register.  The forms with the accumulator and an immediate operand
  (\<open>04\<close>, \<open>05\<close> and their like) and those of \<open>mov\<close> (\<open>c6\<close>, \<open>c7\<close>) are not among them.\<close>

definition two_operand :: "u8 \<Rightarrow> string option" where
  "two_operand opc =
     (let n = unat opc in
      if n < 64 \<and> n mod 8 < 4
      then Some ([''add'', ''or'', ''adc'', ''sbb'', ''and'', ''sub'', ''xor'', ''cmp''] ! (n div 8))
      else if n \<in> {0x84, 0x85} then Some ''test''
      else if n \<in> {0x86, 0x87} then Some ''xchg''
      else if n \<in> {0x88, 0x89, 0x8a, 0x8b} then Some ''mov''
      else if n = 0x8d then Some ''lea''
      else None)"

definition two_operand_opcodes :: "u8 list" where
  "two_operand_opcodes =
     [0x00, 0x01, 0x02, 0x03, 0x08, 0x09, 0x0a, 0x0b, 0x10, 0x11, 0x12, 0x13, 0x18, 0x19, 0x1a, 0x1b,
      0x20, 0x21, 0x22, 0x23, 0x28, 0x29, 0x2a, 0x2b, 0x30, 0x31, 0x32, 0x33, 0x38, 0x39, 0x3a, 0x3b,
      0x84, 0x85, 0x86, 0x87, 0x88, 0x89, 0x8a, 0x8b, 0x8d]"

lemma two_operand_in:
  assumes "two_operand opc = Some nm"
  shows "opc \<in> set two_operand_opcodes"
proof (cases "unat opc < 64 \<and> unat opc mod 8 < 4")
  case True
  define i j where "i = unat opc div 8" "j = unat opc mod 8"
  have ij: "i \<in> {0, 1, 2, 3, 4, 5, 6, 7}" "j \<in> {0, 1, 2, 3}" using True by (auto simp: i_j_def)
  have "opc = of_nat (8 * i + j)" by (simp add: i_j_def del: of_nat_add of_nat_mult)
  then show ?thesis using ij by (elim insertE emptyE; simp add: two_operand_opcodes_def)
next
  case False
  then have "unat opc \<in> {0x84, 0x85, 0x86, 0x87, 0x88, 0x89, 0x8a, 0x8b, 0x8d}"
    using assms by (auto simp: two_operand_def Let_def split: if_splits)
  then have "opc \<in> of_nat ` {0x84, 0x85, 0x86, 0x87, 0x88, 0x89, 0x8a, 0x8b, 0x8d}"
    by (metis image_eqI of_nat_unat ucast_id)
  then show ?thesis by (elim imageE insertE emptyE; simp add: two_operand_opcodes_def)
qed

text \<open>The immediate forms print the text of ModRM, which these instructions need not
  have, and a register instead of the immediate operand.\<close>

lemma immediate_form_prints_modrm:
  "opcode con \<in> {0x04, 0x05} \<Longrightarrow> dis_opcode env con d = rm_reg env con (ascii ''add'') d"
  "opcode con \<in> {0xc6, 0xc7} \<Longrightarrow> dis_opcode env con d = rm_reg env con (ascii ''mov'') d"
proof -
  show "opcode con \<in> {0x04, 0x05} \<Longrightarrow> dis_opcode env con d = rm_reg env con (ascii ''add'') d"
    by (elim insertE emptyE; simp add: dis_opcode_def dis_00_def)
  show "opcode con \<in> {0xc6, 0xc7} \<Longrightarrow> dis_opcode env con d = rm_reg env con (ascii ''mov'') d"
    by (elim insertE emptyE; simp add: dis_opcode_def dis_b0_def)
qed

lemma dis_opcode_two:
  assumes "two_operand (opcode con) = Some nm"
  shows "dis_opcode env con d = rm_reg env con (ascii nm) d"
proof -
  have "opcode con \<in> set two_operand_opcodes" using assms by (rule two_operand_in)
  then show ?thesis using assms unfolding two_operand_opcodes_def list.set
    by (elim insertE emptyE; simp add: dis_opcode_def dis_00_def dis_80_def dis_b0_def two_operand_def Let_def)
qed

lemma nul_free_text:
  "0 \<notin> set (disp_text v)" "0 \<notin> set (opt_disp w)" "length (disp_text v) = 5" "length (opt_disp w) \<le> 5"
  by (auto simp: disp_text_def opt_disp_def hex_text_def ascii_def nul_free_hex_digits split: option.splits)

lemma operand_text_nul_free:
  assumes "encodes env con op" "operand_size a" "operand_size d"
  shows "0 \<notin> set (operand_text a d op)" "length (operand_text a d op) \<le> 40"
proof -
  note simps = reg_name_text(2,3) nul_free_text ascii_def
  show "0 \<notin> set (operand_text a d op)"
    using assms by (cases op) (auto simp: simps split: option.splits)
  have "length (opt_disp v) \<le> 5" "i < 16 \<Longrightarrow> length (reg_name a i) \<le> 4" "i < 16 \<Longrightarrow> length (reg_name d i) \<le> 4" for v i
    using assms(2,3) by (simp_all add: simps)
  note len = this
  show "length (operand_text a d op) \<le> 40"
  proof (cases op)
    case (Mem i v)
    then show ?thesis using assms(1) len(1) [of v] len(2) [of i] by (simp add: ascii_def)
  next
    case (Scaled b x v)
    have "length (case b of None \<Rightarrow> ascii '' '' | Some b \<Rightarrow> reg_name a b) \<le> 4"
      using Scaled assms(1) len(2) by (auto simp: ascii_def split: option.splits)
    moreover have "length (case x of None \<Rightarrow> [] | Some (i, s) \<Rightarrow> ascii '','' @ reg_name a i @ ascii '','' @
        ascii ([''2'', ''4'', ''8''] ! (s - 1))) \<le> 7"
      using Scaled assms(1) len(2) by (auto simp: ascii_def split: option.splits)
    ultimately show ?thesis using Scaled len(1) [of v] by (simp add: ascii_def)
  qed (use assms(1) len in \<open>auto simp: simps intro: order_trans [of _ 4]\<close>)
qed

lemma rm_reg_text:
  assumes "clean d" "encodes env con op" "reg con = reg_at env r" "r < 16"
    and "operand_size (aflag con)" "operand_size (dflag con)"
  shows "\<exists>d'. rm_reg env con nm d = Some ([nm, operand_text (aflag con) (dflag con) op, reg_name (dflag con) r], d') \<and>
    digits_ok d' \<and> written d' = written d"
proof -
  let ?t = "operand_text (aflag con) (dflag con) op"
  have d: "RM_BUF d = replicate 0x180 0" "REG_BUF d = replicate 0x180 0" "digits_at_most 0 (DIGIT d)"
    using assms(1) by (simp_all add: clean_def)
  obtain D where t: "t1 env con True d = Some (?t, d\<lparr>DIGIT := D\<rparr>)" "digits_at_most 2 D"
    using t1_operand [OF assms(2,5,6) d(3)] by blast
  note len = operand_text_nul_free [OF assms(2,5,6)] reg_name_text [OF assms(4,6)]
  have p: "put_at 0 s (replicate 0x180 0) = Some (s @ replicate (0x180 - length s) 0)" if "length s \<le> 40" for s
    using that by (simp add: put_at_def)
  have "get_rm_name env con d = Some (d\<lparr>DIGIT := D, RM_BUF := ?t @ replicate (0x180 - length ?t) 0\<rparr>)"
    using t(1) d(1) p [OF len(2)] by (simp add: get_rm_name_def)
  moreover have "get_reg_name env con e = Some (e\<lparr>REG_BUF := reg_name (dflag con) r @ replicate (0x180 - length (reg_name (dflag con) r)) 0\<rparr>)"
    if "REG_BUF e = replicate 0x180 0" for e
    using that assms(3,4,6) len(3,5) p [of "reg_name (dflag con) r"]
    by (simp add: get_reg_name_def t1_def get_register_name_eq cons_def)
  ultimately show ?thesis
    using d(2) cstring_append_zero [OF len(1)] cstring_append_zero [OF len(4)] digits_at_most_mono [OF t(2), of 8]
    by (simp add: rm_reg_def fill_name_def)
qed

lemma snprintf_three:
  assumes "0 \<notin> set (a @ b @ c)" "length (a @ b @ c) \<le> 150"
  shows "snprintf [a, b, c] = Some (a @ [0x20] @ b @ [0x20] @ c @ [0x20, 0x0a])"
proof -
  let ?s = "a @ [0x20] @ b @ [0x20] @ c @ [0x20, 0x0a]"
  have "0 \<notin> set ?s" using assms(1) by simp
  then show ?thesis using assms(2) cstring_append_zero [of ?s] by (simp add: snprintf_def put_at_def)
qed

definition dis_init :: dis where
  "dis_init = \<lparr>RM_BUF = replicate 0x180 0, REG_BUF = replicate 0x180 0, DIGIT = [0x30, 0x78] @ replicate 14 0, written = []\<rparr>"

text \<open>A run of the disassembler over decoded instructions.\<close>

fun dis_run :: "(dis_env \<times> Context) list \<Rightarrow> dis \<Rightarrow> dis option" where
  "dis_run [] d = Some d"
| "dis_run ((env, con) # cs) d = Option.bind (x86_dis env con d) (dis_run cs)"

lemma dis_run_snoc: "dis_run (cs @ [(env, con)]) d = Option.bind (dis_run cs d) (x86_dis env con)"
  by (induction cs d rule: dis_run.induct) (auto split: bind_splits)

lemma dis_run_clean: "dis_run cs d = Some d' \<Longrightarrow> clean d \<Longrightarrow> clean d'"
  by (induction cs d rule: dis_run.induct) (auto dest: x86_dis_clean split: bind_splits)

lemma clean_dis_init: "clean dis_init"
  by (simp add: clean_def dis_init_def digits_at_most_def)

lemma write_addr_eq:
  assumes "digits_ok d"
  shows "\<exists>d'. write_addr env d = Some d' \<and>
    written d' = written d @ hex_text 8 (unat (get_rip env + (image_base env - emu_base env))) @ [0x09]"
  using itoh32_eq [OF assms] hex_text_digits(2) [of 8 _ 6] by (simp add: write_addr_def os_write_def Let_def)

text \<open>C39: The line of an instruction.  Whatever has been disassembled before, an
  instruction of the opcodes with a ModRM and a register operand is printed with the
  name of its operation and the text of the operands its context encodes, the operand
  of ModRM first, followed by its address in eight digits.  Operands in memory are at a
  register, at the instruction pointer or at base and scaled index, without displacement
  or with one of a byte; those with a displacement of 32 bits, for which \<open>check_sign\<close>
  shifts an \<open>int\<close> by 32, are excluded.\<close>

theorem two_operand_line:
  assumes "dis_run cs dis_init = Some d" "\<not> is_extend_op env" "two_operand (opcode con) = Some nm"
    and "encodes env con op" "reg con = reg_at env r" "r < 16" "operand_size (aflag con)" "operand_size (dflag con)"
  shows "\<exists>d'. dis_run (cs @ [(env, con)]) dis_init = Some d' \<and>
    written d' = written d @
      ascii nm @ ascii '' '' @ operand_text (aflag con) (dflag con) op @ ascii '' '' @ reg_name (dflag con) r @ ascii '' '' @ [0x0a] @
      hex_text 8 (unat (get_rip env + (image_base env - emu_base env))) @ [0x09]"
proof -
  let ?s = "[ascii nm, operand_text (aflag con) (dflag con) op, reg_name (dflag con) r]"
  have "clean d" using dis_run_clean [OF assms(1) clean_dis_init] .
  then obtain d1 where d1: "dis_opcode env con d = Some (?s, d1)" "digits_ok d1" "written d1 = written d"
    using rm_reg_text [OF _ assms(4-8)] dis_opcode_two [OF assms(3)] by metis
  have "nm \<in> {''add'', ''or'', ''adc'', ''sbb'', ''and'', ''sub'', ''xor'', ''cmp'', ''test'', ''xchg'', ''mov'', ''lea''}"
    using assms(3) by (auto simp: two_operand_def Let_def nth_Cons' split: if_splits)
  then have nm: "0 \<notin> set (ascii nm)" "length (ascii nm) \<le> 4" by (auto simp: ascii_def)
  have "snprintf ?s = Some (ascii nm @ [0x20] @ operand_text (aflag con) (dflag con) op @ [0x20] @ reg_name (dflag con) r @ [0x20, 0x0a])"
    using nm operand_text_nul_free [OF assms(4,7,8)] reg_name_text [OF assms(6,8)]
    by (intro snprintf_three) simp_all
  then have x: "x86_dis env con d = write_addr env (state_clean_internal (os_write
      (ascii nm @ [0x20] @ operand_text (aflag con) (dflag con) op @ [0x20] @ reg_name (dflag con) r @ [0x20, 0x0a]) d1))"
    using d1(1) assms(2) by (simp add: x86_dis_def)
  have run: "dis_run (cs @ [(env, con)]) dis_init = x86_dis env con d"
    using assms(1) by (simp add: dis_run_snoc)
  let ?e = "state_clean_internal (os_write
      (ascii nm @ [0x20] @ operand_text (aflag con) (dflag con) op @ [0x20] @ reg_name (dflag con) r @ [0x20, 0x0a]) d1)"
  have "digits_ok ?e"
    using d1(2) digits_at_most_mono [OF clean_digit_clean, of _ 8] by (simp add: state_clean_internal_def os_write_def)
  then obtain d' where d': "write_addr env ?e = Some d'"
      "written d' = written ?e @ hex_text 8 (unat (get_rip env + (image_base env - emu_base env))) @ [0x09]"
    using write_addr_eq by blast
  moreover have "written ?e = written d @
      ascii nm @ ascii '' '' @ operand_text (aflag con) (dflag con) op @ ascii '' '' @ reg_name (dflag con) r @ ascii '' '' @ [0x0a]"
    using d1(3) by (simp add: os_write_def state_clean_internal_def ascii_def)
  ultimately show ?thesis unfolding run x by simp
qed

lemma two_operand_line_witness:
  "\<exists>d'. dis_run
      [(\<lparr>reg_head = 0x5000, op_shift_base = 0, op_f6_f_base = 0, op_fe_f_base = 0, op01_f_base = 0, image_base = 0x400000,
         emu_base = 0x10000, get_rip = 0x11000, is_extend_op = False\<rparr>,
        \<lparr>displacement = - 8, imm_op = 0, reg = 0x5000, rm = 0x5028, imm_val = 0, sib_index = 0, sib_base = 0, opcode = 0x89,
         c_mod = 0x08, sib = 0, sib_scale = 0, rip_rel = 0, dflag = 0x10, aflag = 0x18\<rparr>)] dis_init = Some d' \<and>
    written d' = ascii ''mov [rbp-0x08] eax '' @ [0x0a] @ ascii ''0x00401000'' @ [0x09]"
proof -
  let ?env = "\<lparr>reg_head = 0x5000, op_shift_base = 0, op_f6_f_base = 0, op_fe_f_base = 0, op01_f_base = 0, image_base = 0x400000,
    emu_base = 0x10000, get_rip = 0x11000, is_extend_op = False\<rparr>"
  let ?con = "\<lparr>displacement = - 8, imm_op = 0, reg = 0x5000, rm = 0x5028, imm_val = 0, sib_index = 0, sib_base = 0, opcode = 0x89,
    c_mod = 0x08, sib = 0, sib_scale = 0, rip_rel = 0, dflag = 0x10, aflag = 0x18\<rparr>"
  have "\<exists>d'. dis_run ([] @ [(?env, ?con)]) dis_init = Some d' \<and>
    written d' = written dis_init @
      ascii ''mov'' @ ascii '' '' @ operand_text (aflag ?con) (dflag ?con) (Mem 5 (Some (- 8))) @ ascii '' '' @
      reg_name (dflag ?con) 0 @ ascii '' '' @ [0x0a] @
      hex_text 8 (unat (get_rip ?env + (image_base ?env - emu_base ?env))) @ [0x09]"
    by (rule two_operand_line)
      (simp_all add: two_operand_def encodes.simps mod_disp_def byte_disp_def reg_at_def operand_size_def Let_def)
  moreover have "operand_text (aflag ?con) (dflag ?con) (Mem 5 (Some (- 8))) = ascii ''[rbp-0x08]''" by code_simp
  moreover have "reg_name (dflag ?con) 0 = ascii ''eax''" by code_simp
  moreover have "hex_text 8 (unat (get_rip ?env + (image_base ?env - emu_base ?env))) = ascii ''0x00401000''"
    by (simp add: hex_text_def hex_digits_numeral hexd_def ascii_def)
  moreover have "written dis_init = []" by (simp add: dis_init_def)
  moreover have "ascii ''mov'' @ ascii '' '' @ ascii ''[rbp-0x08]'' @ ascii '' '' @ ascii ''eax'' @ ascii '' '' =
      ascii ''mov [rbp-0x08] eax ''" by (simp add: ascii_def)
  ultimately show ?thesis by (simp only: append_Nil append_assoc [symmetric])
qed

end
