(* ===== verification/ObjFormat.thy ===== *)
theory ObjFormat
  imports ElfTypes
begin

text \<open>
  \<open>core/objectfile/__objformat.c\<close>: the format of a file from its first bytes.  A file
  descriptor is the contents of the file and a position.  A structure that a short read
  leaves partly unset holds what was on the stack, the parameter \<open>junk\<close>.  The size of the
  headers is written through a pointer that may be null (\<open>want\<close> is \<open>False\<close>); following
  it then is \<open>None\<close>.
\<close>

datatype OBJECT_FORMAT = NONE | ELF32 | ELF64 | MACHO32 | MACHO64 | PE32 | PE64 | COFF_I386 | COFF_AMD64

definition MH_MAGIC :: u32 where "MH_MAGIC = 0xfeedface"
definition MH_MAGIC_64 :: u32 where "MH_MAGIC_64 = 0xfeedfacf"

type_synonym fd = "u8 list \<times> nat"

definition os_read :: "nat \<Rightarrow> fd \<Rightarrow> u8 list \<times> fd" where
  "os_read n = (\<lambda>(f, pos). (take n (drop pos f), f, pos + length (take n (drop pos f))))"

definition os_seek :: "nat \<Rightarrow> fd \<Rightarrow> fd" where "os_seek pos = (\<lambda>(f, _). (f, pos))"

definition check_elf :: "mem \<Rightarrow> bool \<Rightarrow> mem \<Rightarrow> fd \<Rightarrow> OBJECT_FORMAT \<times> u32 option \<times> fd" where
  "check_elf junk want e fd =
     (if e 0 = 0x7f \<and> e 1 = 0x45 \<and> e 2 = 0x4c \<and> e 3 = 0x46 then
        let (c, fd) = os_read 1 fd in
        if c = [] then (NONE, None, fd)
        else let fd = os_seek 0 fd in
          if hd c = 1 then
            let (b, fd) = os_read 52 fd; h = put_bytes 0 b junk in
            if b = [] then (NONE, None, fd)
            else (ELF32, if want then Some (get32 28 h + ucast (get16 44 h) * 32) else None, fd)
          else if hd c = 2 then
            let (b, fd) = os_read 64 fd; h = put_bytes 0 b junk in
            if b = [] then (NONE, None, fd)
            else (ELF64, if want then Some (ucast (get64 32 h) + ucast (get16 56 h) * 56) else None, fd)
          else (NONE, None, fd)
      else (NONE, None, fd))"

text \<open>The header is read from the position behind the magic number.\<close>

definition check_macho :: "mem \<Rightarrow> bool \<Rightarrow> mem \<Rightarrow> fd \<Rightarrow> (OBJECT_FORMAT \<times> u32 option \<times> fd) option" where
  "check_macho junk want p fd =
     (if get32 0 p = MH_MAGIC then
        let (b, fd) = os_read 28 fd in
        if want then Some (MACHO32, Some (get32 20 (put_bytes 0 b junk) + 28), fd) else None
      else if get32 0 p = MH_MAGIC_64 then
        let (b, fd) = os_read 32 fd in
        if want then Some (MACHO64, Some (get32 20 (put_bytes 0 b junk) + 32), fd) else None
      else Some (NONE, None, fd))"

definition check_pe :: "mem \<Rightarrow> bool \<Rightarrow> mem \<Rightarrow> fd \<Rightarrow> OBJECT_FORMAT \<times> u32 option \<times> fd" where
  "check_pe junk want p fd =
     (if get16 0 p = 0x5a4d then
        let (b, fd) = os_read 4 (os_seek (snd fd + 0x38) fd); e_lfanew = get32 0 (put_bytes 0 b junk) in
        if b = [] then (NONE, None, fd)
        else let (b, fd) = os_read 4 (os_seek (unat e_lfanew) fd) in
        if b = [] then (NONE, None, fd)
        else if get32 0 (put_bytes 0 b junk) \<noteq> 0x4550 then (NONE, None, fd)
        else let (b, fd) = os_read 2 fd; machine_t = get16 0 (put_bytes 0 b junk) in
        if b = [] then (NONE, None, fd)
        else let (b, fd) = os_read 2 fd; number_of_sections = get16 0 (put_bytes 0 b junk) in
        if b = [] then (NONE, None, fd)
        else let fd = os_seek 0 fd; sz = 0x40 + e_lfanew + 0x18 + ucast number_of_sections * 40;
          native = (if machine_t = 0x14c then PE32 else if machine_t = 0x8664 then PE64 else NONE) in
          if want then
            (if machine_t = 0x86 then (native, Some (sz + 248), fd)
             else if machine_t = 0x8664 then (PE64, Some (sz + 264), fd)
             else (NONE, None, fd))
          else (native, None, fd)
      else (NONE, None, fd))"

definition check_coff :: "mem \<Rightarrow> OBJECT_FORMAT" where
  "check_coff p =
     (if get16 0 p = 0x8664 then COFF_AMD64 else if get16 0 p = 0x14c then COFF_I386 else NONE)"

definition detect_format :: "mem \<Rightarrow> bool \<Rightarrow> u8 list \<Rightarrow> (OBJECT_FORMAT \<times> u32 option) option" where
  "detect_format junk want f =
     (let (b, fd) = os_read 4 (f, 0); p = put_bytes 0 b (\<lambda>_. 0); (t, sz, fd) = check_elf junk want p fd in
      if t \<noteq> NONE then Some (t, sz)
      else case check_macho junk want p fd of None \<Rightarrow> None
      | Some (t, sz, fd) \<Rightarrow>
        if t \<noteq> NONE then Some (t, sz)
        else let (t, sz, fd) = check_pe junk want p fd in
          Some (if t \<noteq> NONE then (t, sz) else (check_coff p, sz)))"

text \<open>By name; the inner \<open>None\<close> is the result \<open>-1\<close> for a file that cannot be opened.\<close>

definition detect_format_fname :: "(cstr \<Rightarrow> u8 list option) \<Rightarrow> mem \<Rightarrow> bool \<Rightarrow> cstr \<Rightarrow> (OBJECT_FORMAT \<times> u32 option) option option" where
  "detect_format_fname files junk want fname =
     (case files fname of None \<Rightarrow> Some None | Some f \<Rightarrow> map_option Some (detect_format junk want f))"

text \<open>A Mach-O file crashes the detection if the caller does not want the size, as all
  callers in C do.\<close>

lemma macho_faults:
  assumes "get32 0 (put_bytes 0 (take 4 f) (\<lambda>_. 0)) = MH_MAGIC_64"
  shows "detect_format junk False f = None"
proof -
  let ?p = "put_bytes 0 (take 4 f) (\<lambda>_. 0)"
  have "(ucast (get32 0 ?p) :: u8) = ?p 0"
    by (rule bit_word_eqI) (auto simp: get32_def get_bytes_def of_le32_def bit_simps upt_conv_Cons)
  then have "?p 0 = 0xcf" using assms by (simp add: MH_MAGIC_64_def)
  then show ?thesis
    using assms by (simp add: detect_format_def os_read_def check_elf_def check_macho_def MH_MAGIC_def MH_MAGIC_64_def Let_def)
qed

end
