(* ===== verification/Loader.thy ===== *)
theory Loader
  imports HashTables ObjFormat "HOL-Library.Monad_Syntax"
begin

text \<open>
  \<open>core/loader/elf/loader.c\<close>: the dynamic loader.  Libraries are entries of an array
  on one page (\<open>dsos\<close>, \<open>HEAD\<close> is entry 0, \<open>TAIL\<close> is \<open>tail\<close>), named by their position;
  the memory of the process is \<open>lm\<close>.  The files and the addresses \<open>mmap\<close> returns
  (\<open>lmaps\<close>, \<open>-1\<close> for a failure) are parameters; a mapping of a file holds its bytes.
  A library keeps the name it was asked for, read when it was loaded.  \<open>None\<close> is an
  endless loop or an access to what is not there.  The log lines are left out.
\<close>

definition DT_REL :: u64 where "DT_REL = 17"
definition DT_RELSZ :: u64 where "DT_RELSZ = 18"
definition MAP_FAILED :: u64 where "MAP_FAILED = - 1"

text \<open>The fields of \<open>struct dso\<close> the loader uses.\<close>

record dso =
  base :: u64
  dso_name :: cstr
  dynv :: u64
  dso_next :: "nat option"
  syms :: u64
  hashtab :: u64
  ghashtab :: u64
  versym :: u64
  strings :: u64
  ndeps_direct :: u64
  dso_entry :: u64
  deps_index :: u64

definition no_dso :: dso where
  "no_dso = \<lparr>base = 0, dso_name = [], dynv = 0, dso_next = None, syms = 0, hashtab = 0, ghashtab = 0, versym = 0,
     strings = 0, ndeps_direct = 0, dso_entry = 0, deps_index = 0\<rparr>"

record ld =
  lm :: mem
  dsos :: "nat \<Rightarrow> dso"
  tail :: nat
  lmaps :: "u64 list"
  page_size :: u64
  DEB :: bool

text \<open>An entry is 384 bytes long: ten fit on the page.\<close>

definition DSO_MAX :: nat where "DSO_MAX = 10"

definition upd_dso :: "nat \<Rightarrow> (dso \<Rightarrow> dso) \<Rightarrow> ld \<Rightarrow> ld" where
  "upd_dso d f L = L\<lparr>dsos := (dsos L)(d := f (dsos L d))\<rparr>"

definition ld_mmap :: "ld \<Rightarrow> (u64 \<times> ld) option" where
  "ld_mmap L = (case lmaps L of [] \<Rightarrow> None | a # as \<Rightarrow> Some (a, L\<lparr>lmaps := as\<rparr>))"

subsection \<open>The dynamic section\<close>

abbreviation rd64 :: "mem \<Rightarrow> u64 \<Rightarrow> u64" where "rd64 m p \<equiv> get64 (unat p) m"

partial_function (option) search_vec :: "mem \<Rightarrow> u64 \<Rightarrow> u64 \<Rightarrow> u64 option option" where
  [code]: "search_vec m v key =
     (if rd64 m v = key then Some (Some (rd64 m (v + 8)))
      else if rd64 m v = 0 then Some None
      else search_vec m (v + 16) key)"

text \<open>What one entry of the dynamic section sets.\<close>

definition dynamic_entry :: "u64 \<Rightarrow> u64 \<Rightarrow> dso \<Rightarrow> dso" where
  "dynamic_entry tag val d =
     (if tag = ucast DT_NEEDED then d\<lparr>ndeps_direct := ndeps_direct d + 1\<rparr>
      else if tag = ucast DT_STRTAB then d\<lparr>strings := base d + val\<rparr>
      else if tag = ucast DT_SYMTAB then d\<lparr>syms := base d + val\<rparr>
      else if tag = ucast DT_GNU_HASH then d\<lparr>ghashtab := base d + val\<rparr>
      else if tag = ucast DT_HASH then d\<lparr>hashtab := base d + val\<rparr>
      else d)"

partial_function (option) set_dynamic :: "mem \<Rightarrow> u64 \<Rightarrow> dso \<Rightarrow> dso option" where
  [code]: "set_dynamic m v d =
     (if rd64 m v = 0 then Some d
      else set_dynamic m (v + 16) (dynamic_entry (rd64 m v) (rd64 m (v + 8)) d))"

subsection \<open>Mapping a library\<close>

text \<open>\<open>copy\<close> goes byte by byte.\<close>

fun copy :: "nat \<Rightarrow> nat \<Rightarrow> nat \<Rightarrow> mem \<Rightarrow> mem" where
  "copy src dst 0 m = m"
| "copy src dst (Suc len) m = copy (Suc src) (Suc dst) len (m(dst := m src))"

definition pages :: "nat \<Rightarrow> nat" where "pages n = (n + 0xfff) div 0x1000 * 0x1000"

definition file_mem :: "u8 list \<Rightarrow> mem" where "file_mem f = put_bytes 0 f (\<lambda>_. 0)"

text \<open>Mapping a file: its bytes, and zeros to the end of the page.\<close>

definition map_bytes :: "u64 \<Rightarrow> u8 list \<Rightarrow> nat \<Rightarrow> ld \<Rightarrow> ld" where
  "map_bytes v f n L =
     (if v = MAP_FAILED then L else L\<lparr>lm := put_bytes (unat v) (f @ replicate (pages n - length f) 0) (lm L)\<rparr>)"

text \<open>A loadable segment; the result is the address, and whether it is fixed.\<close>

definition map_segment :: "u64 \<Rightarrow> Elf64_Phdr \<Rightarrow> ld \<Rightarrow> (u64 \<times> bool \<times> ld) option" where
  "map_segment v1 ph L =
     (let begin_addr = p_paddr ph AND (- page_size L);
          size = (ucast (p_memsz ph + (p_vaddr ph AND (page_size L - 1))) :: u32)
      in if begin_addr \<noteq> 0 then do {
           (v, L) \<leftarrow> ld_mmap L;
           let L = map_bytes v [] (unat size) L;
           let L = (if DEB L
             then L\<lparr>lm := copy (unat (v1 + (p_offset ph AND (- page_size L)))) (unat v) (unat size) (lm L)\<rparr> else L);
           Some (v, True, L) }
         else Some (v1, False, L))"

text \<open>The loop over the program headers; \<open>pos\<close> is the position in the file.  The
  result is \<open>None\<close> inside if the mapping failed.\<close>

fun map_headers :: "nat \<Rightarrow> nat \<Rightarrow> u8 list \<Rightarrow> u64 \<Rightarrow> nat \<Rightarrow> bool \<Rightarrow> ld \<Rightarrow> (bool option \<times> ld) option" where
  "map_headers 0 pos f v1 d fixed L = Some (Some fixed, L)"
| "map_headers (Suc n) pos f v1 d fixed L =
     (if length f < pos + 56 then None
      else do {
        let ph = rd_phdr pos (file_mem f);
        (ok, fixed, L) \<leftarrow> (if p_type ph = PT_LOAD then do {
            (v, fx, L) \<leftarrow> map_segment v1 ph L;
            if v = MAP_FAILED then Some (False, fixed, L)
            else Some (True, fixed \<or> fx, upd_dso d (\<lambda>x. if base x = 0 then x\<lparr>base := v\<rparr> else x) L) }
          else Some (True, fixed, L));
        if \<not> ok then Some (None, L)
        else do {
          let L = (if p_type ph = PT_DYNAMIC
            then upd_dso d (\<lambda>x. if dynv x = 0 then x\<lparr>dynv := base x + p_offset ph\<rparr> else x) L else L);
          map_headers n (pos + 56) f v1 d fixed L } })"

definition map_library :: "u8 list \<Rightarrow> nat \<Rightarrow> ld \<Rightarrow> ld option" where
  "map_library f d L =
     (if length f < 64 then None
      else let eh = rd_ehdr 0 (file_mem f) in
        if e_type eh \<noteq> ET_DYN \<and> e_type eh \<noteq> ET_EXEC then Some L
        else do {
          (v1, L) \<leftarrow> ld_mmap L;
          let L = map_bytes v1 f (length f) L;
          (fixed, L) \<leftarrow> map_headers (unat (e_phnum eh)) 64 f v1 d False L;
          case fixed of None \<Rightarrow> Some L
          | Some fixed \<Rightarrow> do {
              let L = upd_dso d (\<lambda>x. x\<lparr>dso_entry := (if fixed then 0 else base x) + e_entry eh\<rparr>) L;
              if dynv (dsos L d) = 0 then Some L
              else do {
                x \<leftarrow> set_dynamic (lm L) (dynv (dsos L d)) (dsos L d);
                Some (upd_dso d (\<lambda>_. x) L) } } })"

subsection \<open>Looking a symbol up\<close>

text \<open>The words of the table are addressed as in \<open>HashTables\<close>.  \<open>versym\<close> is a null
  pointer unless something sets it.\<close>

definition versym_ok :: "mem \<Rightarrow> dso \<Rightarrow> u32 \<Rightarrow> bool" where
  "versym_ok m d i \<longleftrightarrow> versym d = 0 \<or> 0 \<le> sint (get16 (unat (versym d) + 2 * unat i) m)"

definition dso_sym :: "mem \<Rightarrow> dso \<Rightarrow> nat \<Rightarrow> cstr option" where
  "dso_sym m d i = sym_name m (unat (syms d)) (unat (strings d)) i"

partial_function (option) ld_gnu_from :: "mem \<Rightarrow> dso \<Rightarrow> cstr \<Rightarrow> u32 \<Rightarrow> nat \<Rightarrow> u32 \<Rightarrow> u64 option" where
  [code]: "ld_gnu_from m d s h1 hashval i =
     (let h2 = get32 hashval m in
      do {
        eq \<leftarrow> (if h1 = h2 OR 1 \<and> versym_ok m d i then do { x \<leftarrow> dso_sym m d (unat i); Some (z_strcmp s x = 0) } else Some False);
        if eq then Some (syms d + 24 * ucast i)
        else if h2 AND 1 \<noteq> 0 then Some 0
        else ld_gnu_from m d s h1 (hashval + 4) (i + 1) })"

definition ld_gnu_lookup :: "mem \<Rightarrow> u32 \<Rightarrow> nat \<Rightarrow> dso \<Rightarrow> cstr \<Rightarrow> u64 option" where
  "ld_gnu_lookup m h1 t d s =
     (if get32 t m = 0 then None
      else let i = get32 (gnu_bucket t m + 4 * unat (h1 mod get32 t m)) m
           in if i = 0 then Some 0
              else ld_gnu_from m d s (h1 OR 1) (gnu_chain t m + 4 * unat (i - get32 (t + 4) m)) i)"

definition ld_gnu_lookup_filtered :: "mem \<Rightarrow> u32 \<Rightarrow> nat \<Rightarrow> dso \<Rightarrow> cstr \<Rightarrow> u32 \<Rightarrow> u64 \<Rightarrow> u64 option" where
  "ld_gnu_lookup_filtered m h1 t d s fofs fmask =
     (let f = get64 (gnu_bloom t m fofs) m in
      if f AND fmask = 0 then Some 0
      else if drop_bit (unat (drop_bit (unat (get32 (t + 12) m)) h1 mod 64)) f AND 1 = 0 then Some 0
      else ld_gnu_lookup m h1 t d s)"

definition ld_gnu_hash :: "cstr \<Rightarrow> u32" where "ld_gnu_hash s = ucast (gnu_hash_loop 5381 s)"

definition dso_lookup :: "mem \<Rightarrow> dso \<Rightarrow> cstr \<Rightarrow> u64 option" where
  "dso_lookup m d s =
     (let gh = ld_gnu_hash s in
      ld_gnu_lookup_filtered m gh (unat (ghashtab d)) d s (gh div 64) (push_bit (unat (gh mod 64)) 1))"

text \<open>\<open>find_sym\<close> goes from \<open>TAIL\<close> down to \<open>HEAD\<close> through the libraries of the mask.\<close>

definition dso_find :: "ld \<Rightarrow> u64 \<Rightarrow> cstr \<Rightarrow> nat \<Rightarrow> u64 option" where
  "dso_find L deps s i =
     (if bit deps i \<and> ghashtab (dsos L i) \<noteq> 0 then dso_lookup (lm L) (dsos L i) s else Some 0)"

fun find_from :: "ld \<Rightarrow> u64 \<Rightarrow> cstr \<Rightarrow> nat \<Rightarrow> (nat \<times> u64) option option" where
  "find_from L deps s 0 = do { p \<leftarrow> dso_find L deps s 0; Some (if p \<noteq> 0 then Some (0, p) else None) }"
| "find_from L deps s (Suc i) = do {
     p \<leftarrow> dso_find L deps s (Suc i);
     if p \<noteq> 0 then Some (Some (Suc i, p)) else find_from L deps s i }"

definition find_sym :: "ld \<Rightarrow> nat \<Rightarrow> cstr \<Rightarrow> (nat \<times> u64) option option" where
  "find_sym L d s = find_from L (deps_index (dsos L d)) s (tail L)"

subsection \<open>Relocation\<close>

text \<open>One entry; \<open>sv\<close> is the variable \<open>sym_val\<close>, which keeps its value when the entry
  names no symbol.\<close>

definition reloc_symbol :: "ld \<Rightarrow> nat \<Rightarrow> u32 \<Rightarrow> u64 \<Rightarrow> u64 option option" where
  "reloc_symbol L d sym_index sv =
     (if sym_index = 0 then Some (Some sv)
      else do {
        name \<leftarrow> dso_sym (lm L) (dsos L d) (unat sym_index);
        r \<leftarrow> find_sym L d name;
        Some (map_option (\<lambda>(e, sym). base (dsos L e) + get64 (unat sym + 8) (lm L)) r) })"

definition reloc_write :: "u64 \<Rightarrow> u32 \<Rightarrow> u64 \<Rightarrow> u64 \<Rightarrow> u64 \<Rightarrow> mem \<Rightarrow> mem" where
  "reloc_write b type addr sv addend m =
     (if type = R_X86_64_GLOB_DAT then put64 (unat addr) (sv + addend) m
      else if type = R_X86_64_JUMP_SLOT then put64 (unat addr) (sv + addend) m
      else if type = R_X86_64_RELATIVE then put64 (unat addr) (b + addend) m
      else m)"

definition do_reloc :: "nat \<Rightarrow> u64 \<Rightarrow> u64 \<Rightarrow> ld \<Rightarrow> (u64 \<times> ld) option" where
  "do_reloc d rel sv L =
     (let b = base (dsos L d); info = rd64 (lm L) (rel + 8) in
      do {
        r \<leftarrow> reloc_symbol L d (ucast (ELF64_R_SYM info)) sv;
        case r of None \<Rightarrow> Some (sv, L)
        | Some sv \<Rightarrow> Some (sv, L\<lparr>lm := reloc_write b (ucast (ELF64_R_TYPE info)) (b + rd64 (lm L) rel) sv
            (rd64 (lm L) (rel + 16)) (lm L)\<rparr>) })"

partial_function (option) do_relocs :: "nat \<Rightarrow> u64 \<Rightarrow> u64 \<Rightarrow> u64 \<Rightarrow> u64 \<Rightarrow> ld \<Rightarrow> ld option" where
  [code]: "do_relocs d rel rel_size stride sv L =
     (if rel_size = 0 then Some L
      else do {
        (sv, L) \<leftarrow> do_reloc d rel sv L;
        do_relocs d (rel + 8 * stride) (rel_size - 8 * stride) stride sv L })"

text \<open>The entries of the dynamic section that describe the relocations: \<open>rel\<close>, \<open>rela\<close>,
  \<open>relsz\<close>, \<open>relasz\<close>.\<close>

record reloc_tags =
  t_rel :: u64
  t_rela :: u64
  t_relsz :: u64
  t_relasz :: u64

definition reloc_tag :: "u64 \<Rightarrow> u64 \<Rightarrow> reloc_tags \<Rightarrow> reloc_tags" where
  "reloc_tag tag val r =
     (if tag = DT_REL then r\<lparr>t_rel := val\<rparr>
      else if tag = ucast DT_RELA then r\<lparr>t_rela := val\<rparr>
      else if tag = DT_RELSZ then r\<lparr>t_relsz := val\<rparr>
      else if tag = ucast DT_RELASZ then r\<lparr>t_relasz := val\<rparr>
      else r)"

partial_function (option) read_reloc_tags :: "mem \<Rightarrow> u64 \<Rightarrow> reloc_tags \<Rightarrow> reloc_tags option" where
  [code]: "read_reloc_tags m v r =
     (if rd64 m v = 0 then Some r
      else read_reloc_tags m (v + 16) (reloc_tag (rd64 m v) (rd64 m (v + 8)) r))"

text \<open>\<open>sv1\<close> and \<open>sv2\<close> are what the uninitialised \<open>sym_val\<close> of the two calls holds.\<close>

definition reloc_all :: "u64 \<Rightarrow> u64 \<Rightarrow> nat \<Rightarrow> ld \<Rightarrow> ld option" where
  "reloc_all sv1 sv2 d L =
     (if dynv (dsos L d) = 0 then Some L
      else do {
        r \<leftarrow> read_reloc_tags (lm L) (dynv (dsos L d)) \<lparr>t_rel = 0, t_rela = 0, t_relsz = 0, t_relasz = 0\<rparr>;
        L \<leftarrow> (if t_relsz r \<noteq> 0 then do_relocs d (base (dsos L d) + t_rel r) (t_relsz r) 2 sv1 L else Some L);
        if t_relasz r \<noteq> 0 then do_relocs d (base (dsos L d) + t_rela r) (t_relasz r) 3 sv2 L else Some L })"

subsection \<open>Loading a library and what it needs\<close>

text \<open>The list of the libraries that are loaded, from \<open>HEAD\<close>.\<close>

partial_function (option) find_loaded :: "(nat \<Rightarrow> dso) \<Rightarrow> cstr \<Rightarrow> nat option \<Rightarrow> nat option option" where
  [code]: "find_loaded ds name p = (case p of None \<Rightarrow> Some None
     | Some i \<Rightarrow> if z_strcmp name (dso_name (ds i)) = 0 then Some (Some i) else find_loaded ds name (dso_next (ds i)))"

text \<open>\<open>load_library\<close> and the loop of \<open>load_deps\<close> call each other.  \<open>Load name dso\<close> gives the
  entry that was filled (\<open>None\<close> if the file cannot be opened), \<open>Needed d v\<close> the entry.\<close>

datatype load_call = Load cstr "nat option" | Needed nat u64

partial_function (option) load :: "(cstr \<Rightarrow> u8 list option) \<Rightarrow> u64 \<Rightarrow> load_call \<Rightarrow> ld \<Rightarrow> (nat option \<times> ld) option" where
  [code]: "load files sv c L = (case c of
     Load name dso \<Rightarrow> (case files name of
         None \<Rightarrow> Some (None, L)
       | Some f \<Rightarrow>
           let d = (case dso of None \<Rightarrow> tail L + 1 | Some d \<Rightarrow> d) in
           if DSO_MAX \<le> d then None
           else do {
             L \<leftarrow> map_library f d (upd_dso d (\<lambda>x. x\<lparr>dso_name := name\<rparr>) L);
             let L = (upd_dso (tail L) (\<lambda>x. x\<lparr>dso_next := Some d\<rparr>) L)\<lparr>tail := d\<rparr>;
             let L = upd_dso d (\<lambda>x. x\<lparr>deps_index := push_bit d 1\<rparr>) L;
             L \<leftarrow> (if ndeps_direct (dsos L d) = 0 then Some L
                  else do { (_, L) \<leftarrow> load files sv (Needed d (dynv (dsos L d))) L; Some L });
             L \<leftarrow> reloc_all sv sv d L;
             Some (Some d, L) })
   | Needed d v \<Rightarrow>
       if rd64 (lm L) v = 0 then Some (Some d, L)
       else do {
         L \<leftarrow> (if rd64 (lm L) v = ucast DT_NEEDED then do {
             name \<leftarrow> str_at (lm L) (unat (strings (dsos L d) + rd64 (lm L) (v + 8)));
             q \<leftarrow> find_loaded (dsos L) name (Some 0);
             (q, L) \<leftarrow> (case q of Some q \<Rightarrow> Some (Some q, L) | None \<Rightarrow> load files sv (Load name None) L);
             q \<leftarrow> q;
             Some (upd_dso d (\<lambda>x. x\<lparr>deps_index := deps_index x OR push_bit q 1\<rparr>) L) }
           else Some L);
         load files sv (Needed d (v + 16)) L })"

subsection \<open>The start of the loader\<close>

text \<open>The words of the initial stack: the number of arguments, the arguments, the
  environment, the auxiliary vector; zeros separate them.\<close>

definition AT_PHDR :: u64 where "AT_PHDR = 3"
definition AT_PHENT :: u64 where "AT_PHENT = 4"
definition AT_PHNUM :: u64 where "AT_PHNUM = 5"
definition AT_PAGESZ :: u64 where "AT_PAGESZ = 6"
definition AT_BASE :: u64 where "AT_BASE = 7"

text \<open>The own name, the name of the file (0 if there is none), the rest of the stack.\<close>

definition read_argv :: "u64 list \<Rightarrow> u64 \<times> u64 \<times> u64 list" where
  "read_argv st =
     (let own_name = hd (tl st); argv = tl (tl st);
          fname = (case takeWhile (\<lambda>w. w \<noteq> 0) argv of [] \<Rightarrow> 0 | w # _ \<Rightarrow> w)
      in (own_name, fname, dropWhile (\<lambda>w. w \<noteq> 0) argv))"

definition read_env :: "u64 list \<Rightarrow> u64 list" where "read_env = dropWhile (\<lambda>w. w \<noteq> 0)"
definition read_zero :: "u64 list \<Rightarrow> u64 list" where "read_zero = dropWhile (\<lambda>w. w = 0)"

fun read_auxv_loop :: "u64 list \<Rightarrow> (u64 \<Rightarrow> u64) \<times> u64 \<Rightarrow> ((u64 \<Rightarrow> u64) \<times> u64) option" where
  "read_auxv_loop (t # v # st) (aux, ps) =
     (if t = 0 then Some (aux, ps)
      else read_auxv_loop st (aux(t := v), if t = AT_PAGESZ then v else ps))"
| "read_auxv_loop st r = (case st of t # _ \<Rightarrow> if t = 0 then Some r else None | [] \<Rightarrow> None)"

text \<open>The vector \<open>aux\<close> is not initialised: it is a parameter.\<close>

definition read_auxv :: "u64 list \<Rightarrow> (u64 \<Rightarrow> u64) \<Rightarrow> ((u64 \<Rightarrow> u64) \<times> u64) option" where
  "read_auxv st aux = do {
     (aux, ps) \<leftarrow> read_auxv_loop st (aux, 0x1000);
     Some (if aux AT_BASE = 0 then aux(AT_BASE := aux AT_PHDR AND (- 4096)) else aux, ps) }"

definition read_stack :: "u64 list \<Rightarrow> (u64 \<Rightarrow> u64) \<Rightarrow> (u64 \<times> (u64 \<Rightarrow> u64) \<times> u64) option" where
  "read_stack st aux =
     (let (own_name, fname, st) = read_argv st in
      do { (aux, ps) \<leftarrow> read_auxv (read_zero (read_env (read_zero st))) aux; Some (fname, aux, ps) })"

text \<open>The program header of the dynamic section of the loader itself; past the last
  one nothing is checked.\<close>

fun find_dynamic :: "mem \<Rightarrow> nat \<Rightarrow> nat \<Rightarrow> nat \<Rightarrow> nat" where
  "find_dynamic m 0 phent ph = ph"
| "find_dynamic m (Suc phnum) phent ph =
     (if p_type (rd_phdr ph m) = PT_DYNAMIC then ph else find_dynamic m phnum phent (ph + phent))"

definition DEPS_N :: nat where "DEPS_N = 4"

text \<open>The libraries the loader itself needs, in the entries 0, 1, \<open>\<dots>\<close>.\<close>

partial_function (option) load_own :: "(cstr \<Rightarrow> u8 list option) \<Rightarrow> u64 \<Rightarrow> u64 \<Rightarrow> nat \<Rightarrow> ld \<Rightarrow> ld option" where
  [code]: "load_own files sv v k L =
     (if rd64 (lm L) v = 0 then Some L
      else if rd64 (lm L) v = ucast DT_NEEDED then do {
        name \<leftarrow> str_at (lm L) (unat (strings (dsos L DEPS_N) + rd64 (lm L) (v + 8)));
        (_, L) \<leftarrow> load files sv (Load name (Some k)) L;
        load_own files sv (v + 16) (k + 1) L }
      else load_own files sv (v + 16) k L)"

definition LOADER_NAME :: cstr where "LOADER_NAME = ascii ''./__z__loader.so''"

text \<open>\<open>__start\<close>; \<open>m\<close> is the memory with the loader in it, \<open>junk\<close> the stack of the format
  detection (\<open>ObjFormat\<close>).  The result is the entry the loader jumps to.\<close>

definition ld_start :: "(cstr \<Rightarrow> u8 list option) \<Rightarrow> mem \<Rightarrow> u64 \<Rightarrow> (u64 \<Rightarrow> u64) \<Rightarrow> u64 list \<Rightarrow> u64 list \<Rightarrow> mem
    \<Rightarrow> (u64 \<times> ld) option" where
  "ld_start files junk sv aux0 ms st m = do {
     (fname, aux, ps) \<leftarrow> read_stack st aux0;
     let b = aux AT_BASE;
     let eh = rd_ehdr (unat b) m;
     let ph = find_dynamic m (unat (e_phnum eh)) (unat (e_phentsize eh)) (unat b + unat (e_phoff eh));
     let dynv = b + p_vaddr (rd_phdr ph m);
     own \<leftarrow> set_dynamic m dynv (no_dso\<lparr>base := b, dynv := dynv, dso_name := LOADER_NAME\<rparr>);
     let L = \<lparr>lm = m, dsos = (\<lambda>_. no_dso)(DEPS_N := own), tail = 0, lmaps = ms, page_size = ps, DEB = False\<rparr>;
     L \<leftarrow> load_own files sv dynv 0 L;
     let L = (upd_dso 3 (\<lambda>x. x\<lparr>dso_next := Some DEPS_N\<rparr>) L)\<lparr>tail := DEPS_N\<rparr>;
     let L = upd_dso DEPS_N (\<lambda>x. x\<lparr>deps_index := 0xf\<rparr>) L;
     L \<leftarrow> reloc_all sv sv DEPS_N L;
     if fname = 0 then None
     else do {
       name \<leftarrow> str_at (lm L) (unat fname);
       format \<leftarrow> detect_format_fname files junk False name;
       if map_option fst format \<noteq> Some ELF64 then None
       else do {
         (d, L) \<leftarrow> load files sv (Load name None) (L\<lparr>DEB := True\<rparr>);
         d \<leftarrow> d;
         if dso_entry (dsos L d) = 0 then None else Some (dso_entry (dsos L d), L) } } }"

end
