(* ===== verification/LoadResolve.thy ===== *)
theory LoadResolve
  imports Loader
begin

text \<open>
  What the loader of \<open>Loader\<close> does with what the linker of \<open>HashTables\<close> wrote: its
  lookup finds every symbol the linker entered, wherever the table was mapped; its
  relocation stores the values it should; and a dependency of the first library hangs
  it.
\<close>

subsection \<open>The loader reads the tables of the linker\<close>

lemma ld_gnu_from_hit:
  "gnu_from nm m s h1 hv i = Some r \<Longrightarrow> nm = dso_sym m d \<and> versym d = 0 \<and> r \<noteq> 0 \<longrightarrow>
    ld_gnu_from m d s h1 hv i = Some (syms d + 24 * ucast r)"
proof (induction rule: gnu_from.raw_induct [rotated 1, consumes 1])
  case (1 go nm m s h1 hv i r)
  show ?case
  proof
    assume a: "nm = dso_sym m d \<and> versym d = 0 \<and> r \<noteq> 0"
    then have v: "versym_ok m d i" by (simp add: versym_ok_def)
    have next_step: "go nm m s h1 (hv + 4) (i + 1) = Some r \<Longrightarrow>
        ld_gnu_from m d s h1 (hv + 4) (i + 1) = Some (syms d + 24 * ucast r)"
      using "1.IH" a by blast
    show "ld_gnu_from m d s h1 hv i = Some (syms d + 24 * ucast r)"
      using "1.hyps" a next_step v
      by (subst ld_gnu_from.simps) (auto simp: Let_def bind_eq_Some_conv split: if_splits)
  qed
qed

text \<open>The number of bytes of a table of \<open>n\<close> names.\<close>

definition gnu_bytes :: "nat \<Rightarrow> mem \<Rightarrow> nat \<Rightarrow> nat" where
  "gnu_bytes t m n = 16 + 8 * unat (get32 (t + 8) m) + 4 * unat (get32 t m) + 4 * n"

lemma get_bytes_copy:
  assumes "\<And>k. k < n \<Longrightarrow> m' (t' + k) = m (t + k)" "k + j \<le> n"
  shows "get_bytes (t' + k) j m' = get_bytes (t + k) j m"
  using assms by (auto simp: get_bytes_def list_eq_iff_nth_eq add.assoc)

text \<open>A copy of the table at another address is a table of the same names.\<close>

lemma gnu_table_copy:
  assumes tab: "gnu_table t ns m" and copy: "\<And>k. k < gnu_bytes t m (length ns) \<Longrightarrow> m' (t' + k) = m (t + k)"
  shows "gnu_table t' ns m'"
proof -
  let ?n = "gnu_bytes t m (length ns)"
  have g32: "get32 (t' + k) m' = get32 (t + k) m" if "k + 4 \<le> ?n" for k
    using get_bytes_copy [of ?n m' t' m t k 4] copy that by (simp add: get32_def)
  have g64: "get64 (t' + k) m' = get64 (t + k) m" if "k + 8 \<le> ?n" for k
    using get_bytes_copy [of ?n m' t' m t k 8] copy that by (simp add: get64_def)
  have h: "get32 t' m' = get32 t m" "get32 (t' + 4) m' = get32 (t + 4) m" "get32 (t' + 8) m' = get32 (t + 8) m"
      "get32 (t' + 12) m' = get32 (t + 12) m"
    using g32 [of 0] g32 [of 4] g32 [of 8] g32 [of 12] by (simp_all add: gnu_bytes_def)
  have bucket: "get32 (gnu_bucket t' m' + 4 * b) m' = get32 (gnu_bucket t m + 4 * b) m" if "b < unat (get32 t m)" for b
    using g32 [of "16 + 8 * unat (get32 (t + 8) m) + 4 * b"] that
    by (simp add: gnu_bucket_def h gnu_bytes_def add.assoc)
  have chain: "get32 (gnu_chain t' m' + 4 * k) m' = get32 (gnu_chain t m + 4 * k) m" if "k < length ns" for k
    using g32 [of "16 + 8 * unat (get32 (t + 8) m) + 4 * unat (get32 t m) + 4 * k"] that
    by (simp add: gnu_chain_def gnu_bucket_def h gnu_bytes_def add.assoc)
  have bloom: "bloom_has t' m' x = bloom_has t m x" for x
  proof -
    have "unat (x div 64 AND (get32 (t + 8) m - 1)) < unat (get32 (t + 8) m)"
      using tab by (intro bloom_index) (simp add: gnu_table_def)
    then have "get64 (gnu_bloom t' m' (x div 64)) m' = get64 (gnu_bloom t m (x div 64)) m"
      using g64 [of "16 + 8 * unat (x div 64 AND (get32 (t + 8) m - 1))"]
      by (simp add: gnu_bloom_def h gnu_bytes_def add.assoc)
    then show ?thesis by (simp add: bloom_has_def h)
  qed
  show ?thesis using tab bucket chain by (simp add: gnu_table_def h bloom)
qed

lemma dso_lookup_hit:
  assumes "gnu_table (unat (ghashtab d)) ns m" "length ns \<le> CHAIN_ROOM" "s \<in> set ns" "nul_free s" "versym d = 0"
    and "\<And>i. i < length ns \<Longrightarrow> nul_free (ns ! i) \<and> dso_sym m d (Suc i) = Some (ns ! i)"
  shows "\<exists>i < length ns. ns ! i = s \<and> dso_lookup m d s = Some (syms d + 24 * of_nat (Suc i))"
proof -
  let ?t = "unat (ghashtab d)"
  obtain i where i: "i < length ns" "find_sym2_in (dso_sym m d) ?t s m = Some (of_nat (Suc i))" "ns ! i = s"
    using gnu_look_hit [OF assms(1-4,6)] by blast
  have nz: "(of_nat (Suc i) :: u32) \<noteq> 0" "unat (of_nat (Suc i) :: u32) = Suc i"
    using unat_Suc_room [of i] i(1) assms(2) by (auto simp del: of_nat_Suc)
  have u: "ucast (of_nat (Suc i) :: u32) = (of_nat (Suc i) :: u64)" by (metis nz(2) of_nat_unat)
  let ?h = "gnu_hash s"
  have f: "gnu_lookup_filtered (dso_sym m d) ?t ?h s (?h div 64) (push_bit (unat (?h mod 64)) 1) m = Some (of_nat (Suc i))"
    using i(2) by (simp add: find_sym2_in_def Let_def del: of_nat_Suc)
  have l: "gnu_lookup (dso_sym m d) ?t ?h s m = Some (of_nat (Suc i)) \<Longrightarrow>
      ld_gnu_lookup m ?h ?t d s = Some (syms d + 24 * of_nat (Suc i))"
    using ld_gnu_from_hit assms(5) nz(1) u
    by (auto simp: gnu_lookup_def ld_gnu_lookup_def Let_def simp del: of_nat_Suc split: if_splits)
  have "dso_lookup m d s = Some (syms d + 24 * of_nat (Suc i))"
    using f l nz(1)
    by (auto simp: dso_lookup_def ld_gnu_hash_def gnu_hash_def gnu_lookup_filtered_def ld_gnu_lookup_filtered_def Let_def
        simp del: of_nat_Suc push_bit_of_1 split: if_splits)
  then show ?thesis using i by blast
qed

text \<open>The search takes the library that was loaded last.\<close>

lemma find_from_last:
  assumes "e \<le> n" "dso_find L deps s e = Some p" "p \<noteq> 0" "\<And>j. e < j \<Longrightarrow> j \<le> n \<Longrightarrow> dso_find L deps s j = Some 0"
  shows "find_from L deps s n = Some (Some (e, p))"
  using assms
proof (induction n)
  case 0
  then show ?case by simp
next
  case (Suc n)
  show ?case
  proof (cases "e = Suc n")
    case True
    then show ?thesis using Suc.prems by simp
  next
    case False
    then show ?thesis using Suc.IH Suc.prems by simp
  qed
qed

text \<open>C8: What the linker exports, the loader finds.  After the linker has entered any
  list of names into an empty GNU hash table, \<open>find_sym\<close> of the loader, with a copy of
  the table at any address of a library it has mapped, returns the symbol the linker
  entered, if no library loaded later defines the name too.\<close>

theorem linked_symbol_found:
  assumes "get32 t m \<noteq> 0" "get32 (t + 4) m = 1" "get32 (t + 8) m \<noteq> 0"
    and "\<And>a. gnu_bucket t m \<le> a \<Longrightarrow> a \<le> gnu_chain t m + 4 * CHAIN_ROOM \<Longrightarrow> get32 a m = 0"
    and "length ns \<le> CHAIN_ROOM" "\<forall>n \<in> set ns. nul_free n \<and> gnu_hash n AND 0xfffffffe \<noteq> 0" "s \<in> set ns"
  shows "\<exists>m'. enter_gnu t ns 1 m = Some m' \<and>
    (\<forall>L p e. let d = dsos L e in
      (\<forall>k < gnu_bytes t m' (length ns). lm L (unat (ghashtab d) + k) = m' (t + k)) \<and>
      (\<forall>i < length ns. dso_sym (lm L) d (Suc i) = Some (ns ! i)) \<and>
      ghashtab d \<noteq> 0 \<and> versym d = 0 \<and> unat (syms d) + 24 * length ns < 2 ^ 64 \<and>
      e \<le> tail L \<and> bit (deps_index (dsos L p)) e \<and>
      (\<forall>j. e < j \<and> j \<le> tail L \<longrightarrow> dso_find L (deps_index (dsos L p)) s j = Some 0) \<longrightarrow>
      (\<exists>i < length ns. ns ! i = s \<and> find_sym L p s = Some (Some (e, syms d + 24 * of_nat (Suc i)))))"
proof -
  obtain m' where m': "gnu.add_all t ns 1 m = Some m'" "gnu_inv t ns m'"
    using gnu.add_all_inv [of t "[]" m ns] gnu_inv_empty [OF assms(1-4)] assms(5,6) by auto
  have "\<exists>i < length ns. ns ! i = s \<and> find_sym L p s = Some (Some (e, syms (dsos L e) + 24 * of_nat (Suc i)))"
    if copy: "\<And>k. k < gnu_bytes t m' (length ns) \<Longrightarrow> lm L (unat (ghashtab (dsos L e)) + k) = m' (t + k)"
      and names: "\<And>i. i < length ns \<Longrightarrow> dso_sym (lm L) (dsos L e) (Suc i) = Some (ns ! i)"
      and d: "ghashtab (dsos L e) \<noteq> 0" "versym (dsos L e) = 0" "unat (syms (dsos L e)) + 24 * length ns < 2 ^ 64"
      and e: "e \<le> tail L" "bit (deps_index (dsos L p)) e"
        "\<And>j. e < j \<Longrightarrow> j \<le> tail L \<Longrightarrow> dso_find L (deps_index (dsos L p)) s j = Some 0" for L p e
  proof -
    have "gnu_table (unat (ghashtab (dsos L e))) ns (lm L)"
      using gnu_table_copy [OF gnu_inv_table [OF m'(2)] copy] .
    then obtain i where i: "i < length ns" "ns ! i = s"
        "dso_lookup (lm L) (dsos L e) s = Some (syms (dsos L e) + 24 * of_nat (Suc i))"
      using dso_lookup_hit [of "dsos L e" ns "lm L" s] assms(5-7) d(2) names by (metis nth_mem)
    have "unat (syms (dsos L e) + 24 * of_nat (Suc i)) = unat (syms (dsos L e)) + 24 * Suc i"
    proof -
      have "24 * of_nat (Suc i) = (of_nat (24 * Suc i) :: u64)" by simp
      moreover have "unat (syms (dsos L e)) + 24 * Suc i < 2 ^ 64" using d(3) i(1) by simp
      ultimately show ?thesis by (simp add: unat_word_ariths unsigned_of_nat take_bit_nat_eq_self del: of_nat_Suc of_nat_mult)
    qed
    then have "syms (dsos L e) + 24 * of_nat (Suc i) \<noteq> 0" by (auto simp del: of_nat_Suc)
    then show ?thesis
      using i e d(1) find_from_last [of e "tail L" L "deps_index (dsos L p)" s] by (auto simp: find_sym_def dso_find_def)
  qed
  then show ?thesis using m'(1) by (auto simp: Let_def enter_gnu_add_all)
qed

text \<open>Two names in a table at 0 that is mapped at \<open>0x7000\<close>; symbols at \<open>0x200\<close>, strings
  at \<open>0x100\<close>.\<close>

definition sample_mem :: "mem \<Rightarrow> mem" where
  "sample_mem m' x = (if 0x7000 \<le> x then m' (x - 0x7000) else if x = 0x218 then 1 else if x = 0x230 then 3
     else if x = 0x101 then 0x61 else if x = 0x103 then 0x62 else 0)"

definition sample_dso :: dso where
  "sample_dso = no_dso\<lparr>ghashtab := 0x7000, syms := 0x200, strings := 0x100, deps_index := 1\<rparr>"

lemma sample_names:
  "dso_sym (sample_mem m') sample_dso (Suc 0) = Some [0x61]" "dso_sym (sample_mem m') sample_dso 2 = Some [0x62]"
proof -
  have "str_at (sample_mem m') 0x101 = Some [0x61]" "str_at (sample_mem m') 0x103 = Some [0x62]"
    by (rule str_at_bytes; simp add: get_bytes_def sample_mem_def upt_conv_Cons)+
  moreover have "get32 0x218 (sample_mem m') = 1" "get32 0x230 (sample_mem m') = 3"
    by (simp_all add: get32_def get_bytes_def sample_mem_def of_le32_def)
  ultimately show "dso_sym (sample_mem m') sample_dso (Suc 0) = Some [0x61]" "dso_sym (sample_mem m') sample_dso 2 = Some [0x62]"
    by (simp_all add: dso_sym_def sym_name_def sample_dso_def rd_sym_def)
qed

lemma linked_symbol_found_witness:
  "\<exists>m' L. enter_gnu 0 [[0x61], [0x62] :: cstr] 1 (gnu_area 0) = Some m' \<and> lm L = sample_mem m' \<and>
    (\<exists>i < 2. [[0x61], [0x62]] ! i = [0x62 :: u8] \<and> find_sym L 0 [0x62] = Some (Some (0, 0x200 + 24 * of_nat (Suc i))))"
proof -
  let ?ns = "[[0x61], [0x62]] :: cstr list"
  obtain m' where m': "enter_gnu 0 ?ns 1 (gnu_area 0) = Some m'" "\<forall>L p e. let d = dsos L e in
      (\<forall>k < gnu_bytes 0 m' (length ?ns). lm L (unat (ghashtab d) + k) = m' (0 + k)) \<and>
      (\<forall>i < length ?ns. dso_sym (lm L) d (Suc i) = Some (?ns ! i)) \<and>
      ghashtab d \<noteq> 0 \<and> versym d = 0 \<and> unat (syms d) + 24 * length ?ns < 2 ^ 64 \<and>
      e \<le> tail L \<and> bit (deps_index (dsos L p)) e \<and>
      (\<forall>j. e < j \<and> j \<le> tail L \<longrightarrow> dso_find L (deps_index (dsos L p)) [0x62] j = Some 0) \<longrightarrow>
      (\<exists>i < length ?ns. ?ns ! i = [0x62] \<and> find_sym L p [0x62] = Some (Some (e, syms d + 24 * of_nat (Suc i))))"
    using linked_symbol_found [of 0 "gnu_area 0" ?ns "[0x62]"]
    by (auto simp: gnu_area_words gnu_bucket_def CHAIN_ROOM_def gnu_hash_def hdz_def)
  define L where "L = \<lparr>lm = sample_mem m', dsos = (\<lambda>_. sample_dso), tail = 0, lmaps = [], page_size = 0x1000, DEB = False\<rparr>"
  have f: "dsos L 0 = sample_dso" "lm L = sample_mem m'" "tail L = 0" by (simp_all add: L_def)
  have g: "unat (ghashtab sample_dso) = 0x7000" "ghashtab sample_dso \<noteq> 0" "versym sample_dso = 0"
    "unat (syms sample_dso) = 0x200" "deps_index sample_dso = 1" "syms sample_dso = 0x200"
    by (simp_all add: sample_dso_def no_dso_def)
  have "\<forall>k. sample_mem m' (0x7000 + k) = m' (0 + k)" by (simp add: sample_mem_def)
  moreover have "\<forall>i < length ?ns. dso_sym (sample_mem m') sample_dso (Suc i) = Some (?ns ! i)"
    using sample_names [of m'] by (auto simp: numeral_2_eq_2 less_Suc_eq)
  ultimately have "(\<forall>k < gnu_bytes 0 m' (length ?ns). lm L (unat (ghashtab (dsos L 0)) + k) = m' (0 + k)) \<and>
      (\<forall>i < length ?ns. dso_sym (lm L) (dsos L 0) (Suc i) = Some (?ns ! i)) \<and>
      ghashtab (dsos L 0) \<noteq> 0 \<and> versym (dsos L 0) = 0 \<and> unat (syms (dsos L 0)) + 24 * length ?ns < 2 ^ 64 \<and>
      0 \<le> tail L \<and> bit (deps_index (dsos L 0)) 0 \<and>
      (\<forall>j. 0 < j \<and> j \<le> tail L \<longrightarrow> dso_find L (deps_index (dsos L 0)) [0x62] j = Some 0)"
    by (simp add: f g bit_0)
  then have "\<exists>i < length ?ns. ?ns ! i = [0x62] \<and> find_sym L 0 [0x62] = Some (Some (0, syms (dsos L 0) + 24 * of_nat (Suc i)))"
    using m'(2) unfolding Let_def by blast
  then show ?thesis using m'(1) by (intro exI [of _ m'] exI [of _ L]) (simp add: f g numeral_2_eq_2)
qed

subsection \<open>Relocation\<close>

text \<open>Storing values at places that do not overlap.\<close>

definition store_all :: "(nat \<Rightarrow> nat) \<Rightarrow> (nat \<Rightarrow> u64 option) \<Rightarrow> nat list \<Rightarrow> mem \<Rightarrow> mem" where
  "store_all slot val ks m = fold (\<lambda>k m. case val k of None \<Rightarrow> m | Some v \<Rightarrow> put64 (slot k) v m) ks m"

lemma store_all_other:
  "(\<And>k. k \<in> set ks \<Longrightarrow> x < slot k \<or> slot k + 8 \<le> x) \<Longrightarrow> store_all slot val ks m x = m x"
proof (induction ks arbitrary: m)
  case (Cons k ks)
  have "store_all slot val (k # ks) m x = store_all slot val ks (case val k of None \<Rightarrow> m | Some v \<Rightarrow> put64 (slot k) v m) x"
    by (simp add: store_all_def)
  also have "\<dots> = (case val k of None \<Rightarrow> m | Some v \<Rightarrow> put64 (slot k) v m) x" using Cons by simp
  also have "\<dots> = m x" using Cons.prems [of k] by (auto simp: mem_simps split: option.splits)
  finally show ?case .
qed (simp add: store_all_def)

lemma store_all_get:
  assumes "k < n" "\<And>i j. i < n \<Longrightarrow> j < n \<Longrightarrow> i \<noteq> j \<Longrightarrow> slot i + 8 \<le> slot j \<or> slot j + 8 \<le> slot i"
  shows "get64 (slot k) (store_all slot val [0..<n] m) = (case val k of None \<Rightarrow> get64 (slot k) m | Some v \<Rightarrow> v)"
  using assms
proof (induction n)
  case (Suc n)
  let ?s = "store_all slot val [0..<n] m"
  have s: "store_all slot val [0..<Suc n] m = (case val n of None \<Rightarrow> ?s | Some v \<Rightarrow> put64 (slot n) v ?s)"
    by (simp add: store_all_def split: option.splits)
  show ?case
  proof (cases "k = n")
    case True
    have "get_bytes (slot n) 8 ?s = get_bytes (slot n) 8 m"
    proof -
      have "?s (slot n + j) = m (slot n + j)" if "j < 8" for j
        using Suc.prems(2) [of _ n] that by (intro store_all_other) (force simp: less_Suc_eq)
      then show ?thesis by (auto simp: get_bytes_def list_eq_iff_nth_eq)
    qed
    then have "get64 (slot n) ?s = get64 (slot n) m" by (simp add: get64_def)
    then show ?thesis using s True by (simp add: mem_simps split: option.splits)
  next
    case False
    then have k: "k < n" using Suc.prems(1) by simp
    have "get64 (slot k) (put64 (slot n) v ?s) = get64 (slot k) ?s" for v
      using Suc.prems(2) [of k n] k by (intro mem_simps) auto
    then show ?thesis using s Suc.IH [OF k] Suc.prems(2) by (simp split: option.splits)
  qed
qed simp

text \<open>The entries of a relocation table.\<close>

definition rela_at :: "mem \<Rightarrow> u64 \<Rightarrow> nat \<Rightarrow> u64 \<times> u64 \<times> u64" where
  "rela_at m rel k = (let p = rel + 24 * of_nat k in (rd64 m p, rd64 m (p + 8), rd64 m (p + 16)))"

definition reloc_slot :: "ld \<Rightarrow> nat \<Rightarrow> u64 \<Rightarrow> nat \<Rightarrow> nat" where
  "reloc_slot L d rel k = unat (base (dsos L d) + fst (rela_at (lm L) rel k))"

text \<open>The value the ABI demands: base and addend for a relative entry, the address of the
  symbol, without an addend, for the other two; no value for a symbol that nothing
  defines and for other types.\<close>

definition abi_value :: "ld \<Rightarrow> nat \<Rightarrow> u64 \<Rightarrow> nat \<Rightarrow> u64 option" where
  "abi_value L d rel k =
     (case rela_at (lm L) rel k of (_, info, addend) \<Rightarrow>
       let ty = (ucast (ELF64_R_TYPE info) :: u32); si = (ucast (ELF64_R_SYM info) :: u32) in
       if ty = R_X86_64_RELATIVE then Some (base (dsos L d) + addend)
       else if ty = R_X86_64_GLOB_DAT \<or> ty = R_X86_64_JUMP_SLOT
       then (case Option.bind (dso_sym (lm L) (dsos L d) (unat si)) (find_sym L d) of
               Some (Some (e, p)) \<Rightarrow> Some (base (dsos L e) + get64 (unat p + 8) (lm L))
             | _ \<Rightarrow> None)
       else None)"

text \<open>The tables the loader writes and reads are proper: a relative entry names no
  symbol, the others name one and have the addend 0, which is what the linker writes (the
  loader adds the addend), every lookup returns, places are disjoint, and
  neither the table nor a lookup reads a place.\<close>

definition places :: "ld \<Rightarrow> nat \<Rightarrow> u64 \<Rightarrow> nat \<Rightarrow> nat set" where
  "places L d rel n = (\<Union>k \<in> {..<n}. {reloc_slot L d rel k ..< reloc_slot L d rel k + 8})"

definition entry_ok :: "ld \<Rightarrow> nat \<Rightarrow> u64 \<Rightarrow> nat \<Rightarrow> bool" where
  "entry_ok L d rel k \<longleftrightarrow> (case rela_at (lm L) rel k of (_, info, addend) \<Rightarrow>
     let ty = (ucast (ELF64_R_TYPE info) :: u32); si = (ucast (ELF64_R_SYM info) :: u32) in
     (ty = R_X86_64_RELATIVE \<and> si = 0 \<or> (ty = R_X86_64_GLOB_DAT \<or> ty = R_X86_64_JUMP_SLOT) \<and> si \<noteq> 0 \<and> addend = 0) \<and>
     (si \<noteq> 0 \<longrightarrow> reloc_symbol L d si 0 \<noteq> None))"

definition reads_no_place :: "ld \<Rightarrow> nat \<Rightarrow> u64 \<Rightarrow> nat \<Rightarrow> bool" where
  "reads_no_place L d rel n \<longleftrightarrow>
     (\<forall>m'. (\<forall>x. x \<notin> places L d rel n \<longrightarrow> m' x = lm L x) \<longrightarrow>
       (\<forall>k < n. rela_at m' rel k = rela_at (lm L) rel k \<and>
          (\<forall>sv. let si = (ucast (ELF64_R_SYM (fst (snd (rela_at (lm L) rel k)))) :: u32) in
             reloc_symbol (L\<lparr>lm := m'\<rparr>) d si sv = reloc_symbol L d si sv)))"

lemma not_in_places:
  "x \<notin> places L d rel n \<Longrightarrow> k < n \<Longrightarrow> x < reloc_slot L d rel k \<or> reloc_slot L d rel k + 8 \<le> x"
  by (force simp: places_def not_less)

lemma do_reloc_value:
  assumes "entry_ok L d rel k" "rela_at m' rel k = rela_at (lm L) rel k"
    and "\<And>sv. let si = (ucast (ELF64_R_SYM (fst (snd (rela_at (lm L) rel k)))) :: u32) in
      reloc_symbol (L\<lparr>lm := m'\<rparr>) d si sv = reloc_symbol L d si sv"
  shows "\<exists>sv'. do_reloc d (rel + 24 * of_nat k) sv (L\<lparr>lm := m'\<rparr>) =
    Some (sv', L\<lparr>lm := (case abi_value L d rel k of None \<Rightarrow> m' | Some v \<Rightarrow> put64 (reloc_slot L d rel k) v m')\<rparr>)"
proof -
  obtain off info addend where e: "rela_at (lm L) rel k = (off, info, addend)" by (metis prod_cases3)
  let ?ty = "ucast (ELF64_R_TYPE info) :: u32" and ?si = "ucast (ELF64_R_SYM info) :: u32"
  have r: "rd64 m' (rel + 24 * of_nat k) = off" "rd64 m' (rel + 24 * of_nat k + 8) = info"
    "rd64 m' (rel + 24 * of_nat k + 16) = addend"
    using assms(2) e by (simp_all add: rela_at_def Let_def)
  have look: "reloc_symbol (L\<lparr>lm := m'\<rparr>) d ?si sv = reloc_symbol L d ?si sv" for sv
    using assms(3) [of sv] e by (simp add: Let_def)
  have ok: "?ty = R_X86_64_RELATIVE \<and> ?si = 0 \<or> (?ty = R_X86_64_GLOB_DAT \<or> ?ty = R_X86_64_JUMP_SLOT) \<and> ?si \<noteq> 0 \<and> addend = 0"
    "?si \<noteq> 0 \<Longrightarrow> reloc_symbol L d ?si 0 \<noteq> None"
    using assms(1) e by (simp_all add: entry_ok_def Let_def)
  have ty: "R_X86_64_RELATIVE \<noteq> R_X86_64_GLOB_DAT" "R_X86_64_RELATIVE \<noteq> R_X86_64_JUMP_SLOT"
    by (simp_all add: R_X86_64_RELATIVE_def R_X86_64_GLOB_DAT_def R_X86_64_JUMP_SLOT_def)
  show ?thesis
  proof (cases "?si = 0")
    case True
    then show ?thesis
      using ok(1) e r ty by (simp add: do_reloc_def Let_def reloc_symbol_def reloc_write_def abi_value_def reloc_slot_def)
  next
    case False
    then have t: "?ty = R_X86_64_GLOB_DAT \<or> ?ty = R_X86_64_JUMP_SLOT" "?ty \<noteq> R_X86_64_RELATIVE" "addend = 0" using ok(1) ty by auto
    have s: "reloc_symbol (L\<lparr>lm := m'\<rparr>) d ?si sv = reloc_symbol L d ?si 0" for sv
      using look [of sv] False by (simp add: reloc_symbol_def)
    obtain x where x: "reloc_symbol L d ?si 0 = Some x" using ok(2) False by blast
    have a: "abi_value L d rel k = x"
      using x False t e
      by (auto simp: abi_value_def reloc_symbol_def Let_def bind_eq_Some_conv split: option.splits)
    have l: "reloc_symbol (L\<lparr>lm := m'\<rparr>) d ?si sv = Some x" for sv using s x by simp
    show ?thesis
    proof (cases x)
      case None
      then show ?thesis using l by (simp add: do_reloc_def Let_def r a)
    next
      case (Some v)
      then show ?thesis
        using l t by (auto simp: do_reloc_def Let_def r a reloc_write_def reloc_slot_def e)
    qed
  qed
qed

text \<open>The loop over the entries, from the \<open>k\<close>th on, in a memory in which only places differ.\<close>

lemma do_relocs_store:
  assumes "\<And>k. k < n \<Longrightarrow> entry_ok L d rel k" "reads_no_place L d rel n" "24 * n < 2 ^ 64"
  shows "k \<le> n \<Longrightarrow> (\<And>x. x \<notin> places L d rel n \<Longrightarrow> m' x = lm L x) \<Longrightarrow>
    do_relocs d (rel + 24 * of_nat k) (of_nat (24 * (n - k))) 3 sv (L\<lparr>lm := m'\<rparr>) =
    Some (L\<lparr>lm := store_all (reloc_slot L d rel) (abi_value L d rel) [k..<n] m'\<rparr>)"
proof (induction "n - k" arbitrary: k m' sv)
  case 0
  then show ?case by (subst do_relocs.simps) (simp add: store_all_def)
next
  case (Suc j)
  let ?v = "abi_value L d rel k" and ?a = "reloc_slot L d rel k"
  let ?m = "case ?v of None \<Rightarrow> m' | Some v \<Rightarrow> put64 ?a v m'"
  have k: "k < n" using Suc.hyps by simp
  have "\<forall>k < n. rela_at m' rel k = rela_at (lm L) rel k \<and>
      (\<forall>sv. let si = (ucast (ELF64_R_SYM (fst (snd (rela_at (lm L) rel k)))) :: u32) in
         reloc_symbol (L\<lparr>lm := m'\<rparr>) d si sv = reloc_symbol L d si sv)"
    using assms(2) Suc.prems(2) unfolding reads_no_place_def by blast
  then have same: "rela_at m' rel k = rela_at (lm L) rel k"
    "\<And>sv. let si = (ucast (ELF64_R_SYM (fst (snd (rela_at (lm L) rel k)))) :: u32) in
      reloc_symbol (L\<lparr>lm := m'\<rparr>) d si sv = reloc_symbol L d si sv"
    using k by blast+
  obtain sv' where one: "do_reloc d (rel + 24 * of_nat k) sv (L\<lparr>lm := m'\<rparr>) = Some (sv', L\<lparr>lm := ?m\<rparr>)"
    using do_reloc_value [OF assms(1) [OF k] same] by blast
  have "?m x = lm L x" if "x \<notin> places L d rel n" for x
    using Suc.prems(2) [OF that] not_in_places [OF that k] by (auto simp: mem_simps split: option.splits)
  then have rest: "do_relocs d (rel + 24 * of_nat (Suc k)) (of_nat (24 * (n - Suc k))) 3 sv' (L\<lparr>lm := ?m\<rparr>) =
      Some (L\<lparr>lm := store_all (reloc_slot L d rel) (abi_value L d rel) [Suc k..<n] ?m\<rparr>)"
    using Suc.hyps k by (intro Suc.hyps(1)) auto
  have n: "(of_nat (24 * (n - k)) :: u64) \<noteq> 0"
  proof
    assume "(of_nat (24 * (n - k)) :: u64) = 0"
    moreover have "unat (of_nat (24 * (n - k)) :: u64) = 24 * (n - k)" 
    proof -
      have "24 * (n - k) < 2 ^ 64" using assms(3) by simp
      then show ?thesis by (simp add: unsigned_of_nat take_bit_nat_eq_self del: of_nat_mult)
    qed
    ultimately show False using k by simp
  qed
  have "n - k = Suc (n - Suc k)" using k by simp
  then have p: "rel + 24 * of_nat k + 8 * 3 = rel + 24 * of_nat (Suc k)"
      "(of_nat (24 * (n - k)) :: u64) - 8 * 3 = of_nat (24 * (n - Suc k))"
    by (simp_all only: of_nat_Suc of_nat_mult mult_Suc_right of_nat_add distrib_left) simp_all
  have "store_all (reloc_slot L d rel) (abi_value L d rel) [k..<n] m' =
      store_all (reloc_slot L d rel) (abi_value L d rel) [Suc k..<n] ?m"
    using k by (simp add: store_all_def upt_conv_Cons)
  then show ?case
    by (subst do_relocs.simps) (simp only: n if_False one Option.bind.simps prod.case p rest)
qed

text \<open>C20: Relocation.  \<open>do_relocs\<close> over a table of relative entries, and of \<open>GLOB_DAT\<close> and \<open>JUMP_SLOT\<close>
  entries whose addend is 0, as the linker writes them, stores at the place of every entry the value
  the ABI demands, base plus addend or the address of the symbol
  found in the libraries, leaves a place alone whose symbol nothing defines, and changes
  nothing else, if places are disjoint and the table and the lookups read none.\<close>

theorem relocs_resolved:
  assumes "\<And>k. k < n \<Longrightarrow> entry_ok L d rel k" "reads_no_place L d rel n" "24 * n < 2 ^ 64"
    and "\<And>i j. i < n \<Longrightarrow> j < n \<Longrightarrow> i \<noteq> j \<Longrightarrow>
      reloc_slot L d rel i + 8 \<le> reloc_slot L d rel j \<or> reloc_slot L d rel j + 8 \<le> reloc_slot L d rel i"
  shows "\<exists>m'. do_relocs d rel (of_nat (24 * n)) 3 sv L = Some (L\<lparr>lm := m'\<rparr>) \<and>
    (\<forall>k < n. get64 (reloc_slot L d rel k) m' =
       (case abi_value L d rel k of None \<Rightarrow> get64 (reloc_slot L d rel k) (lm L) | Some v \<Rightarrow> v)) \<and>
    (\<forall>x. x \<notin> places L d rel n \<longrightarrow> m' x = lm L x)"
proof -
  let ?m = "store_all (reloc_slot L d rel) (abi_value L d rel) [0..<n] (lm L)"
  have "do_relocs d rel (of_nat (24 * n)) 3 sv L = Some (L\<lparr>lm := ?m\<rparr>)"
    using do_relocs_store [OF assms(1-3), of 0 "lm L" sv] by simp
  moreover have "?m x = lm L x" if "x \<notin> places L d rel n" for x
    using not_in_places [OF that] by (intro store_all_other) simp
  moreover have "get64 (reloc_slot L d rel k) ?m =
      (case abi_value L d rel k of None \<Rightarrow> get64 (reloc_slot L d rel k) (lm L) | Some v \<Rightarrow> v)" if "k < n" for k
    using that assms(4) by (rule store_all_get)
  ultimately show ?thesis by (intro exI [of _ ?m] conjI allI impI)
qed

text \<open>Two entries at \<open>0x100\<close>, one relative, one for the symbol \<open>a\<close> that the library
  itself defines; the places are at \<open>0x8000\<close> and \<open>0x8008\<close>.\<close>

definition reloc_mem :: mem where
  "reloc_mem = put64 0x108 8 (put64 0x110 0x10 (put64 0x118 8 (put64 0x120 0x100000006 (put64 0x128 0
     (put32 0x218 1 (put64 0x220 0x40 (put32 0x300 0x6100
     (put32 0x400 1 (put32 0x404 1 (put32 0x408 1 (put64 0x410 0x40 (put32 0x418 1 (put32 0x41c 0x2b607 (\<lambda>_. 0))))))))))))))"

definition reloc_ld :: ld where
  "reloc_ld = \<lparr>lm = reloc_mem, dsos = (\<lambda>_. no_dso\<lparr>base := 0x8000, syms := 0x200, strings := 0x300, ghashtab := 0x400, deps_index := 1\<rparr>),
     tail = 0, lmaps = [], page_size = 0x1000, DEB = False\<rparr>"

lemma reloc_mem_reads:
  assumes "\<forall>x < 0x8000. m' x = reloc_mem x"
  shows "rela_at m' 0x100 0 = (0, 8, 0x10)" "rela_at m' 0x100 1 = (8, 0x100000006, 0)"
    "dso_sym m' (dsos reloc_ld 0) 1 = Some [0x61]" "get64 0x220 m' = 0x40"
    "dso_lookup m' (dsos reloc_ld 0) [0x61] = Some 0x218"
proof -
  have b: "get_bytes a n m' = get_bytes a n reloc_mem" if "a + n \<le> 0x8000" for a n
    using get_bytes_copy [of "0x8000" m' 0 reloc_mem 0 a n] assms that by simp
  have z: "get64 a (\<lambda>_. 0) = 0" "get32 a (\<lambda>_. 0) = 0" for a
    by (simp_all add: get64_def get32_def get_bytes_def of_le64_def of_le32_def)
  have g64: "get64 a m' = get64 a reloc_mem" if "a \<le> 0x7000" for a using b [of a 8] that by (simp add: get64_def)
  have g32: "get32 a m' = get32 a reloc_mem" if "a \<le> 0x7000" for a using b [of a 4] that by (simp add: get32_def)
  note rd = reloc_mem_def mem_simps z
  have e: "get64 0x100 m' = 0" "get64 0x108 m' = 8" "get64 0x110 m' = 0x10" "get64 0x118 m' = 8"
      "get64 0x120 m' = 0x100000006" "get64 0x128 m' = 0" and v: "get64 0x220 m' = 0x40"
      and h: "get32 0x400 m' = 1" "get32 0x404 m' = 1" "get32 0x408 m' = 1" "get32 0x40c m' = 0" "get64 0x410 m' = 0x40"
        "get32 0x418 m' = 1" "get32 0x41c m' = 0x2b607" "get32 0x218 m' = 1"
    by (subst g64 g32; simp add: rd)+
  show "rela_at m' 0x100 0 = (0, 8, 0x10)" "rela_at m' 0x100 1 = (8, 0x100000006, 0)" "get64 0x220 m' = 0x40"
    using e v by (simp_all add: rela_at_def)
  have "str_at m' 0x301 = Some [0x61]"
    by (rule str_at_bytes) (simp_all add: b get_bytes_def upt_conv_Cons assms rd put32_def le32_def)
  then show s: "dso_sym m' (dsos reloc_ld 0) 1 = Some [0x61]"
    using h by (simp add: dso_sym_def sym_name_def rd_sym_def reloc_ld_def no_dso_def)
  show "dso_lookup m' (dsos reloc_ld 0) [0x61] = Some 0x218"
  proof -
    have hash: "ld_gnu_hash [0x61] = 0x2b606" by (simp add: ld_gnu_hash_def)
    have d: "unat (ghashtab (dsos reloc_ld 0)) = 0x400" "syms (dsos reloc_ld 0) = 0x200" "versym (dsos reloc_ld 0) = 0"
      by (simp_all add: reloc_ld_def no_dso_def)
    have from_1: "ld_gnu_from m' (dsos reloc_ld 0) [0x61] 0x2b607 0x41c 1 = Some 0x218"
      using s h by (subst ld_gnu_from.simps) (simp add: d versym_ok_def)
    then show ?thesis
      by (simp add: dso_lookup_def hash Let_def ld_gnu_lookup_filtered_def ld_gnu_lookup_def gnu_bloom_def gnu_bucket_def
          gnu_chain_def d h)
  qed
qed

lemma relocs_resolved_witness:
  "\<exists>m'. do_relocs 0 0x100 48 3 0 reloc_ld = Some (reloc_ld\<lparr>lm := m'\<rparr>) \<and> get64 0x8000 m' = 0x8010 \<and> get64 0x8008 m' = 0x8040"
proof -
  have ty: "R_X86_64_RELATIVE = 8" "R_X86_64_GLOB_DAT = 6" "R_X86_64_JUMP_SLOT = 7"
    by (simp_all add: R_X86_64_RELATIVE_def R_X86_64_GLOB_DAT_def R_X86_64_JUMP_SLOT_def)
  have info: "(ucast (ELF64_R_TYPE 8) :: u32) = 8" "(ucast (ELF64_R_SYM 8) :: u32) = 0"
    "(ucast (ELF64_R_TYPE 0x100000006) :: u32) = 6" "(ucast (ELF64_R_SYM 0x100000006) :: u32) = 1"
    by (simp_all add: ELF64_R_TYPE_def ELF64_R_SYM_def)
  have d: "base (dsos reloc_ld 0) = 0x8000" "deps_index (dsos reloc_ld 0) = 1" "ghashtab (dsos reloc_ld 0) = 0x400"
    "lm reloc_ld = reloc_mem" "tail reloc_ld = 0"
    by (simp_all add: reloc_ld_def)
  note rd = reloc_mem_reads [of reloc_mem, simplified]
  have l: "reloc_ld\<lparr>lm := reloc_mem\<rparr> = reloc_ld" by (simp add: reloc_ld_def)
  have two: "k = 0 \<or> k = 1" if "k < 2" for k :: nat using that by linarith
  have symbol: "reloc_symbol (reloc_ld\<lparr>lm := m'\<rparr>) 0 1 sv = Some (Some 0x8040)" if "\<forall>x < 0x8000. m' x = reloc_mem x" for m' sv
    using reloc_mem_reads [OF that]
    by (simp add: reloc_symbol_def find_sym_def dso_find_def d)
  have rela: "rela_at m' 0x100 k = rela_at reloc_mem 0x100 k" if "\<forall>x < 0x8000. m' x = reloc_mem x" "k < 2" for m' k
    using reloc_mem_reads(1,2) [OF that(1)] rd(1,2) two [OF that(2)] by auto
  have slot: "reloc_slot reloc_ld 0 0x100 0 = 0x8000" "reloc_slot reloc_ld 0 0x100 1 = 0x8008"
    using rd by (simp_all add: reloc_slot_def d)
  have "\<forall>x < 0x8000. x \<notin> places reloc_ld 0 0x100 2"
    using slot by (auto simp: places_def dest: two)
  then have below: "\<forall>x < 0x8000. m' x = reloc_mem x" if "\<forall>x. x \<notin> places reloc_ld 0 0x100 2 \<longrightarrow> m' x = reloc_mem x" for m'
    using that by simp
  have again: "reloc_symbol (reloc_ld\<lparr>lm := m'\<rparr>) 0 (ucast (ELF64_R_SYM (fst (snd (rela_at reloc_mem 0x100 k))))) sv =
      reloc_symbol reloc_ld 0 (ucast (ELF64_R_SYM (fst (snd (rela_at reloc_mem 0x100 k))))) sv"
    if "\<forall>x < 0x8000. m' x = reloc_mem x" "k < 2" for m' k sv
    using two [OF that(2)] rd(1,2) symbol [OF that(1), of sv] symbol [of reloc_mem sv]
    by (auto simp: info l reloc_symbol_def)
  have same: "reads_no_place reloc_ld 0 0x100 2"
    unfolding reads_no_place_def Let_def d
  proof (intro allI impI conjI)
    fix m' k sv
    assume m': "\<forall>x. x \<notin> places reloc_ld 0 0x100 2 \<longrightarrow> m' x = reloc_mem x" and k: "k < (2 :: nat)"
    show "rela_at m' 0x100 k = rela_at reloc_mem 0x100 k" by (rule rela [OF below [OF m'] k])
    show "reloc_symbol (reloc_ld\<lparr>lm := m'\<rparr>) 0 (ucast (ELF64_R_SYM (fst (snd (rela_at reloc_mem 0x100 k))))) sv =
        reloc_symbol reloc_ld 0 (ucast (ELF64_R_SYM (fst (snd (rela_at reloc_mem 0x100 k))))) sv"
      by (rule again [OF below [OF m'] k])
  qed
  have ok: "entry_ok reloc_ld 0 0x100 k" if "k < 2" for k
    using two [OF that] rd(1,2) symbol [of reloc_mem 0] by (auto simp: entry_ok_def d info ty l)
  have val: "abi_value reloc_ld 0 0x100 0 = Some 0x8010" "abi_value reloc_ld 0 0x100 1 = Some 0x8040"
    using rd by (simp_all add: abi_value_def d info ty find_sym_def dso_find_def)
  have apart: "reloc_slot reloc_ld 0 0x100 i + 8 \<le> reloc_slot reloc_ld 0 0x100 j \<or>
      reloc_slot reloc_ld 0 0x100 j + 8 \<le> reloc_slot reloc_ld 0 0x100 i" if "i < 2" "j < 2" "i \<noteq> j" for i j
    using two [OF that(1)] two [OF that(2)] that(3) slot by (elim disjE) simp_all
  have "\<exists>m'. do_relocs 0 0x100 (of_nat (24 * 2)) 3 0 reloc_ld = Some (reloc_ld\<lparr>lm := m'\<rparr>) \<and>
    (\<forall>k < 2. get64 (reloc_slot reloc_ld 0 0x100 k) m' =
       (case abi_value reloc_ld 0 0x100 k of None \<Rightarrow> get64 (reloc_slot reloc_ld 0 0x100 k) (lm reloc_ld) | Some v \<Rightarrow> v)) \<and>
    (\<forall>x. x \<notin> places reloc_ld 0 0x100 2 \<longrightarrow> m' x = lm reloc_ld x)"
    by (rule relocs_resolved; (rule ok same apart; assumption)?; simp?)
  then obtain m' where m: "do_relocs 0 0x100 (of_nat (24 * 2)) 3 0 reloc_ld = Some (reloc_ld\<lparr>lm := m'\<rparr>)"
    "\<forall>k < 2. get64 (reloc_slot reloc_ld 0 0x100 k) m' =
       (case abi_value reloc_ld 0 0x100 k of None \<Rightarrow> get64 (reloc_slot reloc_ld 0 0x100 k) (lm reloc_ld) | Some v \<Rightarrow> v)"
    by blast
  have "get64 0x8000 m' = 0x8010" "get64 0x8008 m' = 0x8040"
    using m(2) [rule_format, of 0] m(2) [rule_format, of 1] val slot by simp_all
  then show ?thesis using m(1) by (intro exI [of _ m']) simp
qed

subsection \<open>What the first library needs\<close>

text \<open>Mapping a library keeps its name and the end of the list.\<close>

lemma set_dynamic_name: "set_dynamic m v d = Some r \<Longrightarrow> dso_name r = dso_name d"
proof (induction arbitrary: rule: set_dynamic.raw_induct [rotated 1, consumes 1])
  case (1 go m v d r)
  show ?case
    using "1.hyps" "1.IH" [of m "v + 16" "dynamic_entry (rd64 m v) (rd64 m (v + 8)) d" r]
    by (auto simp: dynamic_entry_def split: if_splits)
qed

lemma upd_dso_frame [simp]:
  "tail (upd_dso d g L) = tail L" "dsos (upd_dso d g L) e = (if e = d then g (dsos L d) else dsos L e)" "lm (upd_dso d g L) = lm L"
  by (simp_all add: upd_dso_def)

lemma ld_mmap_frame: "ld_mmap L = Some (a, L') \<Longrightarrow> tail L' = tail L \<and> dsos L' = dsos L"
  by (auto simp: ld_mmap_def split: list.splits)

lemma map_bytes_frame [simp]: "tail (map_bytes v f n L) = tail L" "dsos (map_bytes v f n L) = dsos L"
  by (simp_all add: map_bytes_def)

lemma map_segment_frame: "map_segment v1 ph L = Some (v, fx, L') \<Longrightarrow> tail L' = tail L \<and> dsos L' = dsos L"
  by (auto simp: map_segment_def Let_def bind_eq_Some_conv dest: ld_mmap_frame split: if_splits)

lemma map_headers_frame:
  "map_headers n pos f v1 d fx L = Some (r, L') \<Longrightarrow> tail L' = tail L \<and> dso_name (dsos L' d) = dso_name (dsos L d)"
proof (induction n arbitrary: pos fx L)
  case (Suc n)
  have len: "\<not> length f < pos + 56" 
  proof
    assume "length f < pos + 56"
    then show False using Suc.prems by (simp only: map_headers.simps if_True option.distinct)
  qed
  let ?ph = "rd_phdr pos (file_mem f)"
  let ?first = "if p_type ?ph = PT_LOAD then do {
            (v, fx', L) \<leftarrow> map_segment v1 ?ph L;
            if v = MAP_FAILED then Some (False, fx, L)
            else Some (True, fx \<or> fx', upd_dso d (\<lambda>x. if base x = 0 then x\<lparr>base := v\<rparr> else x) L) }
          else Some (True, fx, L)"
  let ?dyn = "\<lambda>L. if p_type ?ph = PT_DYNAMIC
            then upd_dso d (\<lambda>x. if dynv x = 0 then x\<lparr>dynv := base x + p_offset ?ph\<rparr> else x) L else L"
  have "do { (ok, fx, L) \<leftarrow> ?first;
      if \<not> ok then Some (None, L) else map_headers n (pos + 56) f v1 d fx (?dyn L) } = Some (r, L')"
    using Suc.prems len by (simp only: map_headers.simps if_False Let_def)
  then obtain ok fx' L2 where st: "?first = Some (ok, fx', L2)"
      "(if \<not> ok then Some (None, L2) else map_headers n (pos + 56) f v1 d fx' (?dyn L2)) = Some (r, L')"
    by (cases ?first) auto
  have one: "tail L2 = tail L \<and> dso_name (dsos L2 d) = dso_name (dsos L d)"
  proof (cases "p_type ?ph = PT_LOAD")
    case True
    then obtain v fx2 L3 where "map_segment v1 ?ph L = Some (v, fx2, L3)"
      "L2 = L3 \<or> L2 = upd_dso d (\<lambda>x. if base x = 0 then x\<lparr>base := v\<rparr> else x) L3"
      using st(1) by (cases "map_segment v1 ?ph L") (auto split: if_splits)
    then show ?thesis using map_segment_frame by fastforce
  qed (use st(1) in simp)
  have dyn: "tail (?dyn L2) = tail L2 \<and> dso_name (dsos (?dyn L2) d) = dso_name (dsos L2 d)" by simp
  show ?case
  proof (cases ok)
    case True
    then show ?thesis using Suc.IH [of "pos + 56" fx' "?dyn L2"] st(2) one dyn by simp
  qed (use st(2) one in simp)
qed simp

lemma map_library_frame:
  assumes "map_library f d L = Some L'"
  shows "tail L' = tail L \<and> dso_name (dsos L' d) = dso_name (dsos L d)"
proof (cases "e_type (rd_ehdr 0 (file_mem f)) \<noteq> ET_DYN \<and> e_type (rd_ehdr 0 (file_mem f)) \<noteq> ET_EXEC")
  case True
  then show ?thesis using assms by (simp add: map_library_def Let_def split: if_splits)
next
  case False
  then obtain v1 L1 fixed L2 where m: "ld_mmap L = Some (v1, L1)"
      "map_headers (unat (e_phnum (rd_ehdr 0 (file_mem f)))) 64 f v1 d False (map_bytes v1 f (length f) L1) = Some (fixed, L2)"
      "(case fixed of None \<Rightarrow> Some L2
          | Some fixed \<Rightarrow> (let L = upd_dso d (\<lambda>x. x\<lparr>dso_entry := (if fixed then 0 else base x) + e_entry (rd_ehdr 0 (file_mem f))\<rparr>) L2 in
              if dynv (dsos L d) = 0 then Some L
              else do {
                x \<leftarrow> set_dynamic (lm L) (dynv (dsos L d)) (dsos L d);
                Some (upd_dso d (\<lambda>_. x) L) })) = Some L'"
    using assms by (auto simp: map_library_def Let_def bind_eq_Some_conv split: if_split_asm)
  have "tail L2 = tail L \<and> dso_name (dsos L2 d) = dso_name (dsos L d)"
    using map_headers_frame [OF m(2)] ld_mmap_frame [OF m(1)] by simp
  then show ?thesis
    using m(3) by (auto simp: Let_def bind_eq_Some_conv dest: set_dynamic_name split: option.splits if_splits)
qed

lemma find_loaded_self:
  "find_loaded ds s p = Some r \<Longrightarrow> p = Some i \<and> dso_next (ds i) = Some i \<and> z_strcmp s (dso_name (ds i)) \<noteq> 0 \<longrightarrow> False"
proof (induction rule: find_loaded.raw_induct [rotated 1, consumes 1])
  case (1 go ds s p r)
  then show ?case by (auto split: option.splits if_splits)
qed

text \<open>C40: The library that is loaded first, into \<open>HEAD\<close>, cannot need another: its
  \<open>next\<close> is itself when \<open>load_deps\<close> searches the list for the name of the first
  dependency, and the search never ends.\<close>

theorem first_dependency_hangs:
  assumes "tail L = 0" "files nm = Some f" "map_library f 0 (upd_dso 0 (\<lambda>x. x\<lparr>dso_name := nm\<rparr>) L) = Some L1"
    and "ndeps_direct (dsos L1 0) \<noteq> 0" "let tag = (\<lambda>j. rd64 (lm L1) (dynv (dsos L1 0) + 16 * of_nat j)) in
      (\<forall>j < i. tag j \<noteq> 0 \<and> tag j \<noteq> ucast DT_NEEDED) \<and> tag i = ucast DT_NEEDED"
    and "str_at (lm L1) (unat (strings (dsos L1 0) + rd64 (lm L1) (dynv (dsos L1 0) + 16 * of_nat i + 8))) = Some s"
      "z_strcmp s nm \<noteq> 0"
  shows "load files sv (Load nm (Some 0)) L = None"
proof -
  have fr: "tail L1 = 0" "dso_name (dsos L1 0) = nm" using map_library_frame [OF assms(3)] assms(1) by simp_all
  define M where "M = upd_dso 0 (\<lambda>x. x\<lparr>deps_index := push_bit 0 1\<rparr>)
    ((upd_dso (tail L1) (\<lambda>x. x\<lparr>dso_next := Some 0\<rparr>) L1)\<lparr>tail := 0\<rparr>)"
  have M: "lm M = lm L1" "strings (dsos M 0) = strings (dsos L1 0)" "dso_next (dsos M 0) = Some 0"
    "dso_name (dsos M 0) = nm" "ndeps_direct (dsos M 0) = ndeps_direct (dsos L1 0)" "dynv (dsos M 0) = dynv (dsos L1 0)"
    by (simp_all add: M_def fr)
  have "load files sv (Needed 0 (dynv (dsos L1 0) + 16 * of_nat j)) M = None" if "j \<le> i" for j
    using that
  proof (induction "i - j" arbitrary: j)
    case 0
    have "find_loaded (dsos M) s (Some 0) = None"
    proof (cases "find_loaded (dsos M) s (Some 0)")
      case (Some r)
      then show ?thesis using find_loaded_self [OF Some, of 0] M assms(7) by simp
    qed
    then show ?case
      using 0 assms(5,6) by (subst load.simps) (simp add: M Let_def DT_NEEDED_def)
  next
    case (Suc n)
    have "load files sv (Needed 0 (dynv (dsos L1 0) + 16 * of_nat (Suc j))) M = None"
      using Suc.hyps by (intro Suc.hyps(1)) auto
    then show ?case
      using Suc.hyps(2) assms(5) by (subst load.simps) (simp add: M Let_def algebra_simps)
  qed
  from this [of 0] show ?thesis
    using assms(2-4) M_def M(5,6) by (subst load.simps) (simp add: Let_def DSO_MAX_def)
qed

text \<open>A library with one loadable segment whose dynamic section names the library \<open>x\<close>.\<close>

definition dep_file :: "u8 list" where
  "dep_file = replicate 16 0 @ le16 3 @ replicate 38 0 @ le16 2 @ replicate 6 0
     @ le32 1 @ replicate 20 0 @ le64 0 @ replicate 24 0 @ le32 2 @ replicate 4 0 @ le64 0xb0 @ replicate 40 0
     @ le64 1 @ le64 0 @ le64 5 @ le64 0xe0 @ le64 0 @ le64 0 @ [0x78, 0]"

definition start_ld :: ld where
  "start_ld = \<lparr>lm = (\<lambda>_. 0), dsos = (\<lambda>_. no_dso), tail = 0, lmaps = [0x10000], page_size = 0x1000, DEB = False\<rparr>"

definition dep_dso :: dso where
  "dep_dso = no_dso\<lparr>base := 0x10000, dso_name := [0x61], dynv := 0x100b0, ndeps_direct := 1, strings := 0x100e0\<rparr>"

lemma length_dep_file: "length dep_file = 226"
  by (simp add: dep_file_def)

lemma dep_file_reads:
  "get16 (a + 16) (put_bytes a (dep_file @ r) m) = 3" "get16 (a + 0x38) (put_bytes a (dep_file @ r) m) = 2"
  "get32 (a + 64) (put_bytes a (dep_file @ r) m) = 1" "get64 (a + 88) (put_bytes a (dep_file @ r) m) = 0"
  "get32 (a + 120) (put_bytes a (dep_file @ r) m) = 2" "get64 (a + 128) (put_bytes a (dep_file @ r) m) = 0xb0"
  "get64 (a + 176) (put_bytes a (dep_file @ r) m) = 1" "get64 (a + 184) (put_bytes a (dep_file @ r) m) = 0"
  "get64 (a + 192) (put_bytes a (dep_file @ r) m) = 5" "get64 (a + 200) (put_bytes a (dep_file @ r) m) = 0xe0"
  "get64 (a + 208) (put_bytes a (dep_file @ r) m) = 0" "get_bytes (a + 224) 2 (put_bytes a (dep_file @ r) m) = [0x78, 0]"
  by (simp_all add: get_put_bytes_in length_dep_file get_bytes_put_bytes_in) (simp_all add: dep_file_def)

lemma dep_file_mapped:
  "\<exists>L1. map_library dep_file 0 (upd_dso 0 (\<lambda>x. x\<lparr>dso_name := [0x61]\<rparr>) start_ld) = Some L1 \<and>
     (\<exists>e. dsos L1 0 = dep_dso\<lparr>dso_entry := e\<rparr>) \<and> (\<exists>r. lm L1 = put_bytes 0x10000 (dep_file @ r) (\<lambda>_. 0))"
proof -
  let ?r = "replicate (pages 226 - 226) 0"
  let ?m = "put_bytes 0x10000 (dep_file @ ?r) (\<lambda>_. 0)"
  note rd0 = dep_file_reads [of 0 "[]" "\<lambda>_. 0", simplified]
  note rd1 = dep_file_reads [of "0x10000" ?r "\<lambda>_. 0", simplified]
  have eh: "e_type (rd_ehdr 0 (file_mem dep_file)) = ET_DYN" "e_phnum (rd_ehdr 0 (file_mem dep_file)) = 2"
    using rd0 by (simp_all add: rd_ehdr_def file_mem_def ElfTypes.ET_DYN_def)
  have ph: "p_type (rd_phdr 64 (file_mem dep_file)) = PT_LOAD" "p_paddr (rd_phdr 64 (file_mem dep_file)) = 0"
    "p_type (rd_phdr 120 (file_mem dep_file)) = PT_DYNAMIC" "p_offset (rd_phdr 120 (file_mem dep_file)) = 0xb0"
    using rd0 by (simp_all add: rd_phdr_def file_mem_def PT_LOAD_def PT_DYNAMIC_def)
  have dyn: "set_dynamic ?m 0x100b0 d = Some (d\<lparr>ndeps_direct := ndeps_direct d + 1, strings := base d + 0xe0\<rparr>)" for d
    using rd1 by (subst set_dynamic.simps, simp add: dynamic_entry_def DT_defs)+
  have seg: "map_segment v (rd_phdr 64 (file_mem dep_file)) L = Some (v, False, L)" for v L
    by (simp add: map_segment_def ph)
  have heads: "map_headers (Suc (Suc 0)) 64 dep_file 0x10000 0 False L =
      Some (Some False, upd_dso 0 (\<lambda>x. if dynv x = 0 then x\<lparr>dynv := base x + 0xb0\<rparr> else x)
        (upd_dso 0 (\<lambda>x. if base x = 0 then x\<lparr>base := 0x10000\<rparr> else x) L))" for L
    by (simp add: seg ph length_dep_file MAP_FAILED_def PT_LOAD_def PT_DYNAMIC_def cong: if_cong)
  have n: "unat (e_phnum (rd_ehdr 0 (file_mem dep_file))) = Suc (Suc 0)" by (simp add: eh)
  show ?thesis
    by (simp add: n map_library_def length_dep_file eh(1) Let_def ld_mmap_def start_ld_def heads dyn map_bytes_def MAP_FAILED_def
        no_dso_def dep_dso_def upd_dso_def del: map_headers.simps)
      (rule exI, rule refl)
qed

lemma first_dependency_hangs_witness:
  "load (\<lambda>nm. if nm = [0x61] then Some dep_file else None) 0 (Load [0x61] (Some 0)) start_ld = None"
proof -
  obtain L1 e r where L1: "map_library dep_file 0 (upd_dso 0 (\<lambda>x. x\<lparr>dso_name := [0x61]\<rparr>) start_ld) = Some L1"
    "dsos L1 0 = dep_dso\<lparr>dso_entry := e\<rparr>" "lm L1 = put_bytes 0x10000 (dep_file @ r) (\<lambda>_. 0)"
    using dep_file_mapped by blast
  note rd = dep_file_reads [of "0x10000" r "\<lambda>_. 0", simplified]
  have d: "dynv (dsos L1 0) = 0x100b0" "strings (dsos L1 0) = 0x100e0" "ndeps_direct (dsos L1 0) \<noteq> 0"
    by (simp_all add: L1(2) dep_dso_def)
  have "str_at (put_bytes 0x10000 (dep_file @ r) (\<lambda>_. 0)) 0x100e0 = Some [0x78]"
    using rd(12) str_at_bytes [of "0x100e0" "[0x78]"] by (simp flip: numeral_2_eq_2)
  then show ?thesis
    using first_dependency_hangs [of start_ld _ "[0x61]" dep_file L1 0 "[0x78]" 0] L1(1,3) d rd(7,8)
    by (simp add: DT_NEEDED_def start_ld_def)
qed

end
