(* ===== verification/PeLoad.thy ===== *)
theory PeLoad
  imports ObjFormat PeTypes CString "HOL-Library.Monad_Syntax"
begin

text \<open>
  \<open>core/objectfile/coff_pe/__read_pe.c\<close>: \<open>__z__obj__load_pe\<close>, which maps a PE image and
  prints the names it exports.  The headers are read through a mapping of the first page of
  the file: what is behind it is not there (\<open>None\<close>).  The address \<open>alloc_vaddress\<close> gets from \<open>mmap\<close>
  is a function of the address and the size it asks for.  The loop over the section
  headers, which is assembly code (\<open>read_coff.asm\<close>), calls \<open>alloc_each_section\<close> for each.
\<close>

type_synonym pe_mmap = "u64 \<Rightarrow> u32 \<Rightarrow> u64"

text \<open>What the caller is told, and the \<open>dso\<close>.\<close>

record pe_info =
  image_base :: u64
  this_image_base :: u64
  base_of_code :: u32
  size_of_code :: u32

definition file_page :: "u8 list \<Rightarrow> mem" where "file_page f = put_bytes 0 f (\<lambda>_. 0)"

definition opt_magic_ok :: "u16 \<Rightarrow> bool" where "opt_magic_ok w \<longleftrightarrow> w = 0x10b \<or> w = 0x20b"

text \<open>Both header widths are read as the 32-bit one, whose \<open>ImageBase\<close> is at 28 and whose
  \<open>SizeOfImage\<close> is at 56.\<close>

definition read_nt_header :: "pe_mmap \<Rightarrow> nat \<Rightarrow> mem \<Rightarrow> u64 option" where
  "read_nt_header mm opt pg =
     (if opt_magic_ok (get16 opt pg) then Some (mm (ucast (get32 (opt + 28) pg)) (get32 (opt + 56) pg)) else None)"

text \<open>A size that is negative as an \<open>int\<close> makes the read fail.\<close>

definition alloc_each_section :: "u8 list \<Rightarrow> u64 \<Rightarrow> IMAGE_SECTION_HEADER \<Rightarrow> mem \<Rightarrow> mem" where
  "alloc_each_section f b isec m =
     (let sz = SizeOfRawData isec in
      if sz = 0 \<or> sint sz < 0 then m
      else put_bytes (unat (b + ucast (VirtualAddress isec))) (take (unat sz) (drop (unat (PointerToRawData isec)) f)) m)"

definition run_through_coff_shdr :: "(IMAGE_SECTION_HEADER \<Rightarrow> mem \<Rightarrow> mem) \<Rightarrow> nat \<Rightarrow> mem \<Rightarrow> mem \<Rightarrow> mem" where
  "run_through_coff_shdr g ifh pg m =
     (let h = rd_ifh ifh pg; sh = ifh + 20 + unat (SizeOfOptionalHeader h)
      in fold (\<lambda>k. g (rd_ish (sh + 40 * k) pg)) [0..<unat (NumberOfSections h)] m)"

text \<open>The end of the headers that are read: two directory entries, and the section
  headers.\<close>

definition headers_end :: "nat \<Rightarrow> mem \<Rightarrow> nat" where
  "headers_end ifh pg = ifh + 20 + max (if get16 (ifh + 20) pg = 0x20b then 128 else 112)
     (unat (SizeOfOptionalHeader (rd_ifh ifh pg)) + 40 * unat (NumberOfSections (rd_ifh ifh pg)))"

text \<open>Everything up to the exports: the image is mapped, and its sections are read.  A
  wrong signature is only reported.\<close>

definition load_image :: "pe_mmap \<Rightarrow> OBJECT_FORMAT \<Rightarrow> u8 list \<Rightarrow> mem \<Rightarrow> (pe_info \<times> mem) option" where
  "load_image mm format f m =
     (let pg = file_page f; lfanew = unat (ucast (get32 0x3c pg) :: u16); ifh = lfanew + 4; opt = ifh + 20 in
      if 0x1000 < headers_end ifh pg then None
      else do {
        v \<leftarrow> read_nt_header mm opt pg;
        if v = - 1 then None
        else Some
          (\<lparr>image_base = (if format = PE64 then get64 (opt + 24) pg else ucast (get32 (opt + 28) pg)), this_image_base = v,
            base_of_code = get32 (opt + 20) pg, size_of_code = get32 (opt + 4) pg\<rparr>,
           run_through_coff_shdr (alloc_each_section f v) ifh pg m) })"

text \<open>The names of the export directory are written one after the other.\<close>

fun export_names :: "u64 \<Rightarrow> mem \<Rightarrow> u64 \<Rightarrow> nat \<Rightarrow> cstr list option" where
  "export_names b m a 0 = Some []"
| "export_names b m a (Suc n) = do {
     s \<leftarrow> str_at m (unat (b + ucast (get32 (unat a) m)));
     ss \<leftarrow> export_names b m (a + 4) n;
     Some (s # ss) }"

definition do_image_directory_export :: "u32 \<Rightarrow> u64 \<Rightarrow> mem \<Rightarrow> cstr list option" where
  "do_image_directory_export va b m =
     (let ied = unat (b + ucast va) in
      export_names b m (b + ucast (get32 (ied + 32) m)) (unat (get32 (ied + 24) m)))"

text \<open>The result is the address of the entry, or 0.\<close>

definition load_pe :: "pe_mmap \<Rightarrow> mem \<Rightarrow> (cstr \<Rightarrow> u8 list option) \<Rightarrow> cstr \<Rightarrow> mem \<Rightarrow> (u64 \<times> (pe_info \<times> mem \<times> cstr list) option) option" where
  "load_pe mm junk files name m =
     (case files name of None \<Rightarrow> Some (0, None)
      | Some f \<Rightarrow> do {
          (format, _) \<leftarrow> detect_format junk False f;
          if format \<noteq> PE32 \<and> format \<noteq> PE64 then Some (0, None)
          else do {
            let pg = file_page f;
            let opt = unat (ucast (get32 0x3c pg) :: u16) + 24;
            let opt2 = (if get16 opt pg = 0x20b then opt + 0x10 else opt);
            (info, m) \<leftarrow> load_image mm format f m;
            names \<leftarrow> do_image_directory_export (get32 (opt2 + 0x60) pg) (this_image_base info) m;
            Some (this_image_base info + ucast (get32 (opt + 0x10) pg), Some (info, m, names)) } })"

end
