(* ===== verification/PeRoundtrip.thy ===== *)
theory PeRoundtrip
  imports PeLoad CoffEmit
begin

text \<open>
  The image the COFF linker writes (\<open>CoffEmit\<close>) as the format detection (\<open>ObjFormat\<close>) and
  the PE loader (\<open>PeLoad\<close>) of the repository read it.
\<close>

lemma file_page_get_bytes: "file_page (get_bytes 0 n m) x = (if x < n then m x else 0)"
  by (simp add: file_page_def put_bytes_apply get_bytes_def)

text \<open>A word that is read from the file is the word of the page.\<close>

lemma read_words:
  "a + 2 \<le> length f \<Longrightarrow> get16 0 (put_bytes 0 (take 2 (drop a f)) j) = get16 a (file_page f)"
  "a + 4 \<le> length f \<Longrightarrow> get32 0 (put_bytes 0 (take 4 (drop a f)) j) = get32 a (file_page f)"
  using get_put_bytes_in(1) [of a f 0 "\<lambda>_. 0"] get_put_bytes_in(2) [of a f 0 "\<lambda>_. 0"]
    get_put_bytes_in(1) [of 0 "take 2 (drop a f)" 0 j] get_put_bytes_in(2) [of 0 "take 4 (drop a f)" 0 j]
  by (simp_all add: file_page_def)

lemma low_parts: "(ucast (get16 a m) :: u8) = m a" "(ucast (get32 a m) :: u16) = get16 a m"
  by (rule bit_word_eqI; auto simp: get16_def get32_def get_bytes_def of_le16_def of_le32_def bit_simps upt_conv_Cons)+

lemma detect_pe:
  assumes "0x60 \<le> length f" "get16 0 (file_page f) = 0x5a4d" "get32 0x3c (file_page f) = 0x40"
    "get32 0x40 (file_page f) = 0x4550" "get16 0x44 (file_page f) = (if w32 then 0x14c else 0x8664)"
  shows "detect_format junk False f = Some (if w32 then ObjFormat.PE32 else PE64, None)"
proof -
  let ?p = "put_bytes 0 (take 4 f) (\<lambda>_. 0)"
  have z: "get16 0 ?p = 0x5a4d"
  proof -
    have "get16 0 ?p = get16 0 (file_page f)"
      using assms(1) by (intro get_cong) (auto simp: file_page_def put_bytes_apply)
    then show ?thesis using assms(2) by simp
  qed
  have elf: "?p 0 \<noteq> 0x7f" using low_parts(1) [of 0 ?p] z by simp
  have mac: "get32 0 ?p \<noteq> MH_MAGIC" "get32 0 ?p \<noteq> MH_MAGIC_64"
    using low_parts(2) [of 0 ?p] z by (auto simp: MH_MAGIC_def MH_MAGIC_64_def)
  have l: "length f \<noteq> 0" "min (length f) 4 = 4" "\<not> length f \<le> 0x3c" "\<not> length f \<le> 0x40" "\<not> length f \<le> 0x44" "\<not> length f \<le> 0x46"
    using assms(1) by auto
  note rd = read_words(2) [of "0x3c" f junk] read_words(2) [of "0x40" f junk] read_words(1) [of "0x44" f junk]
  show ?thesis
    using assms rd l elf mac z by (simp add: detect_format_def os_read_def os_seek_def check_elf_def check_macho_def check_pe_def Let_def)
qed

text \<open>The file of the image: nothing stands behind the data, and the optional header stands
  at 88.\<close>

lemma pe_file_parts:
  assumes "length opt = optional_size c"
  shows "0x200 + length data \<le> x \<Longrightarrow> pe_file c opt n data x = 0"
    "x < optional_size c \<Longrightarrow> pe_file c opt n data (88 + x) = opt ! x"
proof -
  note len = assms(1) length_a_section layout_simps
  have os: "optional_size c \<le> 240" by (simp add: optional_size_def)
  show "pe_file c opt n data x = 0" if "0x200 + length data \<le> x"
    using that os by (simp add: pe_file_def put_bytes_apply len)
  show "pe_file c opt n data (88 + x) = opt ! x" if "x < optional_size c"
    using that os by (simp add: pe_file_def put_bytes_apply len)
qed

lemma optional_words:
  "get16 0 (optional_header h c) = (if file_format c = CoffEmit.PE32 then 0x10b else 0x20b)"
  "get32 16 (optional_header h c) = (if entry_address c \<noteq> 0 then ucast (entry_address c) else 0x1000)"
  "get32 28 (optional_header h c) = (if file_format c = CoffEmit.PE32 then 0 else ucast (drop_bit 32 (scast (base_address c) :: u64)))"
  "get32 56 (optional_header h c) = (out_size c + 0x1fff) AND - 0x1000"
proof -
  have hi: "get32 28 (put64 24 w m) = ucast (drop_bit 32 w)" for w m
    using get_put_bytes_in(2) [of 4 "le64 w" 24 m] by (simp add: put64_def le64_def)
  show "get16 0 (optional_header h c) = (if file_format c = CoffEmit.PE32 then 0x10b else 0x20b)"
    by (simp add: optional_header_def Let_def mem_simps del: put_bytes.simps)
  show "get32 16 (optional_header h c) = (if entry_address c \<noteq> 0 then ucast (entry_address c) else 0x1000)"
    by (simp add: optional_header_def Let_def mem_simps del: put_bytes.simps)
  show "get32 28 (optional_header h c) = (if file_format c = CoffEmit.PE32 then 0 else ucast (drop_bit 32 (scast (base_address c) :: u64)))"
    by (simp add: optional_header_def Let_def mem_simps hi del: put_bytes.simps)
  show "get32 56 (optional_header h c) = (out_size c + 0x1fff) AND - 0x1000"
    by (simp add: optional_header_def Let_def mem_simps SECTION_ALIGNMENT_def del: put_bytes.simps)
qed

text \<open>Reading the one section of such an image puts as many bytes of the data behind the
  headers at its address as its header says; nothing else changes.\<close>

lemma section_loaded:
  assumes "SizeOfRawData h = sz" "unat sz < 2 ^ 31" "PointerToRawData h = 0x200"
    "VirtualAddress h = 0x1000" "drop 0x200 f = data" "unat v + 0x1000 + length data < 2 ^ 64"
  shows "k + j \<le> min (unat sz) (length data) \<Longrightarrow>
      get_bytes (unat v + 0x1000 + k) j (alloc_each_section f v h m) = take j (drop k data)"
    "a < unat v + 0x1000 \<or> unat v + 0x1000 + unat sz \<le> a \<Longrightarrow> alloc_each_section f v h m a = m a"
proof -
  have "sint sz = int (unat sz)" using sint_word_of_nat_small [OF assms(2)] by simp
  moreover have "unat (v + 0x1000) = unat v + 0x1000" using assms(6) by (subst unat_plus_if') simp
  ultimately have e: "alloc_each_section f v h m = put_bytes (unat v + 0x1000) (take (unat sz) data) m"
    using assms(1,3-5) by (cases "sz = 0") (simp_all add: alloc_each_section_def Let_def)
  show "get_bytes (unat v + 0x1000 + k) j (alloc_each_section f v h m) = take j (drop k data)"
    if "k + j \<le> min (unat sz) (length data)"
  proof -
    have "take j (drop k (take (unat sz) data)) = take j (drop k data)" using that by (auto simp: drop_take intro: arg_cong [where f = "\<lambda>n. take n (drop k data)"])
    then show ?thesis
      unfolding e using get_bytes_put_bytes_in [of k j "take (unat sz) data" "unat v + 0x1000" m] that by simp
  qed
  show "alloc_each_section f v h m a = m a" if "a < unat v + 0x1000 \<or> unat v + 0x1000 + unat sz \<le> a"
    unfolding e using that by (auto simp: put_bytes_apply)
qed

text \<open>The address of the image: \<open>mmap\<close> is asked for the upper half of the base of a
  64-bit image, and for 0 for a 32-bit one.\<close>

definition pe_hint :: "coff \<Rightarrow> u64" where
  "pe_hint c = (if file_format (pconf c) = CoffEmit.PE32 then 0
     else ucast (ucast (drop_bit 32 (scast (base_address (pconf c)) :: u64)) :: u32))"

definition pe_address :: "pe_mmap \<Rightarrow> coff \<Rightarrow> u32 \<Rightarrow> u64" where
  "pe_address mm c n = mm (pe_hint c) ((n + 0x1fff) AND - 0x1000)"

text \<open>What \<open>load_image\<close> reads in the headers of such an image.\<close>

lemma load_image_pe:
  fixes mm :: pe_mmap and f data opt :: "u8 list" and c :: coff and n :: u32
  assumes f: "f = get_bytes 0 (0x200 + length data) (pe_file c opt n data)" and opt: "length opt = optional_size c"
      "header_start (size_state c n 0x200) opt"
    and "outfile_type (pconf c) = PE_EXEC \<or> outfile_type (pconf c) = PE_DLL"
  defines "w32 \<equiv> file_format (pconf c) = CoffEmit.PE32"
  defines "v \<equiv> pe_address mm c n"
  assumes v: "v \<noteq> - 1"
  shows "detect_format junk False f = Some (if w32 then ObjFormat.PE32 else PE64, None)"
    "\<exists>info. load_image mm fmt f m = Some (info, alloc_each_section f v (a_section (size_state c n 0x200)) m) \<and> this_image_base info = v"
    "get32 104 (file_page f) = (if entry_address (pconf c) \<noteq> 0 then ucast (entry_address (pconf c)) else 0x1000)"
    "file_page f = pe_file c opt n data" "get32 0x3c (file_page f) = 0x40"
    "get16 88 (file_page f) = (if w32 then 0x10b else 0x20b)"
proof -
  show page: "file_page f = pe_file c opt n data"
    using pe_file_parts(1) [OF opt(1)] by (auto simp: f file_page_get_bytes fun_eq_iff)
  note heads = pe_file_heads [OF opt(1) assms(4), of n data, folded page]
  show "get32 0x3c (file_page f) = 0x40" by (rule heads(2))
  have w: "get16 0x44 (file_page f) = (if w32 then 0x14c else 0x8664)"
    using heads(4) by (simp add: rd_ifh_def image_file_header_def Let_def w32_def split: if_splits)
  show "detect_format junk False f = Some (if w32 then ObjFormat.PE32 else PE64, None)"
    using heads(1-3) w by (intro detect_pe) (simp_all add: f)
  have byte: "file_page f (88 + x) = optional_header 0x200 (pconf (size_state c n 0x200)) x" if "x < 0x60" for x
    using opt(2) that pe_file_parts(2) [OF opt(1), of x n data] by (simp add: header_start_def optional_size_def page)
  let ?oh = "optional_header 0x200 (pconf (size_state c n 0x200))"
  have at: "get32 (88 + x) (file_page f) = get32 x ?oh" if "x + 4 \<le> 0x60" for x
  proof -
    have "get_bytes (88 + x) 4 (file_page f) = get_bytes x 4 ?oh"
      using byte that by (auto simp: get_bytes_def list_eq_iff_nth_eq add.assoc)
    then show ?thesis by (simp add: get32_def)
  qed
  have "get_bytes 88 2 (file_page f) = get_bytes 0 2 ?oh"
    using byte [of 0] byte [of 1] by (simp add: get_bytes_def upt_conv_Cons)
  then show o16: "get16 88 (file_page f) = (if w32 then 0x10b else 0x20b)"
    using optional_words(1) [of "0x200" "pconf (size_state c n 0x200)"] by (simp add: get16_def w32_def)
  have o28: "get32 116 (file_page f) = (if w32 then 0 else ucast (drop_bit 32 (scast (base_address (pconf c)) :: u64)))"
    using at [of 28] optional_words(3) [of "0x200" "pconf (size_state c n 0x200)"] by (simp add: w32_def)
  have o56: "get32 144 (file_page f) = (n + 0x1fff) AND - 0x1000"
    using at [of 56] optional_words(4) [of "0x200" "pconf (size_state c n 0x200)"] by simp
  show "get32 104 (file_page f) = (if entry_address (pconf c) \<noteq> 0 then ucast (entry_address (pconf c)) else 0x1000)"
    using at [of 16] optional_words(2) [of "0x200" "pconf (size_state c n 0x200)"] by simp
  show "\<exists>info. load_image mm fmt f m = Some (info, alloc_each_section f v (a_section (size_state c n 0x200)) m) \<and> this_image_base info = v"
  proof -
    have v0: "mm (ucast (get32 116 (file_page f))) (get32 144 (file_page f)) = v" by (simp add: o28 o56 v_def pe_address_def pe_hint_def w32_def)
    have nt: "read_nt_header mm 88 (file_page f) = Some v"
      using o16 v0 by (simp add: read_nt_header_def opt_magic_ok_def)
    have s: "NumberOfSections (rd_ifh 68 (file_page f)) = 1" "unat (SizeOfOptionalHeader (rd_ifh 68 (file_page f))) = optional_size c"
      using heads(4) assms(4) by (auto simp: image_file_header_def optional_size_def Let_def)
    have st: "rd_ish (88 + optional_size c) (file_page f) = a_section (size_state c n 0x200)"
      using heads(5,6) by simp
    have run: "run_through_coff_shdr (alloc_each_section f v) 68 (file_page f) m =
        alloc_each_section f v (a_section (size_state c n 0x200)) m"
      using s st by (simp add: run_through_coff_shdr_def Let_def)
    have "headers_end 68 (file_page f) \<le> 0x1000"
      using s by (simp add: headers_end_def optional_size_def)
    then show ?thesis
      using nt v run heads(2) by (simp add: load_image_def Let_def)
  qed
qed

text \<open>A section that stands behind the sections \<open>pre\<close> in the image, and was placed there.\<close>

definition placed :: "coff \<Rightarrow> nat list \<Rightarrow> nat list \<Rightarrow> nat \<Rightarrow> bool" where
  "placed c U pre x \<longleftrightarrow> (\<exists>post. U = pre @ x # post) \<and>
     unat (sch_vaddr (schs (lks c) x)) = 0x1000 + sum_list (map (raw_size c) pre)"

definition pe_entry :: "coff \<Rightarrow> u64" where
  "pe_entry c = (if entry_address (pconf c) \<noteq> 0 then ucast (ucast (entry_address (pconf c)) :: u32) else 0x1000)"

definition export_entry :: "coff \<Rightarrow> u8 list \<Rightarrow> u32" where
  "export_entry c f = get32 (if file_format (pconf c) = CoffEmit.PE32 then 184 else 200) (file_page f)"

definition names_count :: "u64 \<Rightarrow> u32 \<Rightarrow> mem \<Rightarrow> u32" where
  "names_count v va m = get32 (unat (v + ucast va) + 24) m"

text \<open>C36: What the COFF linker writes, the PE loader loads, as far as the section header
  reaches: its size \<open>N\<close> is the sum of the sizes of the containers, and \<open>.plt\<close> and
  \<open>.idata\<close> are added without one.  The file \<open>gen_pe\<close> writes is detected as a PE image;
  in the memory \<open>m'\<close> that \<open>__z__obj__load_pe\<close> leaves, the data of every section that was
  placed behind the sections before it and ends within the \<open>N\<close> bytes is at its virtual
  address, counted from where \<open>mmap\<close> puts the image (which is asked for the wrong half
  of the image base), and memory outside of the \<open>N\<close> bytes is not changed.
  The loader then prints the exported names: it returns the entry of the image if
  their pointers lead to strings, in particular if there are none.\<close>

theorem linked_image_loads:
  fixes c ks ss and mm :: pe_mmap
  defines "U \<equiv> concat (map ss ks)"
  defines "tot \<equiv> sum_list (map (raw_size c) U)" and "N \<equiv> unat (container_sizes c ks)"
  defines "v \<equiv> pe_address mm c (container_sizes c ks + 0x200)"
  assumes "opath (next_scon (lks c)) (initial_section (pconf c)) ks" "\<forall>k \<in> set ks. pe_container c k (ss k) (ts k)"
    and "out_size (pconf c) = 0" "header_size c = 0" "shdr_num (pconf c) = 1"
    and "outfile_type (pconf c) = PE_EXEC \<or> outfile_type (pconf c) = PE_DLL"
    and "N < 2 ^ 31" "unat v + 0x1000 + tot < 2 ^ 64"
  shows "\<exists>e'. gen_pe c = Some e' \<and>
    (\<forall>junk files nm m. let f = get_bytes 0 (0x200 + tot) (pfile e') in files nm = Some f \<longrightarrow>
      (\<exists>info m'. this_image_base info = v \<and>
        (\<forall>pre x. placed c U pre x \<longrightarrow> sum_list (map (raw_size c) pre) + raw_size c x \<le> N \<longrightarrow>
           get_bytes (unat v + unat (sch_vaddr (schs (lks c) x))) (raw_size c x) m' = raw_data c x) \<and>
        (\<forall>a. a < unat v + 0x1000 \<or> unat v + 0x1000 + N \<le> a \<longrightarrow> m' a = m a) \<and>
        load_pe mm junk files nm m = map_option (\<lambda>names. (v + pe_entry c, Some (info, m', names)))
          (do_image_directory_export (export_entry c f) v m') \<and>
        (names_count v (export_entry c f) m' = 0 \<longrightarrow>
           load_pe mm junk files nm m = Some (v + pe_entry c, Some (info, m', [])))))"
proof -
  let ?data = "concat (map (raw_data c) U)" and ?n = "container_sizes c ks + 0x200"
  obtain e' opt where e': "gen_pe c = Some e'" "length opt = optional_size c" "header_start (size_state c ?n 0x200) opt"
    "pfile e' = pe_file c opt ?n ?data"
    using gen_pe_eq [OF assms(5) _ assms(7-9)] assms(6) unfolding U_def by blast
  have len: "length (concat (map (raw_data c) xs)) = sum_list (map (raw_size c) xs)" for xs
    by (induction xs) (simp_all add: raw_data_def)
  define f where "f = get_bytes 0 (0x200 + tot) (pfile e')"
  have f: "f = get_bytes 0 (0x200 + length ?data) (pe_file c opt ?n ?data)"
    by (simp add: f_def e'(4) len tot_def)
  have v: "v \<noteq> - 1"
  proof -
    have "unat (- 1 :: u64) = 2 ^ 64 - 1" by (simp add: unsigned_minus_1_eq_mask mask_eq_exp_minus_1)
    then show "v \<noteq> - 1" using assms(12) by auto
  qed
  note li = load_image_pe [OF f e'(2,3) assms(10), of mm, folded v_def, OF v]
  let ?h = "a_section (size_state c ?n 0x200)"
  have "get_bytes 0x200 (length ?data) (pfile e') = ?data" unfolding e'(4) pe_file_def by (rule get_put_bytes)
  then have drop: "drop 0x200 f = ?data" by (simp add: f_def drop_get_bytes len tot_def)
  have h: "SizeOfRawData ?h = container_sizes c ks" "PointerToRawData ?h = 0x200" "VirtualAddress ?h = 0x1000"
    by (simp_all add: a_section_def)
  have room: "unat v + 0x1000 + length ?data < 2 ^ 64" using assms(12) by (simp add: len tot_def)
  note sec = section_loaded [OF h(1) assms(11) [unfolded N_def] h(2,3) drop room, folded N_def]
  have data: "get_bytes (unat v + unat (sch_vaddr (schs (lks c) x))) (raw_size c x) (alloc_each_section f v ?h m) = raw_data c x"
    if x: "placed c U pre x" "sum_list (map (raw_size c) pre) + raw_size c x \<le> N" for pre x m
  proof -
    obtain post where U: "U = pre @ x # post" and a: "unat (sch_vaddr (schs (lks c) x)) = 0x1000 + sum_list (map (raw_size c) pre)"
      using x(1) by (auto simp: placed_def)
    have "take (raw_size c x) (drop (sum_list (map (raw_size c) pre)) ?data) = raw_data c x"
      using U len [of pre] by (simp add: raw_data_def)
    moreover have "sum_list (map (raw_size c) pre) + raw_size c x \<le> min N (length ?data)"
      using U len [of pre] x(2) by (simp add: raw_data_def)
    ultimately show ?thesis using sec(1) [of "sum_list (map (raw_size c) pre)" "raw_size c x" m] by (simp add: a add.assoc)
  qed
  have "\<exists>info m'. this_image_base info = v \<and>
        (\<forall>pre x. placed c U pre x \<longrightarrow> sum_list (map (raw_size c) pre) + raw_size c x \<le> N \<longrightarrow>
           get_bytes (unat v + unat (sch_vaddr (schs (lks c) x))) (raw_size c x) m' = raw_data c x) \<and>
        (\<forall>a. a < unat v + 0x1000 \<or> unat v + 0x1000 + N \<le> a \<longrightarrow> m' a = m a) \<and>
        load_pe mm junk files nm m = map_option (\<lambda>names. (v + pe_entry c, Some (info, m', names)))
          (do_image_directory_export (export_entry c f) v m') \<and>
        (names_count v (export_entry c f) m' = 0 \<longrightarrow>
           load_pe mm junk files nm m = Some (v + pe_entry c, Some (info, m', [])))"
    if "files nm = Some f" for junk files nm m
  proof -
    let ?fmt = "if file_format (pconf c) = CoffEmit.PE32 then ObjFormat.PE32 else PE64" and ?m = "alloc_each_section f v ?h m"
    obtain info where i: "load_image mm ?fmt f m = Some (info, ?m)" "this_image_base info = v"
      using li(2) by blast
    have run: "load_pe mm junk files nm m = map_option (\<lambda>names. (v + pe_entry c, Some (info, ?m, names)))
            (do_image_directory_export (export_entry c f) v ?m)"
      using that i li(1) [of junk] li(3,5,6) unfolding pe_entry_def export_entry_def
      by (cases "file_format (pconf c) = CoffEmit.PE32"; cases "do_image_directory_export
          (get32 (if file_format (pconf c) = CoffEmit.PE32 then 184 else 200) (file_page f)) v ?m")
         (simp_all add: load_pe_def)
    moreover have "do_image_directory_export (export_entry c f) v ?m = Some []" if "names_count v (export_entry c f) ?m = 0"
      using that by (simp add: do_image_directory_export_def Let_def names_count_def)
    ultimately show ?thesis using i(2) data sec(2) by (intro exI [of _ info] exI [of _ ?m]) simp
  qed
  then show ?thesis using e'(1) unfolding Let_def f_def by blast
qed

lemma coff1_no_directories:
  "set_image_directory_entry d (size_state coff1 n h) oh = Some oh"
proof -
  let ?c = "size_state coff1 n h"
  have m: "cmem coff1 = put_bytes 0x4000 [7, 8] (put32 0x3010 2 (put_bytes 0x3000 [0x2e] (\<lambda>_. 0)))"
    by (simp add: coff1_def cmem_def)
  have "cmem coff1 0x3000 = 0x2e" "cmem coff1 0x3001 = 0"
    unfolding m by (simp_all add: put_bytes_apply put_apply_other del: put_bytes.simps)
  then have nm: "str_at (cmem coff1) 0x3000 = Some [0x2e]" by (intro str_at_bytes) (simp_all add: get_bytes_def)
  have p: "sch_p (schs (lks coff1) t) = 0x3000" for t by (simp add: coff1_def)
  have s: "section_directory d ?c t oh = Some oh" for t
    by (simp add: section_directory_def p nm Let_def ascii_def)
  have "\<forall>k \<in> set [0]. pe_container ?c k [0] [0]" using coff1_parts(4) by simp
  then have "\<exists>oh'. iter (\<lambda>_. this_sch (lks ?c)) (section_directory d ?c) (scon_this (scons (lks ?c) k)) oh = Some oh' \<and> oh' = oh"
    if "k \<in> set [0]" for k
    using that s by (intro iter_invariant [of _ _ "[0]"]) (auto simp: pe_container_def)
  moreover have "opath (next_scon (lks ?c)) (initial_section (pconf ?c)) [0]" using coff1_parts(3) by simp
  ultimately have "\<exists>oh'. set_image_directory_entry d ?c oh = Some oh' \<and> oh' = oh"
    unfolding set_image_directory_entry_def by (elim iter_invariant [where P = "\<lambda>s. s = oh"]) auto
  then show ?thesis by simp
qed

lemma four_bytes: "get_bytes a 4 m = [m a, m (a + 1), m (a + 2), m (a + 3)]"
  by (simp add: get_bytes_def upt_conv_Cons numeral_3_eq_3)

lemma get32_no_bytes: "get32 a (\<lambda>_. 0) = 0"
  by (simp add: get32_def four_bytes of_le32_def)

lemma coff1_exports:
  assumes "gen_pe coff1 = Some e'"
  shows "export_entry coff1 (get_bytes 0 0x202 (pfile e')) = 0"
proof -
  have w: "file_format (pconf coff1) \<noteq> CoffEmit.PE32"
    by (simp add: coff1_def pconf_def CoffEmit.PE32_def)
  have "\<And>k. k \<in> set [0] \<Longrightarrow> pe_container coff1 k [0] [0]" using coff1_parts(4) by blast
  from gen_pe_eq [OF coff1_parts(3) this coff1_parts(7-9)] obtain opt where opt: "length opt = optional_size coff1"
    "directories_of (size_state coff1 (container_sizes coff1 [0] + 0x200) 0x200) opt"
    "pfile e' = pe_file coff1 opt (container_sizes coff1 [0] + 0x200) [7, 8]"
    using assms by (auto simp: coff1_parts)
  let ?oh = "optional_header 0x200 (pconf (size_state coff1 (container_sizes coff1 [0] + 0x200) 0x200))"
  have o: "opt = get_bytes 0 240 ?oh" using opt(2) w by (simp add: directories_of_def coff1_no_directories optional_size_def)
  have "file_page (get_bytes 0 0x202 (pfile e')) = pe_file coff1 opt (container_sizes coff1 [0] + 0x200) [7, 8]"
    unfolding opt(3) using pe_file_parts(1) [OF opt(1), of "[7, 8]"] by (auto simp: file_page_get_bytes fun_eq_iff)
  then have "file_page (get_bytes 0 0x202 (pfile e')) (88 + x) = ?oh x" if "x < 240" for x
    using pe_file_parts(2) [OF opt(1), of x _ "[7, 8]"] that w unfolding o by (simp add: optional_size_def get_bytes_def)
  from this [of 112] this [of 113] this [of 114] this [of 115]
  have "get_bytes 200 4 (file_page (get_bytes 0 0x202 (pfile e'))) = get_bytes 112 4 ?oh"
    unfolding four_bytes by (simp del: size_state_fields)
  then have "get32 200 (file_page (get_bytes 0 0x202 (pfile e'))) = get32 112 ?oh" by (simp add: get32_def)
  also have "\<dots> = 0"
    using w by (simp add: optional_header_def Let_def mem_simps del: put_bytes.simps)
  finally show ?thesis using w by (simp add: export_entry_def)
qed

lemma linked_image_loads_witness:
  "\<exists>e' info m'. gen_pe coff1 = Some e' \<and> get_bytes 0x11000 2 m' = [7, 8] \<and>
     load_pe (\<lambda>_ _. 0x10000) (\<lambda>_. 0) (\<lambda>_. Some (get_bytes 0 0x202 (pfile e'))) [0x61] (\<lambda>_. 0) = Some (0x11000, Some (info, m', []))"
proof -
  let ?mm = "\<lambda>_ _. 0x10000 :: u64"
  have v: "pe_address ?mm coff1 n = 0x10000" for n by (simp add: pe_address_def)
  have U: "concat (map (\<lambda>_. [0]) [0]) = [0 :: nat]" by simp
  have tot: "sum_list (map (raw_size coff1) [0]) = 2" by (simp add: coff1_parts)
  have N: "unat (container_sizes coff1 [0]) = 2" by (simp add: coff1_parts)
  have type: "outfile_type (pconf coff1) = PE_EXEC \<or> outfile_type (pconf coff1) = PE_DLL" by (simp add: coff1_parts)
  have room: "(2 :: nat) < 2 ^ 31" "unat (0x10000 :: u64) + 0x1000 + 2 < 2 ^ 64" by simp_all
  have entry: "pe_entry coff1 = 0x1000" by (simp add: pe_entry_def coff1_def pconf_def zero_defs coff0_def)
  note T = linked_image_loads [where c = coff1 and ks = "[0]" and ss = "\<lambda>_. [0]" and ts = "\<lambda>_. [0]" and mm = ?mm,
      unfolded U tot v N, OF coff1_parts(3,4,7,8,9) type room, unfolded entry Let_def]
  from T obtain e' where e': "gen_pe coff1 = Some e'" and
    ld: "\<forall>junk files nm m. files nm = Some (get_bytes 0 (0x200 + 2) (pfile e')) \<longrightarrow>
      (\<exists>info m'. this_image_base info = 0x10000 \<and>
        (\<forall>pre x. placed coff1 [0] pre x \<longrightarrow> sum_list (map (raw_size coff1) pre) + raw_size coff1 x \<le> 2 \<longrightarrow>
           get_bytes (unat (0x10000 :: u64) + unat (sch_vaddr (schs (lks coff1) x))) (raw_size coff1 x) m' = raw_data coff1 x) \<and>
        (\<forall>a. a < unat (0x10000 :: u64) + 0x1000 \<or> unat (0x10000 :: u64) + 0x1000 + 2 \<le> a \<longrightarrow> m' a = m a) \<and>
        load_pe ?mm junk files nm m = map_option (\<lambda>names. (0x10000 + 0x1000, Some (info, m', names)))
          (do_image_directory_export (export_entry coff1 (get_bytes 0 (0x200 + 2) (pfile e'))) 0x10000 m') \<and>
        (names_count 0x10000 (export_entry coff1 (get_bytes 0 (0x200 + 2) (pfile e'))) m' = 0 \<longrightarrow>
           load_pe ?mm junk files nm m = Some (0x10000 + 0x1000, Some (info, m', []))))"
    by blast
  let ?f = "get_bytes 0 0x202 (pfile e')"
  have x: "export_entry coff1 (get_bytes 0 (0x200 + 2) (pfile e')) = 0" using coff1_exports [OF e'] by simp
  from ld [THEN spec [of _ "\<lambda>_. 0"], THEN spec [of _ "\<lambda>_. Some (get_bytes 0 (0x200 + 2) (pfile e'))"],
      THEN spec [of _ "[0x61]"], THEN spec [of _ "\<lambda>_. 0"], THEN mp, OF refl, unfolded x]
  obtain info m' where i: "\<forall>pre x. placed coff1 [0] pre x \<longrightarrow> sum_list (map (raw_size coff1) pre) + raw_size coff1 x \<le> 2 \<longrightarrow>
           get_bytes (unat (0x10000 :: u64) + unat (sch_vaddr (schs (lks coff1) x))) (raw_size coff1 x) m' = raw_data coff1 x"
    "\<forall>a. a < unat (0x10000 :: u64) + 0x1000 \<or> unat (0x10000 :: u64) + 0x1000 + 2 \<le> a \<longrightarrow> m' a = 0"
    "names_count 0x10000 0 m' = 0 \<longrightarrow> load_pe ?mm (\<lambda>_. 0) (\<lambda>_. Some (get_bytes 0 (0x200 + 2) (pfile e'))) [0x61] (\<lambda>_. 0) =
       Some (0x10000 + 0x1000, Some (info, m', []))"
    by blast
  have "placed coff1 [0] [] 0" by (simp add: placed_def coff1_parts)
  from i(1) [rule_format, OF this] have d: "get_bytes 0x11000 2 m' = [7, 8]" by (simp add: coff1_parts)
  have "get32 0x10018 m' = get32 0x10018 (\<lambda>_. 0)" by (rule get_cong) (use i(2) in simp)
  then have "names_count 0x10000 0 m' = get32 0x10018 (\<lambda>_. 0)" by (simp add: names_count_def)
  also have "\<dots> = 0" by (rule get32_no_bytes)
  finally have "names_count 0x10000 0 m' = 0" .
  then show ?thesis using i(3) e' d by (intro exI [of _ e'] exI [of _ info] exI [of _ m']) simp
qed

end
