(* ===== verification/Spec2Isabelle.thy ===== *)
theory Spec2Isabelle
  imports Heap Zld BuildRule Patch CoffEmit GuestMem Thread Disasm LoadResolve PeRoundtrip
begin

text \<open>
  bin_tools is a set of binary tools in C: a static linker for ELF and COFF
  (\<open>tools/zld.c\<close> over \<open>core/link\<close>), a build tool (\<open>core/build\<close>), a loader, an
  x86 emulator, listing and patching tools, and a small runtime of their own
  (\<open>core/memory\<close>, \<open>core/std\<close>, \<open>core/log\<close>).  This development models the runtime,
  the ELF and COFF linkers from the command line to the bytes of the output file, the
  makefile parser, the patch tools, the dynamic loader, the guest memory and the
  disassembler of the emulator, and proves what makes them correct, or shows where they are not.

  \<^bold>\<open>The linker.\<close>  \<open>zld\<close> reads the command line into a \<open>Config\<close>, runs a callback
  over the sections and the symbols of every input file, places the sections,
  builds the sections of dynamic linking, resolves the relocations and writes the
  file.

  \<^item> \<open>Zld\<close>: command line, default configuration and the order of the parts
    (\<open>tools/zld.c\<close>).
  \<^item> \<open>LinkState\<close>: the structures of \<open>include/link.h\<close> as records in stores, and the
    lists of objects, containers and sections (\<open>object.c\<close>, \<open>section.c\<close>).
  \<^item> \<open>LinkSymbols\<close>: symbol lists and the import table (\<open>elf/symbol.c\<close>).
  \<^item> \<open>ElfCallback\<close>: the two callbacks (\<open>elf/callback.c\<close>).
  \<^item> \<open>Reloc\<close>: virtual addresses and relocation (\<open>elf/reloc.c\<close>).
  \<^item> \<open>Dynamic\<close>: PLT, dynamic symbols and strings, hash tables and the dynamic table
    (\<open>elf/dynamic.c\<close>).
  \<^item> \<open>HashTables\<close>, \<open>HashFun\<close>: the System V and GNU symbol hash tables and their hash
    functions (\<open>hashtable.c\<close>, parts of \<open>elf/dynamic.c\<close>).
  \<^item> \<open>ElfEmit\<close>: the output file (\<open>elf/emit.c\<close>).
  \<^item> \<open>ElfTypes\<close>: the on-disk structures of \<open>include/elf.h\<close> with their byte layouts.
  \<^item> \<open>PeTypes\<close>: those of \<open>include/pe.h\<close>.
  \<^item> \<open>Coff\<close>: the COFF half, \<open>coff/callback.c\<close>, \<open>symbol.c\<close>, \<open>reloc.c\<close> and the list of
    imports; \<open>CoffTables\<close>: the export and the import directory (\<open>export.c\<close>,
    \<open>import.c\<close>); \<open>CoffEmit\<close>: the PE image (\<open>coff/emit.c\<close>) and \<open>do_coff_task\<close>.
  \<^item> \<open>CoffImport\<close>, \<open>CoffLoad\<close>, \<open>CoffResolve\<close>: what the import directory holds, how a
    loader reads it, and how the list of imports grows (proofs over \<open>Coff\<close> and
    \<open>CoffTables\<close>).

  Structures the code allocates with \<open>__malloc\<close> are records in a store of their
  own, named by numbers; what the code addresses by raw pointers (section
  headers, symbols, tables, strings) lies in one byte memory \<open>lmem\<close>.  A null pointer
  that is followed, an endless loop and \<open>exit\<close> are \<open>None\<close>.

  \<^bold>\<open>The runtime.\<close>  \<open>HeapBits\<close> and \<open>Heap\<close> are the allocator
  (\<open>core/memory/__alloc.c\<close>): pages of 256 bins with a bit map each.  \<open>CString\<close> and
  \<open>StdHash\<close> are the string functions and the chained hash table of \<open>core/std\<close>,
  \<open>Logger\<close> the number formats and log files of \<open>core/log/logger.c\<close>.  \<open>Thread\<close> is the
  thread pool (\<open>core/std/thread.c\<close>) as a transition system: every statement of
  \<open>enqueue\<close>, \<open>dequeue\<close> and \<open>do_idle\<close> is a step, and all interleavings are runs.

  \<^bold>\<open>The build tool.\<close>  \<open>MakeParse\<close> is the state machine of
  \<open>core/build/parse_makefile.c\<close>; \<open>BuildRule\<close> resolves references to variables and follows
  the traversal of the rules as far as it gets (\<open>core/build/variable.c\<close>, \<open>rule.c\<close>).

  \<^bold>\<open>The patch tools.\<close>  \<open>Patch\<close> reads a patch text, maps the files and applies the
  patch (\<open>tools/bipatch.c\<close>), and compares two files (\<open>tools/bidiff.c\<close>).

  \<^bold>\<open>The loader.\<close>  \<open>Loader\<close> is the dynamic loader (\<open>core/loader/elf/loader.c\<close>): it maps
  libraries, loads what they need, looks symbols up and relocates, from the words of
  the initial stack to the entry of the program.  The files and the addresses \<open>mmap\<close>
  returns are parameters.  \<open>LoadResolve\<close> shows what it does with what the linker of
  \<open>HashTables\<close> wrote.

  \<^bold>\<open>Object formats.\<close>  \<open>ObjFormat\<close> tells the format of a file
  (\<open>core/objectfile/__objformat.c\<close>), \<open>PeLoad\<close> maps a PE image (\<open>coff_pe/__read_pe.c\<close>), and
  \<open>PeRoundtrip\<close> shows that it loads what the COFF linker writes.

  \<^bold>\<open>The emulator.\<close>  \<open>GuestMem\<close> is the table of the guest's mappings and the
  translation of addresses (\<open>core/memory.c\<close>).  \<open>Disasm\<close> prints the instruction the
  decoder, which is assembly code, has left in its \<open>Context\<close>
  (\<open>core/asm/x86/disasm.c\<close>); its static buffers are the state.

  \<open>Prelude\<close> holds machine integers, the byte memory and little-endian accesses;
  \<open>Chain\<close> singly linked lists: the loops over them and the locales \<open>linked\<close> and
  \<open>head_tail\<close>, which state what a store promises about its \<open>next\<close> field and what an
  append by head and tail pointer does.  They are interpreted on every list of the
  linker; the locale \<open>first_wins\<close> of \<open>LinkSymbols\<close>, a table in which the first
  entry of a key counts, on the import table.

  \<^bold>\<open>What is shown.\<close>  The blocks of the allocator never overlap when the mappings
  the kernel gives do not, requests are served while the first page of slots lasts (85
  mappings), and freeing breaks a neighbour.  What is entered in
  a symbol hash table is found again, by the linker and by the loader; the search for a
  symbol that is missing can run on behind a GNU table.  Relocation
  in memory stores the addresses the ABI demands, where the addend is 0 for the types
  that have none.  The lists of the linker are lists, the
  import table is a map, section numbers resolve.  Sections are placed without
  gap, PC-relative relocations get the value the ABI demands, the dynamic table of a link
  without shared libraries is laid out right.  The output file holds every section where
  its header says, as long as the log line of the section fits in its buffer; its
  headers read back, and end where the configuration says the data begins.  The import
  directory of a PE image lists what was imported, as long as it was accounted for,
  and the image holds every section at its address; a call reaches the function that has
  its place in the order of the libraries, which is another one when libraries are
  interleaved.  The PE loader puts the sections of such an image at their
  addresses, as far as the sizes of the containers reach.  The hash table of the build
  tool is a list of entries, which \<open>COL_OVERRIDE\<close> and \<open>COL_ADD\<close> do not treat as they
  mean to.  The
  makefile parser reads variables and rules as they are written, while their blocks have
  room; a reference to a
  variable gives its value between what is left of the text and of the name.  The patch tool
  applies a printed edit script as an edit script is meant.  A mapping of guest
  memory adds its whole pages to the map the translation functions compute.  In every
  interleaving only the first task of the thread pool is executed.  The disassembler
  prints the operands a context encodes, whatever it printed before.  Where the
  code fails (a lost relocation section, a read past the end of a
  table, a comment that crashes the parser) the theorem states the failure.

  \<^bold>\<open>Bounds and fuel.\<close>  Loops are structural recursion, functions with a measure or
  \<open>partial_function (option)\<close>; there is no fuel.  Loops that end are shown to end as
  part of the theorems (the result is \<open>Some\<close>).  Machine integers keep their width;
  sums of sizes are bounded by hypotheses where the code relies on it.

  \<^bold>\<open>Not modelled.\<close>  System calls other than the bytes of a \<open>write\<close>; log and debug
  output (a log line is built in a buffer of 100 bytes in many functions of the linker;
  only \<open>write_raw_data\<close>, which needs most of it for addresses, is modelled with its
  overrun, elsewhere names of symbols and sections are taken to leave the line below
  100 bytes); the readers of input files, which are assembly code; the object output of
  the COFF linker, which nothing calls; the execution of commands by the build tool; the
  other loader (\<open>nodeps_loader.c\<close>, which repeats \<open>loader.c\<close> for one file) and the
  unpacker; the object file readers that are
  not built (\<open>read_elf.c\<close>, \<open>read_coff.c\<close>, \<open>read_macho.c\<close>, \<open>java.c\<close>); the instructions of the emulator, which are
  assembly code, and the network tools; generated and obsolete files.
\<close>

end
